(* ===== verification/Prelude.thy ===== *)
theory Prelude
  imports Main "HOL-Library.Finite_Map" "HOL-Library.Word"
begin

text \<open>
  Shared vocabulary of the development: Rust's \<open>Result\<close>, the part of \<open>std::collections::HashMap\<close>
  the sources use (as finite maps), the clock, saturating and checked unsigned arithmetic, and
  the generic interfaces (locales) that several components implement: a state machine with an
  invariant, an authority that can be redeemed at most once, a store that can be sealed, and a
  store of bounded size.
\<close>

section \<open>Collections of facts\<close>

named_theorems store_defs \<open>definitions of the operations on authority and plan stores\<close>
named_theorems err_defs \<open>definitions of the error values\<close>
named_theorems str_defs \<open>definitions of the string helpers\<close>

section \<open>Results\<close>

datatype ('a, 'e) result = Ok 'a | Err 'e

fun is_ok :: "('a, 'e) result \<Rightarrow> bool" where
  "is_ok (Ok _) = True"
| "is_ok (Err _) = False"

fun is_err :: "('a, 'e) result \<Rightarrow> bool" where
  "is_err (Ok _) = False"
| "is_err (Err _) = True"

text \<open>The \<open>?\<close> operator: continue on \<open>Ok\<close>, return the error otherwise.\<close>

fun and_then :: "('a, 'e) result \<Rightarrow> ('a \<Rightarrow> ('b, 'e) result) \<Rightarrow> ('b, 'e) result" where
  "and_then (Ok x) f = f x"
| "and_then (Err e) f = Err e"

definition ok_or :: "'a option \<Rightarrow> 'e \<Rightarrow> ('a, 'e) result" where
  "ok_or x e = (case x of None \<Rightarrow> Err e | Some v \<Rightarrow> Ok v)"

lemma is_err_not_ok [simp]: "is_err r = (\<not> is_ok r)"
  by (cases r) auto

lemma is_ok_iff: "is_ok r \<longleftrightarrow> (\<exists>x. r = Ok x)"
  by (cases r) auto

lemma not_is_ok_iff: "\<not> is_ok r \<longleftrightarrow> (\<exists>e. r = Err e)"
  by (cases r) auto

lemma and_then_Ok_iff: "and_then r f = Ok y \<longleftrightarrow> (\<exists>x. r = Ok x \<and> f x = Ok y)"
  by (cases r) auto

lemma and_then_Err_iff: "and_then r f = Err e \<longleftrightarrow> r = Err e \<or> (\<exists>x. r = Ok x \<and> f x = Err e)"
  by (cases r) auto

lemma ok_or_simps [simp]:
  "ok_or None e = Err e" "ok_or (Some v) e = Ok v"
  by (simp_all add: ok_or_def)

text \<open>A \<open>for\<close> loop that pushes one result per element and returns at the first error.\<close>

fun try_map :: "('a \<Rightarrow> ('b, 'e) result) \<Rightarrow> 'a list \<Rightarrow> ('b list, 'e) result" where
  "try_map f [] = Ok []"
| "try_map f (x # xs) = and_then (f x) (\<lambda>y. and_then (try_map f xs) (\<lambda>ys. Ok (y # ys)))"

lemma try_map_Ok_iff: "try_map f xs = Ok ys \<longleftrightarrow> list_all2 (\<lambda>x y. f x = Ok y) xs ys"
  by (induction xs arbitrary: ys) (auto simp: and_then_Ok_iff list_all2_Cons1)

section \<open>Hash maps\<close>

text \<open>
  A \<open>HashMap\<close> is a finite map: \<open>fmlookup\<close> is \<open>get\<close>, \<open>fmupd\<close> is \<open>insert\<close>, \<open>fmdrop\<close> is
  \<open>remove\<close>, and the two operations below are \<open>len\<close> and \<open>retain\<close>.
\<close>

definition fm_len :: "('k, 'v) fmap \<Rightarrow> nat" where
  "fm_len m = fcard (fmdom m)"

definition fm_retain :: "('k \<Rightarrow> 'v \<Rightarrow> bool) \<Rightarrow> ('k, 'v) fmap \<Rightarrow> ('k, 'v) fmap" where
  "fm_retain P m = fmfilter (\<lambda>k. case fmlookup m k of None \<Rightarrow> False | Some v \<Rightarrow> P k v) m"

text \<open>The sum of a measure over the values of a map (\<open>values().map(f).sum()\<close>).\<close>

definition fm_sum :: "('v \<Rightarrow> nat) \<Rightarrow> ('k, 'v) fmap \<Rightarrow> nat" where
  "fm_sum f m = (\<Sum>k\<in>fmdom' m. case fmlookup m k of None \<Rightarrow> 0 | Some v \<Rightarrow> f v)"

lemma fmlookup_retain:
  "fmlookup (fm_retain P m) k =
     (case fmlookup m k of None \<Rightarrow> None | Some v \<Rightarrow> if P k v then Some v else None)"
  by (simp add: fm_retain_def split: option.splits)

lemma fmlookup_retain_Some [simp]:
  "fmlookup (fm_retain P m) k = Some v \<longleftrightarrow> fmlookup m k = Some v \<and> P k v"
  by (auto simp: fmlookup_retain split: option.splits)

lemma fmlookup_retain_None [simp]:
  "fmlookup (fm_retain P m) k = None \<longleftrightarrow> (\<forall>v. fmlookup m k = Some v \<longrightarrow> \<not> P k v)"
  by (auto simp: fmlookup_retain split: option.splits)

lemma fm_len_empty [simp]: "fm_len fmempty = 0"
  by (simp add: fm_len_def)

lemma fm_len_upd:
  "fm_len (fmupd k v m) = (if fmlookup m k = None then Suc (fm_len m) else fm_len m)"
  by (auto simp: fm_len_def fcard_finsert_if fmlookup_dom_iff)

lemma fm_len_upd_le: "fm_len (fmupd k v m) \<le> Suc (fm_len m)"
  by (simp add: fm_len_upd)

lemma fm_len_mono: "fmdom m |\<subseteq>| fmdom n \<Longrightarrow> fm_len m \<le> fm_len n"
  by (simp add: fm_len_def fcard_mono)

lemma fm_len_drop_le: "fm_len (fmdrop k m) \<le> fm_len m"
  by (rule fm_len_mono) auto

lemma fm_len_drop:
  "fm_len (fmdrop k m) = (if fmlookup m k = None then fm_len m else fm_len m - 1)"
proof (cases "fmlookup m k")
  case None
  then have "fmdrop k m = m"
    by (intro fmap_ext) auto
  with None show ?thesis by simp
next
  case (Some v)
  then have "k |\<in>| fmdom m" by (rule fmdomI)
  with Some show ?thesis by (simp add: fm_len_def fcard_fminus_fsingleton)
qed

lemma fm_len_retain_le: "fm_len (fm_retain P m) \<le> fm_len m"
  by (rule fm_len_mono) (auto simp: fm_retain_def)

lemma fm_retain_empty [simp]: "fm_retain P fmempty = fmempty"
  by (simp add: fm_retain_def)

lemma fm_len_eq_0_iff: "fm_len m = 0 \<longleftrightarrow> m = fmempty"
proof
  assume "fm_len m = 0"
  then have "fmdom m = {||}" by (simp add: fm_len_def)
  then show "m = fmempty"
    by (intro fmap_ext) (metis fempty_iff fmdomI fmempty_lookup not_None_eq)
qed simp

lemma fm_sum_empty [simp]: "fm_sum f fmempty = 0"
  by (simp add: fm_sum_def)

lemma fm_sum_drop:
  assumes "fmlookup m k = Some v"
  shows "fm_sum f m = f v + fm_sum f (fmdrop k m)"
proof -
  have k: "k \<in> fmdom' m" using assms by (rule fmdom'I)
  have "fm_sum f m = (case fmlookup m k of None \<Rightarrow> 0 | Some v \<Rightarrow> f v)
      + (\<Sum>j\<in>fmdom' m - {k}. case fmlookup m j of None \<Rightarrow> 0 | Some v \<Rightarrow> f v)"
    unfolding fm_sum_def by (rule sum.remove) (use k in auto)
  also have "(\<Sum>j\<in>fmdom' m - {k}. case fmlookup m j of None \<Rightarrow> 0 | Some v \<Rightarrow> f v)
      = fm_sum f (fmdrop k m)"
    unfolding fm_sum_def by (rule sum.cong) auto
  finally show ?thesis using assms by simp
qed

lemma fmdrop_absent: "fmlookup m k = None \<Longrightarrow> fmdrop k m = m"
  by (intro fmap_ext) auto

lemma fm_sum_upd:
  "fm_sum f (fmupd k v m) = f v + fm_sum f (fmdrop k m)"
proof -
  have "fm_sum f (fmupd k v m) = f v + fm_sum f (fmdrop k (fmupd k v m))"
    by (rule fm_sum_drop) simp
  also have "fmdrop k (fmupd k v m) = fmdrop k m"
    by (intro fmap_ext) auto
  finally show ?thesis .
qed

lemma fm_sum_drop_le: "fm_sum f (fmdrop k m) \<le> fm_sum f m"
  by (cases "fmlookup m k") (simp_all add: fmdrop_absent fm_sum_drop)

text \<open>The keys whose value satisfies a predicate, and how many there are (\<open>values().filter(P).count()\<close>).\<close>

definition fm_keys :: "('v \<Rightarrow> bool) \<Rightarrow> ('k, 'v) fmap \<Rightarrow> 'k fset" where
  "fm_keys P m = ffilter (\<lambda>k. case fmlookup m k of None \<Rightarrow> False | Some v \<Rightarrow> P v) (fmdom m)"

definition fm_count :: "('v \<Rightarrow> bool) \<Rightarrow> ('k, 'v) fmap \<Rightarrow> nat" where
  "fm_count P m = fcard (fm_keys P m)"

lemma in_fm_keys [simp]: "k |\<in>| fm_keys P m \<longleftrightarrow> (\<exists>v. fmlookup m k = Some v \<and> P v)"
  by (auto simp: fm_keys_def split: option.splits intro: fmdomI)

lemma fm_count_empty [simp]: "fm_count P fmempty = 0"
proof -
  have "fm_keys P fmempty = {||}" by (rule fset_eqI) simp
  then show ?thesis by (simp add: fm_count_def)
qed

lemma fm_keys_upd:
  "fm_keys P (fmupd k v m) = (if P v then finsert k (fm_keys P m) else fm_keys P m |-| {|k|})"
  by (rule fset_eqI) auto

lemma fm_keys_drop: "fm_keys P (fmdrop k m) = fm_keys P m |-| {|k|}"
  by (rule fset_eqI) auto

lemma fm_count_drop:
  "fm_count P m = fm_count P (fmdrop k m)
     + (case fmlookup m k of None \<Rightarrow> 0 | Some v \<Rightarrow> if P v then 1 else 0)"
proof (cases "k |\<in>| fm_keys P m")
  case True
  then have "fcard (fm_keys P m) = Suc (fcard (fm_keys P m |-| {|k|}))" by (metis fcard_Suc_fminus1)
  with True show ?thesis by (auto simp: fm_count_def fm_keys_drop)
next
  case False
  then have "fm_keys P m |-| {|k|} = fm_keys P m" by auto
  with False show ?thesis by (auto simp: fm_count_def fm_keys_drop split: option.splits)
qed

lemma fm_count_upd:
  "fm_count P (fmupd k v m) = fm_count P (fmdrop k m) + (if P v then 1 else 0)"
proof -
  have "fmdrop k (fmupd k v m) = fmdrop k m" by (intro fmap_ext) auto
  then show ?thesis using fm_count_drop [of P "fmupd k v m" k] by simp
qed

lemma fm_count_drop_le: "fm_count P (fmdrop k m) \<le> fm_count P m"
  by (simp add: fm_count_drop [of P m k])

lemma fm_count_mono: "(\<And>k v. fmlookup m k = Some v \<Longrightarrow> P v \<Longrightarrow> \<exists>w. fmlookup n k = Some w \<and> Q w) \<Longrightarrow> fm_count P m \<le> fm_count Q n"
  unfolding fm_count_def by (rule fcard_mono) auto

lemma fm_count_1D:
  assumes "fm_count P m = 1" "fmlookup m i = Some v" "P v" "fmlookup m j = Some w" "P w"
  shows "i = j"
proof (rule ccontr)
  assume "i \<noteq> j"
  then have "fmlookup (fmdrop i m) j = Some w" using assms(4) by simp
  then have "1 \<le> fm_count P (fmdrop i m)" using fm_count_drop [of P "fmdrop i m" j] assms(5) by simp
  then show False using fm_count_drop [of P m i] assms(1-3) by simp
qed

section \<open>Clock and machine arithmetic\<close>

text \<open>
  An \<open>Instant\<close> is the monotonic clock in nanoseconds. An operation that reads the clock takes
  its reading as an argument.
\<close>

type_synonym instant = nat

definition from_secs :: "nat \<Rightarrow> nat" where
  "from_secs n = n * 1000000000"

type_synonym u16 = "16 word"
type_synonym u32 = "32 word"
type_synonym u64 = "64 word"
type_synonym uuid = "128 word"

definition saturating_succ :: "'l::len word \<Rightarrow> 'l word" where
  "saturating_succ x = (if x = -1 then x else x + 1)"

definition checked_succ :: "'l::len word \<Rightarrow> 'l word option" where
  "checked_succ x = (if x = -1 then None else Some (x + 1))"

definition checked_pred :: "'l::len word \<Rightarrow> 'l word option" where
  "checked_pred x = (if x = 0 then None else Some (x - 1))"

lemma unat_succ: "x \<noteq> -1 \<Longrightarrow> unat (x + 1 :: 'l::len word) = Suc (unat x)"
  using unatSuc [of x] by (simp add: add.commute add_eq_0_iff)

lemma checked_succ_Some: "checked_succ x = Some y \<Longrightarrow> unat y = Suc (unat x)"
  by (auto simp: checked_succ_def unat_succ split: if_splits)

lemma checked_pred_Some: "checked_pred x = Some y \<Longrightarrow> Suc (unat y) = unat x"
  using unat_gt_0 [of x] by (auto simp: checked_pred_def unat_minus_one split: if_splits)

lemma saturating_succ_le: "unat x \<le> unat (saturating_succ x)"
  by (simp add: saturating_succ_def unat_succ)

section \<open>Fallible steps with a state\<close>

text \<open>
  A step takes the state (a record, or the list of the requests sent so far) and returns a result and
  the next state; \<open>io_bind\<close> is the \<open>?\<close> of the sources, which stops at the first error.
\<close>

type_synonym ('s, 'a, 'e) io = "'s \<Rightarrow> ('a, 'e) result \<times> 's"

definition io_bind :: "('s, 'a, 'e) io \<Rightarrow> ('a \<Rightarrow> ('s, 'b, 'e) io) \<Rightarrow> ('s, 'b, 'e) io" where
  "io_bind m f s = (case m s of (Ok x, s') \<Rightarrow> f x s' | (Err e, s') \<Rightarrow> (Err e, s'))"

definition io_lift :: "('a, 'e) result \<Rightarrow> ('s, 'a, 'e) io" where
  "io_lift r s = (r, s)"

lemma io_bind_Ok [simp]: "m tr = (Ok x, tr') \<Longrightarrow> io_bind m f tr = f x tr'"
  by (simp add: io_bind_def)

lemma io_bind_Err [simp]: "m tr = (Err e, tr') \<Longrightarrow> io_bind m f tr = (Err e, tr')"
  by (simp add: io_bind_def)

lemma io_bind_lift [simp]: "io_bind (io_lift (Ok x)) f tr = f x tr" "io_bind (io_lift (Err e)) f tr = (Err e, tr)"
  by (simp_all add: io_bind_def io_lift_def)

lemma io_lift_apply [simp]: "io_lift r tr = (r, tr)"
  by (simp add: io_lift_def)

lemma io_bind_OkE:
  assumes "io_bind m f tr = (Ok y, tr')"
  obtains x tr1 where "m tr = (Ok x, tr1)" "f x tr1 = (Ok y, tr')"
  using assms by (auto simp: io_bind_def split: prod.splits result.splits)

text \<open>\<open>sends P m\<close>: running \<open>m\<close> only adds requests that satisfy \<open>P\<close>.\<close>

definition sends :: "('q \<Rightarrow> bool) \<Rightarrow> ('q list \<Rightarrow> 'a \<times> 'q list) \<Rightarrow> bool" where
  "sends P m \<longleftrightarrow> (\<forall>tr. \<exists>qs. snd (m tr) = tr @ qs \<and> list_all P qs)"

named_theorems sends_intros

lemma sendsD: "sends P m \<Longrightarrow> m tr = (r, tr') \<Longrightarrow> \<exists>qs. tr' = tr @ qs \<and> list_all P qs"
  unfolding sends_def by (metis snd_conv)

lemma sends_bind [sends_intros]:
  assumes "sends P m" "\<And>x. sends P (f x)"
  shows "sends P (io_bind m f)"
  unfolding sends_def
proof
  fix tr
  obtain r tr1 where m: "m tr = (r, tr1)" by (cases "m tr")
  from sendsD [OF assms(1) m] obtain qs where qs: "tr1 = tr @ qs" "list_all P qs" by blast
  show "\<exists>qs. snd (io_bind m f tr) = tr @ qs \<and> list_all P qs"
  proof (cases r)
    case (Ok x)
    obtain y tr2 where f: "f x tr1 = (y, tr2)" by (cases "f x tr1")
    from sendsD [OF assms(2) f] obtain qs' where "tr2 = tr1 @ qs'" "list_all P qs'" by blast
    with m Ok f qs show ?thesis by (intro exI [of _ "qs @ qs'"]) simp
  qed (use m qs in auto)
qed

lemma sends_lift [sends_intros]: "sends P (io_lift r)"
  by (simp add: sends_def)

lemma sends_if [sends_intros]: "(b \<Longrightarrow> sends P m) \<Longrightarrow> (\<not> b \<Longrightarrow> sends P n) \<Longrightarrow> sends P (if b then m else n)"
  by simp

lemma sends_mono: "sends P m \<Longrightarrow> (\<And>q. P q \<Longrightarrow> Q q) \<Longrightarrow> sends Q m"
  unfolding sends_def by (metis list.pred_mono_strong)

end
