(* ===== verification/Rust_Str.thy ===== *)
theory Rust_Str
  imports Prelude
begin

text \<open>
  Rust's \<open>str\<close>: a \<open>string\<close> of HOL is the sequence of UTF-8 bytes, so \<open>length\<close> is \<open>str::len\<close> and
  byte-wise searches for ASCII patterns coincide with Rust's. This theory defines the methods of
  \<open>str\<close> the sources call and the facts about them the components share.
\<close>

abbreviation byte_of :: "char \<Rightarrow> nat" where
  "byte_of c \<equiv> of_char c"

definition is_ascii :: "string \<Rightarrow> bool" where
  "is_ascii s = list_all (\<lambda>c. byte_of c < 128) s"

definition starts_with :: "string \<Rightarrow> string \<Rightarrow> bool" where
  "starts_with s p = (take (length p) s = p)"

definition ends_with :: "string \<Rightarrow> string \<Rightarrow> bool" where
  "ends_with s p = (length p \<le> length s \<and> drop (length s - length p) s = p)"

definition is_ascii_digit :: "char \<Rightarrow> bool" where
  "is_ascii_digit c = (48 \<le> byte_of c \<and> byte_of c \<le> 57)"

definition is_ascii_uppercase :: "char \<Rightarrow> bool" where
  "is_ascii_uppercase c = (65 \<le> byte_of c \<and> byte_of c \<le> 90)"

definition is_ascii_lowercase :: "char \<Rightarrow> bool" where
  "is_ascii_lowercase c = (97 \<le> byte_of c \<and> byte_of c \<le> 122)"

definition is_ascii_alphanumeric :: "char \<Rightarrow> bool" where
  "is_ascii_alphanumeric c = (is_ascii_digit c \<or> is_ascii_uppercase c \<or> is_ascii_lowercase c)"

definition to_ascii_lowercase :: "string \<Rightarrow> string" where
  "to_ascii_lowercase s = map (\<lambda>c. if is_ascii_uppercase c then char_of (byte_of c + 32) else c) s"

definition to_ascii_uppercase :: "string \<Rightarrow> string" where
  "to_ascii_uppercase s = map (\<lambda>c. if is_ascii_lowercase c then char_of (byte_of c - 32) else c) s"

lemmas [str_defs] = is_ascii_def starts_with_def ends_with_def is_ascii_digit_def
  is_ascii_uppercase_def is_ascii_lowercase_def is_ascii_alphanumeric_def

text \<open>\<open>s.split(c)\<close>: the pieces between the occurrences of \<open>c\<close>, always at least one.\<close>

fun split_char :: "char \<Rightarrow> string \<Rightarrow> string list" where
  "split_char c [] = [[]]"
| "split_char c (x # xs) =
     (if x = c then [] # split_char c xs
      else (case split_char c xs of [] \<Rightarrow> [[x]] | y # ys \<Rightarrow> (x # y) # ys))"

text \<open>\<open>s.matches(p).count()\<close> for a non-empty pattern: non-overlapping, from the left.\<close>

function match_count :: "string \<Rightarrow> string \<Rightarrow> nat" where
  "match_count p s =
     (if s = [] \<or> p = [] then 0
      else if starts_with s p then Suc (match_count p (drop (length p) s))
      else match_count p (tl s))"
  by pat_completeness auto
termination
  by (relation "measure (\<lambda>(p, s). length s)") auto

declare match_count.simps [simp del]

text \<open>\<open>s.replace(p, r)\<close> for a non-empty pattern.\<close>

function str_replace :: "string \<Rightarrow> string \<Rightarrow> string \<Rightarrow> string" where
  "str_replace p r s =
     (if s = [] \<or> p = [] then s
      else if starts_with s p then r @ str_replace p r (drop (length p) s)
      else hd s # str_replace p r (tl s))"
  by pat_completeness auto
termination
  by (relation "measure (\<lambda>(p, r, s). length s)") auto

declare str_replace.simps [simp del]

text \<open>\<open>s.contains(p)\<close> for a string pattern.\<close>

fun str_contains :: "string \<Rightarrow> string \<Rightarrow> bool" where
  "str_contains [] p = (p = [])"
| "str_contains (x # xs) p = (starts_with (x # xs) p \<or> str_contains xs p)"

definition trim_end_matches :: "(char \<Rightarrow> bool) \<Rightarrow> string \<Rightarrow> string" where
  "trim_end_matches P s = rev (dropWhile P (rev s))"

text \<open>\<open>s.rsplit_once(c)\<close>: split at the last occurrence.\<close>

fun rsplit_once :: "char \<Rightarrow> string \<Rightarrow> (string \<times> string) option" where
  "rsplit_once c [] = None"
| "rsplit_once c (x # xs) =
     (case rsplit_once c xs of
        Some (a, b) \<Rightarrow> Some (x # a, b)
      | None \<Rightarrow> if x = c then Some ([], xs) else None)"

section \<open>Facts\<close>

lemma ends_with_append [simp]: "ends_with (a @ p) p"
  by (simp add: ends_with_def)

lemma ends_with_decomp: "ends_with s p \<longleftrightarrow> (\<exists>a. s = a @ p)"
  by (auto simp: ends_with_def) (metis append_take_drop_id)

lemma starts_with_decomp: "starts_with s p \<longleftrightarrow> (\<exists>a. s = p @ a)"
  by (auto simp: starts_with_def) (metis append_take_drop_id)

lemma split_char_not_Nil [simp]: "split_char c s \<noteq> []"
  by (induction s) (auto split: list.splits)

lemma split_char_Cons_neq:
  assumes "x \<noteq> c"
  obtains y ys where "split_char c xs = y # ys" "split_char c (x # xs) = (x # y) # ys"
  using assms by (cases "split_char c xs") auto

lemma split_char_free: "part \<in> set (split_char c s) \<Longrightarrow> c \<notin> set part"
proof (induction s arbitrary: part)
  case (Cons x xs)
  show ?case
  proof (cases "x = c")
    case False
    then obtain y ys where "split_char c xs = y # ys" "split_char c (x # xs) = (x # y) # ys"
      by (rule split_char_Cons_neq)
    with Cons False show ?thesis by auto
  qed (use Cons in auto)
qed simp

lemma split_char_Union: "\<Union>(set ` set (split_char c s)) = set s - {c}"
proof (induction s)
  case (Cons x xs)
  show ?case
  proof (cases "x = c")
    case False
    then obtain y ys where "split_char c xs = y # ys" "split_char c (x # xs) = (x # y) # ys"
      by (rule split_char_Cons_neq)
    with Cons False show ?thesis by auto
  qed (use Cons in auto)
qed simp

lemma split_char_free_id: "c \<notin> set s \<Longrightarrow> split_char c s = [s]"
  by (induction s) auto

lemma rsplit_once_None: "rsplit_once c s = None \<longleftrightarrow> c \<notin> set s"
  by (induction s) (auto split: option.splits)

lemma rsplit_once_Some:
  "rsplit_once c s = Some (a, b) \<Longrightarrow> s = a @ c # b \<and> c \<notin> set b"
proof (induction s arbitrary: a b)
  case (Cons x xs)
  show ?case
  proof (cases "rsplit_once c xs")
    case None
    with Cons.prems show ?thesis
      by (simp add: rsplit_once_None [symmetric] split: if_splits)
  next
    case (Some p)
    then show ?thesis using Cons by (cases p) auto
  qed
qed simp

lemma trim_end_matches_set: "set (trim_end_matches P s) \<subseteq> set s"
  by (auto simp: trim_end_matches_def dest: set_dropWhileD)

lemma trim_end_matches_last:
  "trim_end_matches P s \<noteq> [] \<Longrightarrow> \<not> P (last (trim_end_matches P s))"
  by (simp add: trim_end_matches_def last_rev hd_dropWhile)

lemma trim_end_matches_length: "length (trim_end_matches P s) \<le> length s"
  using length_dropWhile_le [of P "rev s"] by (simp add: trim_end_matches_def)

lemma trim_end_matches_snoc [simp]:
  "trim_end_matches P (s @ [x]) = (if P x then trim_end_matches P s else s @ [x])"
  by (simp add: trim_end_matches_def)

lemma trim_end_matches_Nil [simp]: "trim_end_matches P [] = []"
  by (simp add: trim_end_matches_def)

end
