(* ===== verification/Nexus_Model.thy ===== *)
theory Nexus_Model
  imports Rust_Str
begin

text \<open>
  Domain types of \<^verbatim>\<open>crates/nexus-model\<close>: error values, opaque identifiers, risk levels, the
  connection state machine, service snapshots and terminal types.
\<close>

section \<open>Errors\<close>

datatype error_code =
    Validation | NotFound | Persistence | Dns | Timeout | Refused | Authentication
  | UnknownHostKey | ChangedHostKey | Discovery | SecureStorage | Cancelled | Connection
  | Conflict | Policy | TerminalPty | TerminalShell | TerminalUnavailable | TerminalResize
  | TerminalStream | TerminalStartup | TerminalChannel | SftpUnavailable | SftpDenied
  | SftpProtocol | FilePolicy | LocalAccess | Transfer | OutcomeUnknownCode | UpdateCheck
  | UpdateDownload | UpdateVerification | UpdateResourceLimit | UpdateTimeout
  | UpdateConflict | UpdateInstall

record host_key_challenge =
  hk_hostname :: string
  hk_port :: u16
  hk_algorithm :: string
  hk_fingerprint :: string
  hk_previous_fingerprint :: "string option"

record app_error =
  err_code :: error_code
  err_message :: string
  err_host_key :: "host_key_challenge option"

definition AppError_new :: "error_code \<Rightarrow> string \<Rightarrow> app_error" where
  "AppError_new c m = \<lparr>err_code = c, err_message = m, err_host_key = None\<rparr>"

lemma err_code_new [simp]: "err_code (AppError_new c m) = c"
  by (simp add: AppError_new_def)

type_synonym 'a app_result = "('a, app_error) result"

section \<open>Opaque identifiers\<close>

text \<open>
  Every identifier wraps a UUID that \<open>Uuid::new_v4\<close> draws at random. Operations that draw one
  take it as an argument; what they rely on, that it is not in use, is a hypothesis.
\<close>

datatype host_id = HostId uuid
datatype host_session_id = HostSessionId uuid
datatype terminal_session_id = TerminalSessionId uuid
datatype sftp_session_id = SftpSessionId uuid
datatype local_grant_id = LocalGrantId uuid
datatype file_plan_id = FilePlanId uuid
datatype transfer_job_id = TransferJobId uuid
datatype editor_document_id = EditorDocumentId uuid
datatype service_observation_id = ServiceObservationId uuid
datatype remote_operation_plan_id = RemoteOperationPlanId uuid
datatype update_announcement_id = UpdateAnnouncementId uuid
datatype verified_artifact_id = VerifiedArtifactId uuid

section \<open>Risk levels\<close>

datatype operation_risk = ReadOnly | Low | Moderate | High | Destructive

fun risk_rank :: "operation_risk \<Rightarrow> nat" where
  "risk_rank ReadOnly = 0"
| "risk_rank Low = 1"
| "risk_rank Moderate = 2"
| "risk_rank High = 3"
| "risk_rank Destructive = 4"

lemma risk_rank_inj: "risk_rank a = risk_rank b \<longleftrightarrow> a = b"
  by (cases a; cases b) auto

text \<open>The derived \<open>Ord\<close> of the source orders the levels as they are declared.\<close>

instantiation operation_risk :: linorder
begin

definition less_eq_operation_risk :: "operation_risk \<Rightarrow> operation_risk \<Rightarrow> bool" where
  "less_eq_operation_risk a b = (risk_rank a \<le> risk_rank b)"

definition less_operation_risk :: "operation_risk \<Rightarrow> operation_risk \<Rightarrow> bool" where
  "less_operation_risk a b = (risk_rank a < risk_rank b)"

instance
  by standard (auto simp: less_eq_operation_risk_def less_operation_risk_def
      risk_rank_inj [symmetric])

end

record operation =
  op_id :: string
  op_kind :: string
  op_risk :: operation_risk

section \<open>The connection state machine\<close>

datatype connection_state =
  Disconnected | Connecting | AwaitingTrust | Connected | Disconnecting | Failed

definition connection_transition ::
  "connection_state \<Rightarrow> connection_state \<Rightarrow> connection_state app_result" where
  "connection_transition cur next =
     (if cur = next
       \<or> (cur \<in> {Disconnected, Failed, AwaitingTrust} \<and> next = Connecting)
       \<or> (cur = Connecting \<and> next \<in> {Connected, AwaitingTrust, Failed, Disconnecting})
       \<or> (cur = Connected \<and> next \<in> {Disconnecting, Failed})
       \<or> (cur = Disconnecting \<and> next \<in> {Disconnected, Failed})
       \<or> (cur \<in> {AwaitingTrust, Failed} \<and> next = Disconnected)
      then Ok next
      else Err (AppError_new Conflict ''Invalid connection state transition.''))"

text \<open>A sequence of requested states, stopping at the first refused transition.\<close>

fun connection_run :: "connection_state \<Rightarrow> connection_state list \<Rightarrow> connection_state app_result" where
  "connection_run s [] = Ok s"
| "connection_run s (t # ts) = and_then (connection_transition s t) (\<lambda>u. connection_run u ts)"

lemma connection_transition_Ok:
  "connection_transition s t = Ok u \<Longrightarrow> u = t"
  by (auto simp: connection_transition_def split: if_splits)

lemma into_connected:
  "connection_transition s Connected = Ok u \<Longrightarrow> s = Connected \<or> s = Connecting"
  by (auto simp: connection_transition_def split: if_splits)

section \<open>Service snapshots\<close>

record service_entry =
  se_unit :: string
  se_load_state :: string
  se_active_state :: string
  se_sub_state :: string
  se_description :: string
  se_can_start :: bool
  se_can_reload :: bool
  se_reset_failed_id :: "service_observation_id option"
  se_try_restart_id :: "service_observation_id option"
  se_reload_id :: "service_observation_id option"
  se_start_id :: "service_observation_id option"

record service_snapshot =
  ss_host_id :: host_id
  ss_host_session_id :: host_session_id
  ss_observed_at :: string
  ss_entries :: "service_entry list"

section \<open>Terminals\<close>

record terminal_size =
  ts_columns :: u32
  ts_rows :: u32
  ts_pixel_width :: u32
  ts_pixel_height :: u32

definition terminal_size_validate :: "terminal_size \<Rightarrow> terminal_size app_result" where
  "terminal_size_validate sz =
     (if \<not> (2 \<le> ts_columns sz \<and> ts_columns sz \<le> 1000)
       \<or> \<not> (1 \<le> ts_rows sz \<and> ts_rows sz \<le> 1000)
       \<or> ts_pixel_width sz > 100000
       \<or> ts_pixel_height sz > 100000
      then Err (AppError_new Validation ''Terminal dimensions are outside the supported range.'')
      else Ok sz)"

datatype terminal_state =
  TCreating | TOpen | TClosing | TClosed | TFailed | TDisconnected

record terminal_session =
  tv_id :: terminal_session_id
  tv_host_id :: host_id
  tv_host_session_id :: host_session_id
  tv_label :: string
  tv_state :: terminal_state
  tv_size :: terminal_size
  tv_error :: "app_error option"

end
