(* ===== verification/Service_Units.thy ===== *)
theory Service_Units
  imports Nexus_Model
begin

text \<open>
  \<^verbatim>\<open>crates/nexus-remote-operations/src/systemd_*.rs\<close>: the four native operations, the unit
  names they accept as targets, and the observed states in which each is offered.
\<close>

section \<open>Unit names\<close>

definition SUFFIX :: string where
  "SUFFIX = ''.service''"

abbreviation MAX_UNIT_BYTES :: nat where
  "MAX_UNIT_BYTES \<equiv> 255"

datatype service_unit_name = SystemdServiceUnitName (as_str: string)

definition invalid_unit :: app_error where
  "invalid_unit = AppError_new Validation
     ''The observed service name is not supported for remote operations.''"

definition valid_part_byte :: "char \<Rightarrow> bool" where
  "valid_part_byte c = (is_ascii_alphanumeric c \<or> c \<in> {CHR ''_'', CHR ''.'', CHR '':'', CHR ''-''})"

definition valid_part :: "string \<Rightarrow> bool" where
  "valid_part v = (case v of
       [] \<Rightarrow> False
     | b # bs \<Rightarrow> is_ascii_alphanumeric b \<and> list_all valid_part_byte bs)"

definition parse_unit :: "string \<Rightarrow> service_unit_name app_result" where
  "parse_unit value =
     (if value = [] \<or> length value > MAX_UNIT_BYTES \<or> \<not> is_ascii value
         \<or> \<not> ends_with value SUFFIX \<or> match_count SUFFIX value \<noteq> 1
      then Err invalid_unit
      else (case split_char CHR ''@'' (take (length value - length SUFFIX) value) of
              [first] \<Rightarrow>
                if \<not> valid_part first then Err invalid_unit
                else Ok (SystemdServiceUnitName value)
            | [first, second] \<Rightarrow>
                if \<not> valid_part first \<or> \<not> valid_part second then Err invalid_unit
                else Ok (SystemdServiceUnitName value)
            | _ \<Rightarrow> Err invalid_unit))"

section \<open>Operations and their preconditions\<close>

datatype native_operation = SystemdResetFailed | SystemdTryRestart | SystemdReload | SystemdStart

fun operation_RISK :: "native_operation \<Rightarrow> operation_risk" where
  "operation_RISK SystemdResetFailed = Moderate"
| "operation_RISK SystemdTryRestart = High"
| "operation_RISK SystemdReload = High"
| "operation_RISK SystemdStart = High"

definition reset_failed_matches :: "string \<Rightarrow> string \<Rightarrow> string \<Rightarrow> bool" where
  "reset_failed_matches load active sub =
     (load = ''loaded'' \<and> active = ''failed'' \<and> sub = ''failed'')"

definition try_restart_matches :: "string \<Rightarrow> string \<Rightarrow> string \<Rightarrow> bool" where
  "try_restart_matches load active sub =
     (load = ''loaded'' \<and> active = ''active'' \<and> sub = ''running'')"

definition reload_matches :: "string \<Rightarrow> string \<Rightarrow> string \<Rightarrow> bool \<Rightarrow> bool" where
  "reload_matches load active sub can_reload =
     (load = ''loaded'' \<and> active = ''active'' \<and> sub = ''running'' \<and> can_reload)"

definition start_matches :: "string \<Rightarrow> string \<Rightarrow> string \<Rightarrow> bool \<Rightarrow> bool" where
  "start_matches load active sub can_start =
     (load = ''loaded'' \<and> active = ''inactive'' \<and> sub = ''dead'' \<and> can_start)"

section \<open>Accepted names are inert\<close>

text \<open>The bytes an accepted name consists of: none of them means anything to a shell.\<close>

definition unit_byte :: "char \<Rightarrow> bool" where
  "unit_byte c = (valid_part_byte c \<or> c = CHR ''@'')"

lemma valid_part_bytes: "valid_part v \<Longrightarrow> c \<in> set v \<Longrightarrow> valid_part_byte c"
  by (auto simp: valid_part_def valid_part_byte_def list_all_iff split: list.splits)

lemma suffix_bytes: "list_all valid_part_byte SUFFIX"
  by code_simp

lemma parse_unit_OkD:
  assumes "parse_unit value = Ok u"
  shows "u = SystemdServiceUnitName value" "length value \<le> MAX_UNIT_BYTES"
    "ends_with value SUFFIX"
    "list_all valid_part (split_char CHR ''@'' (take (length value - length SUFFIX) value))"
proof -
  let ?parts = "split_char CHR ''@'' (take (length value - length SUFFIX) value)"
  have guard: "length value \<le> MAX_UNIT_BYTES" "ends_with value SUFFIX"
    using assms unfolding parse_unit_def by (metis not_le result.distinct(1))+
  then show "length value \<le> MAX_UNIT_BYTES" "ends_with value SUFFIX" .
  have "(case ?parts of
              [first] \<Rightarrow>
                if \<not> valid_part first then Err invalid_unit
                else Ok (SystemdServiceUnitName value)
            | [first, second] \<Rightarrow>
                if \<not> valid_part first \<or> \<not> valid_part second then Err invalid_unit
                else Ok (SystemdServiceUnitName value)
            | _ \<Rightarrow> Err invalid_unit) = Ok u"
    using assms unfolding parse_unit_def by (metis result.distinct(1))
  then show "u = SystemdServiceUnitName value" "list_all valid_part ?parts"
    by (auto split: list.splits if_splits)
qed

lemma split_at_hd:
  assumes "list_all valid_part (split_char CHR ''@'' stem)"
  shows "stem \<noteq> []" "is_ascii_alphanumeric (hd stem)"
proof -
  have "stem \<noteq> [] \<and> is_ascii_alphanumeric (hd stem)"
  proof (cases stem)
    case Nil
    with assms show ?thesis by (simp add: valid_part_def)
  next
    case (Cons b bs)
    show ?thesis
    proof (cases "b = CHR ''@''")
      case True
      with assms Cons show ?thesis by (simp add: valid_part_def)
    next
      case False
      then obtain y ys where "split_char CHR ''@'' (b # bs) = (b # y) # ys"
        by (rule split_char_Cons_neq)
      with assms Cons show ?thesis by (simp add: valid_part_def)
    qed
  qed
  then show "stem \<noteq> []" "is_ascii_alphanumeric (hd stem)" by auto
qed

lemma split_at_bytes:
  assumes "list_all valid_part (split_char CHR ''@'' stem)"
  shows "list_all unit_byte stem"
proof -
  have "unit_byte c" if "c \<in> set stem" for c
  proof (cases "c = CHR ''@''")
    case False
    with that have "c \<in> \<Union>(set ` set (split_char CHR ''@'' stem))"
      by (simp add: split_char_Union)
    with assms show ?thesis
      by (auto simp: list_all_iff unit_byte_def dest: valid_part_bytes)
  qed (simp add: unit_byte_def)
  then show ?thesis by (simp add: list_all_iff)
qed

lemma parse_unit_stem:
  assumes "parse_unit value = Ok u"
  obtains stem where "value = stem @ SUFFIX" "stem \<noteq> []" "is_ascii_alphanumeric (hd stem)"
    "list_all unit_byte stem"
proof -
  let ?stem = "take (length value - length SUFFIX) value"
  from parse_unit_OkD(3) [OF assms] have split: "value = ?stem @ SUFFIX"
    unfolding ends_with_def by (metis append_take_drop_id)
  from parse_unit_OkD(4) [OF assms] show thesis
    using that [OF split] split_at_hd split_at_bytes by blast
qed

end
