(* ===== verification/Interfaces.thy ===== *)
theory Interfaces
  imports Prelude
begin

text \<open>
  The contracts that several components share, as locales. A component's events are the calls
  and the background tasks that change its state; \<open>enabled\<close> is what the environment guarantees
  when it makes an event happen (a new identifier is not in use, a timer fires no earlier than
  its deadline). Each locale is interpreted in the theories of the components that provide it.
\<close>

fun enabled_run :: "('e \<Rightarrow> 's \<Rightarrow> bool) \<Rightarrow> ('e \<Rightarrow> 's \<Rightarrow> 's) \<Rightarrow> 'e list \<Rightarrow> 's \<Rightarrow> bool" where
  "enabled_run en st [] s = True"
| "enabled_run en st (e # es) s = (en e s \<and> enabled_run en st es (st e s))"

lemma enabled_run_append:
  "enabled_run en st (xs @ ys) s \<longleftrightarrow> enabled_run en st xs s \<and> enabled_run en st ys (fold st xs s)"
  by (induction xs arbitrary: s) auto

section \<open>State machines with an invariant\<close>

locale guarded_machine =
  fixes enabled :: "'e \<Rightarrow> 's \<Rightarrow> bool"
    and step :: "'e \<Rightarrow> 's \<Rightarrow> 's"
    and invar :: "'s \<Rightarrow> bool"
  assumes invar_step: "invar s \<Longrightarrow> enabled e s \<Longrightarrow> invar (step e s)"
begin

lemma invar_run: "invar s \<Longrightarrow> enabled_run enabled step es s \<Longrightarrow> invar (fold step es s)"
  by (induction es arbitrary: s) (auto intro: invar_step)

end

section \<open>Authority that is redeemed at most once\<close>

text \<open>
  \<open>live s i\<close>: identifier \<open>i\<close> still carries authority in \<open>s\<close>. \<open>redeem q s\<close> tries to turn the
  authority of \<open>target q\<close> into a value; \<open>issues e i\<close>: the event publishes \<open>i\<close>.
\<close>

locale one_shot = guarded_machine enabled step invar
  for enabled :: "'e \<Rightarrow> 's \<Rightarrow> bool" and step :: "'e \<Rightarrow> 's \<Rightarrow> 's" and invar :: "'s \<Rightarrow> bool" +
  fixes live :: "'s \<Rightarrow> 'i \<Rightarrow> bool"
    and issues :: "'e \<Rightarrow> 'i \<Rightarrow> bool"
    and target :: "'q \<Rightarrow> 'i"
    and redeem :: "'q \<Rightarrow> 's \<Rightarrow> ('a, 'x) result \<times> 's"
  assumes redeem_live: "invar s \<Longrightarrow> redeem q s = (Ok a, s') \<Longrightarrow> live s (target q)"
    and redeem_spent: "invar s \<Longrightarrow> redeem q s = (Ok a, s') \<Longrightarrow> \<not> live s' (target q)"
    and redeem_invar: "invar s \<Longrightarrow> redeem q s = (r, s') \<Longrightarrow> invar s'"
    and step_live: "invar s \<Longrightarrow> enabled e s \<Longrightarrow> live (step e s) i \<Longrightarrow> live s i \<or> issues e i"
begin

lemma run_live:
  "invar s \<Longrightarrow> enabled_run enabled step es s \<Longrightarrow> live (fold step es s) i \<Longrightarrow>
   live s i \<or> (\<exists>e\<in>set es. issues e i)"
proof (induction es arbitrary: s)
  case (Cons e es)
  then have "live (step e s) i \<or> (\<exists>e\<in>set es. issues e i)"
    by (auto intro: invar_step)
  with Cons.prems show ?case
    using step_live by fastforce
qed simp

lemma dead_stays_dead:
  assumes "invar s" "enabled_run enabled step es s" "\<not> live s (target q)"
    and "\<forall>e\<in>set es. \<not> issues e (target q)"
  shows "\<not> is_ok (fst (redeem q (fold step es s)))"
proof
  assume "is_ok (fst (redeem q (fold step es s)))"
  then obtain a s' where "redeem q (fold step es s) = (Ok a, s')"
    by (metis is_ok_iff prod.collapse)
  with assms(1,2) have "live (fold step es s) (target q)"
    by (blast intro: redeem_live invar_run)
  with assms show False
    using run_live by blast
qed

theorem redeemed_once:
  assumes "invar s" "redeem q s = (Ok a, s')" "enabled_run enabled step es s'"
    and "\<forall>e\<in>set es. \<not> issues e (target q)" "target q' = target q"
  shows "\<not> is_ok (fst (redeem q' (fold step es s')))"
proof (rule dead_stays_dead)
  show "invar s'" using assms(1,2) by (rule redeem_invar)
  show "\<not> live s' (target q')" using assms by (simp add: redeem_spent)
qed (use assms in auto)

end

section \<open>Stores that can be sealed\<close>

locale sealable = one_shot enabled step invar live issues target redeem
  for enabled :: "'e \<Rightarrow> 's \<Rightarrow> bool" and step :: "'e \<Rightarrow> 's \<Rightarrow> 's" and invar :: "'s \<Rightarrow> bool"
    and live :: "'s \<Rightarrow> 'i \<Rightarrow> bool" and issues :: "'e \<Rightarrow> 'i \<Rightarrow> bool" and target :: "'q \<Rightarrow> 'i"
    and redeem :: "'q \<Rightarrow> 's \<Rightarrow> ('a, 'x) result \<times> 's" +
  fixes is_sealed :: "'s \<Rightarrow> bool"
  assumes sealed_step: "is_sealed s \<Longrightarrow> is_sealed (step e s)"
    and sealed_dead: "invar s \<Longrightarrow> is_sealed s \<Longrightarrow> \<not> live s i"
begin

lemma sealed_run: "is_sealed s \<Longrightarrow> is_sealed (fold step es s)"
  by (induction es arbitrary: s) (auto intro: sealed_step)

theorem sealed_never_redeems:
  assumes "invar s" "is_sealed s" "enabled_run enabled step es s"
  shows "\<not> is_ok (fst (redeem q (fold step es s)))"
proof
  assume "is_ok (fst (redeem q (fold step es s)))"
  then obtain a s' where "redeem q (fold step es s) = (Ok a, s')"
    by (metis is_ok_iff prod.collapse)
  moreover have "invar (fold step es s)" using assms(1,3) by (rule invar_run)
  ultimately show False
    using redeem_live sealed_dead sealed_run [OF assms(2)] by blast
qed

end

section \<open>Stores of bounded size\<close>

locale bounded_store = guarded_machine enabled step invar
  for enabled :: "'e \<Rightarrow> 's \<Rightarrow> bool" and step :: "'e \<Rightarrow> 's \<Rightarrow> 's" and invar :: "'s \<Rightarrow> bool" +
  fixes size_of :: "'s \<Rightarrow> nat"
    and cap :: nat
  assumes invar_size: "invar s \<Longrightarrow> size_of s \<le> cap"
begin

theorem run_bounded:
  "invar s \<Longrightarrow> enabled_run enabled step es s \<Longrightarrow> size_of (fold step es s) \<le> cap"
  by (blast intro: invar_size invar_run)

end

section \<open>Functional refinement\<close>

text \<open>
  \<open>abs\<close> maps the detailed state to the state of an abstract machine; every enabled step is matched
  by the abstract machine's step for the same event.
\<close>

locale simulation = guarded_machine enabled step invar
  for enabled :: "'e \<Rightarrow> 's \<Rightarrow> bool" and step :: "'e \<Rightarrow> 's \<Rightarrow> 's" and invar :: "'s \<Rightarrow> bool" +
  fixes abs :: "'s \<Rightarrow> 'a"
    and spec_step :: "'e \<Rightarrow> 'a \<Rightarrow> 'a"
  assumes step_abs: "invar s \<Longrightarrow> enabled e s \<Longrightarrow> abs (step e s) = spec_step e (abs s)"
begin

theorem run_abs:
  "invar s \<Longrightarrow> enabled_run enabled step es s \<Longrightarrow> abs (fold step es s) = fold spec_step es (abs s)"
  by (induction es arbitrary: s) (simp_all add: step_abs invar_step)

end

end
