(* ===== verification/Authority_Store.thy ===== *)
theory Authority_Store
  imports Service_Units Interfaces
begin

text \<open>
  \<^verbatim>\<open>crates/nexus-remote-operations/src/{authority,store}.rs\<close>: pending plans for remote mutations.
  A plan is bound to one authenticated session, expires after \<open>PLAN_TTL\<close>, is superseded by the
  next plan of its host and can be consumed once. The mutex is the field \<open>as_poisoned\<close> (the only
  way \<open>lock()\<close> fails); every operation is one critical section, so it is one atomic step.
  The type parameter \<open>O\<close> of the source is an argument of type \<open>native_operation\<close>.
\<close>

section \<open>Data\<close>

record authority_binding =
  ab_host_id :: host_id
  ab_host_session_id :: host_session_id
  ab_generation :: u64

record plan_draft =
  pd_operation :: native_operation
  pd_binding :: authority_binding
  pd_target :: service_unit_name

text \<open>\<open>Box<dyn Any>\<close> holding an \<open>AuthorityBody<O>\<close>: the concrete type \<open>O\<close> is the tag.\<close>

datatype authority_body = AuthorityBody native_operation service_unit_name

record stored_authority =
  sa_id :: remote_operation_plan_id
  sa_binding :: authority_binding
  sa_operation_type :: native_operation
  sa_risk :: operation_risk
  sa_issued_at :: instant
  sa_expires_at :: instant
  sa_body :: authority_body

record consumed_authority =
  ca_operation :: native_operation
  ca_id :: remote_operation_plan_id
  ca_binding :: authority_binding
  ca_risk :: operation_risk
  ca_issued_at :: instant
  ca_expires_at :: instant
  ca_target :: service_unit_name

record plan_receipt =
  pr_id :: remote_operation_plan_id
  pr_binding :: authority_binding
  pr_risk :: operation_risk
  pr_issued_at :: instant
  pr_expires_at :: instant
  pr_superseded :: "remote_operation_plan_id option"

definition stored_authority_new ::
  "remote_operation_plan_id \<Rightarrow> plan_draft \<Rightarrow> instant \<Rightarrow> instant \<Rightarrow> stored_authority" where
  "stored_authority_new pid draft issued expires =
     \<lparr>sa_id = pid, sa_binding = pd_binding draft, sa_operation_type = pd_operation draft,
      sa_risk = operation_RISK (pd_operation draft), sa_issued_at = issued,
      sa_expires_at = expires, sa_body = AuthorityBody (pd_operation draft) (pd_target draft)\<rparr>"

definition into_typed :: "native_operation \<Rightarrow> stored_authority \<Rightarrow> consumed_authority option" where
  "into_typed nop a =
     (case sa_body a of AuthorityBody nop' target \<Rightarrow>
        if nop' = nop
        then Some \<lparr>ca_operation = nop, ca_id = sa_id a, ca_binding = sa_binding a,
                   ca_risk = sa_risk a, ca_issued_at = sa_issued_at a,
                   ca_expires_at = sa_expires_at a, ca_target = target\<rparr>
        else None)"

definition PLAN_TTL :: nat where
  "PLAN_TTL = from_secs 120"

record authority_store =
  as_pending :: "(remote_operation_plan_id, stored_authority) fmap"
  as_by_host :: "(host_id, remote_operation_plan_id) fmap"
  as_sealed :: bool
  as_ttl :: nat
  as_poisoned :: bool

definition authority_store_default :: authority_store where
  "authority_store_default =
     \<lparr>as_pending = fmempty, as_by_host = fmempty, as_sealed = False, as_ttl = PLAN_TTL,
      as_poisoned = False\<rparr>"

section \<open>Errors\<close>

definition authority_unavailable :: app_error where
  "authority_unavailable = AppError_new Conflict ''Remote operation authority is unavailable.''"

definition authority_stale :: app_error where
  "authority_stale = AppError_new Conflict ''The remote operation plan is stale.''"

definition authority_expired :: app_error where
  "authority_expired = AppError_new Conflict ''The remote operation plan expired.''"

definition authority_missing :: app_error where
  "authority_missing =
     AppError_new Conflict ''The remote operation plan is missing or was already used.''"

definition authority_policy :: app_error where
  "authority_policy = AppError_new Policy ''The remote operation identity is invalid.''"

definition shutting_down :: app_error where
  "shutting_down =
     AppError_new Conflict ''NexusOps is shutting down; create a fresh plan after restart.''"

section \<open>Operations\<close>

definition remove_id ::
  "remote_operation_plan_id \<Rightarrow> authority_store \<Rightarrow> stored_authority option \<times> authority_store" where
  "remove_id pid s =
     (case fmlookup (as_pending s) pid of
        None \<Rightarrow> (None, s)
      | Some removed \<Rightarrow>
          (Some removed,
           s\<lparr>as_pending := fmdrop pid (as_pending s),
             as_by_host :=
               (if fmlookup (as_by_host s) (ab_host_id (sa_binding removed)) = Some pid
                then fmdrop (ab_host_id (sa_binding removed)) (as_by_host s)
                else as_by_host s)\<rparr>))"

definition is_expired :: "instant \<Rightarrow> authority_store \<Rightarrow> remote_operation_plan_id \<Rightarrow> bool" where
  "is_expired now s pid =
     (case fmlookup (as_pending s) pid of None \<Rightarrow> False | Some v \<Rightarrow> sa_expires_at v \<le> now)"

text \<open>
  \<open>remove_expired\<close> collects the expired identifiers in the hash map's own order and removes them
  one by one. The result does not depend on that order (\<open>remove_each_expired\<close> below), so the
  model is the closed form; \<open>remove_each\<close> is the loop.
\<close>

fun remove_each :: "remote_operation_plan_id list \<Rightarrow> authority_store \<Rightarrow> authority_store" where
  "remove_each [] s = s"
| "remove_each (pid # ids) s = remove_each ids (snd (remove_id pid s))"

definition remove_expired :: "instant \<Rightarrow> authority_store \<Rightarrow> authority_store" where
  "remove_expired now s =
     s\<lparr>as_pending := fm_retain (\<lambda>pid v. \<not> sa_expires_at v \<le> now) (as_pending s),
       as_by_host := fm_retain (\<lambda>h pid. \<not> (case fmlookup (as_pending s) pid of
            None \<Rightarrow> False
          | Some v \<Rightarrow> sa_expires_at v \<le> now \<and> ab_host_id (sa_binding v) = h)) (as_by_host s)\<rparr>"

definition authority_insert ::
  "plan_draft \<Rightarrow> authority_binding \<Rightarrow> remote_operation_plan_id \<Rightarrow> instant \<Rightarrow>
   authority_store \<Rightarrow> plan_receipt app_result \<times> authority_store" where
  "authority_insert draft current pid now s =
     (if pd_binding draft \<noteq> current then (Err authority_stale, s)
      else
        let issued_at = now;
            expires_at = issued_at + as_ttl s;
            binding = pd_binding draft;
            authority = stored_authority_new pid draft issued_at expires_at
        in if as_poisoned s then (Err authority_unavailable, s)
           else if as_sealed s then (Err shutting_down, s)
           else
             let s1 = remove_expired issued_at s;
                 superseded = fmlookup (as_by_host s1) (ab_host_id binding);
                 s2 = s1\<lparr>as_by_host := fmdrop (ab_host_id binding) (as_by_host s1)\<rparr>;
                 s3 = (case superseded of
                         None \<Rightarrow> s2
                       | Some old \<Rightarrow> s2\<lparr>as_pending := fmdrop old (as_pending s2)\<rparr>);
                 s4 = s3\<lparr>as_pending := fmupd pid authority (as_pending s3),
                         as_by_host := fmupd (ab_host_id binding) pid (as_by_host s3)\<rparr>
             in (Ok \<lparr>pr_id = pid, pr_binding = binding,
                     pr_risk = operation_RISK (pd_operation draft),
                     pr_issued_at = issued_at, pr_expires_at = expires_at,
                     pr_superseded = superseded\<rparr>, s4))"

definition authority_consume ::
  "native_operation \<Rightarrow> remote_operation_plan_id \<Rightarrow> authority_binding \<Rightarrow> instant \<Rightarrow>
   authority_store \<Rightarrow> consumed_authority app_result \<times> authority_store" where
  "authority_consume nop pid expected now s =
     (if as_poisoned s then (Err authority_unavailable, s)
      else if is_expired now s pid then (Err authority_expired, snd (remove_id pid s))
      else (case fmlookup (as_pending s) pid of
              None \<Rightarrow> (Err authority_missing, s)
            | Some current \<Rightarrow>
                if sa_binding current \<noteq> expected then (Err authority_stale, s)
                else if sa_operation_type current \<noteq> nop \<or> sa_risk current \<noteq> operation_RISK nop
                then (Err authority_policy, s)
                else (case remove_id pid s of
                        (None, s') \<Rightarrow> (Err authority_missing, s')
                      | (Some stored, s') \<Rightarrow> (ok_or (into_typed nop stored) authority_policy, s'))))"

definition authority_discard ::
  "native_operation \<Rightarrow> remote_operation_plan_id \<Rightarrow> authority_binding \<Rightarrow> instant \<Rightarrow>
   authority_store \<Rightarrow> bool app_result \<times> authority_store" where
  "authority_discard nop pid expected now s =
     (if as_poisoned s then (Err authority_unavailable, s)
      else if is_expired now s pid then (Ok False, snd (remove_id pid s))
      else (case fmlookup (as_pending s) pid of
              None \<Rightarrow> (Ok False, s)
            | Some current \<Rightarrow>
                if sa_binding current \<noteq> expected then (Err authority_stale, s)
                else if sa_operation_type current \<noteq> nop \<or> sa_risk current \<noteq> operation_RISK nop
                then (Err authority_policy, s)
                else (case remove_id pid s of (r, s') \<Rightarrow> (Ok (r \<noteq> None), s'))))"

definition authority_revoke_host :: "host_id \<Rightarrow> authority_store \<Rightarrow> bool app_result \<times> authority_store" where
  "authority_revoke_host host s =
     (if as_poisoned s then (Err authority_unavailable, s)
      else (case fmlookup (as_by_host s) host of
              None \<Rightarrow> (Ok False, s)
            | Some pid \<Rightarrow>
                (Ok (fmlookup (as_pending s) pid \<noteq> None),
                 s\<lparr>as_by_host := fmdrop host (as_by_host s),
                   as_pending := fmdrop pid (as_pending s)\<rparr>)))"

definition authority_revoke_session ::
  "host_id \<Rightarrow> host_session_id \<Rightarrow> authority_store \<Rightarrow> bool app_result \<times> authority_store" where
  "authority_revoke_session host session s =
     (if as_poisoned s then (Err authority_unavailable, s)
      else (case fmlookup (as_by_host s) host of
              None \<Rightarrow> (Ok False, s)
            | Some pid \<Rightarrow>
                if (case fmlookup (as_pending s) pid of
                      None \<Rightarrow> False
                    | Some v \<Rightarrow> ab_host_session_id (sa_binding v) = session)
                then (case remove_id pid s of (r, s') \<Rightarrow> (Ok (r \<noteq> None), s'))
                else (Ok False, s)))"

definition authority_revoke_all :: "authority_store \<Rightarrow> unit app_result \<times> authority_store" where
  "authority_revoke_all s =
     (if as_poisoned s then (Err authority_unavailable, s)
      else (Ok (), s\<lparr>as_pending := fmempty, as_by_host := fmempty\<rparr>))"

definition seal_and_revoke_all :: "authority_store \<Rightarrow> unit app_result \<times> authority_store" where
  "seal_and_revoke_all s =
     (if as_poisoned s then (Err authority_unavailable, s)
      else (Ok (), s\<lparr>as_sealed := True, as_pending := fmempty, as_by_host := fmempty\<rparr>))"

definition authority_is_sealed :: "authority_store \<Rightarrow> bool app_result" where
  "authority_is_sealed s =
     (if as_poisoned s then Err authority_unavailable else Ok (as_sealed s))"

definition authority_pending_count :: "instant \<Rightarrow> authority_store \<Rightarrow> nat app_result \<times> authority_store" where
  "authority_pending_count now s =
     (if as_poisoned s then (Err authority_unavailable, s)
      else let s' = remove_expired now s in (Ok (fm_len (as_pending s')), s'))"

definition authority_contains ::
  "remote_operation_plan_id \<Rightarrow> instant \<Rightarrow> authority_store \<Rightarrow> bool app_result \<times> authority_store" where
  "authority_contains pid now s =
     (if as_poisoned s then (Err authority_unavailable, s)
      else let s' = remove_expired now s
           in (Ok (fmlookup (as_pending s') pid \<noteq> None), s'))"

text \<open>The task \<open>schedule_expiry\<close> spawns, once the deadline it was given has passed.\<close>

definition authority_expiry_fires ::
  "remote_operation_plan_id \<Rightarrow> instant \<Rightarrow> authority_store \<Rightarrow> authority_store" where
  "authority_expiry_fires pid expires s =
     (if \<not> as_poisoned s \<and> (case fmlookup (as_pending s) pid of
                              None \<Rightarrow> False | Some v \<Rightarrow> sa_expires_at v = expires)
      then snd (remove_id pid s) else s)"

section \<open>Events\<close>

datatype authority_event =
    AInsert plan_draft authority_binding remote_operation_plan_id instant
  | AConsume native_operation remote_operation_plan_id authority_binding instant
  | ADiscard native_operation remote_operation_plan_id authority_binding instant
  | ARevokeHost host_id
  | ARevokeSession host_id host_session_id
  | ARevokeAll
  | ASealAndRevokeAll
  | APendingCount instant
  | AContains remote_operation_plan_id instant
  | AExpiryFires remote_operation_plan_id instant

fun authority_step :: "authority_event \<Rightarrow> authority_store \<Rightarrow> authority_store" where
  "authority_step (AInsert d c pid now) s = snd (authority_insert d c pid now s)"
| "authority_step (AConsume nop pid b now) s = snd (authority_consume nop pid b now s)"
| "authority_step (ADiscard nop pid b now) s = snd (authority_discard nop pid b now s)"
| "authority_step (ARevokeHost h) s = snd (authority_revoke_host h s)"
| "authority_step (ARevokeSession h hs) s = snd (authority_revoke_session h hs s)"
| "authority_step ARevokeAll s = snd (authority_revoke_all s)"
| "authority_step ASealAndRevokeAll s = snd (seal_and_revoke_all s)"
| "authority_step (APendingCount now) s = snd (authority_pending_count now s)"
| "authority_step (AContains pid now) s = snd (authority_contains pid now s)"
| "authority_step (AExpiryFires pid e) s = authority_expiry_fires pid e s"

text \<open>What \<open>RemoteOperationPlanId::new\<close> provides: an identifier that is not pending.\<close>

fun authority_enabled :: "authority_event \<Rightarrow> authority_store \<Rightarrow> bool" where
  "authority_enabled (AInsert d c pid now) s = (fmlookup (as_pending s) pid = None)"
| "authority_enabled _ s = True"

fun authority_issues :: "authority_event \<Rightarrow> remote_operation_plan_id \<Rightarrow> bool" where
  "authority_issues (AInsert d c pid now) i = (pid = i)"
| "authority_issues _ i = False"

definition authority_live :: "authority_store \<Rightarrow> remote_operation_plan_id \<Rightarrow> bool" where
  "authority_live s pid = (fmlookup (as_pending s) pid \<noteq> None)"

section \<open>Invariant\<close>

definition authority_entry_ok :: "remote_operation_plan_id \<Rightarrow> stored_authority \<Rightarrow> bool" where
  "authority_entry_ok pid a =
     (sa_id a = pid \<and> sa_risk a = operation_RISK (sa_operation_type a)
      \<and> (case sa_body a of AuthorityBody nop t \<Rightarrow> nop = sa_operation_type a))"

text \<open>
  The two maps describe the same plans, one per host, every entry is internally consistent, and
  a sealed store is empty.
\<close>

definition authority_inv :: "authority_store \<Rightarrow> bool" where
  "authority_inv s =
     ((\<forall>pid a. fmlookup (as_pending s) pid = Some a \<longrightarrow>
         authority_entry_ok pid a \<and> fmlookup (as_by_host s) (ab_host_id (sa_binding a)) = Some pid)
      \<and> (\<forall>h pid. fmlookup (as_by_host s) h = Some pid \<longrightarrow>
           (\<exists>a. fmlookup (as_pending s) pid = Some a \<and> ab_host_id (sa_binding a) = h))
      \<and> (as_sealed s \<longrightarrow> as_pending s = fmempty))"

section \<open>Library lemmas\<close>

lemmas [store_defs] = remove_id_def remove_expired_def authority_insert_def authority_consume_def
  authority_discard_def authority_revoke_host_def authority_revoke_session_def
  authority_revoke_all_def seal_and_revoke_all_def authority_pending_count_def
  authority_contains_def authority_expiry_fires_def is_expired_def

lemmas [err_defs] = authority_unavailable_def authority_stale_def authority_expired_def
  authority_missing_def authority_policy_def shutting_down_def

lemma remove_id_frame [simp]:
  "as_sealed (snd (remove_id pid s)) = as_sealed s"
  "as_poisoned (snd (remove_id pid s)) = as_poisoned s"
  "as_ttl (snd (remove_id pid s)) = as_ttl s"
  by (simp_all add: remove_id_def split: option.splits)

lemma remove_id_pending [simp]: "as_pending (snd (remove_id pid s)) = fmdrop pid (as_pending s)"
  by (simp add: remove_id_def fmdrop_absent split: option.splits)

lemma remove_id_fst [simp]: "fst (remove_id pid s) = fmlookup (as_pending s) pid"
  by (simp add: remove_id_def split: option.splits)

lemma remove_expired_frame [simp]:
  "as_sealed (remove_expired now s) = as_sealed s"
  "as_poisoned (remove_expired now s) = as_poisoned s"
  "as_ttl (remove_expired now s) = as_ttl s"
  by (simp_all add: remove_expired_def)

lemma remove_expired_pending [simp]:
  "fmlookup (as_pending (remove_expired now s)) i = Some a \<longleftrightarrow>
   fmlookup (as_pending s) i = Some a \<and> now < sa_expires_at a"
  by (auto simp: remove_expired_def)

text \<open>The loop over the expired identifiers, in any order, is the closed form.\<close>

lemma remove_each_pending:
  "as_pending (remove_each ids s) = fmfilter (\<lambda>i. i \<notin> set ids) (as_pending s)"
proof (induction ids arbitrary: s)
  case (Cons pid ids)
  show ?case
    by (rule fmap_ext) (simp add: Cons)
qed simp

lemma remove_each_by_host:
  "fmlookup (as_by_host (remove_each ids s)) h =
     (case fmlookup (as_by_host s) h of
        None \<Rightarrow> None
      | Some i \<Rightarrow>
          if i \<in> set ids \<and> (\<exists>a. fmlookup (as_pending s) i = Some a \<and> ab_host_id (sa_binding a) = h)
          then None else Some i)"
proof (induction ids arbitrary: s)
  case (Cons pid ids)
  then show ?case
    by (auto simp: remove_id_def split: option.splits)
qed (auto split: option.splits)

lemma remove_each_rest:
  "as_sealed (remove_each ids s) = as_sealed s" "as_poisoned (remove_each ids s) = as_poisoned s"
  "as_ttl (remove_each ids s) = as_ttl s"
  by (induction ids arbitrary: s) simp_all

lemma remove_each_expired:
  assumes "\<And>i. i \<in> set ids \<longleftrightarrow> is_expired now s i"
  shows "remove_each ids s = remove_expired now s"
proof -
  have "as_pending (remove_each ids s) = as_pending (remove_expired now s)"
    by (rule fmap_ext)
      (auto simp: remove_each_pending remove_expired_def fmlookup_retain assms is_expired_def
        split: option.splits)
  moreover have "as_by_host (remove_each ids s) = as_by_host (remove_expired now s)"
    by (rule fmap_ext)
      (auto simp: remove_each_by_host remove_expired_def fmlookup_retain assms is_expired_def
        split: option.splits)
  ultimately show ?thesis
    by (simp add: remove_each_rest)
qed

section \<open>The invariant is kept\<close>

lemma authority_invI:
  assumes "\<And>pid a. fmlookup (as_pending s) pid = Some a \<Longrightarrow> authority_entry_ok pid a"
    and "\<And>pid a. fmlookup (as_pending s) pid = Some a \<Longrightarrow>
           fmlookup (as_by_host s) (ab_host_id (sa_binding a)) = Some pid"
    and "\<And>h pid. fmlookup (as_by_host s) h = Some pid \<Longrightarrow>
           \<exists>a. fmlookup (as_pending s) pid = Some a \<and> ab_host_id (sa_binding a) = h"
    and "as_sealed s \<Longrightarrow> as_pending s = fmempty"
  shows "authority_inv s"
  using assms unfolding authority_inv_def by blast

lemma authority_invD:
  assumes "authority_inv s" "fmlookup (as_pending s) pid = Some a"
  shows "authority_entry_ok pid a" "fmlookup (as_by_host s) (ab_host_id (sa_binding a)) = Some pid"
    "\<not> as_sealed s"
  using assms unfolding authority_inv_def by auto

lemma authority_inv_by_host:
  assumes "authority_inv s" "fmlookup (as_by_host s) h = Some pid"
  obtains a where "fmlookup (as_pending s) pid = Some a" "ab_host_id (sa_binding a) = h"
  using assms unfolding authority_inv_def by blast

lemma authority_inv_by_hostD:
  "authority_inv s \<Longrightarrow> fmlookup (as_by_host s) h = Some pid \<Longrightarrow>
   \<exists>a. fmlookup (as_pending s) pid = Some a \<and> ab_host_id (sa_binding a) = h"
  by (simp add: authority_inv_def)

lemma one_plan_per_host:
  assumes "authority_inv s" "fmlookup (as_pending s) i = Some a" "fmlookup (as_pending s) j = Some b"
    and "ab_host_id (sa_binding a) = ab_host_id (sa_binding b)"
  shows "i = j"
  using assms authority_invD(2) by (metis option.inject)

lemma authority_inv_default: "authority_inv authority_store_default"
  by (rule authority_invI) (simp_all add: authority_store_default_def)

text \<open>
  Every operation but \<open>insert\<close> only shrinks the store, dropping a plan together with its host's
  entry.
\<close>

lemma authority_inv_shrink:
  assumes inv: "authority_inv s"
    and pend: "as_pending s' = fmfilter P (as_pending s)"
    and host: "\<And>h pid. fmlookup (as_by_host s') h = Some pid \<longleftrightarrow>
                 fmlookup (as_by_host s) h = Some pid \<and> P pid"
    and seal: "as_sealed s' \<Longrightarrow> as_sealed s"
  shows "authority_inv s'"
proof (rule authority_invI)
  fix pid a assume "fmlookup (as_pending s') pid = Some a"
  then have a: "fmlookup (as_pending s) pid = Some a" "P pid" by (auto simp: pend split: if_splits)
  then show "authority_entry_ok pid a"
    "fmlookup (as_by_host s') (ab_host_id (sa_binding a)) = Some pid"
    using authority_invD [OF inv] by (auto simp: host)
next
  fix h pid assume "fmlookup (as_by_host s') h = Some pid"
  then have h: "fmlookup (as_by_host s) h = Some pid" "P pid" by (auto simp: host)
  from inv h(1) obtain a where "fmlookup (as_pending s) pid = Some a" "ab_host_id (sa_binding a) = h"
    by (rule authority_inv_by_host)
  with h(2) show "\<exists>a. fmlookup (as_pending s') pid = Some a \<and> ab_host_id (sa_binding a) = h"
    by (auto simp: pend)
next
  assume "as_sealed s'"
  then have "as_pending s = fmempty" using inv seal by (simp add: authority_inv_def)
  then show "as_pending s' = fmempty" unfolding pend by (simp only: fmfilter_empty)
qed

lemma remove_id_inv:
  assumes "authority_inv s"
  shows "authority_inv (snd (remove_id pid s))"
proof (rule authority_inv_shrink [OF assms, where P = "\<lambda>i. i \<noteq> pid"])
  show "as_pending (snd (remove_id pid s)) = fmfilter (\<lambda>i. i \<noteq> pid) (as_pending s)"
    by (rule fmap_ext) simp
next
  fix h i
  show "fmlookup (as_by_host (snd (remove_id pid s))) h = Some i \<longleftrightarrow>
        fmlookup (as_by_host s) h = Some i \<and> i \<noteq> pid"
  proof (cases "fmlookup (as_pending s) pid")
    case None
    then show ?thesis
      by (auto simp: remove_id_def dest: authority_inv_by_hostD [OF assms])
  next
    case (Some a)
    then have host: "fmlookup (as_by_host s) (ab_host_id (sa_binding a)) = Some pid"
      by (rule authority_invD(2) [OF assms])
    show ?thesis
    proof (cases "h = ab_host_id (sa_binding a)")
      case True
      with Some host show ?thesis by (auto simp: remove_id_def)
    next
      case False
      then have "fmlookup (as_by_host s) h \<noteq> Some pid"
        using authority_inv_by_hostD [OF assms, of h pid] Some by auto
      with False Some host show ?thesis by (auto simp: remove_id_def)
    qed
  qed
qed simp

lemma remove_expired_inv:
  assumes "authority_inv s"
  shows "authority_inv (remove_expired now s)"
proof (rule authority_inv_shrink [OF assms, where P = "\<lambda>i. \<not> is_expired now s i"])
  show "as_pending (remove_expired now s) = fmfilter (\<lambda>i. \<not> is_expired now s i) (as_pending s)"
    by (rule fmap_ext)
      (auto simp: remove_expired_def fmlookup_retain is_expired_def split: option.splits)
next
  fix h i
  show "fmlookup (as_by_host (remove_expired now s)) h = Some i \<longleftrightarrow>
        fmlookup (as_by_host s) h = Some i \<and> \<not> is_expired now s i"
    by (auto simp: remove_expired_def is_expired_def dest: authority_inv_by_hostD [OF assms]
        split: option.splits)
qed simp

text \<open>What a successful \<open>insert\<close> does to the two maps.\<close>

lemma authority_insert_cases:
  obtains (refused) e where "authority_insert d c pid now s = (Err e, s)"
      "pd_binding d \<noteq> c \<or> as_poisoned s \<or> as_sealed s"
  | (issued) r s' s1 where "authority_insert d c pid now s = (Ok r, s')"
      "pd_binding d = c" "\<not> as_poisoned s" "\<not> as_sealed s" "s1 = remove_expired now s"
      "r = \<lparr>pr_id = pid, pr_binding = pd_binding d, pr_risk = operation_RISK (pd_operation d),
            pr_issued_at = now, pr_expires_at = now + as_ttl s,
            pr_superseded = fmlookup (as_by_host s1) (ab_host_id c)\<rparr>"
      "as_sealed s' = as_sealed s" "as_poisoned s' = as_poisoned s" "as_ttl s' = as_ttl s"
      "\<And>i. fmlookup (as_pending s') i =
         (if i = pid then Some (stored_authority_new pid d now (now + as_ttl s))
          else if fmlookup (as_by_host s1) (ab_host_id c) = Some i then None
          else fmlookup (as_pending s1) i)"
      "\<And>h. fmlookup (as_by_host s') h =
         (if h = ab_host_id c then Some pid else fmlookup (as_by_host s1) h)"
proof (cases "pd_binding d \<noteq> c \<or> as_poisoned s \<or> as_sealed s")
  case True
  then show thesis
    by (intro refused [of "if pd_binding d \<noteq> c then authority_stale
        else if as_poisoned s then authority_unavailable else shutting_down"])
      (auto simp: authority_insert_def)
next
  case False
  then show thesis
    by (intro issued [where s' = "snd (authority_insert d c pid now s)", OF _ _ _ _ refl refl])
      (auto simp: authority_insert_def Let_def split: option.splits)
qed

lemma stored_authority_new_simps [simp]:
  "sa_id (stored_authority_new pid d i e) = pid"
  "sa_binding (stored_authority_new pid d i e) = pd_binding d"
  "sa_operation_type (stored_authority_new pid d i e) = pd_operation d"
  "sa_risk (stored_authority_new pid d i e) = operation_RISK (pd_operation d)"
  "sa_issued_at (stored_authority_new pid d i e) = i"
  "sa_expires_at (stored_authority_new pid d i e) = e"
  "sa_body (stored_authority_new pid d i e) = AuthorityBody (pd_operation d) (pd_target d)"
  by (simp_all add: stored_authority_new_def)

lemma authority_insert_inv:
  assumes inv: "authority_inv s" and fresh: "fmlookup (as_pending s) pid = None"
  shows "authority_inv (snd (authority_insert d c pid now s))"
proof (cases rule: authority_insert_cases [of d c pid now s])
  case refused
  with inv show ?thesis by simp
next
  case (issued r s' s1)
  have inv1: "authority_inv s1" unfolding issued(5) by (rule remove_expired_inv [OF inv])
  have fresh1: "fmlookup (as_pending s1) pid = None"
    using fresh by (simp add: issued(5) remove_expired_def)
  have "authority_inv s'"
  proof (rule authority_invI)
    fix i a assume a: "fmlookup (as_pending s') i = Some a"
    then show "authority_entry_ok i a"
      using authority_invD(1) [OF inv1] issued(10)
      by (auto simp: authority_entry_ok_def split: if_splits)
    show "fmlookup (as_by_host s') (ab_host_id (sa_binding a)) = Some i"
      using a authority_invD(2) [OF inv1, of i a] issued(2,10,11) by (auto split: if_splits)
  next
    fix h i assume h: "fmlookup (as_by_host s') h = Some i"
    show "\<exists>a. fmlookup (as_pending s') i = Some a \<and> ab_host_id (sa_binding a) = h"
    proof (cases "h = ab_host_id c")
      case True
      with h issued(2,10,11) show ?thesis by auto
    next
      case False
      with h have "fmlookup (as_by_host s1) h = Some i" by (simp add: issued(11))
      from authority_inv_by_hostD [OF inv1 this] obtain a
        where a: "fmlookup (as_pending s1) i = Some a" "ab_host_id (sa_binding a) = h" by blast
      have "fmlookup (as_by_host s1) (ab_host_id c) \<noteq> Some i"
        using authority_inv_by_hostD [OF inv1, of "ab_host_id c" i] a False by auto
      with a fresh1 show ?thesis by (auto simp: issued(10))
    qed
  qed (use issued(4,7) in simp)
  with issued(1) show ?thesis by simp
qed

lemma revoke_host_eq_remove_id:
  assumes "authority_inv s" "fmlookup (as_by_host s) h = Some pid" "\<not> as_poisoned s"
  shows "snd (authority_revoke_host h s) = snd (remove_id pid s)"
  using authority_inv_by_hostD [OF assms(1,2)] assms(2,3)
  by (auto simp: authority_revoke_host_def remove_id_def)

lemma authority_consume_snd:
  "snd (authority_consume nop pid b now s) = s
   \<or> snd (authority_consume nop pid b now s) = snd (remove_id pid s)"
  by (simp add: authority_consume_def case_prod_beta split: option.splits)

lemma authority_discard_snd:
  "snd (authority_discard nop pid b now s) = s
   \<or> snd (authority_discard nop pid b now s) = snd (remove_id pid s)"
  by (simp add: authority_discard_def case_prod_beta split: option.splits)

lemma authority_revoke_session_snd:
  "snd (authority_revoke_session h hs s) = s
   \<or> (\<exists>pid. snd (authority_revoke_session h hs s) = snd (remove_id pid s))"
  by (auto simp: authority_revoke_session_def case_prod_beta split: option.splits)

lemma authority_step_cases:
  assumes "authority_inv s"
  obtains (insert) d c pid now where "e = AInsert d c pid now"
  | (shrink) "\<And>d c pid now. e \<noteq> AInsert d c pid now"
      "authority_step e s = s \<or> (\<exists>pid. authority_step e s = snd (remove_id pid s))
       \<or> (\<exists>now. authority_step e s = remove_expired now s)
       \<or> authority_step e s = s\<lparr>as_pending := fmempty, as_by_host := fmempty\<rparr>
       \<or> authority_step e s = s\<lparr>as_sealed := True, as_pending := fmempty, as_by_host := fmempty\<rparr>"
proof (cases e)
  case (AConsume nop pid b now)
  then show ?thesis
    using authority_consume_snd [of nop pid b now s] by (intro shrink) auto
next
  case (ADiscard nop pid b now)
  then show ?thesis
    using authority_discard_snd [of nop pid b now s] by (intro shrink) auto
next
  case (ARevokeHost h)
  show ?thesis
  proof (cases "as_poisoned s \<or> fmlookup (as_by_host s) h = None")
    case True
    with ARevokeHost show ?thesis by (intro shrink) (auto simp: authority_revoke_host_def)
  next
    case False
    then obtain pid where "fmlookup (as_by_host s) h = Some pid" "\<not> as_poisoned s" by blast
    from revoke_host_eq_remove_id [OF assms this] ARevokeHost show ?thesis
      by (intro shrink) auto
  qed
next
  case (ARevokeSession h hs)
  then show ?thesis
    using authority_revoke_session_snd [of h hs s] by (intro shrink) auto
next
  case (APendingCount now)
  then show ?thesis by (intro shrink) (auto simp: authority_pending_count_def Let_def)
next
  case (AContains pid now)
  then show ?thesis by (intro shrink) (auto simp: authority_contains_def Let_def)
next
  case (AExpiryFires pid t)
  then show ?thesis by (intro shrink) (auto simp: authority_expiry_fires_def)
qed (use that in \<open>auto simp: authority_revoke_all_def seal_and_revoke_all_def\<close>)

lemma authority_inv_cleared:
  "authority_inv s \<Longrightarrow> authority_inv (s\<lparr>as_pending := fmempty, as_by_host := fmempty\<rparr>)"
  "authority_inv s \<Longrightarrow>
   authority_inv (s\<lparr>as_sealed := True, as_pending := fmempty, as_by_host := fmempty\<rparr>)"
  by (simp_all add: authority_inv_def)

lemma authority_step_inv:
  assumes "authority_inv s" "authority_enabled e s"
  shows "authority_inv (authority_step e s)"
  using assms(1)
proof (cases rule: authority_step_cases [where e = e])
  case (insert d c pid now)
  with assms show ?thesis by (simp add: authority_insert_inv)
next
  case shrink
  with assms(1) show ?thesis
    using remove_id_inv remove_expired_inv authority_inv_cleared by metis
qed

text \<open>A plan that is pending after a step was pending before it, unchanged, or is the new one.\<close>

lemma authority_step_pending:
  assumes "authority_inv s" "fmlookup (as_pending (authority_step e s)) i = Some a"
  shows "fmlookup (as_pending s) i = Some a \<or> authority_issues e i"
  using assms(1)
proof (cases rule: authority_step_cases [where e = e])
  case (insert d c pid now)
  then show ?thesis
    using assms(2)
    by (cases rule: authority_insert_cases [of d c pid now s]) (auto split: if_splits)
next
  case shrink
  from shrink(2) assms(2) show ?thesis
    by (elim disjE exE) (auto split: if_splits)
qed

lemma authority_step_sealed: "as_sealed s \<Longrightarrow> as_sealed (authority_step e s)"
  by (cases e)
    (auto simp: store_defs Let_def case_prod_beta split: option.splits)

section \<open>The store as a one-shot, sealable authority\<close>

lemma authority_consume_Ok_iff:
  "authority_consume nop pid b now s = (Ok ca, s') \<longleftrightarrow>
   \<not> as_poisoned s \<and> s' = snd (remove_id pid s) \<and>
   (\<exists>a. fmlookup (as_pending s) pid = Some a \<and> now < sa_expires_at a \<and> sa_binding a = b
      \<and> sa_operation_type a = nop \<and> sa_risk a = operation_RISK nop
      \<and> into_typed nop a = Some ca)"
  by (auto simp: authority_consume_def is_expired_def case_prod_beta ok_or_def
      split: option.splits)

interpretation authority: sealable authority_enabled authority_step authority_inv authority_live
  authority_issues "\<lambda>(nop, pid, b, now). pid" "\<lambda>(nop, pid, b, now). authority_consume nop pid b now"
  as_sealed
proof unfold_locales
  fix s e i
  show "authority_inv s \<Longrightarrow> authority_enabled e s \<Longrightarrow> authority_inv (authority_step e s)"
    by (rule authority_step_inv)
  show "authority_inv s \<Longrightarrow> authority_enabled e s \<Longrightarrow> authority_live (authority_step e s) i \<Longrightarrow>
      authority_live s i \<or> authority_issues e i"
    using authority_step_pending [of s e i] by (auto simp: authority_live_def)
  show "as_sealed s \<Longrightarrow> as_sealed (authority_step e s)"
    by (rule authority_step_sealed)
  show "authority_inv s \<Longrightarrow> as_sealed s \<Longrightarrow> \<not> authority_live s i"
    by (simp add: authority_inv_def authority_live_def)
next
  fix s s' q ca r
  show "authority_inv s \<Longrightarrow> (case q of (nop, pid, b, now) \<Rightarrow> authority_consume nop pid b now) s = (r, s') \<Longrightarrow>
      authority_inv s'"
    using authority_consume_snd remove_id_inv by (cases q) (metis case_prod_conv snd_conv)
  assume "(case q of (nop, pid, b, now) \<Rightarrow> authority_consume nop pid b now) s = (Ok ca, s')"
  then show "authority_live s (case q of (nop, pid, b, now) \<Rightarrow> pid)"
    "\<not> authority_live s' (case q of (nop, pid, b, now) \<Rightarrow> pid)"
    by (auto simp: authority_live_def authority_consume_Ok_iff split: prod.splits)
qed

section \<open>Properties\<close>

text \<open>A concrete plan for the witnesses.\<close>

definition ex_binding :: authority_binding where
  "ex_binding = \<lparr>ab_host_id = HostId 1, ab_host_session_id = HostSessionId 2, ab_generation = 3\<rparr>"

definition ex_draft :: plan_draft where
  "ex_draft = \<lparr>pd_operation = SystemdReload, pd_binding = ex_binding,
     pd_target = SystemdServiceUnitName ''ssh.service''\<rparr>"

abbreviation ex_plan_id :: remote_operation_plan_id where
  "ex_plan_id \<equiv> RemoteOperationPlanId 7"

definition ex_store :: authority_store where
  "ex_store = snd (authority_insert ex_draft ex_binding ex_plan_id 10 authority_store_default)"

definition ex_consumed :: consumed_authority where
  "ex_consumed = \<lparr>ca_operation = SystemdReload, ca_id = ex_plan_id, ca_binding = ex_binding,
     ca_risk = High, ca_issued_at = 10, ca_expires_at = 10 + PLAN_TTL,
     ca_target = SystemdServiceUnitName ''ssh.service''\<rparr>"

lemma ex_store_eq:
  "authority_insert ex_draft ex_binding ex_plan_id 10 authority_store_default =
   (Ok \<lparr>pr_id = ex_plan_id, pr_binding = ex_binding, pr_risk = High, pr_issued_at = 10,
        pr_expires_at = 10 + PLAN_TTL, pr_superseded = None\<rparr>, ex_store)"
  by (simp add: ex_store_def authority_insert_def Let_def ex_draft_def authority_store_default_def
      remove_expired_def)

lemma ex_store_fields:
  "as_pending ex_store =
     fmupd ex_plan_id (stored_authority_new ex_plan_id ex_draft 10 (10 + PLAN_TTL)) fmempty"
  "as_by_host ex_store = fmupd (HostId 1) ex_plan_id fmempty"
  "\<not> as_sealed ex_store" "\<not> as_poisoned ex_store" "as_ttl ex_store = PLAN_TTL"
  by (simp_all add: ex_store_def authority_insert_def Let_def ex_draft_def ex_binding_def
      authority_store_default_def remove_expired_def)

lemma ex_store_inv: "authority_inv ex_store"
  using authority_step_inv [of authority_store_default "AInsert ex_draft ex_binding ex_plan_id 10"]
  by (simp add: authority_inv_default ex_store_def) (simp add: authority_store_default_def)

lemma ex_store_consume:
  "authority_consume SystemdReload ex_plan_id ex_binding 20 ex_store =
   (Ok ex_consumed, snd (remove_id ex_plan_id ex_store))"
  by (simp add: authority_consume_Ok_iff ex_store_fields into_typed_def ex_draft_def
      ex_consumed_def PLAN_TTL_def from_secs_def)

text \<open>
  C31: Every sequence of plans, consumptions, discards, revocations, queries and expiry tasks that
  starts from the empty store keeps the store consistent: the by-host index and the pending map
  describe the same plans, each entry carries the risk and the body of its operation type, and a
  sealed store holds no plan.
\<close>

theorem authority_store_consistent:
  assumes "enabled_run authority_enabled authority_step es authority_store_default"
  shows "authority_inv (fold authority_step es authority_store_default)"
  using authority_inv_default assms by (rule authority.invar_run)

theorem authority_store_consistent_witness:
  "enabled_run authority_enabled authority_step
     [AInsert ex_draft ex_binding ex_plan_id 10, ARevokeHost (HostId 1)] authority_store_default \<and>
   authority_inv (fold authority_step
     [AInsert ex_draft ex_binding ex_plan_id 10, ARevokeHost (HostId 1)] authority_store_default)"
proof -
  have "enabled_run authority_enabled authority_step
     [AInsert ex_draft ex_binding ex_plan_id 10, ARevokeHost (HostId 1)] authority_store_default"
    by (simp add: authority_store_default_def)
  then show ?thesis using authority_store_consistent by blast
qed

text \<open>
  C2: A plan is redeemed at most once. After a successful consumption, no later consumption of the
  same identifier succeeds, for any operation, session and time, whatever happens to the store in
  between, as long as the identifier is not issued again.
\<close>

theorem authority_redeemed_once:
  assumes "authority_inv s" "authority_consume nop pid b now s = (Ok ca, s')"
    and "enabled_run authority_enabled authority_step es s'"
    and "\<forall>e\<in>set es. \<not> authority_issues e pid"
  shows "\<not> is_ok (fst (authority_consume nop' pid b' now' (fold authority_step es s')))"
  using authority.redeemed_once [of s "(nop, pid, b, now)" ca s' es "(nop', pid, b', now')"] assms
  by simp

theorem authority_redeemed_once_witness:
  "\<not> is_ok (fst (authority_consume SystemdReload ex_plan_id ex_binding 30
     (fold authority_step [ARevokeSession (HostId 1) (HostSessionId 2), APendingCount 25]
       (snd (remove_id ex_plan_id ex_store)))))"
  by (rule authority_redeemed_once [OF ex_store_inv ex_store_consume]) simp_all

text \<open>
  Round trip. A plan that was issued and is consumed under the same session binding and as the
  same operation before its deadline yields exactly what was planned, and is gone afterwards.
\<close>

theorem authority_plan_consume:
  assumes "authority_insert d c pid t s = (Ok r, s')" "t' < t + as_ttl s"
  shows "\<exists>s''. authority_consume (pd_operation d) pid c t' s' =
           (Ok \<lparr>ca_operation = pd_operation d, ca_id = pid, ca_binding = c,
                ca_risk = operation_RISK (pd_operation d), ca_issued_at = t,
                ca_expires_at = t + as_ttl s, ca_target = pd_target d\<rparr>, s'')
         \<and> fmlookup (as_pending s'') pid = None"
  using assms
  by (cases rule: authority_insert_cases [of d c pid t s])
    (auto simp: authority_consume_Ok_iff into_typed_def)

theorem authority_plan_consume_witness:
  "\<exists>s''. authority_consume (pd_operation ex_draft) ex_plan_id ex_binding 20 ex_store =
           (Ok \<lparr>ca_operation = pd_operation ex_draft, ca_id = ex_plan_id, ca_binding = ex_binding,
                ca_risk = operation_RISK (pd_operation ex_draft), ca_issued_at = 10,
                ca_expires_at = 10 + as_ttl authority_store_default,
                ca_target = pd_target ex_draft\<rparr>, s'')
         \<and> fmlookup (as_pending s'') ex_plan_id = None"
  by (rule authority_plan_consume [OF ex_store_eq])
    (simp add: authority_store_default_def PLAN_TTL_def from_secs_def)

text \<open>
  A caller with the wrong session, host or generation, or the wrong operation, neither obtains a
  live plan nor disturbs it: the error is returned and the store is unchanged.
\<close>

theorem authority_mismatch_harmless:
  assumes "fmlookup (as_pending s) pid = Some a" "now < sa_expires_at a" "\<not> as_poisoned s"
    and "b \<noteq> sa_binding a \<or> nop \<noteq> sa_operation_type a"
  shows "authority_consume nop pid b now s =
           (Err (if b \<noteq> sa_binding a then authority_stale else authority_policy), s)
         \<and> authority_discard nop pid b now s =
           (Err (if b \<noteq> sa_binding a then authority_stale else authority_policy), s)"
  using assms by (auto simp: authority_consume_def authority_discard_def is_expired_def)

theorem authority_mismatch_harmless_witness:
  "authority_consume SystemdStart ex_plan_id ex_binding 20 ex_store = (Err authority_policy, ex_store)
   \<and> authority_discard SystemdStart ex_plan_id ex_binding 20 ex_store = (Err authority_policy, ex_store)"
  using authority_mismatch_harmless [of ex_store ex_plan_id
      "stored_authority_new ex_plan_id ex_draft 10 (10 + PLAN_TTL)" 20 ex_binding SystemdStart]
  by (simp add: ex_store_fields ex_draft_def PLAN_TTL_def from_secs_def)

text \<open>
  Issuing a plan supersedes the host's previous one: afterwards the new plan is the only pending
  plan of that host, and the receipt names the plan it replaced.
\<close>

theorem authority_insert_supersedes:
  assumes "authority_inv s" "fmlookup (as_pending s) pid = None"
    and "authority_insert d c pid t s = (Ok r, s')"
  shows "{i. \<exists>a. fmlookup (as_pending s') i = Some a \<and> ab_host_id (sa_binding a) = ab_host_id c}
           = {pid}
       \<and> pr_superseded r = fmlookup (as_by_host (remove_expired t s)) (ab_host_id c)"
proof
  have inv: "authority_inv s'"
    using authority_insert_inv [OF assms(1,2), of d c t] assms(3) by simp
  have host: "fmlookup (as_by_host s') (ab_host_id c) = Some pid"
    using assms(3) by (cases rule: authority_insert_cases [of d c pid t s]) auto
  show "{i. \<exists>a. fmlookup (as_pending s') i = Some a \<and> ab_host_id (sa_binding a) = ab_host_id c} = {pid}"
    using authority_invD(2) [OF inv] authority_inv_by_hostD [OF inv host] host by force
  show "pr_superseded r = fmlookup (as_by_host (remove_expired t s)) (ab_host_id c)"
    using assms(3) by (cases rule: authority_insert_cases [of d c pid t s]) auto
qed

theorem authority_insert_supersedes_witness:
  "{i. \<exists>a. fmlookup (as_pending (snd (authority_insert ex_draft ex_binding
        (RemoteOperationPlanId 8) 20 ex_store))) i = Some a
        \<and> ab_host_id (sa_binding a) = ab_host_id ex_binding} = {RemoteOperationPlanId 8}"
proof -
  have "\<exists>r. authority_insert ex_draft ex_binding (RemoteOperationPlanId 8) 20 ex_store =
      (Ok r, snd (authority_insert ex_draft ex_binding (RemoteOperationPlanId 8) 20 ex_store))"
    by (cases rule: authority_insert_cases [of ex_draft ex_binding "RemoteOperationPlanId 8" 20 ex_store])
      (auto simp: ex_store_fields ex_draft_def)
  moreover have "fmlookup (as_pending ex_store) (RemoteOperationPlanId 8) = None"
    by (simp add: ex_store_fields)
  ultimately show ?thesis
    using authority_insert_supersedes [OF ex_store_inv] by blast
qed

text \<open>
  Shutdown is final. Once the store is sealed, no plan is ever consumed again and every attempt
  to issue one fails, whatever happens afterwards.
\<close>

theorem authority_sealed_forever:
  assumes "authority_inv s" "\<not> as_poisoned s" "seal_and_revoke_all s = (Ok (), s')"
    and "enabled_run authority_enabled authority_step es s'"
  shows "\<not> is_ok (fst (authority_consume nop pid b now (fold authority_step es s')))
       \<and> \<not> is_ok (fst (authority_insert d c pid now (fold authority_step es s')))"
proof
  have inv: "authority_inv s'"
    using authority_step_inv [OF assms(1), of ASealAndRevokeAll] assms(3) by simp
  have sealed: "as_sealed s'" using assms(2,3) by (auto simp: seal_and_revoke_all_def)
  show "\<not> is_ok (fst (authority_consume nop pid b now (fold authority_step es s')))"
    using authority.sealed_never_redeems [OF inv sealed assms(4), of "(nop, pid, b, now)"] by simp
  have "as_sealed (fold authority_step es s')" using sealed by (rule authority.sealed_run)
  then show "\<not> is_ok (fst (authority_insert d c pid now (fold authority_step es s')))"
    by (cases rule: authority_insert_cases [of d c pid now "fold authority_step es s'"]) auto
qed

theorem authority_sealed_forever_witness:
  "\<not> is_ok (fst (authority_consume SystemdReload ex_plan_id ex_binding 20
        (fold authority_step [APendingCount 15] (snd (seal_and_revoke_all ex_store)))))
   \<and> \<not> is_ok (fst (authority_insert ex_draft ex_binding ex_plan_id 20
        (fold authority_step [APendingCount 15] (snd (seal_and_revoke_all ex_store)))))"
  by (rule authority_sealed_forever [OF ex_store_inv])
    (simp_all add: ex_store_fields seal_and_revoke_all_def)

text \<open>
  Revoking a host removes every plan of that host and nothing else; it reports whether there was
  one.
\<close>

theorem authority_revoke_host_exact:
  assumes "authority_inv s" "\<not> as_poisoned s"
  shows "fmlookup (as_pending (snd (authority_revoke_host h s))) i =
           (case fmlookup (as_pending s) i of
              None \<Rightarrow> None
            | Some a \<Rightarrow> if ab_host_id (sa_binding a) = h then None else Some a)
       \<and> fst (authority_revoke_host h s) =
           Ok (\<exists>j a. fmlookup (as_pending s) j = Some a \<and> ab_host_id (sa_binding a) = h)"
proof (cases "fmlookup (as_by_host s) h")
  case None
  then have "ab_host_id (sa_binding a) \<noteq> h" if "fmlookup (as_pending s) j = Some a" for j a
    using authority_invD(2) [OF assms(1) that] by auto
  with None assms(2) show ?thesis
    by (auto simp: authority_revoke_host_def split: option.splits)
next
  case (Some pid)
  with assms(1) obtain a where a: "fmlookup (as_pending s) pid = Some a" "ab_host_id (sa_binding a) = h"
    by (rule authority_inv_by_host)
  have "ab_host_id (sa_binding b) \<noteq> h" if "fmlookup (as_pending s) j = Some b" "j \<noteq> pid" for j b
    using one_plan_per_host [OF assms(1) that(1) a(1)] a(2) that(2) by auto
  with Some a assms(2) show ?thesis
    by (auto simp: authority_revoke_host_def split: option.splits)
qed

theorem authority_revoke_host_exact_witness:
  "fst (authority_revoke_host (HostId 1) ex_store) = Ok True
   \<and> fmlookup (as_pending (snd (authority_revoke_host (HostId 1) ex_store))) ex_plan_id = None"
  using authority_revoke_host_exact [OF ex_store_inv, of "HostId 1" ex_plan_id]
  by (auto simp: ex_store_fields ex_draft_def ex_binding_def)

end
