(* ===== verification/Remote_Operations.thy ===== *)
theory Remote_Operations
  imports Authority_Store
begin

text \<open>
  \<^verbatim>\<open>crates/nexus-remote-operations/src/{admission,outcome,lib}.rs\<close>: non-queuing admission (one
  gate per host, one execution permit for the process), the outcome of a dispatched mutation, and
  \<open>RemoteOperationFoundation::execute\<close>, which ties admission, consumption, revalidation and
  dispatch together.
\<close>

section \<open>Admission\<close>

text \<open>
  Who holds a host's \<open>AsyncMutex\<close>: nobody, an \<open>ExecutionPermit\<close>, or a lifecycle guard.
\<close>

datatype gate = GateFree | GateExecution | GateLifecycle

record execution_admission =
  ea_host_gates :: "(host_id, gate) fmap"
  ea_global :: nat
  ea_poisoned :: bool

definition execution_admission_default :: execution_admission where
  "execution_admission_default = \<lparr>ea_host_gates = fmempty, ea_global = 1, ea_poisoned = False\<rparr>"

definition admission_busy :: app_error where
  "admission_busy = AppError_new Conflict ''Another remote operation is already in progress.''"

definition admission_unavailable :: app_error where
  "admission_unavailable = AppError_new Conflict ''Remote operation admission is unavailable.''"

text \<open>\<open>host_gate\<close>: the host's gate, created free on first use.\<close>

definition host_gate :: "host_id \<Rightarrow> execution_admission \<Rightarrow> gate app_result \<times> execution_admission" where
  "host_gate h s =
     (if ea_poisoned s then (Err admission_unavailable, s)
      else (case fmlookup (ea_host_gates s) h of
              Some g \<Rightarrow> (Ok g, s)
            | None \<Rightarrow> (Ok GateFree, s\<lparr>ea_host_gates := fmupd h GateFree (ea_host_gates s)\<rparr>)))"

definition set_gate :: "host_id \<Rightarrow> gate \<Rightarrow> execution_admission \<Rightarrow> execution_admission" where
  "set_gate h g s = s\<lparr>ea_host_gates := fmupd h g (ea_host_gates s)\<rparr>"

text \<open>
  \<open>try_execute\<close>: first the host's gate, then the global permit; if the permit is taken, the host
  guard is dropped on the way out. The permit is the host identifier.
\<close>

definition try_execute :: "host_id \<Rightarrow> execution_admission \<Rightarrow> host_id app_result \<times> execution_admission" where
  "try_execute h s =
     (case host_gate h s of
        (Err e, s1) \<Rightarrow> (Err e, s1)
      | (Ok g, s1) \<Rightarrow>
          if g \<noteq> GateFree then (Err admission_busy, s1)
          else let s2 = set_gate h GateExecution s1
               in if ea_global s2 = 0 then (Err admission_busy, set_gate h GateFree s2)
                  else (Ok h, s2\<lparr>ea_global := ea_global s2 - 1\<rparr>))"

definition drop_execution_permit :: "host_id \<Rightarrow> execution_admission \<Rightarrow> execution_admission" where
  "drop_execution_permit h s = (set_gate h GateFree s)\<lparr>ea_global := ea_global s + 1\<rparr>"

definition try_lifecycle_guard :: "host_id \<Rightarrow> execution_admission \<Rightarrow> unit app_result \<times> execution_admission" where
  "try_lifecycle_guard h s =
     (case host_gate h s of
        (Err e, s1) \<Rightarrow> (Err e, s1)
      | (Ok g, s1) \<Rightarrow>
          if g \<noteq> GateFree then (Err admission_busy, s1) else (Ok (), set_gate h GateLifecycle s1))"

text \<open>
  \<open>lifecycle_guard\<close> waits until the gate is free; \<open>None\<close> is still waiting.
\<close>

definition lifecycle_guard ::
  "host_id \<Rightarrow> execution_admission \<Rightarrow> (unit app_result \<times> execution_admission) option" where
  "lifecycle_guard h s =
     (case host_gate h s of
        (Err e, s1) \<Rightarrow> Some (Err e, s1)
      | (Ok g, s1) \<Rightarrow> if g = GateFree then Some (Ok (), set_gate h GateLifecycle s1) else None)"

definition drop_lifecycle_guard :: "host_id \<Rightarrow> execution_admission \<Rightarrow> execution_admission" where
  "drop_lifecycle_guard h s = set_gate h GateFree s"

datatype admission_event =
    MTryExecute host_id
  | MDropPermit host_id
  | MTryLifecycle host_id
  | MLifecycle host_id
  | MDropLifecycle host_id

fun admission_step :: "admission_event \<Rightarrow> execution_admission \<Rightarrow> execution_admission" where
  "admission_step (MTryExecute h) s = snd (try_execute h s)"
| "admission_step (MDropPermit h) s = drop_execution_permit h s"
| "admission_step (MTryLifecycle h) s = snd (try_lifecycle_guard h s)"
| "admission_step (MLifecycle h) s = (case lifecycle_guard h s of None \<Rightarrow> s | Some (r, s') \<Rightarrow> s')"
| "admission_step (MDropLifecycle h) s = drop_lifecycle_guard h s"

text \<open>A permit or guard is dropped by its owner, so only while it is held.\<close>

fun admission_enabled :: "admission_event \<Rightarrow> execution_admission \<Rightarrow> bool" where
  "admission_enabled (MDropPermit h) s = (fmlookup (ea_host_gates s) h = Some GateExecution)"
| "admission_enabled (MDropLifecycle h) s = (fmlookup (ea_host_gates s) h = Some GateLifecycle)"
| "admission_enabled _ s = True"

text \<open>The hosts with an execution in flight, and the invariant: permits are conserved.\<close>

definition executing :: "execution_admission \<Rightarrow> host_id fset" where
  "executing s = ffilter (\<lambda>h. fmlookup (ea_host_gates s) h = Some GateExecution) (fmdom (ea_host_gates s))"

definition admission_inv :: "execution_admission \<Rightarrow> bool" where
  "admission_inv s = (ea_global s + fcard (executing s) = 1)"

section \<open>Outcomes\<close>

datatype remote_operation_outcome = OSuccess | OFailed | OCancelled | OOutcomeUnknown

datatype not_dispatched_reason = NDCancelled | NDTimeout | NDConnection | NDRejected

datatype completion_unknown_reason = CUCancelled | CUTimeout | CUConnectionLost | CUOutputLimit

datatype mutation_transport_outcome =
    NotDispatched not_dispatched_reason
  | CompletionConfirmed bool
  | CompletionUnknown completion_unknown_reason

fun operation_outcome :: "mutation_transport_outcome \<Rightarrow> remote_operation_outcome" where
  "operation_outcome (NotDispatched r) = (if r = NDCancelled then OCancelled else OFailed)"
| "operation_outcome (CompletionConfirmed success) = (if success then OSuccess else OFailed)"
| "operation_outcome (CompletionUnknown _) = OOutcomeUnknown"

datatype execution_terminal =
    RevalidationFailed
  | CancelledBeforeDispatch
  | Transport mutation_transport_outcome

record execution_result =
  er_outcome :: remote_operation_outcome
  er_terminal :: execution_terminal

section \<open>Execution\<close>

text \<open>
  What \<open>execute\<close> meets on its way: the operations other tasks perform on the store between its
  critical sections, the admission events during the run, and what each look at the cancellation
  token sees. The revalidator and the transport are traits; they are arguments.
\<close>

record execute_env =
  xe_before_recheck :: "authority_event list"
  xe_before_consume :: "authority_event list"
  xe_during_revalidate :: "authority_event list"
  xe_admission :: "admission_event list"
  xe_cancelled_after_consume :: bool
  xe_cancelled_after_refusal :: bool
  xe_cancelled_before_dispatch :: bool

record execute_run =
  xr_result :: "execution_result app_result"
  xr_store :: authority_store
  xr_admission :: execution_admission
  xr_dispatched :: "consumed_authority list"

definition cancelled_before_dispatch :: execution_result where
  "cancelled_before_dispatch =
     \<lparr>er_outcome = OCancelled, er_terminal = CancelledBeforeDispatch\<rparr>"

definition revalidation_failed :: execution_result where
  "revalidation_failed = \<lparr>er_outcome = OFailed, er_terminal = RevalidationFailed\<rparr>"

text \<open>The part of \<open>execute\<close> after consumption.\<close>

definition execute_consumed ::
  "(consumed_authority \<Rightarrow> unit app_result) \<Rightarrow> (consumed_authority \<Rightarrow> mutation_transport_outcome) \<Rightarrow>
   execute_env \<Rightarrow> consumed_authority \<Rightarrow> authority_store \<Rightarrow>
   execution_result \<times> authority_store \<times> consumed_authority list" where
  "execute_consumed revalidate dispatch env authority s =
     (if xe_cancelled_after_consume env then (cancelled_before_dispatch, s, [])
      else
        let s' = fold authority_step (xe_during_revalidate env) s
        in (case revalidate authority of
              Err _ \<Rightarrow>
                if xe_cancelled_after_refusal env then (cancelled_before_dispatch, s', [])
                else (revalidation_failed, s', [])
            | Ok _ \<Rightarrow>
                if (case authority_is_sealed s' of Ok b \<Rightarrow> b | Err _ \<Rightarrow> True)
                    \<or> xe_cancelled_before_dispatch env
                then (cancelled_before_dispatch, s', [])
                else let out = dispatch authority
                     in (\<lparr>er_outcome = operation_outcome out, er_terminal = Transport out\<rparr>,
                         s', [authority])))"

definition execute ::
  "native_operation \<Rightarrow> remote_operation_plan_id \<Rightarrow> authority_binding \<Rightarrow>
   (consumed_authority \<Rightarrow> unit app_result) \<Rightarrow> (consumed_authority \<Rightarrow> mutation_transport_outcome) \<Rightarrow>
   execute_env \<Rightarrow> instant \<Rightarrow> authority_store \<Rightarrow> execution_admission \<Rightarrow> execute_run" where
  "execute nop pid binding revalidate dispatch env now s adm =
     (case authority_is_sealed s of
        Err e \<Rightarrow> \<lparr>xr_result = Err e, xr_store = s, xr_admission = adm, xr_dispatched = []\<rparr>
      | Ok True \<Rightarrow> \<lparr>xr_result = Err shutting_down, xr_store = s, xr_admission = adm, xr_dispatched = []\<rparr>
      | Ok False \<Rightarrow>
          (case try_execute (ab_host_id binding) adm of
             (Err e, adm1) \<Rightarrow> \<lparr>xr_result = Err e, xr_store = s, xr_admission = adm1, xr_dispatched = []\<rparr>
           | (Ok permit, adm1) \<Rightarrow>
               let s1 = fold authority_step (xe_before_recheck env) s;
                   adm2 = drop_execution_permit permit (fold admission_step (xe_admission env) adm1)
               in (case authority_is_sealed s1 of
                     Err e \<Rightarrow> \<lparr>xr_result = Err e, xr_store = s1, xr_admission = adm2, xr_dispatched = []\<rparr>
                   | Ok True \<Rightarrow>
                       \<lparr>xr_result = Err shutting_down, xr_store = s1, xr_admission = adm2, xr_dispatched = []\<rparr>
                   | Ok False \<Rightarrow>
                       let s2 = fold authority_step (xe_before_consume env) s1
                       in (case authority_consume nop pid binding now s2 of
                             (Err e, s3) \<Rightarrow>
                               \<lparr>xr_result = Err e, xr_store = s3, xr_admission = adm2, xr_dispatched = []\<rparr>
                           | (Ok authority, s3) \<Rightarrow>
                               (case execute_consumed revalidate dispatch env authority s3 of
                                  (r, s4, ds) \<Rightarrow>
                                    \<lparr>xr_result = Ok r, xr_store = s4, xr_admission = adm2,
                                     xr_dispatched = ds\<rparr>)))))"

section \<open>Admission lemmas\<close>

lemmas [store_defs] = host_gate_def set_gate_def try_execute_def drop_execution_permit_def
  try_lifecycle_guard_def lifecycle_guard_def drop_lifecycle_guard_def

lemma in_executing [simp]:
  "h |\<in>| executing s \<longleftrightarrow> fmlookup (ea_host_gates s) h = Some GateExecution"
  by (auto simp: executing_def intro: fmdomI)

lemma executing_upd [simp]:
  "executing (s\<lparr>ea_host_gates := fmupd h g (ea_host_gates s)\<rparr>) =
     (if g = GateExecution then finsert h (executing s) else executing s |-| {|h|})"
  by (rule fset_eqI) (auto split: if_splits)

lemma executing_global [simp]: "executing (s\<lparr>ea_global := n\<rparr>) = executing s"
  by (simp add: executing_def)

lemma executing_not_held [simp]:
  "fmlookup (ea_host_gates s) h \<noteq> Some GateExecution \<Longrightarrow> executing s |-| {|h|} = executing s"
  by (rule fset_eqI) auto

lemma executing_release:
  "fmlookup (ea_host_gates s) h = Some GateExecution \<Longrightarrow>
   Suc (fcard (executing s |-| {|h|})) = fcard (executing s)"
  by (metis fcard_Suc_fminus1 in_executing)

lemma executing_none:
  "admission_inv s \<Longrightarrow> ea_global s \<noteq> 0 \<Longrightarrow> executing s = {||} \<and> ea_global s = 1"
  by (cases "ea_global s") (auto simp: admission_inv_def)

lemma try_execute_inv:
  assumes "admission_inv s"
  shows "admission_inv (snd (try_execute h s))"
proof (cases "ea_global s = 0")
  case True
  with assms show ?thesis
    by (auto simp: admission_inv_def store_defs Let_def split: option.splits)
next
  case False
  with assms executing_none [OF assms] show ?thesis
    by (simp add: admission_inv_def store_defs Let_def fcard_finsert_disjoint split: option.splits)
qed

lemma admission_step_inv:
  assumes "admission_inv s" "admission_enabled e s"
  shows "admission_inv (admission_step e s)"
proof (cases e)
  case (MTryExecute h)
  then show ?thesis using assms(1) by (simp add: try_execute_inv)
next
  case (MDropPermit h)
  then show ?thesis
    using assms executing_release [of s h]
    by (simp add: admission_inv_def drop_execution_permit_def set_gate_def)
next
  case (MTryLifecycle h)
  then show ?thesis
    using assms by (auto simp: admission_inv_def store_defs split: option.splits)
next
  case (MLifecycle h)
  then show ?thesis
    using assms by (auto simp: admission_inv_def store_defs split: option.splits)
next
  case (MDropLifecycle h)
  then show ?thesis
    using assms by (simp add: admission_inv_def drop_lifecycle_guard_def set_gate_def)
qed

interpretation admission: bounded_store admission_enabled admission_step admission_inv
  "\<lambda>s. fcard (executing s)" 1
  by unfold_locales (simp_all add: admission_step_inv, simp add: admission_inv_def)

lemma admission_inv_default: "admission_inv execution_admission_default"
proof -
  have "executing execution_admission_default = {||}"
    by (rule fset_eqI) (simp add: execution_admission_default_def)
  then show ?thesis by (simp add: admission_inv_def execution_admission_default_def)
qed

lemma try_execute_Ok:
  "try_execute h s = (Ok p, s') \<Longrightarrow>
   p = h \<and> fmlookup (ea_host_gates s') h = Some GateExecution \<and> ea_global s = Suc (ea_global s')"
  by (auto simp: store_defs Let_def split: option.splits if_splits)

lemma try_execute_Err:
  "try_execute h s = (Err e, s') \<Longrightarrow>
   executing s' = executing s \<and> ea_global s' = ea_global s \<and> e \<in> {admission_busy, admission_unavailable}"
  by (auto simp: store_defs Let_def split: option.splits if_splits)

lemma held_permit_kept:
  assumes "fmlookup (ea_host_gates s) h = Some GateExecution" "MDropPermit h \<noteq> e" "admission_enabled e s"
  shows "fmlookup (ea_host_gates (admission_step e s)) h = Some GateExecution"
  using assms by (cases e) (auto simp: store_defs Let_def split: option.splits)

lemma held_permit_kept_run:
  "fmlookup (ea_host_gates s) h = Some GateExecution \<Longrightarrow> MDropPermit h \<notin> set es \<Longrightarrow>
   enabled_run admission_enabled admission_step es s \<Longrightarrow>
   fmlookup (ea_host_gates (fold admission_step es s)) h = Some GateExecution"
  by (induction es arbitrary: s) (auto intro: held_permit_kept)

section \<open>Execution lemmas\<close>

lemma execute_consumed_cases:
  assumes "execute_consumed revalidate dispatch env ca s = (r, s', ds)"
  obtains (cancelled) "r = cancelled_before_dispatch" "ds = []"
  | (refused) "r = revalidation_failed" "ds = []" "\<not> is_ok (revalidate ca)"
  | (dispatched) "ds = [ca]" "is_ok (revalidate ca)" "\<not> as_sealed s'" "\<not> as_poisoned s'"
      "\<not> xe_cancelled_after_consume env" "\<not> xe_cancelled_before_dispatch env"
      "s' = fold authority_step (xe_during_revalidate env) s"
      "er_terminal r = Transport (dispatch ca)" "er_outcome r = operation_outcome (dispatch ca)"
proof (cases "xe_cancelled_after_consume env")
  case True
  with assms cancelled show ?thesis by (simp add: execute_consumed_def)
next
  case live: False
  let ?s = "fold authority_step (xe_during_revalidate env) s"
  show ?thesis
  proof (cases "revalidate ca")
    case (Err e)
    with assms live cancelled refused show ?thesis
      by (cases "xe_cancelled_after_refusal env") (simp_all add: execute_consumed_def)
  next
    case (Ok u)
    show ?thesis
    proof (cases "as_poisoned ?s \<or> as_sealed ?s \<or> xe_cancelled_before_dispatch env")
      case True
      with assms live Ok cancelled show ?thesis
        by (auto simp: execute_consumed_def authority_is_sealed_def Let_def split: if_splits)
    next
      case False
      have "r = \<lparr>er_outcome = operation_outcome (dispatch ca), er_terminal = Transport (dispatch ca)\<rparr>"
        "s' = ?s" "ds = [ca]"
        using assms live Ok False by (simp_all add: execute_consumed_def authority_is_sealed_def Let_def)
      with live Ok False show ?thesis by (intro dispatched) simp_all
    qed
  qed
qed

text \<open>The store operations around a run that reaches dispatch, its own consumption included.\<close>

definition before_dispatch ::
  "native_operation \<Rightarrow> remote_operation_plan_id \<Rightarrow> authority_binding \<Rightarrow> instant \<Rightarrow> execute_env \<Rightarrow>
   authority_event list" where
  "before_dispatch nop pid b now env =
     xe_before_recheck env @ xe_before_consume env @ AConsume nop pid b now # xe_during_revalidate env"

definition at_consume :: "execute_env \<Rightarrow> authority_store \<Rightarrow> authority_store" where
  "at_consume env s = fold authority_step (xe_before_recheck env @ xe_before_consume env) s"

lemma consumed_authority_fields:
  assumes "authority_consume nop pid b now s = (Ok ca, s')" "authority_inv s"
  shows "ca_id ca = pid \<and> ca_operation ca = nop \<and> ca_binding ca = b \<and> now < ca_expires_at ca
    \<and> s' = snd (remove_id pid s)"
proof -
  from assms(1) obtain a where a: "fmlookup (as_pending s) pid = Some a" "now < sa_expires_at a"
      "sa_binding a = b" "into_typed nop a = Some ca" "s' = snd (remove_id pid s)"
    by (auto simp: authority_consume_Ok_iff)
  moreover have "authority_entry_ok pid a"
    using authority_invD(1) [OF assms(2) a(1)] .
  ultimately show ?thesis
    by (auto simp: into_typed_def authority_entry_ok_def split: if_splits authority_body.splits)
qed

text \<open>Every run either stops before consumption or continues with \<open>execute_consumed\<close>.\<close>

lemma execute_cases:
  obtains (stopped) e where "xr_result (execute nop pid b rv di env now s adm) = Err e"
      "xr_dispatched (execute nop pid b rv di env now s adm) = []"
  | (consumed) ca s3 r s4 ds
    where "authority_consume nop pid b now (at_consume env s) = (Ok ca, s3)"
      "execute_consumed rv di env ca s3 = (r, s4, ds)"
      "xr_result (execute nop pid b rv di env now s adm) = Ok r"
      "xr_dispatched (execute nop pid b rv di env now s adm) = ds"
      "xr_store (execute nop pid b rv di env now s adm) = s4"
proof (cases "authority_is_sealed s = Ok False \<and> is_ok (fst (try_execute (ab_host_id b) adm))
    \<and> authority_is_sealed (fold authority_step (xe_before_recheck env) s) = Ok False
    \<and> is_ok (fst (authority_consume nop pid b now (at_consume env s)))")
  case True
  then obtain p adm1 ca s3 where ok: "authority_is_sealed s = Ok False"
      "authority_is_sealed (fold authority_step (xe_before_recheck env) s) = Ok False"
      "try_execute (ab_host_id b) adm = (Ok p, adm1)"
      "authority_consume nop pid b now (at_consume env s) = (Ok ca, s3)"
    by (metis is_ok_iff prod.collapse)
  obtain r s4 ds where ec: "execute_consumed rv di env ca s3 = (r, s4, ds)"
    by (cases "execute_consumed rv di env ca s3") auto
  show ?thesis
    using ok by (intro consumed [OF ok(4) ec]) (simp_all add: execute_def at_consume_def ec Let_def)
next
  case False
  then have "\<exists>e. xr_result (execute nop pid b rv di env now s adm) = Err e
      \<and> xr_dispatched (execute nop pid b rv di env now s adm) = []"
    by (auto simp: execute_def at_consume_def Let_def split: result.split prod.split bool.split)
  then show ?thesis using stopped by blast
qed

lemma dispatched_run:
  assumes "xr_dispatched (execute nop pid b rv di env now s adm) \<noteq> []"
  shows "\<exists>ca s3. authority_consume nop pid b now (at_consume env s) = (Ok ca, s3)
    \<and> xr_dispatched (execute nop pid b rv di env now s adm) = [ca]
    \<and> xr_store (execute nop pid b rv di env now s adm)
        = fold authority_step (xe_during_revalidate env) s3"
proof (cases rule: execute_cases [of nop pid b rv di env now s adm])
  case stopped
  with assms show ?thesis by simp
next
  case (consumed ca s3 r s4 ds)
  from consumed(2) show ?thesis
    by (cases rule: execute_consumed_cases) (use assms consumed in simp_all)
qed

section \<open>Properties\<close>

definition ex_env :: execute_env where
  "ex_env = \<lparr>xe_before_recheck = [], xe_before_consume = [ARevokeHost (HostId 5)],
     xe_during_revalidate = [ARevokeHost (HostId 1)], xe_admission = [MTryExecute (HostId 9)],
     xe_cancelled_after_consume = False, xe_cancelled_after_refusal = False,
     xe_cancelled_before_dispatch = False\<rparr>"

abbreviation ex_run :: execute_run where
  "ex_run \<equiv> execute SystemdReload ex_plan_id ex_binding (\<lambda>_. Ok ()) (\<lambda>_. CompletionConfirmed True)
     ex_env 20 ex_store execution_admission_default"

lemma ex_run_env:
  "at_consume ex_env ex_store = ex_store"
  "enabled_run authority_enabled authority_step
     (xe_before_recheck ex_env @ xe_before_consume ex_env) ex_store"
  by (simp_all add: at_consume_def ex_env_def authority_revoke_host_def ex_store_fields)

lemma ex_run_dispatched: "xr_dispatched ex_run = [ex_consumed]"
  "xr_result ex_run = Ok \<lparr>er_outcome = OSuccess, er_terminal = Transport (CompletionConfirmed True)\<rparr>"
  using ex_store_consume ex_run_env(1)
  by (simp_all add: execute_def at_consume_def authority_is_sealed_def execute_consumed_def Let_def
      ex_store_fields ex_env_def store_defs execution_admission_default_def case_prod_beta)

text \<open>
  C1: Dispatch is authorised. Whatever other tasks do to the store between the critical sections of
  \<open>execute\<close>, the transport is called at most once per run, and only for an authority that this run
  itself consumed: it is the requested plan, issued for this operation and this session binding,
  not expired, revalidated, and at the last look neither was the process shutting down nor the
  request cancelled.
\<close>

theorem execute_dispatch_authorised:
  assumes "authority_inv s"
    and "enabled_run authority_enabled authority_step (xe_before_recheck env @ xe_before_consume env) s"
    and "xr_dispatched (execute nop pid b rv di env now s adm) \<noteq> []"
  shows "\<exists>ca. xr_dispatched (execute nop pid b rv di env now s adm) = [ca]
      \<and> authority_consume nop pid b now (at_consume env s) =
          (Ok ca, snd (remove_id pid (at_consume env s)))
      \<and> ca_id ca = pid \<and> ca_operation ca = nop \<and> ca_binding ca = b \<and> now < ca_expires_at ca
      \<and> is_ok (rv ca)
      \<and> \<not> as_sealed (xr_store (execute nop pid b rv di env now s adm))
      \<and> \<not> xe_cancelled_before_dispatch env"
proof -
  have inv: "authority_inv (at_consume env s)"
    using assms(1,2) unfolding at_consume_def by (rule authority.invar_run)
  show ?thesis
  proof (cases rule: execute_cases [of nop pid b rv di env now s adm])
    case stopped
    with assms(3) show ?thesis by simp
  next
    case (consumed ca s3 r s4 ds)
    from consumed(2) assms(3) consumed show ?thesis
    proof (cases rule: execute_consumed_cases)
      case dispatched
      have "ca_id ca = pid \<and> ca_operation ca = nop \<and> ca_binding ca = b \<and> now < ca_expires_at ca
          \<and> s3 = snd (remove_id pid (at_consume env s))"
        using consumed(1) inv by (rule consumed_authority_fields)
      with dispatched consumed show ?thesis by simp
    qed simp_all
  qed
qed

theorem execute_dispatch_authorised_witness:
  "\<exists>ca. xr_dispatched ex_run = [ca]
      \<and> authority_consume SystemdReload ex_plan_id ex_binding 20 (at_consume ex_env ex_store) =
          (Ok ca, snd (remove_id ex_plan_id (at_consume ex_env ex_store)))
      \<and> ca_id ca = ex_plan_id \<and> ca_operation ca = SystemdReload \<and> ca_binding ca = ex_binding
      \<and> 20 < ca_expires_at ca \<and> \<not> as_sealed (xr_store ex_run)
      \<and> \<not> xe_cancelled_before_dispatch ex_env"
proof -
  have "xr_dispatched ex_run \<noteq> []" by (simp add: ex_run_dispatched)
  from execute_dispatch_authorised [OF ex_store_inv ex_run_env(2) this] show ?thesis by blast
qed

text \<open>
  C3: A plan identifier reaches the transport at most once in its life. Two runs of \<open>execute\<close> for
  the same identifier, with arbitrary operations, bindings, revalidators and transports, and any
  store activity in and between them that does not issue the identifier again, dispatch at most
  once together.
\<close>

theorem execute_at_most_one_dispatch:
  fixes run1 run2 :: execute_run
  assumes "authority_inv s"
    and "run1 = execute nop pid b rv di env now s adm"
    and "run2 = execute nop' pid b' rv' di' env' now' (fold authority_step es (xr_store run1)) adm'"
    and "enabled_run authority_enabled authority_step (before_dispatch nop pid b now env @ es
           @ xe_before_recheck env' @ xe_before_consume env') s"
    and "\<forall>e\<in>set (xe_during_revalidate env @ es @ xe_before_recheck env' @ xe_before_consume env').
           \<not> authority_issues e pid"
  shows "length (xr_dispatched run1 @ xr_dispatched run2) \<le> 1"
proof (cases "xr_dispatched run1 = []")
  case True
  then show ?thesis
    by (cases rule: execute_cases [of nop' pid b' rv' di' env' now' "fold authority_step es (xr_store run1)" adm'])
      (auto simp: assms(3) elim: execute_consumed_cases)
next
  case False
  let ?later = "xe_during_revalidate env @ es @ xe_before_recheck env' @ xe_before_consume env'"
  from False obtain ca s3 where
    c: "authority_consume nop pid b now (at_consume env s) = (Ok ca, s3)"
    and d: "xr_dispatched run1 = [ca]"
    and st: "xr_store run1 = fold authority_step (xe_during_revalidate env) s3"
    using dispatched_run [of nop pid b rv di env now s adm] assms(2) by auto
  have en: "enabled_run authority_enabled authority_step (xe_before_recheck env @ xe_before_consume env) s"
    "enabled_run authority_enabled authority_step ?later s3"
    using assms(4) c by (auto simp: before_dispatch_def enabled_run_append at_consume_def)
  have "authority_inv (at_consume env s)"
    using assms(1) en(1) unfolding at_consume_def by (rule authority.invar_run)
  then have "\<not> is_ok (fst (authority_consume nop' pid b' now' (fold authority_step ?later s3)))"
    using authority.redeemed_once [of "at_consume env s" "(nop, pid, b, now)" ca s3 ?later
        "(nop', pid, b', now')"] c en(2) assms(5) by simp
  then have "xr_dispatched run2 = []"
    by (cases rule: execute_cases [of nop' pid b' rv' di' env' now' "fold authority_step es (xr_store run1)" adm'])
      (simp_all add: assms(3) st at_consume_def)
  with d show ?thesis by simp
qed

theorem execute_at_most_one_dispatch_witness:
  "length (xr_dispatched ex_run @ xr_dispatched
     (execute SystemdReload ex_plan_id ex_binding (\<lambda>_. Ok ()) (\<lambda>_. CompletionConfirmed True) ex_env 30
        (fold authority_step [ARevokeHost (HostId 4)] (xr_store ex_run)) execution_admission_default)) \<le> 1"
  by (rule execute_at_most_one_dispatch [OF ex_store_inv refl refl])
    (simp_all add: before_dispatch_def ex_env_def)

text \<open>
  A refused admission preserves the plan. When the host's gate or the process-wide permit is
  taken, \<open>execute\<close> reports the admission error, leaves the store as it was, dispatches nothing, and
  leaves the set of executing hosts and the permit count unchanged.
\<close>

theorem execute_busy_preserves_plan:
  assumes "authority_is_sealed s = Ok False" "try_execute (ab_host_id b) adm = (Err e, adm')"
  shows "xr_result (execute nop pid b rv di env now s adm) = Err e
      \<and> e \<in> {admission_busy, admission_unavailable}
      \<and> xr_store (execute nop pid b rv di env now s adm) = s
      \<and> xr_dispatched (execute nop pid b rv di env now s adm) = []
      \<and> executing (xr_admission (execute nop pid b rv di env now s adm)) = executing adm
      \<and> ea_global (xr_admission (execute nop pid b rv di env now s adm)) = ea_global adm"
  using try_execute_Err [OF assms(2)] assms by (simp add: execute_def)

definition ex_busy :: execution_admission where
  "ex_busy = snd (try_execute (HostId 9) execution_admission_default)"

theorem execute_busy_preserves_plan_witness:
  "xr_store (execute SystemdReload ex_plan_id ex_binding (\<lambda>_. Ok ()) (\<lambda>_. CompletionConfirmed True)
     ex_env 20 ex_store ex_busy) = ex_store"
proof -
  have "authority_is_sealed ex_store = Ok False"
    by (simp add: authority_is_sealed_def ex_store_fields)
  moreover have "try_execute (ab_host_id ex_binding) ex_busy =
      (Err admission_busy, snd (try_execute (ab_host_id ex_binding) ex_busy))"
    by (simp add: ex_busy_def store_defs execution_admission_default_def ex_binding_def Let_def)
  ultimately show ?thesis using execute_busy_preserves_plan by blast
qed

text \<open>
  C33: The reported outcome is honest. Success is reported only when the transport confirmed it; an
  unknown outcome only after a dispatch the transport could not confirm; failure and cancellation
  only when the mutation was not dispatched or was confirmed as failed.
\<close>

theorem execute_outcome_honest:
  assumes "xr_result (execute nop pid b rv di env now s adm) = Ok r"
  shows "let ds = xr_dispatched (execute nop pid b rv di env now s adm) in
    case er_outcome r of
      OSuccess \<Rightarrow> \<exists>ca. ds = [ca] \<and> di ca = CompletionConfirmed True
    | OOutcomeUnknown \<Rightarrow> \<exists>ca why. ds = [ca] \<and> di ca = CompletionUnknown why
    | OFailed \<Rightarrow> ds = [] \<or> (\<exists>ca. ds = [ca] \<and>
        (di ca = CompletionConfirmed False \<or> (\<exists>why. di ca = NotDispatched why \<and> why \<noteq> NDCancelled)))
    | OCancelled \<Rightarrow> ds = [] \<or> (\<exists>ca. ds = [ca] \<and> di ca = NotDispatched NDCancelled)"
proof (cases rule: execute_cases [of nop pid b rv di env now s adm])
  case stopped
  with assms show ?thesis by simp
next
  case (consumed ca s3 r' s4 ds)
  with assms have r: "r' = r" by simp
  from consumed(2) show ?thesis
  proof (cases rule: execute_consumed_cases)
    case dispatched
    then show ?thesis
      using consumed r by (cases "di ca") auto
  qed (use consumed r in \<open>simp_all add: cancelled_before_dispatch_def revalidation_failed_def\<close>)
qed

theorem execute_outcome_honest_witness:
  "\<exists>ca. xr_dispatched ex_run = [ca]"
  using execute_outcome_honest [OF ex_run_dispatched(2)] by simp



text \<open>
  A run returns its permit. If nobody else drops this run's permit, admission is consistent
  after the run on every path, success, refusal, cancellation and error alike, and the host is no
  longer executing.
\<close>

theorem execute_returns_permit:
  assumes "admission_inv adm" "try_execute (ab_host_id b) adm = (Ok p, adm1)"
    and "authority_is_sealed s = Ok False"
    and "enabled_run admission_enabled admission_step (xe_admission env) adm1"
    and "MDropPermit (ab_host_id b) \<notin> set (xe_admission env)"
  shows "admission_inv (xr_admission (execute nop pid b rv di env now s adm))
       \<and> ab_host_id b |\<notin>| executing (xr_admission (execute nop pid b rv di env now s adm))"
proof -
  let ?h = "ab_host_id b" and ?a = "fold admission_step (xe_admission env) adm1"
  have p: "p = ?h" "fmlookup (ea_host_gates adm1) ?h = Some GateExecution"
    using try_execute_Ok [OF assms(2)] by auto
  have "admission_inv adm1" using try_execute_inv [OF assms(1), of ?h] assms(2) by simp
  then have inv: "admission_inv ?a" using assms(4) by (rule admission.invar_run)
  have held: "fmlookup (ea_host_gates ?a) ?h = Some GateExecution"
    using p(2) assms(5,4) by (rule held_permit_kept_run)
  have "xr_admission (execute nop pid b rv di env now s adm) = drop_execution_permit ?h ?a"
    using assms(2,3) p(1)
    by (simp add: execute_def Let_def split: result.split prod.split bool.split)
  then show ?thesis
    using admission_step_inv [OF inv, of "MDropPermit ?h"] held
    by (simp add: drop_execution_permit_def set_gate_def)
qed

theorem execute_returns_permit_witness:
  "HostId 1 |\<notin>| executing (xr_admission ex_run)"
proof -
  note inv = admission_inv_default
  have ok: "try_execute (ab_host_id ex_binding) execution_admission_default =
      (Ok (HostId 1), snd (try_execute (HostId 1) execution_admission_default))"
    by (simp add: store_defs execution_admission_default_def ex_binding_def Let_def)
  show ?thesis
    using execute_returns_permit [OF inv ok, of ex_store ex_env]
    by (simp add: authority_is_sealed_def ex_store_fields ex_env_def ex_binding_def)
qed

end
