(* ===== verification/Authority_Refinement.thy ===== *)
theory Authority_Refinement
  imports Authority_Store
begin

text \<open>
  What the authority store promises, without its two maps: every host has one slot, which holds at
  most one pending plan. \<open>AuthorityStore\<close>, whose primary map is keyed by plan and whose second map
  is an index by host, implements these slots.
\<close>

section \<open>Slots\<close>

record authority_slots =
  sl_slot :: "host_id \<Rightarrow> stored_authority option"
  sl_sealed :: bool
  sl_ttl :: nat
  sl_poisoned :: bool

definition clear_slots :: "(stored_authority \<Rightarrow> bool) \<Rightarrow> authority_slots \<Rightarrow> authority_slots" where
  "clear_slots P sl =
     (if sl_poisoned sl then sl
      else sl\<lparr>sl_slot := (\<lambda>h. case sl_slot sl h of
                None \<Rightarrow> None | Some a \<Rightarrow> if P a then None else Some a)\<rparr>)"

definition redeemable ::
  "native_operation \<Rightarrow> remote_operation_plan_id \<Rightarrow> authority_binding \<Rightarrow> stored_authority \<Rightarrow> bool" where
  "redeemable nop pid b a =
     (sa_id a = pid \<and> sa_binding a = b \<and> sa_operation_type a = nop \<and> sa_risk a = operation_RISK nop)"

definition slot_insert ::
  "plan_draft \<Rightarrow> authority_binding \<Rightarrow> remote_operation_plan_id \<Rightarrow> instant \<Rightarrow> authority_slots \<Rightarrow> authority_slots" where
  "slot_insert d c pid now sl =
     (if pd_binding d \<noteq> c \<or> sl_poisoned sl \<or> sl_sealed sl then sl
      else let sl1 = clear_slots (\<lambda>a. sa_expires_at a \<le> now) sl
           in sl1\<lparr>sl_slot := (sl_slot sl1)(ab_host_id c \<mapsto> stored_authority_new pid d now (now + sl_ttl sl))\<rparr>)"

fun slot_step :: "authority_event \<Rightarrow> authority_slots \<Rightarrow> authority_slots" where
  "slot_step (AInsert d c pid now) sl = slot_insert d c pid now sl"
| "slot_step (AConsume nop pid b now) sl =
     clear_slots (\<lambda>a. sa_id a = pid \<and> sa_expires_at a \<le> now \<or> redeemable nop pid b a) sl"
| "slot_step (ADiscard nop pid b now) sl =
     clear_slots (\<lambda>a. sa_id a = pid \<and> sa_expires_at a \<le> now \<or> redeemable nop pid b a) sl"
| "slot_step (ARevokeHost h) sl = clear_slots (\<lambda>a. ab_host_id (sa_binding a) = h) sl"
| "slot_step (ARevokeSession h hs) sl =
     clear_slots (\<lambda>a. ab_host_id (sa_binding a) = h \<and> ab_host_session_id (sa_binding a) = hs) sl"
| "slot_step ARevokeAll sl = clear_slots (\<lambda>_. True) sl"
| "slot_step ASealAndRevokeAll sl =
     (if sl_poisoned sl then sl else (clear_slots (\<lambda>_. True) sl)\<lparr>sl_sealed := True\<rparr>)"
| "slot_step (APendingCount now) sl = clear_slots (\<lambda>a. sa_expires_at a \<le> now) sl"
| "slot_step (AContains pid now) sl = clear_slots (\<lambda>a. sa_expires_at a \<le> now) sl"
| "slot_step (AExpiryFires pid e) sl = clear_slots (\<lambda>a. sa_id a = pid \<and> sa_expires_at a = e) sl"

section \<open>Abstraction\<close>

definition slots :: "authority_store \<Rightarrow> authority_slots" where
  "slots s = \<lparr>sl_slot = (\<lambda>h. Option.bind (fmlookup (as_by_host s) h) (fmlookup (as_pending s))),
     sl_sealed = as_sealed s, sl_ttl = as_ttl s, sl_poisoned = as_poisoned s\<rparr>"

lemma slots_simps [simp]:
  "sl_sealed (slots s) = as_sealed s" "sl_ttl (slots s) = as_ttl s" "sl_poisoned (slots s) = as_poisoned s"
  "sl_slot (slots s) h = Option.bind (fmlookup (as_by_host s) h) (fmlookup (as_pending s))"
  by (simp_all add: slots_def)

text \<open>Under the invariant, a slot holds exactly the pending plan of its host.\<close>

lemma slot_Some:
  assumes "authority_inv s"
  shows "sl_slot (slots s) h = Some a \<longleftrightarrow>
    (\<exists>pid. fmlookup (as_pending s) pid = Some a \<and> ab_host_id (sa_binding a) = h)"
  using authority_inv_by_hostD [OF assms, of h] authority_invD(2) [OF assms]
  by (auto simp: Option.bind_eq_Some_conv)

lemma slot_unique:
  assumes "\<And>a. f h = Some a \<longleftrightarrow> g h = Some a"
  shows "f h = g h"
  using assms by (metis not_Some_eq)

lemma slots_shrink:
  assumes "authority_inv s" "authority_inv s'" "\<not> as_poisoned s"
    and "as_sealed s' = as_sealed s" "as_ttl s' = as_ttl s" "\<not> as_poisoned s'"
    and "\<And>pid a. fmlookup (as_pending s') pid = Some a \<longleftrightarrow> fmlookup (as_pending s) pid = Some a \<and> \<not> P a"
  shows "slots s' = clear_slots P (slots s)"
proof -
  have "sl_slot (slots s') h = sl_slot (clear_slots P (slots s)) h" for h
  proof (rule slot_unique)
    fix a
    have "sl_slot (clear_slots P (slots s)) h = Some a \<longleftrightarrow> sl_slot (slots s) h = Some a \<and> \<not> P a"
      using assms(3) by (auto simp: clear_slots_def simp del: slots_simps(4) split: option.splits)
    then show "sl_slot (slots s') h = Some a \<longleftrightarrow> sl_slot (clear_slots P (slots s)) h = Some a"
      by (auto simp: slot_Some assms(1,2,7) simp del: slots_simps(4))
  qed
  then have "sl_slot (slots s') = sl_slot (clear_slots P (slots s))" by (rule ext)
  moreover have "sl_sealed (clear_slots P (slots s)) = as_sealed s" "sl_ttl (clear_slots P (slots s)) = as_ttl s"
    "\<not> sl_poisoned (clear_slots P (slots s))"
    using assms(3) by (simp_all add: clear_slots_def)
  ultimately show ?thesis using assms(4-6) by (simp add: slots_def)
qed

text \<open>Which plans each operation removes.\<close>

lemma pending_id: "authority_inv s \<Longrightarrow> fmlookup (as_pending s) pid = Some a \<Longrightarrow> sa_id a = pid"
  using authority_invD(1) by (auto simp: authority_entry_ok_def)

lemma slots_remove_id:
  assumes "authority_inv s" "\<not> as_poisoned s"
  shows "slots (snd (remove_id pid s)) = clear_slots (\<lambda>a. sa_id a = pid) (slots s)"
  by (rule slots_shrink [OF assms(1) remove_id_inv [OF assms(1)] assms(2)])
    (use assms(2) pending_id [OF assms(1)] in \<open>auto split: if_splits\<close>)

lemma slots_remove_expired:
  assumes "authority_inv s" "\<not> as_poisoned s"
  shows "slots (remove_expired now s) = clear_slots (\<lambda>a. sa_expires_at a \<le> now) (slots s)"
  by (rule slots_shrink [OF assms(1) remove_expired_inv [OF assms(1)] assms(2)]) (use assms(2) in auto)

text \<open>Clearing by identifier and condition is clearing by identifier when the plan meets the condition.\<close>

lemma clear_slots_cong:
  assumes "\<And>h a. sl_slot sl h = Some a \<Longrightarrow> P a = Q a"
  shows "clear_slots P sl = clear_slots Q sl"
proof -
  have "(case sl_slot sl h of None \<Rightarrow> None | Some a \<Rightarrow> if P a then None else Some a)
      = (case sl_slot sl h of None \<Rightarrow> None | Some a \<Rightarrow> if Q a then None else Some a)" for h
    using assms by (auto split: option.splits)
  then show ?thesis by (simp add: clear_slots_def)
qed

lemma clear_slots_none:
  assumes "\<And>h a. sl_slot sl h = Some a \<Longrightarrow> \<not> P a"
  shows "clear_slots P sl = sl"
proof -
  have "(case sl_slot sl h of None \<Rightarrow> None | Some a \<Rightarrow> if P a then None else Some a) = sl_slot sl h" for h
    using assms by (auto split: option.splits)
  then show ?thesis by (simp add: clear_slots_def)
qed

lemma slots_remove_if:
  assumes "authority_inv s" "\<not> as_poisoned s"
    and "s' = (case fmlookup (as_pending s) pid of
           None \<Rightarrow> s | Some a \<Rightarrow> if P a then snd (remove_id pid s) else s)"
  shows "slots s' = clear_slots (\<lambda>a. sa_id a = pid \<and> P a) (slots s)"
proof (cases "\<exists>a. fmlookup (as_pending s) pid = Some a \<and> P a")
  case True
  then obtain a where a: "fmlookup (as_pending s) pid = Some a" "P a" by blast
  have "clear_slots (\<lambda>a. sa_id a = pid) (slots s) = clear_slots (\<lambda>a. sa_id a = pid \<and> P a) (slots s)"
    by (rule clear_slots_cong) (use a pending_id [OF assms(1)] in \<open>auto simp: slot_Some [OF assms(1)] simp del: slots_simps(4)\<close>)
  with a assms(3) slots_remove_id [OF assms(1,2)] show ?thesis by simp
next
  case False
  then have "s' = s" using assms(3) by (auto split: option.splits)
  moreover have "clear_slots (\<lambda>a. sa_id a = pid \<and> P a) (slots s) = slots s"
    by (rule clear_slots_none)
      (use False pending_id [OF assms(1)] in \<open>auto simp: slot_Some [OF assms(1)] simp del: slots_simps(4)\<close>)
  ultimately show ?thesis by simp
qed

lemma slots_consume:
  assumes "authority_inv s" "\<not> as_poisoned s"
  shows "slots (snd (authority_consume nop pid b now s)) = slot_step (AConsume nop pid b now) (slots s)"
    and "slots (snd (authority_discard nop pid b now s)) = slot_step (ADiscard nop pid b now) (slots s)"
proof -
  have eq: "clear_slots (\<lambda>a. sa_id a = pid \<and> sa_expires_at a \<le> now \<or> redeemable nop pid b a) (slots s)
      = clear_slots (\<lambda>a. sa_id a = pid \<and> (sa_expires_at a \<le> now \<or> redeemable nop pid b a)) (slots s)"
    by (rule clear_slots_cong) (auto simp: redeemable_def)
  have "snd (authority_consume nop pid b now s) = (case fmlookup (as_pending s) pid of
      None \<Rightarrow> s | Some a \<Rightarrow> if sa_expires_at a \<le> now \<or> redeemable nop pid b a then snd (remove_id pid s) else s)"
    "snd (authority_discard nop pid b now s) = (case fmlookup (as_pending s) pid of
      None \<Rightarrow> s | Some a \<Rightarrow> if sa_expires_at a \<le> now \<or> redeemable nop pid b a then snd (remove_id pid s) else s)"
    using assms pending_id [OF assms(1), of pid]
    by (auto simp: authority_consume_def authority_discard_def is_expired_def redeemable_def case_prod_beta
        split: option.splits)
  from this [THEN slots_remove_if [OF assms]] show
    "slots (snd (authority_consume nop pid b now s)) = slot_step (AConsume nop pid b now) (slots s)"
    "slots (snd (authority_discard nop pid b now s)) = slot_step (ADiscard nop pid b now) (slots s)"
    unfolding slot_step.simps eq by blast+
qed

lemma slots_poisoned:
  assumes "as_poisoned s"
  shows "slot_step e (slots s) = slots s" "authority_step e s = s"
proof -
  have "clear_slots P (slots s) = slots s" for P using assms by (simp add: clear_slots_def)
  then show "slot_step e (slots s) = slots s" using assms by (cases e) (simp_all add: slot_insert_def)
  show "authority_step e s = s"
  proof (cases e)
    case (AInsert d c pid now)
    then show ?thesis using assms by (simp add: authority_insert_def Let_def)
  qed (use assms in \<open>simp_all add: authority_consume_def
      authority_discard_def authority_revoke_host_def authority_revoke_session_def authority_revoke_all_def
      seal_and_revoke_all_def authority_pending_count_def authority_contains_def authority_expiry_fires_def\<close>)
qed

lemma slot_host:
  assumes "authority_inv s" "sl_slot (slots s) h = Some a"
  shows "fmlookup (as_by_host s) h = Some (sa_id a)" "ab_host_id (sa_binding a) = h"
    "fmlookup (as_pending s) (sa_id a) = Some a"
proof -
  obtain pid where pid: "fmlookup (as_pending s) pid = Some a" "ab_host_id (sa_binding a) = h"
    using assms(2) unfolding slot_Some [OF assms(1)] by (elim exE conjE)
  with authority_invD(2) [OF assms(1) pid(1)] pending_id [OF assms(1) pid(1)] show
    "fmlookup (as_by_host s) h = Some (sa_id a)" "ab_host_id (sa_binding a) = h"
    "fmlookup (as_pending s) (sa_id a) = Some a" by simp_all
qed

lemma slot_none:
  assumes "authority_inv s" "fmlookup (as_by_host s) h = None" "sl_slot (slots s) h' = Some a"
  shows "ab_host_id (sa_binding a) \<noteq> h"
  using slot_host [OF assms(1,3)] assms(2) by auto

lemma slot_by_id:
  assumes "authority_inv s" "fmlookup (as_by_host s) h = Some pid" "sl_slot (slots s) h' = Some a"
  shows "sa_id a = pid \<longleftrightarrow> ab_host_id (sa_binding a) = h"
  using slot_host [OF assms(1,3)] authority_inv_by_hostD [OF assms(1,2)] assms(2) by auto

lemma slots_revoke_host:
  assumes "authority_inv s" "\<not> as_poisoned s"
  shows "slots (snd (authority_revoke_host h s)) = slot_step (ARevokeHost h) (slots s)"
proof (cases "fmlookup (as_by_host s) h")
  case None
  have "clear_slots (\<lambda>a. ab_host_id (sa_binding a) = h) (slots s) = slots s"
    by (rule clear_slots_none) (rule slot_none [OF assms(1) None])
  with None assms(2) show ?thesis by (simp add: authority_revoke_host_def)
next
  case (Some pid)
  have "clear_slots (\<lambda>a. sa_id a = pid) (slots s) = clear_slots (\<lambda>a. ab_host_id (sa_binding a) = h) (slots s)"
    by (rule clear_slots_cong) (rule slot_by_id [OF assms(1) Some])
  with revoke_host_eq_remove_id [OF assms(1) Some assms(2)] slots_remove_id [OF assms] show ?thesis by simp
qed

lemma slots_revoke_session:
  assumes "authority_inv s" "\<not> as_poisoned s"
  shows "slots (snd (authority_revoke_session h hs s)) = slot_step (ARevokeSession h hs) (slots s)"
proof (cases "fmlookup (as_by_host s) h")
  case None
  have "clear_slots (\<lambda>a. ab_host_id (sa_binding a) = h \<and> ab_host_session_id (sa_binding a) = hs) (slots s) = slots s"
    by (rule clear_slots_none) (use slot_none [OF assms(1) None] in blast)
  with None assms(2) show ?thesis by (simp add: authority_revoke_session_def)
next
  case (Some pid)
  have "snd (authority_revoke_session h hs s) = (case fmlookup (as_pending s) pid of
      None \<Rightarrow> s | Some a \<Rightarrow> if ab_host_session_id (sa_binding a) = hs then snd (remove_id pid s) else s)"
    using Some assms(2) by (simp add: authority_revoke_session_def case_prod_beta split: option.splits)
  note slots_remove_if [OF assms this]
  moreover have "clear_slots (\<lambda>a. sa_id a = pid \<and> ab_host_session_id (sa_binding a) = hs) (slots s)
      = clear_slots (\<lambda>a. ab_host_id (sa_binding a) = h \<and> ab_host_session_id (sa_binding a) = hs) (slots s)"
    by (rule clear_slots_cong) (simp only: slot_by_id [OF assms(1) Some])
  ultimately show ?thesis by simp
qed

lemma slots_insert:
  assumes "authority_inv s" "\<not> as_poisoned s" "fmlookup (as_pending s) pid = None"
  shows "slots (snd (authority_insert d c pid now s)) = slot_insert d c pid now (slots s)"
proof (cases rule: authority_insert_cases [of d c pid now s])
  case refused
  then show ?thesis by (auto simp: slot_insert_def)
next
  case (issued r s' s1)
  have inv1: "authority_inv s1" unfolding issued(5) by (rule remove_expired_inv [OF assms(1)])
  have fresh1: "fmlookup (as_pending s1) pid = None"
    using assms(3) by (simp add: issued(5) remove_expired_def)
  have one: "slots s1 = clear_slots (\<lambda>a. sa_expires_at a \<le> now) (slots s)"
    unfolding issued(5) by (rule slots_remove_expired [OF assms(1,2)])
  have "sl_slot (slots s') h = ((sl_slot (slots s1))(ab_host_id c \<mapsto> stored_authority_new pid d now (now + as_ttl s))) h" for h
  proof (cases "h = ab_host_id c")
    case True
    then show ?thesis using issued(10,11) by simp
  next
    case False
    have "fmlookup (as_pending s') i = fmlookup (as_pending s1) i" if "fmlookup (as_by_host s1) h = Some i" for i
      using authority_inv_by_hostD [OF inv1, of h i] authority_inv_by_hostD [OF inv1, of "ab_host_id c" i]
        that False fresh1 issued(10) by auto
    with False show ?thesis using issued(11) by (cases "fmlookup (as_by_host s1) h") auto
  qed
  then have "sl_slot (slots s') = (sl_slot (slots s1))(ab_host_id c \<mapsto> stored_authority_new pid d now (now + as_ttl s))"
    by (rule ext)
  then have "slots s' = (slots s1)\<lparr>sl_slot := (sl_slot (slots s1))(ab_host_id c \<mapsto>
      stored_authority_new pid d now (now + as_ttl s))\<rparr>"
    using issued(4,5,7-9) by (simp add: slots_def)
  with issued(1-4) one show ?thesis by (simp add: slot_insert_def Let_def)
qed

lemma slots_step:
  assumes "authority_inv s" "authority_enabled e s"
  shows "slots (authority_step e s) = slot_step e (slots s)"
proof (cases "as_poisoned s")
  case True
  then show ?thesis by (simp only: slots_poisoned)
next
  case False
  note facts = assms(1) False
  show ?thesis
  proof (cases e)
    case (AExpiryFires pid x)
    have "authority_expiry_fires pid x s = (case fmlookup (as_pending s) pid of
        None \<Rightarrow> s | Some a \<Rightarrow> if sa_expires_at a = x then snd (remove_id pid s) else s)"
      using False by (simp add: authority_expiry_fires_def split: option.splits)
    from slots_remove_if [OF facts this] AExpiryFires show ?thesis by simp
  qed (use facts assms(2) slots_consume [OF facts] slots_revoke_host [OF facts] slots_revoke_session [OF facts]
      slots_insert [OF facts] slots_remove_expired [OF facts] in
      \<open>auto simp: authority_revoke_all_def seal_and_revoke_all_def authority_pending_count_def
        authority_contains_def clear_slots_def Let_def slots_def fun_eq_iff split: option.splits\<close>)
qed

interpretation authority_slots: simulation authority_enabled authority_step authority_inv slots slot_step
  by unfold_locales (rule slots_step)

definition slots_default :: authority_slots where
  "slots_default = \<lparr>sl_slot = (\<lambda>_. None), sl_sealed = False, sl_ttl = PLAN_TTL, sl_poisoned = False\<rparr>"

lemma slots_of_default: "slots authority_store_default = slots_default"
  by (simp add: slots_def slots_default_def authority_store_default_def)

lemma consume_Ok_iff:
  assumes "authority_inv s"
  shows "fst (authority_consume nop pid b now s) = Ok ca \<longleftrightarrow>
    \<not> as_poisoned s \<and> (\<exists>a. sl_slot (slots s) (ab_host_id b) = Some a \<and> redeemable nop pid b a
      \<and> now < sa_expires_at a \<and> into_typed nop a = Some ca)"
proof -
  have "fst (authority_consume nop pid b now s) = Ok ca \<longleftrightarrow> \<not> as_poisoned s
      \<and> (\<exists>a. fmlookup (as_pending s) pid = Some a \<and> redeemable nop pid b a \<and> now < sa_expires_at a
           \<and> into_typed nop a = Some ca)"
    using pending_id [OF assms, of pid]
    by (auto simp: authority_consume_def is_expired_def redeemable_def remove_id_def ok_or_def
        split: option.splits)
  moreover have "fmlookup (as_pending s) pid = Some a \<longleftrightarrow> sl_slot (slots s) (ab_host_id b) = Some a"
    if "redeemable nop pid b a" for a
    using that slot_Some [OF assms, of "ab_host_id b" a] pending_id [OF assms] by (auto simp: redeemable_def)
  ultimately show ?thesis by blast
qed

text \<open>
  C26: The authority store is one slot per host. Every history of the store, whose primary map is keyed
  by plan, is matched step by step by the abstract machine that keeps at most one plan per host,
  and consuming succeeds exactly when the slot of the binding's host holds that plan, for
  that binding and operation, before its deadline.
\<close>

theorem authority_refines_slots:
  assumes "enabled_run authority_enabled authority_step es authority_store_default"
    and "s = fold authority_step es authority_store_default"
  shows "slots s = fold slot_step es slots_default
    \<and> (fst (authority_consume nop pid b now s) = Ok ca \<longleftrightarrow>
        \<not> as_poisoned s \<and> (\<exists>a. sl_slot (slots s) (ab_host_id b) = Some a \<and> redeemable nop pid b a
          \<and> now < sa_expires_at a \<and> into_typed nop a = Some ca))"
  using authority_slots.run_abs [OF authority_inv_default assms(1)]
    consume_Ok_iff [OF authority.invar_run [OF authority_inv_default assms(1)]]
  by (simp add: assms(2) slots_of_default del: slots_simps(4))

theorem authority_refines_slots_witness:
  "slots (fold authority_step [AInsert ex_draft ex_binding ex_plan_id 10, APendingCount 20, ARevokeHost (HostId 2)] authority_store_default)
   = fold slot_step [AInsert ex_draft ex_binding ex_plan_id 10, APendingCount 20, ARevokeHost (HostId 2)] slots_default"
proof -
  have "enabled_run authority_enabled authority_step [AInsert ex_draft ex_binding ex_plan_id 10, APendingCount 20, ARevokeHost (HostId 2)]
      authority_store_default" by (simp add: authority_store_default_def)
  from authority_refines_slots [OF this refl] show ?thesis by blast
qed

end
