(* ===== verification/Utf8.thy ===== *)
theory Utf8
  imports Rust_Str
begin

text \<open>
  UTF-8 as \<open>std::str::from_utf8\<close> and \<open>str::chars\<close> see it. A string of HOL is a byte sequence; this
  theory decodes it to Unicode scalar values, encodes them, and shows that the two are inverse on
  well-formed input. It also holds \<open>char::is_control\<close> and the \<open>{:04X}\<close> formatting of a number.
\<close>

section \<open>Encoding and decoding\<close>

definition utf8_cont :: "char \<Rightarrow> bool" where
  "utf8_cont c = (128 \<le> byte_of c \<and> byte_of c < 192)"

definition cont_bits :: "char \<Rightarrow> nat" where
  "cont_bits c = byte_of c - 128"

text \<open>The first scalar value of a byte string, with its width; \<open>None\<close> at a malformed sequence.\<close>

definition utf8_next :: "string \<Rightarrow> (nat \<times> nat) option" where
  "utf8_next s =
     (case s of
        [] \<Rightarrow> None
      | b0 # r0 \<Rightarrow>
          let n = byte_of b0 in
          if n < 128 then Some (n, 1)
          else if n < 194 then None
          else (case r0 of
            [] \<Rightarrow> None
          | b1 # r1 \<Rightarrow>
              if \<not> utf8_cont b1 then None
              else if n < 224 then Some ((n - 192) * 64 + cont_bits b1, 2)
              else (case r1 of
                [] \<Rightarrow> None
              | b2 # r2 \<Rightarrow>
                  if \<not> utf8_cont b2 then None
                  else if n < 240 then
                    (let v = (n - 224) * 4096 + cont_bits b1 * 64 + cont_bits b2
                     in if v < 2048 \<or> (55296 \<le> v \<and> v < 57344) then None else Some (v, 3))
                  else (case r2 of
                    [] \<Rightarrow> None
                  | b3 # r3 \<Rightarrow>
                      if \<not> utf8_cont b3 \<or> 245 \<le> n then None
                      else (let v = (n - 240) * 262144 + cont_bits b1 * 4096 + cont_bits b2 * 64 + cont_bits b3
                            in if v < 65536 \<or> 1114112 \<le> v then None else Some (v, 4))))))"

definition is_scalar :: "nat \<Rightarrow> bool" where
  "is_scalar v = (v < 55296 \<or> (57344 \<le> v \<and> v < 1114112))"

definition byte_char :: "nat \<Rightarrow> char" where
  "byte_char n = char_of n"

definition encode_utf8 :: "nat \<Rightarrow> string" where
  "encode_utf8 v =
     (if v < 128 then [byte_char v]
      else if v < 2048 then [byte_char (192 + v div 64), byte_char (128 + v mod 64)]
      else if v < 65536 then
        [byte_char (224 + v div 4096), byte_char (128 + v div 64 mod 64), byte_char (128 + v mod 64)]
      else [byte_char (240 + v div 262144), byte_char (128 + v div 4096 mod 64),
            byte_char (128 + v div 64 mod 64), byte_char (128 + v mod 64)])"

lemma utf8_next_width:
  "utf8_next s = Some (v, w) \<Longrightarrow> 0 < w \<and> w \<le> length s"
  by (auto simp: utf8_next_def Let_def split: list.splits if_splits)

function utf8_chars :: "string \<Rightarrow> nat list option" where
  "utf8_chars s =
     (if s = [] then Some []
      else (case utf8_next s of
              None \<Rightarrow> None
            | Some (v, w) \<Rightarrow> map_option ((#) v) (utf8_chars (drop w s))))"
  by pat_completeness auto
termination
  by (relation "measure length") (auto dest: utf8_next_width)

declare utf8_chars.simps [simp del]

definition valid_utf8 :: "string \<Rightarrow> bool" where
  "valid_utf8 s = (utf8_chars s \<noteq> None)"

definition encode_all :: "nat list \<Rightarrow> string" where
  "encode_all vs = concat (map encode_utf8 vs)"

section \<open>Decoding inverts encoding\<close>

lemma byte_of_byte_char [simp]: "n < 256 \<Longrightarrow> byte_of (byte_char n) = (n :: nat)"
  by (simp add: byte_char_def)

lemma byte_char_byte_of [simp]: "byte_char (byte_of c) = c"
  by (simp add: byte_char_def)

lemma split3:
  fixes v :: nat
  shows "v div 4096 * 4096 + v div 64 mod 64 * 64 + v mod 64 = v"
proof -
  have "v div 4096 = v div 64 div 64" by (simp add: div_mult2_eq [symmetric])
  then show ?thesis
    using div_mult_mod_eq [of v 64] div_mult_mod_eq [of "v div 64" 64] by linarith
qed

lemma split4:
  fixes v :: nat
  shows "v div 262144 * 262144 + v div 4096 mod 64 * 4096 + v div 64 mod 64 * 64 + v mod 64 = v"
proof -
  have "v div 262144 = v div 4096 div 64" by (simp add: div_mult2_eq [symmetric])
  then show ?thesis
    using split3 [of v] div_mult_mod_eq [of "v div 4096" 64] by linarith
qed

lemma cont_byte [simp]:
  "utf8_cont (byte_char (128 + x mod 64))" "cont_bits (byte_char (128 + x mod 64)) = x mod 64"
proof -
  have "x mod 64 < 64" by simp
  then show "utf8_cont (byte_char (128 + x mod 64))" "cont_bits (byte_char (128 + x mod 64)) = x mod 64"
    by (simp_all add: utf8_cont_def cont_bits_def)
qed

lemma encode_utf8_next:
  assumes "is_scalar v"
  shows "utf8_next (encode_utf8 v @ s) = Some (v, length (encode_utf8 v))"
proof -
  consider "v < 128" | "128 \<le> v" "v < 2048" | "2048 \<le> v" "v < 65536" | "65536 \<le> v" "v < 1114112"
    using assms unfolding is_scalar_def by linarith
  then show ?thesis
  proof cases
    case 1
    then show ?thesis by (simp add: encode_utf8_def utf8_next_def)
  next
    case 2
    then have "2 \<le> v div 64" "v div 64 < 32" by auto
    with 2 show ?thesis
      by (simp add: encode_utf8_def utf8_next_def Let_def)
  next
    case 3
    define a where "a = v div 4096"
    have "a < 16" using 3 by (auto simp: a_def)
    moreover have "a * 4096 + v div 64 mod 64 * 64 + v mod 64 = v"
      unfolding a_def by (rule split3)
    moreover have "\<not> (55296 \<le> v \<and> v < 57344)" using assms by (auto simp: is_scalar_def)
    ultimately show ?thesis
      using 3 by (simp add: encode_utf8_def utf8_next_def Let_def a_def [symmetric])
  next
    case 4
    define a where "a = v div 262144"
    have "a < 5" using 4 by (auto simp: a_def)
    moreover have "a * 262144 + v div 4096 mod 64 * 4096 + v div 64 mod 64 * 64 + v mod 64 = v"
      unfolding a_def by (rule split4)
    ultimately show ?thesis
      using 4 by (simp add: encode_utf8_def utf8_next_def Let_def a_def [symmetric])
  qed
qed

lemma encode_utf8_not_Nil [simp]: "encode_utf8 v \<noteq> []"
  by (simp add: encode_utf8_def)

lemma utf8_chars_encode:
  "is_scalar v \<Longrightarrow> utf8_chars (encode_utf8 v @ s) = map_option ((#) v) (utf8_chars s)"
  by (subst utf8_chars.simps) (simp add: encode_utf8_next)

lemma utf8_chars_encode_all:
  "list_all is_scalar vs \<Longrightarrow> utf8_chars (encode_all vs) = Some vs"
  by (induction vs) (simp_all add: encode_all_def utf8_chars_encode utf8_chars.simps [of "[]"])

section \<open>Encoding inverts decoding\<close>

lemma byte_char_eqI: "(byte_of c :: nat) = n \<Longrightarrow> byte_char n = c"
  by auto

lemma cont_bitsD: "utf8_cont c \<Longrightarrow> byte_of c = 128 + cont_bits c \<and> cont_bits c < 64"
  by (auto simp: utf8_cont_def cont_bits_def)

lemma digits64:
  fixes q c :: nat
  assumes "c < 64"
  shows "(64 * q + c) div 64 = q" "(64 * q + c) mod 64 = c"
  using assms by simp_all

lemma digits3:
  fixes a b c :: nat
  assumes "b < 64" "c < 64" "v = a * 4096 + b * 64 + c"
  shows "v div 4096 = a" "v div 64 mod 64 = b" "v mod 64 = c"
proof -
  have v: "v = 64 * (64 * a + b) + c" using assms(3) by simp
  show "v mod 64 = c" unfolding v by (rule digits64(2) [OF assms(2)])
  have d: "v div 64 = 64 * a + b" unfolding v by (rule digits64(1) [OF assms(2)])
  show "v div 64 mod 64 = b" unfolding d by (rule digits64(2) [OF assms(1)])
  have "v div 4096 = v div 64 div 64" by (simp add: div_mult2_eq [symmetric])
  then show "v div 4096 = a" unfolding d using digits64(1) [OF assms(1)] by simp
qed

lemma digits4:
  fixes a b c d :: nat
  assumes "b < 64" "c < 64" "d < 64" "v = a * 262144 + b * 4096 + c * 64 + d"
  shows "v div 262144 = a" "v div 4096 mod 64 = b" "v div 64 mod 64 = c" "v mod 64 = d"
proof -
  have v: "v = (64 * a + b) * 4096 + c * 64 + d" using assms(4) by simp
  show "v div 64 mod 64 = c" "v mod 64 = d" using digits3 [OF assms(2,3) v] by auto
  have e: "v div 4096 = 64 * a + b" using digits3 [OF assms(2,3) v] by auto
  show "v div 4096 mod 64 = b" unfolding e by (rule digits64(2) [OF assms(1)])
  have "v div 262144 = v div 4096 div 64" by (simp add: div_mult2_eq [symmetric])
  then show "v div 262144 = a" unfolding e using digits64(1) [OF assms(1)] by simp
qed

lemma utf8_next_cases:
  assumes "utf8_next s = Some (v, w)"
  obtains (one) b0 r where "s = b0 # r" "v = byte_of b0" "w = 1" "v < 128"
  | (two) b0 b1 r where "s = b0 # b1 # r" "w = 2" "utf8_cont b1" "194 \<le> (byte_of b0 :: nat)"
      "byte_of b0 < (224 :: nat)" "v = (byte_of b0 - 192) * 64 + cont_bits b1"
  | (three) b0 b1 b2 r where "s = b0 # b1 # b2 # r" "w = 3" "utf8_cont b1" "utf8_cont b2"
      "224 \<le> (byte_of b0 :: nat)" "byte_of b0 < (240 :: nat)" "2048 \<le> v" "\<not> (55296 \<le> v \<and> v < 57344)"
      "v = (byte_of b0 - 224) * 4096 + cont_bits b1 * 64 + cont_bits b2"
  | (four) b0 b1 b2 b3 r where "s = b0 # b1 # b2 # b3 # r" "w = 4" "utf8_cont b1" "utf8_cont b2"
      "utf8_cont b3" "240 \<le> (byte_of b0 :: nat)" "65536 \<le> v" "v < 1114112"
      "v = (byte_of b0 - 240) * 262144 + cont_bits b1 * 4096 + cont_bits b2 * 64 + cont_bits b3"
proof -
  obtain b0 r0 where s: "s = b0 # r0"
    using assms by (cases s) (auto simp: utf8_next_def)
  show ?thesis
  proof (cases "byte_of b0 < (128 :: nat)")
    case True
    with assms s show ?thesis by (intro one [of b0 r0]) (simp_all add: utf8_next_def)
  next
    case n0: False
    then obtain b1 r1 where r0: "r0 = b1 # r1" "utf8_cont b1" "194 \<le> (byte_of b0 :: nat)"
      using assms s by (cases r0) (auto simp: utf8_next_def Let_def split: if_splits)
    show ?thesis
    proof (cases "byte_of b0 < (224 :: nat)")
      case True
      with assms s r0 n0 show ?thesis by (intro two [of b0 b1 r1]) (simp_all add: utf8_next_def)
    next
      case n1: False
      then obtain b2 r2 where r1: "r1 = b2 # r2" "utf8_cont b2"
        using assms s r0 n0 by (cases r1) (auto simp: utf8_next_def Let_def split: if_splits)
      show ?thesis
      proof (cases "byte_of b0 < (240 :: nat)")
        case True
        with assms s r0 r1 n0 n1 show ?thesis
          by (intro three [of b0 b1 b2 r2])
            (auto simp: utf8_next_def Let_def split: if_splits)
      next
        case n2: False
        then obtain b3 r3 where r2: "r2 = b3 # r3" "utf8_cont b3"
          using assms s r0 r1 n0 n1 by (cases r2) (auto simp: utf8_next_def Let_def split: if_splits)
        show ?thesis
          using assms s r0 r1 r2 n0 n1 n2
          by (intro four [of b0 b1 b2 b3 r3]) (auto simp: utf8_next_def Let_def split: if_splits)
      qed
    qed
  qed
qed

lemma utf8_next_encode:
  assumes "utf8_next s = Some (v, w)"
  shows "is_scalar v \<and> encode_utf8 v = take w s"
proof -
  from assms show ?thesis
  proof (cases rule: utf8_next_cases)
    case (one b0 r)
    then show ?thesis by (simp add: is_scalar_def encode_utf8_def)
  next
    case (two b0 b1 r)
    define a b where "a = byte_of b0 - (192::nat)" and "b = cont_bits b1"
    have ab: "2 \<le> a" "a < 32" "b < 64" "byte_of b0 = 192 + a" "byte_of b1 = 128 + b" "v = a * 64 + b"
      using two cont_bitsD by (auto simp: a_def b_def)
    then have "v div 64 = a" "v mod 64 = b" "128 \<le> v" "v < 2048" by auto
    with ab two(1,2) show ?thesis
      by (auto simp: encode_utf8_def is_scalar_def intro!: byte_char_eqI)
  next
    case (three b0 b1 b2 r)
    define a b c where "a = byte_of b0 - (224::nat)" and "b = cont_bits b1" and "c = cont_bits b2"
    have abc: "a < 16" "b < 64" "c < 64" "byte_of b0 = 224 + a" "byte_of b1 = 128 + b"
        "byte_of b2 = 128 + c" "v = a * 4096 + b * 64 + c"
      using three(3-6,9) cont_bitsD by (auto simp: a_def b_def c_def)
    moreover have "v < 65536" using abc(1-3,7) by linarith
    moreover note digits3 [OF abc(2,3,7)]
    ultimately show ?thesis
      using three(1,2,7,8)
      by (auto simp: encode_utf8_def is_scalar_def intro!: byte_char_eqI)
  next
    case (four b0 b1 b2 b3 r)
    define a b c d where "a = byte_of b0 - (240::nat)" and "b = cont_bits b1" and "c = cont_bits b2"
      and "d = cont_bits b3"
    have abc: "b < 64" "c < 64" "d < 64" "byte_of b0 = 240 + a" "byte_of b1 = 128 + b"
        "byte_of b2 = 128 + c" "byte_of b3 = 128 + d" "v = a * 262144 + b * 4096 + c * 64 + d"
      using four(3-6,9) cont_bitsD by (auto simp: a_def b_def c_def d_def)
    with digits4 [OF abc(1-3,8)] four(1,2,7,8) show ?thesis
      by (auto simp: encode_utf8_def is_scalar_def intro!: byte_char_eqI)
  qed
qed

lemma utf8_chars_decode:
  "utf8_chars s = Some vs \<Longrightarrow> list_all is_scalar vs \<and> encode_all vs = s"
proof (induction s arbitrary: vs rule: utf8_chars.induct)
  case (1 s)
  show ?case
  proof (cases "s = []")
    case True
    with 1 show ?thesis by (simp add: utf8_chars.simps [of "[]"] encode_all_def)
  next
    case False
    with 1(2) obtain v w ws where n: "utf8_next s = Some (v, w)" "utf8_chars (drop w s) = Some ws"
        "vs = v # ws"
      by (subst (asm) utf8_chars.simps) (auto split: option.splits)
    from 1(1) [OF False n(1) refl n(2)] utf8_next_encode [OF n(1)] n(3) show ?thesis
      by (simp add: encode_all_def)
  qed
qed

section \<open>Characters and numbers\<close>

definition is_control :: "nat \<Rightarrow> bool" where
  "is_control v = (v < 32 \<or> (127 \<le> v \<and> v < 160))"

definition hex_digit :: "nat \<Rightarrow> char" where
  "hex_digit d = byte_char (if d < 10 then 48 + d else 55 + d)"

fun hex_digits :: "nat \<Rightarrow> string" where
  "hex_digits n = (if n < 16 then [hex_digit n] else hex_digits (n div 16) @ [hex_digit (n mod 16)])"

declare hex_digits.simps [simp del]

text \<open>\<open>format!("{:04X}", n)\<close>\<close>

definition fmt_04X :: "nat \<Rightarrow> string" where
  "fmt_04X n = (let ds = hex_digits n in replicate (4 - length ds) (CHR ''0'') @ ds)"

text \<open>\<open>n.to_string()\<close>\<close>

fun fmt_dec :: "nat \<Rightarrow> string" where
  "fmt_dec n = (if n < 10 then [byte_char (48 + n)] else fmt_dec (n div 10) @ [byte_char (48 + n mod 10)])"

declare fmt_dec.simps [simp del]

lemma hex_digit_range: "d < 16 \<Longrightarrow> 48 \<le> (byte_of (hex_digit d) :: nat) \<and> byte_of (hex_digit d) \<le> (70 :: nat)"
  by (auto simp: hex_digit_def)

lemma hex_digits_range: "c \<in> set (hex_digits n) \<Longrightarrow> 48 \<le> (byte_of c :: nat) \<and> byte_of c \<le> (70 :: nat)"
proof (induction n rule: hex_digits.induct)
  case (1 n)
  then show ?case
    using hex_digit_range [of n] hex_digit_range [of "n mod 16"]
    by (cases "n < 16") (auto simp: hex_digits.simps [of n])
qed

lemma fmt_04X_range: "c \<in> set (fmt_04X n) \<Longrightarrow> 48 \<le> (byte_of c :: nat) \<and> byte_of c \<le> (70 :: nat)"
  using hex_digits_range [of c n] by (auto simp: fmt_04X_def Let_def)

text \<open>An ASCII string is its own encoding.\<close>

lemma encode_all_ascii:
  "\<forall>c\<in>set s. byte_of c < (128 :: nat) \<Longrightarrow> encode_all (map byte_of s) = s"
  by (induction s) (auto simp: encode_all_def encode_utf8_def)

lemma encode_all_append: "encode_all (xs @ ys) = encode_all xs @ encode_all ys"
  by (simp add: encode_all_def)

lemma valid_utf8_iff: "valid_utf8 s \<longleftrightarrow> (\<exists>vs. list_all is_scalar vs \<and> s = encode_all vs)"
  using utf8_chars_decode utf8_chars_encode_all by (fastforce simp: valid_utf8_def)

lemma encode_utf8_ascii [simp]: "v < 128 \<Longrightarrow> encode_utf8 v = [byte_char v]"
  by (simp add: encode_utf8_def)

lemma encode_utf8_high:
  assumes "128 \<le> v" "is_scalar v" "c \<in> set (encode_utf8 v)"
  shows "128 \<le> (byte_of c :: nat)"
proof -
  have high: "128 \<le> (byte_of (byte_char (128 + x mod 64)) :: nat)" for x
  proof -
    have "x mod 64 < 64" by simp
    then show ?thesis by simp
  qed
  have "v div 64 < 32" if "v < 2048" using that by auto
  moreover have "v div 4096 < 16" if "v < 65536" using that by auto
  moreover have "v div 262144 < 5" using assms(2) by (auto simp: is_scalar_def)
  ultimately show ?thesis
    using assms(1,3) high by (auto simp: encode_utf8_def split: if_splits)
qed

section \<open>White space\<close>

text \<open>\<open>char::is_whitespace\<close> (the Unicode property White_Space) and \<open>str::trim\<close>.\<close>

definition is_whitespace :: "nat \<Rightarrow> bool" where
  "is_whitespace v =
     ((9 \<le> v \<and> v \<le> 13) \<or> v = 32 \<or> v = 0x85 \<or> v = 0xA0 \<or> v = 0x1680 \<or> (0x2000 \<le> v \<and> v \<le> 0x200A)
       \<or> v = 0x2028 \<or> v = 0x2029 \<or> v = 0x202F \<or> v = 0x205F \<or> v = 0x3000)"

definition trim_chars :: "nat list \<Rightarrow> nat list" where
  "trim_chars vs = rev (dropWhile is_whitespace (rev (dropWhile is_whitespace vs)))"

definition str_trim :: "string \<Rightarrow> string" where
  "str_trim s = (case utf8_chars s of None \<Rightarrow> s | Some vs \<Rightarrow> encode_all (trim_chars vs))"

text \<open>\<open>chars().count()\<close>.\<close>

definition chars_count :: "string \<Rightarrow> nat" where
  "chars_count s = (case utf8_chars s of None \<Rightarrow> 0 | Some vs \<Rightarrow> length vs)"

lemma trim_chars_infix: "\<exists>xs ys. vs = xs @ trim_chars vs @ ys"
proof -
  define ws where "ws = dropWhile is_whitespace vs"
  have "vs = takeWhile is_whitespace vs @ ws" by (simp add: ws_def)
  moreover have "ws = trim_chars vs @ rev (takeWhile is_whitespace (rev ws))"
    unfolding trim_chars_def ws_def [symmetric]
    by (metis rev_append rev_rev_ident takeWhile_dropWhile_id)
  ultimately show ?thesis by metis
qed

lemma valid_utf8_trim:
  assumes "valid_utf8 s"
  shows "valid_utf8 (str_trim s)"
proof -
  obtain vs where vs: "list_all is_scalar vs" "s = encode_all vs"
    using assms by (auto simp: valid_utf8_iff)
  then have "utf8_chars s = Some vs" by (simp add: utf8_chars_encode_all)
  moreover have "list_all is_scalar (trim_chars vs)"
    using vs(1) trim_chars_infix [of vs] by (metis list_all_append)
  ultimately show ?thesis by (auto simp: str_trim_def valid_utf8_iff)
qed

end
