(* ===== verification/Terminal_Manager.thy ===== *)
theory Terminal_Manager
  imports Interfaces Utf8 Nexus_Model "HOL-Library.List_Lexorder" "HOL-Library.Char_ord"
begin

text \<open>
  \<^verbatim>\<open>crates/nexus-terminal/src/manager.rs\<close>: host-owned interactive terminals with bounded
  byte-stream buffering. The reference-counted \<open>Entry\<close> objects form an explicit store keyed by
  their identifier, because startup, the output pump and closing keep working on an entry after
  it left the session table. An operation that awaits is cut at its awaits: each piece runs under
  the locks the source holds, and the events of other tasks come between the pieces.
\<close>

section \<open>State\<close>

definition MAX_OPEN_TERMINALS_PER_HOST :: nat where "MAX_OPEN_TERMINALS_PER_HOST = 8"
definition MAX_INPUT_BYTES :: nat where "MAX_INPUT_BYTES = 16 * 1024"
definition OUTPUT_CHUNK_BYTES :: nat where "OUTPUT_CHUNK_BYTES = 16 * 1024"
definition OUTPUT_QUEUE_CAPACITY :: nat where "OUTPUT_QUEUE_CAPACITY = 64"
definition OUTPUT_BATCH_BYTES :: nat where "OUTPUT_BATCH_BYTES = 64 * 1024"
definition TOMBSTONE_LIMIT :: nat where "TOMBSTONE_LIMIT = 64"

datatype terminal_read = ReadData string | ReadExit u32 | ReadClosed

text \<open>A channel is a handle; what it does is an argument of the operations that call it.\<close>

datatype terminal_channel = Channel nat

text \<open>
  Who holds the sending half of the output queue: the opening call, the pump between two reads,
  the pump with chunks still to send, or nobody.
\<close>

datatype pump_state = PumpStarting | PumpReading | PumpSending "string list" | PumpStopped

record terminal_entry =
  te_view :: terminal_session
  te_channel :: "terminal_channel option"
  te_queue :: "string list"
  te_carryover :: "string option"
  te_pump :: pump_state
  te_cancelled :: bool

record ownership =
  ow_host_id :: host_id
  ow_host_session_id :: host_session_id
  ow_terminal_id :: terminal_session_id

record terminal_manager =
  tm_entries :: "(terminal_session_id, terminal_entry) fmap"
  tm_sessions :: "terminal_session_id fset"
  tm_next_label :: "(host_id, u32) fmap"
  tm_closed :: "ownership list"

definition terminal_manager_default :: terminal_manager where
  "terminal_manager_default =
     \<lparr>tm_entries = fmempty, tm_sessions = {||}, tm_next_label = fmempty, tm_closed = []\<rparr>"

record terminal_output_batch =
  tb_session :: terminal_session
  tb_chunks :: "string list"
  tb_drained :: bool

section \<open>Errors\<close>

definition invalid_input :: app_error where
  "invalid_input = AppError_new Validation
     ''Terminal input must be non-empty base64 data no larger than 16 KiB.''"

definition terminal_unavailable :: app_error where
  "terminal_unavailable = AppError_new TerminalUnavailable
     ''This terminal is no longer open. Open a new terminal to continue.''"

definition terminal_not_found :: app_error where
  "terminal_not_found = AppError_new NotFound ''The terminal session was not found.''"

definition terminal_cancelled :: app_error where
  "terminal_cancelled = AppError_new Cancelled ''Terminal creation was cancelled.''"

definition too_many_terminals :: app_error where
  "too_many_terminals = AppError_new Conflict
     ''This host already has the maximum of eight terminal sessions.''"

definition startup_timed_out :: app_error where
  "startup_timed_out = AppError_new TerminalStartup
     ''The remote terminal did not start within ten seconds.''"

definition verify_ownership :: "terminal_session \<Rightarrow> ownership \<Rightarrow> unit app_result" where
  "verify_ownership view key =
     (if tv_host_id view \<noteq> ow_host_id key \<or> tv_host_session_id view \<noteq> ow_host_session_id key
      then Err (AppError_new Policy ''This terminal does not belong to the supplied host connection.'')
      else Ok ())"

section \<open>Operations on one entry\<close>

definition set_state :: "terminal_state \<Rightarrow> terminal_entry \<Rightarrow> terminal_entry" where
  "set_state st e = e\<lparr>te_view := (te_view e)\<lparr>tv_state := st\<rparr>\<rparr>"

abbreviation entry_state :: "terminal_entry \<Rightarrow> terminal_state" where
  "entry_state e \<equiv> tv_state (te_view e)"

definition fail_entry :: "app_error \<Rightarrow> terminal_state \<Rightarrow> terminal_entry \<Rightarrow> terminal_entry" where
  "fail_entry err st e = e\<lparr>te_view := (te_view e)\<lparr>tv_state := st, tv_error := Some err\<rparr>\<rparr>"

definition require_open :: "terminal_entry \<Rightarrow> unit app_result" where
  "require_open e =
     (if entry_state e \<noteq> TOpen \<or> te_cancelled e then Err terminal_unavailable else Ok ())"

text \<open>
  Opening: the channel is installed only if nobody cancelled the entry or finished it meanwhile.
  The sending half of the queue then moves into the pump task.
\<close>

definition accept_channel :: "terminal_channel \<Rightarrow> terminal_entry \<Rightarrow> bool \<times> terminal_entry" where
  "accept_channel ch e =
     (if te_cancelled e \<or> entry_state e \<noteq> TCreating then (False, e\<lparr>te_pump := PumpStopped\<rparr>)
      else (True, (set_state TOpen e)\<lparr>te_channel := Some ch, te_pump := PumpReading\<rparr>))"

text \<open>
  The branch of a failed start. \<open>finalized\<close> is what the look at the view before it saw: whether
  somebody else had already finished the entry. The opening call returns and drops the sender.
\<close>

definition start_failed :: "bool \<Rightarrow> app_error \<Rightarrow> terminal_entry \<Rightarrow> terminal_entry" where
  "start_failed finalized err e =
     (let e1 = e\<lparr>te_cancelled := True, te_pump := PumpStopped\<rparr>
      in if finalized then e1
         else fail_entry err (if err_code err = Cancelled then TDisconnected else TFailed) e1)"

definition start_cancelled :: "terminal_entry \<Rightarrow> terminal_entry" where
  "start_cancelled e = (fail_entry terminal_cancelled TDisconnected e)\<lparr>te_pump := PumpStopped\<rparr>"

text \<open>\<open>StartupGuard::drop\<close> on an armed guard: the caller dropped the opening future.\<close>

definition startup_guard_drop :: "terminal_entry \<Rightarrow> terminal_entry" where
  "startup_guard_drop e =
     (let e1 = e\<lparr>te_cancelled := True, te_pump := PumpStopped\<rparr>
      in if entry_state e1 = TCreating then fail_entry terminal_cancelled TDisconnected e1 else e1)"

text \<open>\<open>slice::chunks\<close>.\<close>

function slice_chunks :: "nat \<Rightarrow> 'a list \<Rightarrow> 'a list list" where
  "slice_chunks n xs =
     (if xs = [] \<or> n = 0 then [] else take n xs # slice_chunks n (drop n xs))"
  by auto
termination by (relation "measure (\<lambda>(n, xs). length xs)") auto

declare slice_chunks.simps [simp del]

text \<open>
  One step of \<open>pump_output\<close>. Between two reads it looks at the cancellation, then takes what the
  channel read returned; while sending it returns at a cancellation, waits while the queue is full
  and pushes the next chunk otherwise. Leaving the loop takes the channel out of its slot;
  returning while sending does not.
\<close>

definition pump_break :: "terminal_entry \<Rightarrow> terminal_entry" where
  "pump_break e = e\<lparr>te_channel := None, te_pump := PumpStopped\<rparr>"

fun pump_event :: "terminal_read app_result \<Rightarrow> terminal_entry \<Rightarrow> terminal_entry" where
  "pump_event (Ok (ReadData data)) e = e\<lparr>te_pump := PumpSending (slice_chunks OUTPUT_CHUNK_BYTES data)\<rparr>"
| "pump_event (Err err) e =
     pump_break (if entry_state e = TOpen
       then fail_entry err (if err_code err = Connection then TDisconnected else TFailed) e else e)"
| "pump_event (Ok _) e = pump_break (if entry_state e = TOpen then set_state TClosed e else e)"

definition pump_step :: "terminal_read app_result \<Rightarrow> terminal_entry \<Rightarrow> terminal_entry" where
  "pump_step r e =
     (case te_pump e of
        PumpReading \<Rightarrow> if te_cancelled e then pump_break e else pump_event r e
      | PumpSending [] \<Rightarrow> e\<lparr>te_pump := PumpReading\<rparr>
      | PumpSending (c # cs) \<Rightarrow>
          if te_cancelled e then e\<lparr>te_pump := PumpStopped\<rparr>
          else if length (te_queue e) \<ge> OUTPUT_QUEUE_CAPACITY then e
          else e\<lparr>te_queue := te_queue e @ [c], te_pump := PumpSending cs\<rparr>
      | _ \<Rightarrow> e)"

text \<open>
  \<open>append_output_chunk\<close> and the two loops of \<open>poll\<close>. Base64 is a library of the source: its
  encoder is an argument. Chunks the pump sends while a poll runs are those of a send before it.
\<close>

type_synonym poll_acc = "string list \<times> nat \<times> string option"

fun append_output_chunk :: "(string \<Rightarrow> string) \<Rightarrow> string \<Rightarrow> poll_acc \<Rightarrow> poll_acc" where
  "append_output_chunk encode chunk (chunks, filled, carryover) =
     (let remaining = OUTPUT_BATCH_BYTES - filled;
          carryover' = (if length chunk > remaining then Some (drop remaining chunk) else carryover);
          chunk' = (if length chunk > remaining then take remaining chunk else chunk)
      in (if chunk' = [] then chunks else chunks @ [encode chunk'], filled + length chunk', carryover'))"

fun poll_receive :: "(string \<Rightarrow> string) \<Rightarrow> string list \<Rightarrow> poll_acc \<Rightarrow> poll_acc \<times> string list" where
  "poll_receive encode [] acc = (acc, [])"
| "poll_receive encode (c # q) acc =
     (if fst (snd acc) < OUTPUT_BATCH_BYTES
      then poll_receive encode q (append_output_chunk encode c acc)
      else (acc, c # q))"

definition poll_entry :: "(string \<Rightarrow> string) \<Rightarrow> terminal_entry \<Rightarrow> terminal_output_batch \<times> terminal_entry" where
  "poll_entry encode e =
     (let acc0 = (case te_carryover e of
                    None \<Rightarrow> ([], 0, None)
                  | Some chunk \<Rightarrow> append_output_chunk encode chunk ([], 0, None));
          ((chunks, filled, carryover), queue) = poll_receive encode (te_queue e) acc0
      in (\<lparr>tb_session = te_view e, tb_chunks = chunks,
           tb_drained = (carryover = None \<and> te_pump e = PumpStopped \<and> queue = [])\<rparr>,
          e\<lparr>te_carryover := carryover, te_queue := queue\<rparr>))"

text \<open>
  \<open>close_entry\<close>: mark the entry (unless it is already disconnected and is only to be
  disconnected) and cancel it; take the channel; discard the buffered output and set the final
  state.
\<close>

definition close_begin :: "terminal_state \<Rightarrow> terminal_entry \<Rightarrow> terminal_entry option" where
  "close_begin final e =
     (if entry_state e = TDisconnected \<and> final \<noteq> TClosed then None
      else Some ((set_state TClosing e)\<lparr>te_cancelled := True\<rparr>))"

definition close_take :: "terminal_entry \<Rightarrow> terminal_entry" where
  "close_take e = e\<lparr>te_channel := None\<rparr>"

definition close_finish :: "terminal_state \<Rightarrow> terminal_entry \<Rightarrow> terminal_entry" where
  "close_finish final e = (set_state final e)\<lparr>te_carryover := None, te_queue := []\<rparr>"

definition close_entry :: "terminal_state \<Rightarrow> terminal_entry \<Rightarrow> terminal_entry" where
  "close_entry final e =
     (case close_begin final e of None \<Rightarrow> e | Some e1 \<Rightarrow> close_finish final (close_take e1))"

definition set_size :: "terminal_size \<Rightarrow> terminal_entry \<Rightarrow> terminal_entry" where
  "set_size sz e = e\<lparr>te_view := (te_view e)\<lparr>tv_size := sz\<rparr>\<rparr>"

definition set_label :: "string \<Rightarrow> terminal_entry \<Rightarrow> terminal_entry" where
  "set_label l e = e\<lparr>te_view := (te_view e)\<lparr>tv_label := l\<rparr>\<rparr>"

text \<open>Everything that can happen to an entry.\<close>

datatype entry_event =
    EAccept terminal_channel
  | EStartFailed bool app_error
  | EStartCancelled
  | EGuardDrop
  | EPump "terminal_read app_result"
  | EPoll
  | ECloseBegin terminal_state
  | ECloseTake
  | ECloseFinish terminal_state
  | EResized terminal_size
  | ERenamed string

fun entry_step :: "(string \<Rightarrow> string) \<Rightarrow> entry_event \<Rightarrow> terminal_entry \<Rightarrow> terminal_entry" where
  "entry_step encode (EAccept ch) e = snd (accept_channel ch e)"
| "entry_step encode (EStartFailed finalized err) e = start_failed finalized err e"
| "entry_step encode EStartCancelled e = start_cancelled e"
| "entry_step encode EGuardDrop e = startup_guard_drop e"
| "entry_step encode (EPump r) e = pump_step r e"
| "entry_step encode EPoll e = snd (poll_entry encode e)"
| "entry_step encode (ECloseBegin final) e = (case close_begin final e of None \<Rightarrow> e | Some e1 \<Rightarrow> e1)"
| "entry_step encode ECloseTake e = close_take e"
| "entry_step encode (ECloseFinish final) e = close_finish final e"
| "entry_step encode (EResized sz) e = set_size sz e"
| "entry_step encode (ERenamed l) e = set_label l e"

text \<open>
  Startup events belong to the opening call, so they come only while it holds the sender; a
  late \<open>start_cancelled\<close> has seen the cancellation. Closing goes on only after it began. Final
  states are those the callers pass.
\<close>

fun entry_enabled :: "entry_event \<Rightarrow> terminal_entry \<Rightarrow> bool" where
  "entry_enabled (EAccept ch) e = (te_pump e = PumpStarting)"
| "entry_enabled (EStartFailed finalized err) e =
     (te_pump e = PumpStarting \<and> (finalized \<longrightarrow> entry_state e \<noteq> TCreating))"
| "entry_enabled EStartCancelled e = (te_pump e = PumpStarting \<and> te_cancelled e)"
| "entry_enabled EGuardDrop e = (te_pump e = PumpStarting)"
| "entry_enabled (ECloseBegin final) e = (final \<in> {TClosed, TDisconnected})"
| "entry_enabled ECloseTake e = te_cancelled e"
| "entry_enabled (ECloseFinish final) e = (te_cancelled e \<and> final \<in> {TClosed, TDisconnected})"
| "entry_enabled _ e = True"

section \<open>The manager\<close>

definition session_entry :: "terminal_session_id \<Rightarrow> terminal_manager \<Rightarrow> terminal_entry option" where
  "session_entry tid s = (if tid |\<in>| tm_sessions s then fmlookup (tm_entries s) tid else None)"

definition upd_entry ::
  "terminal_session_id \<Rightarrow> (terminal_entry \<Rightarrow> terminal_entry) \<Rightarrow> terminal_manager \<Rightarrow> terminal_manager" where
  "upd_entry tid f s =
     (case fmlookup (tm_entries s) tid of
        None \<Rightarrow> s
      | Some e \<Rightarrow> s\<lparr>tm_entries := fmupd tid (f e) (tm_entries s)\<rparr>)"

definition finished :: "terminal_state \<Rightarrow> bool" where
  "finished st = (st \<in> {TClosed, TFailed, TDisconnected})"

definition open_count :: "host_id \<Rightarrow> terminal_manager \<Rightarrow> nat" where
  "open_count h s = fcard (ffilter (\<lambda>tid. case session_entry tid s of
       None \<Rightarrow> False
     | Some e \<Rightarrow> tv_host_id (te_view e) = h \<and> \<not> finished (entry_state e)) (tm_sessions s))"

definition new_terminal ::
  "terminal_session_id \<Rightarrow> host_id \<Rightarrow> host_session_id \<Rightarrow> u32 \<Rightarrow> terminal_size \<Rightarrow> terminal_entry" where
  "new_terminal tid h hs number sz =
     \<lparr>te_view = \<lparr>tv_id = tid, tv_host_id = h, tv_host_session_id = hs,
        tv_label = ''Terminal '' @ fmt_dec (unat number), tv_state = TCreating, tv_size = sz,
        tv_error = None\<rparr>,
      te_channel = None, te_queue = [], te_carryover = None, te_pump = PumpStarting,
      te_cancelled = False\<rparr>"

definition open_reserve ::
  "host_id \<Rightarrow> host_session_id \<Rightarrow> terminal_size \<Rightarrow> terminal_session_id \<Rightarrow> terminal_manager \<Rightarrow>
   unit app_result \<times> terminal_manager" where
  "open_reserve h hs size0 tid s =
     (case terminal_size_validate size0 of
        Err e \<Rightarrow> (Err e, s)
      | Ok sz \<Rightarrow>
          if open_count h s \<ge> MAX_OPEN_TERMINALS_PER_HOST then (Err too_many_terminals, s)
          else
            let number = saturating_succ (case fmlookup (tm_next_label s) h of None \<Rightarrow> 0 | Some n \<Rightarrow> n)
            in (Ok (), s\<lparr>tm_entries := fmupd tid (new_terminal tid h hs number sz) (tm_entries s),
                         tm_sessions := finsert tid (tm_sessions s),
                         tm_next_label := fmupd h number (tm_next_label s)\<rparr>))"

definition forget_session :: "terminal_session_id \<Rightarrow> terminal_manager \<Rightarrow> terminal_manager" where
  "forget_session tid s = s\<lparr>tm_sessions := tm_sessions s |-| {|tid|}\<rparr>"

text \<open>The last section of \<open>close\<close>: the session leaves the table and leaves a tombstone.\<close>

definition bury :: "ownership \<Rightarrow> terminal_manager \<Rightarrow> terminal_manager" where
  "bury key s =
     (let closed = tm_closed s @ [key]
      in s\<lparr>tm_sessions := tm_sessions s |-| {|ow_terminal_id key|},
           tm_closed := (if length closed > TOMBSTONE_LIMIT then tl closed else closed)\<rparr>)"

definition forget_host :: "host_id \<Rightarrow> terminal_manager \<Rightarrow> terminal_manager" where
  "forget_host h s =
     s\<lparr>tm_sessions := ffilter (\<lambda>tid. case fmlookup (tm_entries s) tid of
           None \<Rightarrow> False | Some e \<Rightarrow> tv_host_id (te_view e) \<noteq> h) (tm_sessions s),
       tm_closed := filter (\<lambda>key. ow_host_id key \<noteq> h) (tm_closed s),
       tm_next_label := fmdrop h (tm_next_label s)\<rparr>"

definition clear_sessions :: "terminal_manager \<Rightarrow> terminal_manager" where
  "clear_sessions s = s\<lparr>tm_sessions := {||}, tm_closed := []\<rparr>"

datatype manager_event =
    MReserve host_id host_session_id terminal_size terminal_session_id
  | MEntry terminal_session_id entry_event
  | MForget terminal_session_id
  | MBury ownership
  | MForgetHost host_id
  | MClear

fun manager_step :: "(string \<Rightarrow> string) \<Rightarrow> manager_event \<Rightarrow> terminal_manager \<Rightarrow> terminal_manager" where
  "manager_step encode (MReserve h hs sz tid) s = snd (open_reserve h hs sz tid s)"
| "manager_step encode (MEntry tid ev) s = upd_entry tid (entry_step encode ev) s"
| "manager_step encode (MForget tid) s = forget_session tid s"
| "manager_step encode (MBury key) s = bury key s"
| "manager_step encode (MForgetHost h) s = forget_host h s"
| "manager_step encode MClear s = clear_sessions s"

fun manager_enabled :: "manager_event \<Rightarrow> terminal_manager \<Rightarrow> bool" where
  "manager_enabled (MReserve h hs sz tid) s = (fmlookup (tm_entries s) tid = None)"
| "manager_enabled (MEntry tid ev) s =
     (case fmlookup (tm_entries s) tid of None \<Rightarrow> False | Some e \<Rightarrow> entry_enabled ev e)"
| "manager_enabled _ s = True"

section \<open>Whole operations\<close>

text \<open>
  The lists of events are what other tasks do at the awaits, in the order of the awaits. In
  \<open>open_terminal\<close>, \<open>connect\<close> is the answer of the connector, \<open>None\<close> when it did not answer
  within the timeout.
\<close>

record open_env =
  oe_connecting :: "manager_event list"
  oe_connected :: "manager_event list"
  oe_accepting :: "manager_event list"

definition view_of :: "terminal_session_id \<Rightarrow> terminal_manager \<Rightarrow> terminal_session option" where
  "view_of tid s = map_option te_view (fmlookup (tm_entries s) tid)"

definition cancelled_in :: "terminal_session_id \<Rightarrow> terminal_manager \<Rightarrow> bool" where
  "cancelled_in tid s = (case fmlookup (tm_entries s) tid of None \<Rightarrow> False | Some e \<Rightarrow> te_cancelled e)"

definition open_failed ::
  "terminal_session_id \<Rightarrow> app_error \<Rightarrow> terminal_manager \<Rightarrow> terminal_manager" where
  "open_failed tid err s =
     (let finalized = (case view_of tid s of None \<Rightarrow> False | Some v \<Rightarrow> tv_state v \<noteq> TCreating);
          s1 = upd_entry tid (start_failed finalized err) s
      in if finalized then s1 else forget_session tid s1)"

definition open_terminal ::
  "(string \<Rightarrow> string) \<Rightarrow> host_id \<Rightarrow> host_session_id \<Rightarrow> terminal_size \<Rightarrow> terminal_session_id \<Rightarrow>
   terminal_channel app_result option \<Rightarrow> open_env \<Rightarrow> terminal_manager \<Rightarrow>
   terminal_session app_result \<times> terminal_manager" where
  "open_terminal encode h hs sz tid connect env s =
     (case open_reserve h hs sz tid s of
        (Err e, s1) \<Rightarrow> (Err e, s1)
      | (Ok _, s1) \<Rightarrow>
          let s2 = fold (manager_step encode) (oe_connecting env) s1;
              open_result = (if cancelled_in tid s2 then Err terminal_cancelled
                             else case connect of None \<Rightarrow> Err startup_timed_out | Some r \<Rightarrow> r);
              s3 = fold (manager_step encode) (oe_connected env) s2
          in (case open_result of
                Err e \<Rightarrow> (Err e, open_failed tid e s3)
              | Ok ch \<Rightarrow>
                  if cancelled_in tid s3 then (Err terminal_cancelled, upd_entry tid start_cancelled s3)
                  else
                    let s4 = fold (manager_step encode) (oe_accepting env) s3
                    in (case fmlookup (tm_entries s4) tid of
                          None \<Rightarrow> (Err terminal_cancelled, s4)
                        | Some e \<Rightarrow>
                            (let (accepted, e') = accept_channel ch e;
                                 s5 = s4\<lparr>tm_entries := fmupd tid e' (tm_entries s4)\<rparr>
                             in (if accepted then Ok (te_view e') else Err terminal_cancelled, s5)))))"

definition list_terminals :: "terminal_session_id list \<Rightarrow> host_id \<Rightarrow> terminal_manager \<Rightarrow> terminal_session list" where
  "list_terminals order h s =
     sort_key tv_label (filter (\<lambda>v. tv_host_id v = h)
       (List.map_filter (\<lambda>tid. map_option te_view (session_entry tid s)) order))"

definition entry_of :: "ownership \<Rightarrow> terminal_manager \<Rightarrow> terminal_entry app_result" where
  "entry_of key s =
     and_then (ok_or (session_entry (ow_terminal_id key) s) terminal_not_found) (\<lambda>e.
     and_then (verify_ownership (te_view e) key) (\<lambda>_. Ok e))"

definition poll ::
  "(string \<Rightarrow> string) \<Rightarrow> ownership \<Rightarrow> terminal_manager \<Rightarrow> terminal_output_batch app_result \<times> terminal_manager" where
  "poll encode key s =
     (case entry_of key s of
        Err x \<Rightarrow> (Err x, s)
      | Ok e \<Rightarrow> (Ok (fst (poll_entry encode e)), upd_entry (ow_terminal_id key) (\<lambda>e. snd (poll_entry encode e)) s))"

text \<open>
  \<open>write\<close> changes no state of the manager; its second component is what reached a channel.
\<close>

definition write_input ::
  "(string \<Rightarrow> string option) \<Rightarrow> (terminal_channel \<Rightarrow> string \<Rightarrow> unit app_result option) \<Rightarrow> ownership \<Rightarrow>
   string \<Rightarrow> terminal_manager \<Rightarrow> unit app_result \<times> (terminal_channel \<times> string) list" where
  "write_input decode channel_write key data_base64 s =
     (if length data_base64 > (MAX_INPUT_BYTES * 4 div 3) + 8 then (Err invalid_input, [])
      else case decode data_base64 of
        None \<Rightarrow> (Err invalid_input, [])
      | Some data \<Rightarrow>
          if data = [] \<or> length data > MAX_INPUT_BYTES then (Err invalid_input, [])
          else case and_then (entry_of key s) (\<lambda>e. and_then (require_open e) (\<lambda>_.
                      ok_or (te_channel e) terminal_unavailable)) of
            Err x \<Rightarrow> (Err x, [])
          | Ok ch \<Rightarrow>
              (case channel_write ch data of
                 None \<Rightarrow> Err (AppError_new TerminalStream ''Terminal input timed out.'')
               | Some r \<Rightarrow> r, [(ch, data)]))"

definition resize ::
  "(string \<Rightarrow> string) \<Rightarrow> (terminal_channel \<Rightarrow> terminal_size \<Rightarrow> unit app_result option) \<Rightarrow> ownership \<Rightarrow>
   terminal_size \<Rightarrow> manager_event list \<Rightarrow> manager_event list \<Rightarrow> terminal_manager \<Rightarrow>
   unit app_result \<times> terminal_manager" where
  "resize encode channel_resize key size0 gate_wait io_wait s =
     (case and_then (terminal_size_validate size0) (\<lambda>sz. and_then (entry_of key s) (\<lambda>e.
             and_then (require_open e) (\<lambda>_. Ok sz))) of
        Err x \<Rightarrow> (Err x, s)
      | Ok sz \<Rightarrow>
          let s1 = fold (manager_step encode) gate_wait s;
              tid = ow_terminal_id key
          in (case Option.bind (fmlookup (tm_entries s1) tid) te_channel of
                None \<Rightarrow> (Err terminal_unavailable, s1)
              | Some ch \<Rightarrow>
                  let s2 = fold (manager_step encode) io_wait s1
                  in (case channel_resize ch sz of
                        None \<Rightarrow> (Err (AppError_new TerminalResize ''Terminal resize timed out.''), s2)
                      | Some (Err x) \<Rightarrow> (Err x, s2)
                      | Some (Ok _) \<Rightarrow> (Ok (), upd_entry tid (set_size sz) s2))))"

definition rename :: "ownership \<Rightarrow> string \<Rightarrow> terminal_manager \<Rightarrow> terminal_session app_result \<times> terminal_manager" where
  "rename key label0 s =
     (let label = str_trim label0
      in if label = [] \<or> chars_count label > 64 \<or> \<not> (case utf8_chars label of None \<Rightarrow> True | Some vs \<Rightarrow> list_all (\<lambda>v. \<not> is_control v) vs)
         then (Err (AppError_new Validation ''Terminal names must contain 1 to 64 printable characters.''), s)
         else case entry_of key s of
           Err x \<Rightarrow> (Err x, s)
         | Ok e \<Rightarrow> (Ok (te_view (set_label label e)), upd_entry (ow_terminal_id key) (set_label label) s))"

text \<open>
  \<open>close_entry\<close> on an entry of the store, with what other tasks do before its channel is taken
  and before its output is discarded.
\<close>

definition close_stored ::
  "(string \<Rightarrow> string) \<Rightarrow> terminal_state \<Rightarrow> manager_event list \<times> manager_event list \<Rightarrow>
   terminal_session_id \<Rightarrow> terminal_manager \<Rightarrow> terminal_manager" where
  "close_stored encode final env tid s =
     (case Option.bind (fmlookup (tm_entries s) tid) (close_begin final) of
        None \<Rightarrow> s
      | Some e1 \<Rightarrow>
          let s1 = fold (manager_step encode) (fst env) (s\<lparr>tm_entries := fmupd tid e1 (tm_entries s)\<rparr>);
              s2 = fold (manager_step encode) (snd env) (upd_entry tid close_take s1)
          in upd_entry tid (close_finish final) s2)"

definition close ::
  "(string \<Rightarrow> string) \<Rightarrow> ownership \<Rightarrow> manager_event list \<times> manager_event list \<Rightarrow> terminal_manager \<Rightarrow>
   unit app_result \<times> terminal_manager" where
  "close encode key env s =
     (if key \<in> set (tm_closed s) then (Ok (), s)
      else case entry_of key s of
        Err x \<Rightarrow> (Err x, s)
      | Ok _ \<Rightarrow> (Ok (), bury key (close_stored encode TClosed env (ow_terminal_id key) s)))"

text \<open>
  The three operations on many terminals close the entries they collected, in the iteration order
  of the table (\<open>order\<close>), and then drop the sessions.
\<close>

fun close_each ::
  "(string \<Rightarrow> string) \<Rightarrow> terminal_state \<Rightarrow> (terminal_session_id \<Rightarrow> manager_event list \<times> manager_event list) \<Rightarrow>
   terminal_session_id list \<Rightarrow> terminal_manager \<Rightarrow> terminal_manager" where
  "close_each encode final env [] s = s"
| "close_each encode final env (tid # tids) s =
     close_each encode final env tids (close_stored encode final (env tid) tid s)"

definition sessions_where :: "(terminal_session \<Rightarrow> bool) \<Rightarrow> terminal_session_id list \<Rightarrow> terminal_manager \<Rightarrow> terminal_session_id list" where
  "sessions_where P order s =
     filter (\<lambda>tid. case session_entry tid s of None \<Rightarrow> False | Some e \<Rightarrow> P (te_view e)) order"

definition disconnect_connection ::
  "(string \<Rightarrow> string) \<Rightarrow> host_id \<Rightarrow> host_session_id \<Rightarrow> terminal_session_id list \<Rightarrow>
   (terminal_session_id \<Rightarrow> manager_event list \<times> manager_event list) \<Rightarrow> terminal_manager \<Rightarrow> terminal_manager" where
  "disconnect_connection encode h hs order env s =
     close_each encode TDisconnected env
       (sessions_where (\<lambda>v. tv_host_id v = h \<and> tv_host_session_id v = hs) order s) s"

definition remove_host ::
  "(string \<Rightarrow> string) \<Rightarrow> host_id \<Rightarrow> terminal_session_id list \<Rightarrow>
   (terminal_session_id \<Rightarrow> manager_event list \<times> manager_event list) \<Rightarrow> terminal_manager \<Rightarrow> terminal_manager" where
  "remove_host encode h order env s =
     forget_host h (close_each encode TClosed env (sessions_where (\<lambda>v. tv_host_id v = h) order s) s)"

definition shutdown ::
  "(string \<Rightarrow> string) \<Rightarrow> terminal_session_id list \<Rightarrow>
   (terminal_session_id \<Rightarrow> manager_event list \<times> manager_event list) \<Rightarrow> terminal_manager \<Rightarrow> terminal_manager" where
  "shutdown encode order env s =
     clear_sessions (close_each encode TClosed env (sessions_where (\<lambda>_. True) order s) s)"

section \<open>Polling takes the front of the stream\<close>

definition held :: "string option \<Rightarrow> string" where
  "held c = (case c of None \<Rightarrow> [] | Some x \<Rightarrow> x)"

lemma held_simps [simp]: "held None = []" "held (Some x) = x"
  by (simp_all add: held_def)

text \<open>Bytes that a poll can still deliver, and bytes the pump has read but not queued.\<close>

definition ready :: "terminal_entry \<Rightarrow> string" where
  "ready e = held (te_carryover e) @ concat (te_queue e)"

definition sending :: "terminal_entry \<Rightarrow> string" where
  "sending e = (case te_pump e of PumpSending cs \<Rightarrow> concat cs | _ \<Rightarrow> [])"

definition decoded :: "(string \<Rightarrow> string option) \<Rightarrow> string list \<Rightarrow> string" where
  "decoded decode cs = concat (map (\<lambda>c. the (decode c)) cs)"

lemma decoded_append [simp]: "decoded decode (xs @ ys) = decoded decode xs @ decoded decode ys"
  by (simp add: decoded_def)

lemma decoded_simps [simp]:
  "decoded decode [] = []" "decode (encode x) = Some x \<Longrightarrow> decoded decode [encode x] = x"
  by (simp_all add: decoded_def)

lemma append_output_chunk_spec:
  assumes "append_output_chunk encode c (chunks, n, None) = (chunks', n', carry')"
    and "n \<le> OUTPUT_BATCH_BYTES" "\<forall>x. decode (encode x) = Some x"
  shows "decoded decode chunks' = decoded decode chunks @ take (OUTPUT_BATCH_BYTES - n) c"
    and "held carry' = drop (OUTPUT_BATCH_BYTES - n) c"
    and "n' = n + length (take (OUTPUT_BATCH_BYTES - n) c)"
    and "carry' \<noteq> None \<longrightarrow> n' = OUTPUT_BATCH_BYTES"
  using assms by (auto simp: Let_def split: if_splits)

lemma poll_receive_spec:
  assumes "poll_receive encode q (chunks, n, carry) = ((chunks', n', carry'), q')"
    and "n \<le> OUTPUT_BATCH_BYTES" "carry \<noteq> None \<longrightarrow> n = OUTPUT_BATCH_BYTES"
    and dec: "\<forall>x. decode (encode x) = Some x"
  shows "decoded decode chunks' = decoded decode chunks @ take (OUTPUT_BATCH_BYTES - n) (held carry @ concat q)
       \<and> held carry' @ concat q' = drop (OUTPUT_BATCH_BYTES - n) (held carry @ concat q)"
  using assms(1-3)
proof (induction q arbitrary: chunks n carry)
  case (Cons c q)
  show ?case
  proof (cases "n < OUTPUT_BATCH_BYTES")
    case True
    then have none: "carry = None" using Cons.prems(3) by auto
    obtain ch1 n1 ca1 where a: "append_output_chunk encode c (chunks, n, None) = (ch1, n1, ca1)"
      by (rule prod_cases3)
    note spec = append_output_chunk_spec [OF a Cons.prems(2) dec]
    have "poll_receive encode q (ch1, n1, ca1) = ((chunks', n', carry'), q')"
      using Cons.prems(1) True a none by (simp del: append_output_chunk.simps)
    moreover have "n1 \<le> OUTPUT_BATCH_BYTES" using spec(3) Cons.prems(2) by simp
    ultimately have IH: "decoded decode chunks' = decoded decode ch1 @ take (OUTPUT_BATCH_BYTES - n1) (held ca1 @ concat q)"
      "held carry' @ concat q' = drop (OUTPUT_BATCH_BYTES - n1) (held ca1 @ concat q)"
      using Cons.IH spec(4) by blast+
    show ?thesis
      using IH spec none by (auto simp: min_def split: if_splits)
  next
    case False
    then show ?thesis using Cons.prems by simp
  qed
qed auto

lemma poll_entry_spec:
  assumes "\<forall>x. decode (encode x) = Some x"
  shows "decoded decode (tb_chunks (fst (poll_entry encode e))) = take OUTPUT_BATCH_BYTES (ready e)"
    and "ready (snd (poll_entry encode e)) = drop OUTPUT_BATCH_BYTES (ready e)"
proof -
  define acc0 where "acc0 = (case te_carryover e of None \<Rightarrow> ([], 0, None)
      | Some chunk \<Rightarrow> append_output_chunk encode chunk ([], 0, None))"
  obtain ch0 n0 ca0 where acc0: "acc0 = (ch0, n0, ca0)" by (rule prod_cases3)
  obtain ch n ca q where r: "poll_receive encode (te_queue e) (ch0, n0, ca0) = ((ch, n, ca), q)"
    by (metis prod_cases4 prod.collapse)
  have init: "decoded decode ch0 = take OUTPUT_BATCH_BYTES (held (te_carryover e))"
    "held ca0 = drop OUTPUT_BATCH_BYTES (held (te_carryover e))"
    "n0 = length (take OUTPUT_BATCH_BYTES (held (te_carryover e)))"
    "ca0 \<noteq> None \<longrightarrow> n0 = OUTPUT_BATCH_BYTES"
    using append_output_chunk_spec [of encode _ "[]" 0 ch0 n0 ca0, OF _ _ assms] acc0
    by (auto simp: acc0_def split: option.splits simp del: append_output_chunk.simps)
  have n0: "n0 \<le> OUTPUT_BATCH_BYTES" using init(3) by simp
  note spec = poll_receive_spec [OF r n0 init(4) assms]
  have e: "fst (poll_entry encode e) = \<lparr>tb_session = te_view e, tb_chunks = ch,
      tb_drained = (ca = None \<and> te_pump e = PumpStopped \<and> q = [])\<rparr>"
    "snd (poll_entry encode e) = e\<lparr>te_carryover := ca, te_queue := q\<rparr>"
    using r acc0 unfolding poll_entry_def acc0_def [symmetric] by simp_all
  show "decoded decode (tb_chunks (fst (poll_entry encode e))) = take OUTPUT_BATCH_BYTES (ready e)"
    using spec init by (auto simp: e ready_def min_def)
  show "ready (snd (poll_entry encode e)) = drop OUTPUT_BATCH_BYTES (ready e)"
    using spec init by (auto simp: e ready_def min_def)
qed

section \<open>The output stream\<close>

lemma concat_slice_chunks [simp]: "0 < n \<Longrightarrow> concat (slice_chunks n xs) = xs"
proof (induction n xs rule: slice_chunks.induct)
  case (1 n xs)
  then show ?case by (subst slice_chunks.simps) simp
qed

lemma slice_chunks_length: "list_all (\<lambda>c. c \<noteq> [] \<and> length c \<le> n) (slice_chunks n xs)"
proof (induction n xs rule: slice_chunks.induct)
  case (1 n xs)
  then show ?case by (subst slice_chunks.simps) simp
qed

text \<open>What the pump reads from the channel, and what polls return, along a sequence of events.\<close>

fun read_bytes :: "entry_event \<Rightarrow> terminal_entry \<Rightarrow> string" where
  "read_bytes (EPump (Ok (ReadData data))) e = (if te_pump e = PumpReading \<and> \<not> te_cancelled e then data else [])"
| "read_bytes _ e = []"

fun stream_read :: "(string \<Rightarrow> string) \<Rightarrow> entry_event list \<Rightarrow> terminal_entry \<Rightarrow> string" where
  "stream_read encode [] e = []"
| "stream_read encode (ev # evs) e = read_bytes ev e @ stream_read encode evs (entry_step encode ev e)"

definition polled_bytes ::
  "(string \<Rightarrow> string option) \<Rightarrow> (string \<Rightarrow> string) \<Rightarrow> entry_event \<Rightarrow> terminal_entry \<Rightarrow> string" where
  "polled_bytes decode encode ev e =
     (if ev = EPoll then decoded decode (tb_chunks (fst (poll_entry encode e))) else [])"

fun stream_polled ::
  "(string \<Rightarrow> string option) \<Rightarrow> (string \<Rightarrow> string) \<Rightarrow> entry_event list \<Rightarrow> terminal_entry \<Rightarrow> string" where
  "stream_polled decode encode [] e = []"
| "stream_polled decode encode (ev # evs) e =
     polled_bytes decode encode ev e @ stream_polled decode encode evs (entry_step encode ev e)"

lemmas entry_defs = accept_channel_def start_failed_def start_cancelled_def startup_guard_drop_def
  pump_step_def pump_break_def close_begin_def close_take_def close_finish_def set_size_def set_label_def
  set_state_def fail_entry_def

lemma poll_entry_fields [simp]:
  "te_pump (snd (poll_entry encode e)) = te_pump e"
  "te_cancelled (snd (poll_entry encode e)) = te_cancelled e"
  "te_view (snd (poll_entry encode e)) = te_view e"
  "te_channel (snd (poll_entry encode e)) = te_channel e"
  by (simp_all add: poll_entry_def Let_def split: prod.splits)

lemma ready_same:
  "te_carryover e' = te_carryover e \<Longrightarrow> te_queue e' = te_queue e \<Longrightarrow> ready e' = ready e"
  by (simp add: ready_def)

lemma read_bytes_idle [simp]: "te_pump e \<noteq> PumpReading \<Longrightarrow> read_bytes ev e = []"
  by (cases "(ev, e)" rule: read_bytes.cases) auto

text \<open>Nothing is lost or reordered while the entry is not cancelled.\<close>

lemma stream_step:
  assumes dec: "\<forall>x. decode (encode x) = Some x"
    and "entry_enabled ev e" "\<not> te_cancelled (entry_step encode ev e)"
  shows "ready e @ sending e @ read_bytes ev e =
    polled_bytes decode encode ev e @ ready (entry_step encode ev e) @ sending (entry_step encode ev e)"
proof (cases ev)
  case EPoll
  then show ?thesis
    using poll_entry_spec [of decode encode e] dec by (simp add: polled_bytes_def sending_def)
next
  case (EPump r)
  show ?thesis
  proof (cases "te_pump e")
    case PumpReading
    with EPump assms(3) show ?thesis
      by (cases "(r, e)" rule: pump_event.cases)
        (auto simp: polled_bytes_def sending_def ready_def entry_defs OUTPUT_CHUNK_BYTES_def split: if_splits)
  next
    case (PumpSending cs)
    with EPump assms(3) show ?thesis
      by (cases cs)
        (auto simp: polled_bytes_def sending_def ready_def entry_defs split: if_splits)
  qed (use EPump in \<open>auto simp: polled_bytes_def sending_def ready_def entry_defs\<close>)
qed (use assms(2,3) in \<open>auto simp: polled_bytes_def sending_def ready_def entry_defs Let_def split: if_splits option.splits\<close>)

text \<open>Once cancelled, an entry only loses output.\<close>

lemma cancelled_step: "te_cancelled e \<Longrightarrow> te_cancelled (entry_step encode ev e)"
  by (cases ev) (auto simp: entry_defs Let_def split: option.splits pump_state.splits list.splits)

lemma read_bytes_cancelled [simp]: "te_cancelled e \<Longrightarrow> read_bytes ev e = []"
  by (cases "(ev, e)" rule: read_bytes.cases) auto

lemma pump_keeps_cancelled: "te_cancelled (pump_step r e) = te_cancelled e"
  by (cases "(r, e)" rule: pump_event.cases) (auto simp: entry_defs split: pump_state.splits list.splits if_splits)

lemma cancelled_ready_step:
  assumes dec: "\<forall>x. decode (encode x) = Some x" and "te_cancelled (entry_step encode ev e)"
  shows "read_bytes ev e = [] \<and> (\<exists>lost. ready e = polled_bytes decode encode ev e @ ready (entry_step encode ev e) @ lost)"
proof (cases ev)
  case EPoll
  then show ?thesis
    using poll_entry_spec [of decode encode e] dec by (simp add: polled_bytes_def exI [of _ "[]"])
next
  case (EPump r)
  with assms(2) have "te_cancelled e" by (simp add: pump_keeps_cancelled)
  with EPump show ?thesis
    by (auto simp: polled_bytes_def ready_def entry_defs split: pump_state.splits list.splits)
qed (auto simp: polled_bytes_def ready_def entry_defs Let_def split: option.splits)

definition stream_inv :: "string \<Rightarrow> string \<Rightarrow> terminal_entry \<Rightarrow> bool" where
  "stream_inv rd pl e \<longleftrightarrow>
     (\<not> te_cancelled e \<longrightarrow> rd = pl @ ready e @ sending e) \<and> (\<exists>lost. rd = pl @ ready e @ lost)"

lemma stream_inv_step:
  assumes "stream_inv rd pl e" "\<forall>x. decode (encode x) = Some x" "entry_enabled ev e"
  shows "stream_inv (rd @ read_bytes ev e) (pl @ polled_bytes decode encode ev e) (entry_step encode ev e)"
proof (cases "te_cancelled (entry_step encode ev e)")
  case True
  obtain lost where "rd = pl @ ready e @ lost" using assms(1) by (auto simp: stream_inv_def)
  with True cancelled_ready_step [OF assms(2) True] show ?thesis by (auto simp: stream_inv_def)
next
  case False
  then have "rd = pl @ ready e @ sending e"
    using assms(1) cancelled_step by (auto simp: stream_inv_def)
  with stream_step [OF assms(2,3) False] show ?thesis by (auto simp: stream_inv_def)
qed

lemma stream_inv_run:
  assumes "\<forall>x. decode (encode x) = Some x"
  shows "stream_inv rd pl e \<Longrightarrow> enabled_run entry_enabled (entry_step encode) evs e \<Longrightarrow>
    stream_inv (rd @ stream_read encode evs e) (pl @ stream_polled decode encode evs e) (fold (entry_step encode) evs e)"
proof (induction evs arbitrary: rd pl e)
  case (Cons ev evs)
  with stream_inv_step [of rd pl e decode encode ev] assms
  have "stream_inv (rd @ read_bytes ev e) (pl @ polled_bytes decode encode ev e) (entry_step encode ev e)"
    by simp
  from Cons.IH [OF this] Cons.prems(2) show ?case by simp
qed simp

text \<open>
  C25: The terminal's output reaches the user as it was read. Along any sequence of events on a terminal
  (startup, pump steps, polls, closing in pieces), the bytes returned by the polls are a prefix
  of the bytes read from the channel: none is lost in the middle, repeated or reordered. While
  the terminal is not cancelled the rest is still buffered, a poll returns the next 64 KiB of it, and
  a poll that reports \<open>output_drained\<close> completes the stream.
\<close>

theorem terminal_output_stream:
  assumes "\<forall>x. decode (encode x) = Some x"
    and "e0 = new_terminal tid h hs number sz"
    and "enabled_run entry_enabled (entry_step encode) evs e0"
    and "e = fold (entry_step encode) evs e0"
    and "delivered = decoded decode (tb_chunks (fst (poll_entry encode e)))"
  shows "\<exists>rest. stream_read encode evs e0 = stream_polled decode encode evs e0 @ rest
      \<and> delivered = take OUTPUT_BATCH_BYTES (ready e)
      \<and> (\<not> te_cancelled e \<longrightarrow> rest = ready e @ sending e)
      \<and> (\<not> te_cancelled e \<longrightarrow> tb_drained (fst (poll_entry encode e)) \<longrightarrow> rest = delivered)"
proof -
  have "stream_inv [] [] e0" by (simp add: assms(2) stream_inv_def new_terminal_def ready_def sending_def)
  from stream_inv_run [of decode encode, OF assms(1) this assms(3)] have
    inv: "stream_inv (stream_read encode evs e0) (stream_polled decode encode evs e0) e"
    by (simp add: assms(4))
  then obtain rest where rest: "stream_read encode evs e0 = stream_polled decode encode evs e0 @ rest"
    "\<not> te_cancelled e \<longrightarrow> rest = ready e @ sending e"
    by (cases "te_cancelled e") (auto simp: stream_inv_def)
  have poll: "delivered = take OUTPUT_BATCH_BYTES (ready e)"
    "ready (snd (poll_entry encode e)) = drop OUTPUT_BATCH_BYTES (ready e)"
    using poll_entry_spec [of decode encode e] assms(1,5) by simp_all
  have "ready (snd (poll_entry encode e)) = [] \<and> sending e = []" if "tb_drained (fst (poll_entry encode e))"
    using that by (auto simp: poll_entry_def Let_def ready_def sending_def split: prod.splits)
  with rest poll show ?thesis
    by (metis append_Nil2 append_take_drop_id)
qed

definition ex_size :: terminal_size where
  "ex_size = \<lparr>ts_columns = 80, ts_rows = 24, ts_pixel_width = 0, ts_pixel_height = 0\<rparr>"

definition ex_terminal :: terminal_entry where
  "ex_terminal = new_terminal (TerminalSessionId 1) (HostId 1) (HostSessionId 1) 1 ex_size"

definition ex_events :: "entry_event list" where
  "ex_events = [EAccept (Channel 1), EPump (Ok (ReadData ''hi'')), EPump (Ok ReadClosed), EPump (Ok ReadClosed),
     EPump (Ok ReadClosed)]"

lemma slice_chunks_short: "xs \<noteq> [] \<Longrightarrow> length xs \<le> n \<Longrightarrow> slice_chunks n xs = [xs]"
  by (cases n) (simp_all add: slice_chunks.simps)

theorem terminal_output_stream_witness:
  "\<exists>rest. stream_read id ex_events ex_terminal = stream_polled Some id ex_events ex_terminal @ rest
     \<and> take OUTPUT_BATCH_BYTES (ready (fold (entry_step id) ex_events ex_terminal)) = ''hi''
     \<and> rest = ''hi''"
proof -
  have run: "enabled_run entry_enabled (entry_step id) ex_events ex_terminal"
    by (simp add: ex_events_def ex_terminal_def new_terminal_def accept_channel_def)
  let ?e = "fold (entry_step id) ex_events ex_terminal"
  have e: "\<not> te_cancelled ?e" "ready ?e = ''hi''" "sending ?e = []"
    by (simp_all add: ex_events_def ex_terminal_def new_terminal_def entry_defs ready_def sending_def
        slice_chunks_short OUTPUT_CHUNK_BYTES_def OUTPUT_QUEUE_CAPACITY_def)
  from terminal_output_stream [of Some id ex_terminal "TerminalSessionId 1" "HostId 1" "HostSessionId 1" 1 ex_size
      ex_events, OF _ ex_terminal_def run refl refl] e show ?thesis
    by (auto simp: OUTPUT_BATCH_BYTES_def)
qed

section \<open>Bounds\<close>

lemma ffilter_fempty [simp]: "ffilter P {||} = {||}"
  by (rule fset_eqI) simp

definition active :: "terminal_entry \<Rightarrow> bool" where
  "active e = (entry_state e \<in> {TCreating, TOpen})"

text \<open>The terminals of a host that are starting or open.\<close>

definition active_sessions :: "host_id \<Rightarrow> terminal_manager \<Rightarrow> terminal_session_id fset" where
  "active_sessions h s = ffilter (\<lambda>tid. case session_entry tid s of
       None \<Rightarrow> False | Some e \<Rightarrow> tv_host_id (te_view e) = h \<and> active e) (tm_sessions s)"

definition entry_bounded :: "terminal_entry \<Rightarrow> bool" where
  "entry_bounded e \<longleftrightarrow> length (te_queue e) \<le> OUTPUT_QUEUE_CAPACITY
     \<and> list_all (\<lambda>c. length c \<le> OUTPUT_CHUNK_BYTES) (te_queue e)
     \<and> length (held (te_carryover e)) \<le> OUTPUT_CHUNK_BYTES
     \<and> (case te_pump e of PumpSending cs \<Rightarrow> list_all (\<lambda>c. length c \<le> OUTPUT_CHUNK_BYTES) cs | _ \<Rightarrow> True)"

definition manager_inv :: "terminal_manager \<Rightarrow> bool" where
  "manager_inv s \<longleftrightarrow> (\<forall>h. fcard (active_sessions h s) \<le> MAX_OPEN_TERMINALS_PER_HOST)
     \<and> length (tm_closed s) \<le> TOMBSTONE_LIMIT
     \<and> (\<forall>tid e. fmlookup (tm_entries s) tid = Some e \<longrightarrow> entry_bounded e)"

lemma pump_step_active: "active (pump_step r e) \<Longrightarrow> active e"
  by (cases "(r, e)" rule: pump_event.cases)
    (auto simp: active_def entry_defs split: if_splits pump_state.splits list.splits)

lemma pump_owner:
  "tv_host_id (te_view (pump_step r e)) = tv_host_id (te_view e)"
  "tv_host_session_id (te_view (pump_step r e)) = tv_host_session_id (te_view e)"
  by (cases "(r, e)" rule: pump_event.cases;
      auto simp: entry_defs split: if_splits pump_state.splits list.splits)+

lemma pump_bounded: "entry_bounded e \<Longrightarrow> entry_bounded (pump_step r e)"
  using slice_chunks_length [of OUTPUT_CHUNK_BYTES]
  by (cases "(r, e)" rule: pump_event.cases)
    (auto simp: entry_bounded_def entry_defs list_all_iff split: if_splits pump_state.splits list.splits)

lemma append_carry:
  assumes "append_output_chunk encode c (chunks, n, carry) = (chunks', n', carry')"
    and "length c \<le> m" "length (held carry) \<le> m"
  shows "length (held carry') \<le> m"
  using assms by (auto simp: Let_def split: if_splits)

lemma poll_receive_bounded:
  assumes "poll_receive encode q (chunks, n, carry) = ((chunks', n', carry'), q')"
    and "list_all (\<lambda>c. length c \<le> m) q" "length (held carry) \<le> m"
  shows "length q' \<le> length q \<and> list_all (\<lambda>c. length c \<le> m) q' \<and> length (held carry') \<le> m"
  using assms
proof (induction q arbitrary: chunks n carry)
  case (Cons c q)
  obtain ch1 n1 ca1 where a: "append_output_chunk encode c (chunks, n, carry) = (ch1, n1, ca1)"
    by (rule prod_cases3)
  then have "length (held ca1) \<le> m" using Cons.prems append_carry by auto
  with Cons a show ?case
    by (auto simp del: append_output_chunk.simps split: if_splits intro: le_SucI)
qed auto

text \<open>No event makes a terminal active that was not.\<close>

lemma active_step:
  assumes "active (entry_step encode ev e)" "entry_enabled ev e"
  shows "active e"
proof (cases ev)
  case (EPump r)
  with assms show ?thesis by (auto intro: pump_step_active)
qed (use assms in \<open>auto simp: active_def entry_defs Let_def split: if_splits option.splits\<close>)

lemma owner_step [simp]:
  "tv_host_id (te_view (entry_step encode ev e)) = tv_host_id (te_view e)"
  "tv_host_session_id (te_view (entry_step encode ev e)) = tv_host_session_id (te_view e)"
proof -
  have "tv_host_id (te_view (entry_step encode ev e)) = tv_host_id (te_view e)
    \<and> tv_host_session_id (te_view (entry_step encode ev e)) = tv_host_session_id (te_view e)"
  proof (cases ev)
    case (EPump r)
    then show ?thesis by (simp add: pump_owner)
  qed (auto simp: entry_defs Let_def split: option.splits)
  then show "tv_host_id (te_view (entry_step encode ev e)) = tv_host_id (te_view e)"
    "tv_host_session_id (te_view (entry_step encode ev e)) = tv_host_session_id (te_view e)"
    by simp_all
qed

lemma poll_bounded:
  assumes "entry_bounded e"
  shows "entry_bounded (snd (poll_entry encode e))"
proof -
  define acc0 where "acc0 = (case te_carryover e of None \<Rightarrow> ([], 0, None)
      | Some chunk \<Rightarrow> append_output_chunk encode chunk ([], 0, None))"
  obtain ch0 n0 ca0 where acc0: "acc0 = (ch0, n0, ca0)" by (rule prod_cases3)
  obtain ch n ca q where r: "poll_receive encode (te_queue e) (ch0, n0, ca0) = ((ch, n, ca), q)"
    by (metis prod_cases4 prod.collapse)
  have "length (held ca0) \<le> OUTPUT_CHUNK_BYTES"
    using acc0 assms append_carry [of encode _ "[]" 0 None ch0 n0 ca0 OUTPUT_CHUNK_BYTES]
    by (auto simp: acc0_def entry_bounded_def simp del: append_output_chunk.simps split: option.splits)
  with poll_receive_bounded [OF r, of OUTPUT_CHUNK_BYTES] assms
  have "length q \<le> length (te_queue e) \<and> list_all (\<lambda>c. length c \<le> OUTPUT_CHUNK_BYTES) q
      \<and> length (held ca) \<le> OUTPUT_CHUNK_BYTES"
    by (simp add: entry_bounded_def)
  moreover have "snd (poll_entry encode e) = e\<lparr>te_carryover := ca, te_queue := q\<rparr>"
    using r acc0 unfolding poll_entry_def acc0_def [symmetric] by simp
  ultimately show ?thesis using assms by (simp add: entry_bounded_def)
qed

lemma bounded_step: "entry_bounded e \<Longrightarrow> entry_bounded (entry_step encode ev e)"
proof (cases ev)
  case EPoll
  then show "entry_bounded e \<Longrightarrow> ?thesis" by (simp add: poll_bounded)
next
  case (EPump r)
  then show "entry_bounded e \<Longrightarrow> ?thesis" by (simp add: pump_bounded)
qed (auto simp: entry_bounded_def entry_defs Let_def split: option.splits)

lemma in_active_sessions:
  "tid |\<in>| active_sessions h s \<longleftrightarrow>
     (\<exists>e. session_entry tid s = Some e \<and> tv_host_id (te_view e) = h \<and> active e)"
  by (auto simp: active_sessions_def session_entry_def split: option.splits if_splits)

lemma active_sessions_le_open: "fcard (active_sessions h s) \<le> open_count h s"
  unfolding open_count_def
  by (rule fcard_mono) (auto simp: active_sessions_def active_def finished_def split: option.splits)

lemma active_sessions_mono:
  assumes "\<And>tid e. session_entry tid s' = Some e \<Longrightarrow> active e \<Longrightarrow>
    \<exists>e0. session_entry tid s = Some e0 \<and> tv_host_id (te_view e0) = tv_host_id (te_view e) \<and> active e0"
  shows "fcard (active_sessions h s') \<le> fcard (active_sessions h s)"
  using assms by (intro fcard_mono fsubsetI) (fastforce simp: in_active_sessions)

lemma session_entry_upd_entry:
  "session_entry tid' (upd_entry tid f s) =
     (if tid' = tid then map_option f (session_entry tid s) else session_entry tid' s)"
  by (auto simp: session_entry_def upd_entry_def split: option.splits)

lemma lookup_upd_entry:
  "fmlookup (tm_entries (upd_entry tid f s)) tid' =
     (if tid' = tid then map_option f (fmlookup (tm_entries s) tid) else fmlookup (tm_entries s) tid')"
  by (auto simp: upd_entry_def split: option.splits)

lemma upd_entry_fields [simp]:
  "tm_sessions (upd_entry tid f s) = tm_sessions s" "tm_closed (upd_entry tid f s) = tm_closed s"
  by (simp_all add: upd_entry_def split: option.splits)

lemma entry_event_inv:
  assumes "manager_inv s" "manager_enabled (MEntry tid ev) s"
  shows "manager_inv (manager_step encode (MEntry tid ev) s)"
proof -
  have "fcard (active_sessions h (manager_step encode (MEntry tid ev) s)) \<le> fcard (active_sessions h s)" for h
  proof (rule active_sessions_mono)
    fix tid' e
    assume e: "session_entry tid' (manager_step encode (MEntry tid ev) s) = Some e" "active e"
    show "\<exists>e0. session_entry tid' s = Some e0 \<and> tv_host_id (te_view e0) = tv_host_id (te_view e) \<and> active e0"
    proof (cases "tid' = tid")
      case True
      then obtain e0 where e0: "session_entry tid s = Some e0" "e = entry_step encode ev e0"
        using e(1) by (auto simp: session_entry_upd_entry)
      then have "entry_enabled ev e0"
        using assms(2) by (simp add: session_entry_def split: if_splits)
      with e(2) e0 True show ?thesis by (auto intro: active_step)
    qed (use e in \<open>auto simp: session_entry_upd_entry\<close>)
  qed
  with assms(1) show ?thesis
    by (auto simp: manager_inv_def lookup_upd_entry intro: bounded_step order_trans split: if_splits)
qed

lemma reserve_inv:
  assumes "manager_inv s" "fmlookup (tm_entries s) tid = None"
  shows "manager_inv (snd (open_reserve h hs sz0 tid s))"
proof (cases "is_ok (fst (open_reserve h hs sz0 tid s))")
  case True
  then obtain sz n where s': "snd (open_reserve h hs sz0 tid s) =
      s\<lparr>tm_entries := fmupd tid (new_terminal tid h hs n sz) (tm_entries s),
        tm_sessions := finsert tid (tm_sessions s), tm_next_label := fmupd h n (tm_next_label s)\<rparr>"
    and room: "open_count h s < MAX_OPEN_TERMINALS_PER_HOST"
    by (auto simp: open_reserve_def Let_def split: result.splits if_splits)
  have "active_sessions h' (snd (open_reserve h hs sz0 tid s)) |\<subseteq>|
      (if h' = h then finsert tid (active_sessions h s) else active_sessions h' s)" for h'
    unfolding s'
    by (auto simp: in_active_sessions session_entry_def new_terminal_def split: if_splits)
  then have sub: "fcard (active_sessions h' (snd (open_reserve h hs sz0 tid s))) \<le>
      (if h' = h then Suc (fcard (active_sessions h s)) else fcard (active_sessions h' s))" for h'
    by (smt (verit, ccfv_threshold) fcard_finsert_if fcard_mono le_SucI order.trans le_refl)
  have "entry_bounded (new_terminal tid h hs n sz)"
    by (simp add: entry_bounded_def new_terminal_def)
  moreover have "fcard (active_sessions h' (snd (open_reserve h hs sz0 tid s))) \<le> MAX_OPEN_TERMINALS_PER_HOST" for h'
    using sub [of h'] active_sessions_le_open [of h s] room assms(1)
    by (auto simp: manager_inv_def split: if_splits intro: order_trans)
  ultimately show ?thesis using assms(1) unfolding manager_inv_def by (auto simp: s')
next
  case False
  then have "snd (open_reserve h hs sz0 tid s) = s"
    by (auto simp: open_reserve_def Let_def split: result.splits if_splits)
  with assms(1) show ?thesis by simp
qed

lemma sessions_removed_inv:
  assumes "manager_inv s" "tm_sessions s' |\<subseteq>| tm_sessions s" "tm_entries s' = tm_entries s"
    and "length (tm_closed s') \<le> TOMBSTONE_LIMIT"
  shows "manager_inv s'"
proof -
  have "fcard (active_sessions h s') \<le> fcard (active_sessions h s)" for h
    using assms(2,3) by (intro active_sessions_mono) (auto simp: session_entry_def split: if_splits)
  with assms show ?thesis by (auto simp: manager_inv_def intro: order_trans)
qed

lemma manager_step_inv:
  assumes "manager_inv s" "manager_enabled ev s"
  shows "manager_inv (manager_step encode ev s)"
proof -
  have closed: "length (tm_closed s) \<le> TOMBSTONE_LIMIT" using assms(1) by (simp add: manager_inv_def)
  show ?thesis
  proof (cases ev)
    case (MReserve h hs sz tid)
    with assms show ?thesis by (simp add: reserve_inv)
  next
    case (MEntry tid e)
    with assms entry_event_inv show ?thesis by blast
  next
    case (MForgetHost h)
    then show ?thesis
      using closed order_trans [OF length_filter_le closed]
      by (auto intro!: sessions_removed_inv [OF assms(1)] simp: forget_host_def)
  qed (use closed in \<open>auto intro!: sessions_removed_inv [OF assms(1)]
      simp: forget_session_def bury_def clear_sessions_def Let_def\<close>)
qed

lemma manager_inv_default: "manager_inv terminal_manager_default"
proof -
  have "active_sessions h terminal_manager_default = {||}" for h
    by (rule fset_eqI) (simp add: active_sessions_def terminal_manager_default_def)
  then have "fcard (active_sessions h terminal_manager_default) \<le> MAX_OPEN_TERMINALS_PER_HOST" for h
    by (metis fcard_fempty le0)
  then show ?thesis by (simp add: manager_inv_def) (simp add: terminal_manager_default_def)
qed

interpretation terminals: bounded_store manager_enabled "manager_step encode" manager_inv
  "\<lambda>s. fcard (active_sessions h s)" MAX_OPEN_TERMINALS_PER_HOST
  for encode h
  by unfold_locales (auto simp: manager_step_inv, simp add: manager_inv_def)

interpretation tombstones: bounded_store manager_enabled "manager_step encode" manager_inv
  "\<lambda>s. length (tm_closed s)" TOMBSTONE_LIMIT
  for encode
  by unfold_locales (simp add: manager_inv_def)

text \<open>
  Terminals are bounded. In every history of the terminal manager a host has at most
  eight terminals starting or open, at most 64 tombstones are kept, and no terminal buffers more
  than 65 chunks of 16 KiB.
\<close>

theorem terminals_bounded:
  assumes "enabled_run manager_enabled (manager_step encode) es terminal_manager_default"
    and "s = fold (manager_step encode) es terminal_manager_default"
  shows "fcard (active_sessions h s) \<le> 8 \<and> length (tm_closed s) \<le> 64
    \<and> (fmlookup (tm_entries s) tid = Some e \<longrightarrow> length (ready e) \<le> 65 * OUTPUT_CHUNK_BYTES)"
proof -
  note inv = terminals.invar_run [OF manager_inv_default assms(1), folded assms(2)]
  have "length (ready e) \<le> 65 * OUTPUT_CHUNK_BYTES" if "fmlookup (tm_entries s) tid = Some e"
  proof -
    have b: "entry_bounded e" using inv that by (simp add: manager_inv_def)
    have "length (concat q) \<le> length q * OUTPUT_CHUNK_BYTES"
      if "list_all (\<lambda>c. length c \<le> OUTPUT_CHUNK_BYTES) q" for q :: "string list"
      using that by (induction q) auto
    with b have "length (ready e) \<le> OUTPUT_CHUNK_BYTES + length (te_queue e) * OUTPUT_CHUNK_BYTES"
      by (simp add: entry_bounded_def ready_def add_mono)
    also have "\<dots> \<le> OUTPUT_CHUNK_BYTES + OUTPUT_QUEUE_CAPACITY * OUTPUT_CHUNK_BYTES"
      using b by (simp add: entry_bounded_def)
    finally show ?thesis by (simp add: OUTPUT_QUEUE_CAPACITY_def)
  qed
  with terminals.run_bounded [OF manager_inv_default assms(1), folded assms(2)]
    tombstones.run_bounded [OF manager_inv_default assms(1), folded assms(2)]
  show ?thesis by (simp add: MAX_OPEN_TERMINALS_PER_HOST_def TOMBSTONE_LIMIT_def)
qed

theorem terminals_bounded_witness:
  "fcard (active_sessions (HostId 1) (fold (manager_step id)
     [MReserve (HostId 1) (HostSessionId 1) ex_size (TerminalSessionId 1), MEntry (TerminalSessionId 1) (EAccept (Channel 1)),
      MBury \<lparr>ow_host_id = HostId 1, ow_host_session_id = HostSessionId 1, ow_terminal_id = TerminalSessionId 1\<rparr>]
     terminal_manager_default)) \<le> 8"
proof -
  have "open_count h terminal_manager_default = 0" for h
    by (simp add: open_count_def terminal_manager_default_def)
  then have "enabled_run manager_enabled (manager_step id)
     [MReserve (HostId 1) (HostSessionId 1) ex_size (TerminalSessionId 1), MEntry (TerminalSessionId 1) (EAccept (Channel 1)),
      MBury \<lparr>ow_host_id = HostId 1, ow_host_session_id = HostSessionId 1, ow_terminal_id = TerminalSessionId 1\<rparr>]
     terminal_manager_default"
    by (simp add: open_reserve_def terminal_size_validate_def ex_size_def MAX_OPEN_TERMINALS_PER_HOST_def Let_def
        new_terminal_def) (simp add: terminal_manager_default_def)
  from terminals_bounded [OF this refl] show ?thesis by blast
qed

section \<open>Closed terminals stay closed\<close>

definition dead :: "terminal_entry \<Rightarrow> bool" where
  "dead e = (te_cancelled e \<or> \<not> active e)"

lemma dead_step:
  assumes "dead e" "entry_enabled ev e"
  shows "dead (entry_step encode ev e)"
  using assms active_step [of encode ev e] cancelled_step [of e encode ev] by (auto simp: dead_def)

lemma dead_manager_step:
  assumes "fmlookup (tm_entries s) tid = Some e" "dead e" "manager_enabled ev s"
  shows "\<exists>e'. fmlookup (tm_entries (manager_step encode ev s)) tid = Some e' \<and> dead e'"
proof (cases ev)
  case (MReserve h hs sz tid')
  with assms show ?thesis
    by (auto simp: open_reserve_def Let_def split: result.splits if_splits)
next
  case (MEntry tid' ev')
  with assms dead_step show ?thesis by (cases "tid' = tid") (auto simp: lookup_upd_entry)
qed (use assms in \<open>auto simp: forget_session_def bury_def forget_host_def clear_sessions_def Let_def\<close>)

lemma dead_manager_run:
  "fmlookup (tm_entries s) tid = Some e \<Longrightarrow> dead e \<Longrightarrow> enabled_run manager_enabled (manager_step encode) es s \<Longrightarrow>
   \<exists>e'. fmlookup (tm_entries (fold (manager_step encode) es s)) tid = Some e' \<and> dead e'"
proof (induction es arbitrary: s e)
  case (Cons ev es)
  then show ?case using dead_manager_step [of s tid e ev encode] by auto
qed simp

lemma dead_refuses_input:
  assumes "\<And>e. fmlookup (tm_entries s) (ow_terminal_id key) = Some e \<Longrightarrow> dead e"
  shows "snd (write_input decode channel_write key data s) = [] \<and> \<not> is_ok (fst (write_input decode channel_write key data s))"
proof -
  have "\<not> is_ok (and_then (entry_of key s) (\<lambda>e. and_then (require_open e) (\<lambda>_. ok_or (te_channel e) terminal_unavailable)))"
    using assms
    by (auto simp: is_ok_iff and_then_Ok_iff ok_or_def entry_of_def session_entry_def require_open_def dead_def
        active_def split: option.splits if_splits)
  then show ?thesis
    by (auto simp: write_input_def not_is_ok_iff split: option.splits)
qed

text \<open>
  A closed terminal takes no more input. After a terminal started closing (by the user, by a disconnect,
  by removing its host or by shutdown), in every continuation, also one in which its startup was
  still under way, every write to it fails and nothing reaches its channel.
\<close>

theorem closed_terminal_stays_closed:
  assumes "fmlookup (tm_entries s) tid = Some e" "close_begin final e = Some e'"
    and "s' = s\<lparr>tm_entries := fmupd tid e' (tm_entries s)\<rparr>"
    and "enabled_run manager_enabled (manager_step encode) es s'" "ow_terminal_id key = tid"
  shows "snd (write_input decode channel_write key data (fold (manager_step encode) es s')) = []
    \<and> \<not> is_ok (fst (write_input decode channel_write key data (fold (manager_step encode) es s')))"
proof (rule dead_refuses_input)
  fix e2
  assume "fmlookup (tm_entries (fold (manager_step encode) es s')) (ow_terminal_id key) = Some e2"
  moreover have "fmlookup (tm_entries s') tid = Some e'" "dead e'"
    using assms(2,3) by (auto simp: close_begin_def dead_def split: if_splits)
  ultimately show "dead e2" using dead_manager_run [OF _ _ assms(4)] assms(5) by fastforce
qed

theorem closed_terminal_stays_closed_witness:
  "\<not> is_ok (fst (write_input Some (\<lambda>_ _. Some (Ok ()))
     \<lparr>ow_host_id = HostId 1, ow_host_session_id = HostSessionId 1, ow_terminal_id = TerminalSessionId 1\<rparr> ''ls''
     (fold (manager_step id) [MEntry (TerminalSessionId 1) (EAccept (Channel 1))]
       \<lparr>tm_entries = fmupd (TerminalSessionId 1) ((set_state TClosing ex_terminal)\<lparr>te_cancelled := True\<rparr>) fmempty,
        tm_sessions = {|TerminalSessionId 1|}, tm_next_label = fmempty, tm_closed = []\<rparr>)))"
proof -
  let ?s = "\<lparr>tm_entries = fmupd (TerminalSessionId 1) ex_terminal fmempty, tm_sessions = {|TerminalSessionId 1|},
    tm_next_label = fmempty, tm_closed = []\<rparr>"
  let ?e = "(set_state TClosing ex_terminal)\<lparr>te_cancelled := True\<rparr>"
  have a: "fmlookup (tm_entries ?s) (TerminalSessionId 1) = Some ex_terminal" by simp
  have b: "close_begin TClosed ex_terminal = Some ?e" by (simp add: close_begin_def)
  have c: "enabled_run manager_enabled (manager_step id) [MEntry (TerminalSessionId 1) (EAccept (Channel 1))]
      (?s\<lparr>tm_entries := fmupd (TerminalSessionId 1) ?e (tm_entries ?s)\<rparr>)"
    by (simp add: set_state_def ex_terminal_def new_terminal_def)
  have d: "fmupd (TerminalSessionId 1) ?e (tm_entries ?s) = fmupd (TerminalSessionId 1) ?e fmempty"
    by (intro fmap_ext) simp
  show ?thesis
    using closed_terminal_stays_closed [OF a b refl c, of
        "\<lparr>ow_host_id = HostId 1, ow_host_session_id = HostSessionId 1, ow_terminal_id = TerminalSessionId 1\<rparr>"
        Some "\<lambda>_ _. Some (Ok ())" "''ls''"]
    unfolding d by simp
qed

text \<open>
  Terminals answer only to their owner. A call that names a terminal of another host or of another connection
  is refused and changes nothing: no output is taken, nothing is written, resized, renamed or
  closed.
\<close>

theorem terminal_ownership_enforced:
  assumes "session_entry (ow_terminal_id key) s = Some e" "key \<notin> set (tm_closed s)"
    and "tv_host_id (te_view e) \<noteq> ow_host_id key \<or> tv_host_session_id (te_view e) \<noteq> ow_host_session_id key"
  shows "snd (poll encode key s) = s \<and> \<not> is_ok (fst (poll encode key s))
    \<and> snd (write_input decode channel_write key data s) = []
    \<and> snd (resize encode channel_resize key sz w1 w2 s) = s \<and> \<not> is_ok (fst (resize encode channel_resize key sz w1 w2 s))
    \<and> snd (rename key label s) = s \<and> \<not> is_ok (fst (rename key label s))
    \<and> snd (close encode key env s) = s \<and> \<not> is_ok (fst (close encode key env s))"
proof -
  obtain x where x: "entry_of key s = Err x"
    using assms by (auto simp: entry_of_def verify_ownership_def)
  show ?thesis
    using assms(2)
    by (auto simp: poll_def write_input_def resize_def rename_def close_def x Let_def
        split: option.splits result.splits if_splits) (auto simp: and_then_Ok_iff x)
qed

theorem terminal_ownership_enforced_witness:
  "snd (close id \<lparr>ow_host_id = HostId 2, ow_host_session_id = HostSessionId 1, ow_terminal_id = TerminalSessionId 1\<rparr> ([], [])
      \<lparr>tm_entries = fmupd (TerminalSessionId 1) ex_terminal fmempty, tm_sessions = {|TerminalSessionId 1|},
       tm_next_label = fmempty, tm_closed = []\<rparr>)
   = \<lparr>tm_entries = fmupd (TerminalSessionId 1) ex_terminal fmempty, tm_sessions = {|TerminalSessionId 1|},
       tm_next_label = fmempty, tm_closed = []\<rparr>"
proof -
  let ?s = "\<lparr>tm_entries = fmupd (TerminalSessionId 1) ex_terminal fmempty, tm_sessions = {|TerminalSessionId 1|},
       tm_next_label = fmempty, tm_closed = []\<rparr>"
  let ?key = "\<lparr>ow_host_id = HostId 2, ow_host_session_id = HostSessionId 1, ow_terminal_id = TerminalSessionId 1\<rparr>"
  have "session_entry (ow_terminal_id ?key) ?s = Some ex_terminal" by (simp add: session_entry_def)
  moreover have "?key \<notin> set (tm_closed ?s)" by simp
  moreover have "tv_host_id (te_view ex_terminal) \<noteq> ow_host_id ?key
      \<or> tv_host_session_id (te_view ex_terminal) \<noteq> ow_host_session_id ?key"
    by (simp add: ex_terminal_def new_terminal_def)
  ultimately show ?thesis by (rule terminal_ownership_enforced [THEN conjunct2, THEN conjunct2, THEN conjunct2,
        THEN conjunct2, THEN conjunct2, THEN conjunct2, THEN conjunct2, THEN conjunct1])
qed

section \<open>Draining\<close>

lemma poll_receive_empty:
  "concat q = [] \<Longrightarrow> n < OUTPUT_BATCH_BYTES \<Longrightarrow> poll_receive encode q (chunks, n, carry) = ((chunks, n, carry), [])"
  by (induction q) (auto simp: Let_def)

lemma poll_empty_drains:
  assumes "ready e = []" "te_pump e = PumpStopped"
  shows "tb_drained (fst (poll_entry encode e))"
proof -
  have "(case te_carryover e of None \<Rightarrow> ([], 0, None)
      | Some chunk \<Rightarrow> append_output_chunk encode chunk ([], 0, None)) = ([], 0, None)"
    using assms(1) by (auto simp: ready_def Let_def split: option.splits)
  moreover have "poll_receive encode (te_queue e) ([], 0, None) = (([], 0, None), [])"
    using assms(1) by (intro poll_receive_empty) (auto simp: ready_def OUTPUT_BATCH_BYTES_def)
  ultimately show ?thesis using assms(2) by (simp add: poll_entry_def)
qed

text \<open>How much a poll takes does not depend on the encoding of the chunks.\<close>

lemma append_encode:
  "snd acc = snd acc' \<Longrightarrow> snd (append_output_chunk encode c acc) = snd (append_output_chunk encode' c acc')"
  by (cases acc; cases acc') (simp add: Let_def)

lemma poll_receive_encode:
  "snd acc = snd acc' \<Longrightarrow>
   snd (poll_receive encode q acc) = snd (poll_receive encode' q acc')
   \<and> snd (fst (poll_receive encode q acc)) = snd (fst (poll_receive encode' q acc'))"
  using append_encode [of _ _ encode _ encode'] by (induction q arbitrary: acc acc') simp_all

lemma poll_entry_encode: "snd (poll_entry encode e) = snd (poll_entry encode' e)"
proof -
  let ?acc = "\<lambda>encode. case te_carryover e of None \<Rightarrow> ([], 0, None)
      | Some chunk \<Rightarrow> append_output_chunk encode chunk ([], 0, None)"
  have "snd (?acc encode) = snd (?acc encode')"
    by (auto split: option.splits intro: append_encode simp del: append_output_chunk.simps)
  note r = poll_receive_encode [OF this, of encode "te_queue e" encode']
  show ?thesis
    unfolding poll_entry_def Let_def using r by (auto split: prod.splits simp del: append_output_chunk.simps)
qed

lemma ready_poll: "ready (snd (poll_entry encode e)) = drop OUTPUT_BATCH_BYTES (ready e)"
  using poll_entry_spec(2) [of Some id e] poll_entry_encode [of encode e id] by simp

lemma polls_drop:
  "ready (((\<lambda>e. snd (poll_entry encode e)) ^^ n) e) = drop (n * OUTPUT_BATCH_BYTES) (ready e)
   \<and> te_pump (((\<lambda>e. snd (poll_entry encode e)) ^^ n) e) = te_pump e"
  by (induction n) (simp_all add: ready_poll)

text \<open>
  Polling drains a finished terminal. Once the producer has ended, after as many polls as the buffered
  output has batches of 64 KiB, the next poll reports that the output is drained.
\<close>

theorem polling_drains:
  assumes "te_pump e = PumpStopped" "length (ready e) \<le> n * OUTPUT_BATCH_BYTES"
  shows "tb_drained (fst (poll_entry encode (((\<lambda>e. snd (poll_entry encode e)) ^^ n) e)))"
  using assms polls_drop [of n encode e] by (intro poll_empty_drains) auto

theorem polling_drains_witness:
  "tb_drained (fst (poll_entry id (((\<lambda>e. snd (poll_entry id e)) ^^ 1) (fold (entry_step id) ex_events ex_terminal))))"
proof (rule polling_drains)
  show "te_pump (fold (entry_step id) ex_events ex_terminal) = PumpStopped"
    "length (ready (fold (entry_step id) ex_events ex_terminal)) \<le> 1 * OUTPUT_BATCH_BYTES"
    by (simp_all add: ex_events_def ex_terminal_def new_terminal_def entry_defs ready_def
        slice_chunks_short OUTPUT_CHUNK_BYTES_def OUTPUT_QUEUE_CAPACITY_def OUTPUT_BATCH_BYTES_def)
qed

end
