(* ===== verification/Editor_Text.thy ===== *)
theory Editor_Text
  imports Nexus_Model Utf8
begin

text \<open>
  \<^verbatim>\<open>crates/nexus-sftp/src/editor.rs\<close>: decoding a remote file into the LF-normalised text the editor
  shows, and encoding the edited text back with the file's newline convention and byte order mark.
\<close>

definition MAX_REMOTE_EDITOR_BYTES :: nat where
  "MAX_REMOTE_EDITOR_BYTES = 1024 * 1024"

datatype text_newline = Lf | CrLf

definition CR :: char where "CR = CHR 0x0D"
definition LF :: char where "LF = CHR 0x0A"
definition NUL :: char where "NUL = CHR 0x00"
definition BOM :: string where "BOM = [CHR 0xEF, CHR 0xBB, CHR 0xBF]"

definition editor_policy :: "string \<Rightarrow> app_error" where
  "editor_policy m = AppError_new FilePolicy m"

definition decode_text :: "string \<Rightarrow> (string \<times> text_newline \<times> bool) app_result" where
  "decode_text bytes =
     (if length bytes > MAX_REMOTE_EDITOR_BYTES
      then Err (editor_policy ''The remote text file exceeds the 1 MiB editor limit.'')
      else
        let bom = starts_with bytes BOM;
            original = (if bom then drop 3 bytes else bytes)
        in if \<not> valid_utf8 original
           then Err (editor_policy ''The remote file is not valid UTF-8 text.'')
           else if NUL \<in> set original
           then Err (editor_policy ''NUL bytes are not supported by the text editor.'')
           else
             let has_crlf = str_contains original [CR, LF];
                 without_crlf = str_replace [CR, LF] [] original
             in if CR \<in> set without_crlf \<or> (has_crlf \<and> LF \<in> set without_crlf)
                then Err (editor_policy ''Mixed or unsupported newline conventions cannot be edited safely.'')
                else
                  let newline = (if has_crlf then CrLf else Lf);
                      txt = (if has_crlf then str_replace [CR, LF] [LF] original else original)
                  in Ok (txt, newline, bom))"

definition encode_text :: "string \<Rightarrow> text_newline \<Rightarrow> bool \<Rightarrow> string app_result" where
  "encode_text txt newline bom =
     (if length txt + (if bom then 3 else 0) > MAX_REMOTE_EDITOR_BYTES
      then Err (editor_policy ''The edited text exceeds the 1 MiB editor limit.'')
      else if NUL \<in> set txt \<or> CR \<in> set txt
      then Err (editor_policy ''The editor accepts LF-normalized UTF-8 text without NUL bytes.'')
      else
        let body = (case newline of Lf \<Rightarrow> txt | CrLf \<Rightarrow> str_replace [LF] [CR, LF] txt);
            total = length body + (if bom then 3 else 0)
        in if total > MAX_REMOTE_EDITOR_BYTES
           then Err (editor_policy ''The edited text exceeds the 1 MiB editor limit.'')
           else Ok ((if bom then BOM else []) @ body))"

section \<open>Replacement as a scan\<close>

lemma newline_chars [simp]: "CR \<noteq> LF" "LF \<noteq> CR" "NUL \<noteq> LF" "NUL \<noteq> CR" "LF \<noteq> NUL" "CR \<noteq> NUL"
  by (simp_all add: CR_def LF_def NUL_def)

lemma str_replace_Nil [simp]: "str_replace p r [] = []"
  by (simp add: str_replace.simps)

lemma str_replace_single:
  "str_replace [x] r s = concat (map (\<lambda>c. if c = x then r else [c]) s)"
  by (induction s) (simp_all add: str_replace.simps [of "[x]" r "_ # _"] starts_with_def)

lemma str_replace_crlf_Cons:
  "str_replace [CR, LF] r (x # y # s) =
     (if x = CR \<and> y = LF then r @ str_replace [CR, LF] r s else x # str_replace [CR, LF] r (y # s))"
  by (simp add: str_replace.simps [of "[CR, LF]" r "x # y # s"] starts_with_def)

lemma str_replace_crlf_single [simp]: "str_replace [CR, LF] r [x] = [x]"
  by (simp add: str_replace.simps starts_with_def)

lemma str_contains_crlf_Cons [simp]:
  "str_contains (x # y # s) [CR, LF] = ((x = CR \<and> y = LF) \<or> str_contains (y # s) [CR, LF])"
  "\<not> str_contains [x] [CR, LF]" "\<not> str_contains [] [CR, LF]"
  by (auto simp: starts_with_def)

lemma str_replace_crlf_skip:
  "CR \<noteq> x \<Longrightarrow> str_replace [CR, LF] r (x # s) = x # str_replace [CR, LF] r s"
  by (cases s) (simp_all add: str_replace_crlf_Cons)

lemma str_contains_skip:
  "str_contains s [CR, LF] \<Longrightarrow> str_contains (x # s) [CR, LF]"
  by (cases s) simp_all

text \<open>Two characters at a time, as the search for \<open>"\r\n"\<close> proceeds.\<close>

lemma crlf_induct [case_names Nil single pair other]:
  assumes "P []" "\<And>x. P [x]" "\<And>s. P s \<Longrightarrow> P (CR # LF # s)"
    and "\<And>x y s. \<not> (x = CR \<and> y = LF) \<Longrightarrow> P (y # s) \<Longrightarrow> P (x # y # s)"
  shows "P s"
proof (induction s rule: length_induct)
  case (1 s)
  consider "s = []" | x where "s = [x]" | x y t where "s = x # y # t"
    by (metis list.exhaust)
  then show ?case
  proof cases
    case (3 x y t)
    have "P t" "P (y # t)" using 1 3 by simp_all
    with 3 show ?thesis using assms(3,4) by (cases "x = CR \<and> y = LF") simp_all
  qed (use assms(1,2) in simp_all)
qed

lemma replace_crlf_shape:
  "CR \<notin> set (str_replace [CR, LF] [] s) \<Longrightarrow>
   CR \<notin> set (str_replace [CR, LF] [LF] s)"
  by (induction s rule: crlf_induct) (auto simp: str_replace_crlf_Cons)

lemma replace_crlf_inverse:
  "CR \<notin> set (str_replace [CR, LF] [] s) \<Longrightarrow> LF \<notin> set (str_replace [CR, LF] [] s) \<Longrightarrow>
   str_replace [LF] [CR, LF] (str_replace [CR, LF] [LF] s) = s"
  by (induction s rule: crlf_induct) (auto simp: str_replace_crlf_Cons str_replace_single)

lemma replace_crlf_absent:
  "\<not> str_contains s [CR, LF] \<Longrightarrow> str_replace [CR, LF] r s = s"
  by (induction s rule: crlf_induct) (auto simp: str_replace_crlf_Cons starts_with_def)

lemma replace_crlf_length: "length (str_replace [CR, LF] [LF] s) \<le> length s"
  by (induction s rule: crlf_induct) (auto simp: str_replace_crlf_Cons)

lemma replace_crlf_NUL: "NUL \<notin> set s \<Longrightarrow> NUL \<notin> set (str_replace [CR, LF] [LF] s)"
  by (induction s rule: crlf_induct) (auto simp: str_replace_crlf_Cons)

text \<open>The other direction: expanding the line feeds of a text without carriage returns.\<close>

lemma expand_crlf:
  assumes "CR \<notin> set t"
  shows "str_replace [CR, LF] r (str_replace [LF] [CR, LF] t) = str_replace [LF] r t"
  using assms
proof (induction t)
  case (Cons x t)
  then show ?case
    by (cases "x = LF") (simp_all add: str_replace_single str_replace_crlf_Cons str_replace_crlf_skip)
qed simp

lemma expand_crlf_contains:
  "LF \<in> set t \<Longrightarrow> str_contains (str_replace [LF] [CR, LF] t) [CR, LF]"
proof (induction t)
  case (Cons x t)
  then show ?case
    by (cases "x = LF") (auto simp: str_replace_single starts_with_def intro: str_contains_skip)
qed simp

lemma replace_LF_id: "str_replace [LF] [LF] t = t"
  by (induction t) (simp_all add: str_replace_single)

lemma newline_bytes: "byte_char 10 = LF" "byte_char 13 = CR"
  by (code_simp)+

lemma byte_char_LF: "v < 128 \<Longrightarrow> byte_char v = LF \<longleftrightarrow> v = 10"
  using byte_of_byte_char [of v] byte_of_byte_char [of 10] newline_bytes(1) by fastforce

lemma expand_valid:
  assumes "valid_utf8 t"
  shows "valid_utf8 (str_replace [LF] [CR, LF] t)"
proof -
  from assms obtain vs where vs: "list_all is_scalar vs" "t = encode_all vs"
    by (auto simp: valid_utf8_iff)
  let ?f = "\<lambda>v. if v = 10 then [13, 10] else [v :: nat]"
  have high: "map (\<lambda>c. if c = LF then [CR, LF] else [c]) (encode_utf8 v) = map (\<lambda>c. [c]) (encode_utf8 v)"
    if "128 \<le> v" "is_scalar v" for v
    using encode_utf8_high [OF that, of LF] by (auto simp: LF_def)
  have one: "str_replace [LF] [CR, LF] (encode_utf8 v) = encode_all (?f v)" if "is_scalar v" for v
  proof (cases "v < 128")
    case True
    then show ?thesis
      by (simp add: str_replace_single encode_all_def byte_char_LF newline_bytes)
  next
    case False
    then have "str_replace [LF] [CR, LF] (encode_utf8 v) = concat (map (\<lambda>c. [c]) (encode_utf8 v))"
      unfolding str_replace_single using high [of v] that by (simp only: not_less)
    with False show ?thesis by (simp add: encode_all_def)
  qed
  have "str_replace [LF] [CR, LF] (encode_all vs) = encode_all (concat (map ?f vs))"
    using vs(1)
  proof (induction vs)
    case (Cons v vs)
    then show ?case
      using one [of v] by (simp add: encode_all_def str_replace_single)
  qed (simp add: encode_all_def)
  moreover have "list_all is_scalar (concat (map ?f vs))"
    using vs(1) by (auto simp: list_all_iff is_scalar_def split: if_splits)
  ultimately show ?thesis using vs(2) by (auto simp: valid_utf8_iff)
qed

section \<open>Properties\<close>

text \<open>
  C39: Opening a file and saving it unchanged writes back the same bytes: whatever \<open>decode_text\<close>
  accepts, \<open>encode_text\<close> reproduces exactly, byte order mark and newline convention included.
\<close>

theorem decode_encode:
  assumes "decode_text bs = Ok (t, nl, bom)"
  shows "encode_text t nl bom = Ok bs"
proof -
  define orig where "orig = (if bom then drop 3 bs else bs)"
  have bom: "bom = starts_with bs BOM" and len: "length bs \<le> MAX_REMOTE_EDITOR_BYTES"
    and nul: "NUL \<notin> set orig" and cr: "CR \<notin> set (str_replace [CR, LF] [] orig)"
    and mixed: "str_contains orig [CR, LF] \<Longrightarrow> LF \<notin> set (str_replace [CR, LF] [] orig)"
    and nl: "nl = (if str_contains orig [CR, LF] then CrLf else Lf)"
    and t: "t = (if str_contains orig [CR, LF] then str_replace [CR, LF] [LF] orig else orig)"
    using assms by (auto simp: decode_text_def Let_def orig_def split: if_splits)
  have bs: "bs = (if bom then BOM else []) @ orig"
    using bom by (auto simp: orig_def starts_with_decomp BOM_def)
  have size: "length orig + (if bom then 3 else 0) \<le> MAX_REMOTE_EDITOR_BYTES"
    using len by (subst (asm) bs) (auto simp: BOM_def)
  show ?thesis
  proof (cases "str_contains orig [CR, LF]")
    case True
    have "length t + (if bom then 3 else 0) \<le> MAX_REMOTE_EDITOR_BYTES"
      using size replace_crlf_length [of orig] True t by simp
    with True size show ?thesis
      using t nl bs replace_crlf_inverse [OF cr mixed [OF True]] replace_crlf_shape [OF cr]
        replace_crlf_NUL [OF nul] by (simp add: encode_text_def Let_def)
  next
    case False
    moreover have "CR \<notin> set orig" using cr replace_crlf_absent [OF False] by simp
    ultimately show ?thesis
      using t nl bs nul size by (simp add: encode_text_def Let_def)
  qed
qed

theorem decode_encode_witness:
  "encode_text [CHR ''a'', LF, CHR ''b''] CrLf True = Ok (BOM @ [CHR ''a'', CR, LF, CHR ''b''])"
proof (rule decode_encode)
  show "decode_text (BOM @ [CHR ''a'', CR, LF, CHR ''b'']) = Ok ([CHR ''a'', LF, CHR ''b''], CrLf, True)"
    by (simp add: decode_text_def Let_def BOM_def CR_def LF_def NUL_def starts_with_def valid_utf8_def
        utf8_chars.simps utf8_next_def str_replace.simps MAX_REMOTE_EDITOR_BYTES_def)
qed

text \<open>
  Saving an edited text and opening the result shows the same text with the same settings, as
  long as a CRLF file keeps at least one line break and a file without a byte order mark does not
  come to start with one. (Without these conditions the reopened file reports LF, or a mark.)
\<close>

theorem encode_decode:
  assumes "encode_text t nl bom = Ok bs" "valid_utf8 t"
    and "nl = CrLf \<Longrightarrow> LF \<in> set t" "bom \<or> \<not> starts_with bs BOM"
  shows "decode_text bs = Ok (t, nl, bom)"
proof -
  define body where "body = (case nl of Lf \<Rightarrow> t | CrLf \<Rightarrow> str_replace [LF] [CR, LF] t)"
  have clean: "NUL \<notin> set t" "CR \<notin> set t" and bs: "bs = (if bom then BOM else []) @ body"
    and len: "length bs \<le> MAX_REMOTE_EDITOR_BYTES"
    using assms(1) by (auto simp: encode_text_def Let_def body_def BOM_def split: if_splits)
  have bom: "starts_with bs BOM = bom" and orig: "(if bom then drop 3 bs else bs) = body"
    using assms(4) bs by (auto simp: starts_with_decomp BOM_def)
  have valid: "valid_utf8 body" "NUL \<notin> set body"
    using assms(2) clean expand_valid
    by (auto simp: body_def str_replace_single split: text_newline.split if_splits)
  show ?thesis
  proof (cases nl)
    case Lf
    then have "body = t" by (simp add: body_def)
    moreover have "\<not> str_contains t [CR, LF]"
      using clean(2) by (induction t rule: crlf_induct) (auto simp: starts_with_def)
    ultimately show ?thesis
      using Lf bom orig len valid clean replace_crlf_absent [of t]
      by (simp add: decode_text_def Let_def)
  next
    case CrLf
    then have body: "body = str_replace [LF] [CR, LF] t" by (simp add: body_def)
    have "CR \<notin> set (str_replace [LF] [] t)" "LF \<notin> set (str_replace [LF] [] t)"
      using clean(2) by (auto simp: str_replace_single split: if_splits)
    then show ?thesis
      using CrLf bom orig len valid expand_crlf [OF clean(2)] expand_crlf_contains [OF assms(3) [OF CrLf]]
      by (simp add: decode_text_def Let_def body replace_LF_id)
  qed
qed

theorem encode_decode_witness:
  "decode_text [CHR ''a'', CR, LF] = Ok ([CHR ''a'', LF], CrLf, False)"
proof (rule encode_decode)
  show "encode_text [CHR ''a'', LF] CrLf False = Ok [CHR ''a'', CR, LF]"
    by (simp add: encode_text_def str_replace_single MAX_REMOTE_EDITOR_BYTES_def)
      (simp add: NUL_def LF_def CR_def)
  show "valid_utf8 [CHR ''a'', LF]"
    by (simp add: valid_utf8_def utf8_chars.simps utf8_next_def LF_def)
  show "False \<or> \<not> starts_with [CHR ''a'', CR, LF] BOM"
    by (simp add: starts_with_def BOM_def)
qed simp

end
