(* ===== verification/Remote_Paths.thy ===== *)
theory Remote_Paths
  imports Nexus_Model Utf8
begin

text \<open>
  \<^verbatim>\<open>crates/nexus-sftp/src/path.rs\<close>: validation of remote paths and server-supplied names, joining
  and parents, escaping of names for display, and Windows file-name rules for downloads.
\<close>

definition MAX_REMOTE_PATH_BYTES :: nat where
  "MAX_REMOTE_PATH_BYTES = 4096"

definition path_policy :: "string \<Rightarrow> app_error" where
  "path_policy m = AppError_new FilePolicy m"

definition validate_remote_path :: "string \<Rightarrow> unit app_result" where
  "validate_remote_path path =
     (if path = [] \<or> length path > MAX_REMOTE_PATH_BYTES \<or> CHR 0x00 \<in> set path
      then Err (path_policy ''The remote path is empty, contains NUL, or exceeds 4096 bytes.'')
      else Ok ())"

definition validate_child_name :: "string \<Rightarrow> unit app_result" where
  "validate_child_name name =
     (if name = [] \<or> name = ''.'' \<or> name = ''..'' \<or> CHR ''/'' \<in> set name \<or> CHR 0x00 \<in> set name
       \<or> length name > 255
      then Err (path_policy ''The server returned an unsafe child entry name.'')
      else Ok ())"

definition join_remote :: "string \<Rightarrow> string \<Rightarrow> string app_result" where
  "join_remote parent child =
     and_then (validate_remote_path parent) (\<lambda>_.
     and_then (validate_child_name child) (\<lambda>_.
       let joined = (if parent = ''/'' then ''/'' @ child
                     else trim_end_matches (\<lambda>c. c = CHR ''/'') parent @ ''/'' @ child)
       in and_then (validate_remote_path joined) (\<lambda>_. Ok joined)))"

definition parent_remote :: "string \<Rightarrow> string app_result" where
  "parent_remote path =
     and_then (validate_remote_path path) (\<lambda>_.
       if path = ''/'' then Ok ''/''
       else Ok (case rsplit_once (CHR ''/'') (trim_end_matches (\<lambda>c. c = CHR ''/'') path) of
                  None \<Rightarrow> ''.''
                | Some (parent, _) \<Rightarrow> if parent = [] then ''/'' else parent))"

definition is_bidi_control :: "nat \<Rightarrow> bool" where
  "is_bidi_control v =
     (v = 0x061C \<or> v = 0x200E \<or> v = 0x200F \<or> (0x202A \<le> v \<and> v \<le> 0x202E)
      \<or> (0x2066 \<le> v \<and> v \<le> 0x2069))"

text \<open>One character of \<open>display_name\<close>'s output: itself, or \<open>\u{XXXX}\<close> for an invisible one.\<close>

definition display_char :: "nat \<Rightarrow> string" where
  "display_char v =
     (if is_control v \<or> is_bidi_control v
      then CHR 0x5C # ''u{'' @ fmt_04X v @ ''}''
      else encode_utf8 v)"

text \<open>A \<open>&str\<close> is well-formed UTF-8; the map on a malformed byte string is empty.\<close>

definition display_name :: "string \<Rightarrow> string" where
  "display_name s = (case utf8_chars s of None \<Rightarrow> [] | Some vs \<Rightarrow> concat (map display_char vs))"

definition windows_reserved_char :: "char \<Rightarrow> bool" where
  "windows_reserved_char c =
     (c \<in> {CHR 0x5C, CHR '':'', CHR ''*'', CHR ''?'', CHR 0x22, CHR ''<'', CHR ''>'', CHR ''|''})"

definition windows_device :: "string \<Rightarrow> bool" where
  "windows_device upper =
     (upper \<in> {''CON'', ''PRN'', ''AUX'', ''NUL''}
      \<or> (length upper = 4 \<and> (starts_with upper ''COM'' \<or> starts_with upper ''LPT'')
         \<and> 49 \<le> (byte_of (upper ! 3) :: nat) \<and> byte_of (upper ! 3) \<le> (57 :: nat)))"

definition validate_windows_file_name :: "string \<Rightarrow> unit app_result" where
  "validate_windows_file_name name =
     and_then (validate_child_name name) (\<lambda>_.
       if ends_with name ''.'' \<or> ends_with name '' ''
         \<or> list_ex windows_reserved_char name
         \<or> (case utf8_chars name of None \<Rightarrow> False | Some vs \<Rightarrow> list_ex is_control vs)
       then Err (path_policy ''The remote name is not a valid Windows file name. Rename it explicitly before download.'')
       else
         let stem = trim_end_matches (\<lambda>c. c = CHR ''.'' \<or> c = CHR '' '') (hd (split_char (CHR ''.'') name));
             upper = to_ascii_uppercase stem
         in if windows_device upper
            then Err (path_policy ''The remote name is reserved by Windows. Rename it explicitly before download.'')
            else Ok ())"

section \<open>Lemmas\<close>

lemma validate_remote_path_Ok [simp]:
  "validate_remote_path p = Ok u \<longleftrightarrow> p \<noteq> [] \<and> length p \<le> MAX_REMOTE_PATH_BYTES \<and> CHR 0x00 \<notin> set p"
  by (auto simp: validate_remote_path_def)

lemma validate_child_name_Ok [simp]:
  "validate_child_name n = Ok u \<longleftrightarrow> n \<noteq> [] \<and> n \<noteq> ''.'' \<and> n \<noteq> ''..'' \<and> CHR ''/'' \<notin> set n
     \<and> CHR 0x00 \<notin> set n \<and> length n \<le> 255"
  by (auto simp: validate_child_name_def)

lemma join_remote_OkD:
  assumes "join_remote p c = Ok j"
  shows "j = trim_end_matches (\<lambda>c. c = CHR ''/'') p @ ''/'' @ c" "c \<noteq> []" "CHR ''/'' \<notin> set c"
    "c \<noteq> ''.''" "c \<noteq> ''..''" "p \<noteq> []" "CHR 0x00 \<notin> set j" "length j \<le> MAX_REMOTE_PATH_BYTES"
  using assms
  by (auto simp: join_remote_def and_then_Ok_iff Let_def trim_end_matches_def split: if_splits)

lemma rsplit_once_last: "c \<notin> set b \<Longrightarrow> rsplit_once c (a @ c # b) = Some (a, b)"
  by (induction a) (simp_all add: rsplit_once_None [THEN iffD2])

lemma trim_slash_id:
  "c \<noteq> [] \<Longrightarrow> CHR ''/'' \<notin> set c \<Longrightarrow> trim_end_matches (\<lambda>c. c = CHR ''/'') (a @ c) = a @ c"
  by (cases c rule: rev_cases) (auto simp: append_assoc [symmetric] simp del: append_assoc)

text \<open>Every displayed character is visible: it is kept, or replaced by printable ASCII.\<close>

definition invisible :: "nat \<Rightarrow> bool" where
  "invisible v = (is_control v \<or> is_bidi_control v)"

lemma display_char_visible:
  assumes "is_scalar v"
  shows "\<exists>ws. list_all is_scalar ws \<and> list_all (\<lambda>w. \<not> invisible w) ws \<and> display_char v = encode_all ws"
proof (cases "invisible v")
  case True
  let ?s = "CHR 0x5C # ''u{'' @ fmt_04X v @ ''}''"
  have r: "\<forall>c\<in>set ?s. 48 \<le> (byte_of c :: nat) \<and> byte_of c \<le> (125 :: nat)"
    using fmt_04X_range [of _ v] by fastforce
  then have "encode_all (map byte_of ?s) = ?s"
    by (intro encode_all_ascii) fastforce
  moreover have "list_all is_scalar (map byte_of ?s)" "list_all (\<lambda>w. \<not> invisible w) (map byte_of ?s)"
    using r by (fastforce simp: list_all_iff is_scalar_def invisible_def is_control_def is_bidi_control_def)+
  moreover have "display_char v = ?s"
    using True by (simp add: display_char_def invisible_def)
  ultimately show ?thesis by metis
next
  case False
  with assms show ?thesis
    by (intro exI [of _ "[v]"]) (simp add: display_char_def invisible_def encode_all_def)
qed

lemma display_chars_visible:
  "list_all is_scalar vs \<Longrightarrow>
   \<exists>ws. list_all is_scalar ws \<and> list_all (\<lambda>w. \<not> invisible w) ws
      \<and> concat (map display_char vs) = encode_all ws"
proof (induction vs)
  case Nil
  then show ?case by (intro exI [of _ "[]"]) (simp add: encode_all_def)
next
  case (Cons v vs)
  then obtain ws where "list_all is_scalar ws" "list_all (\<lambda>w. \<not> invisible w) ws"
      "concat (map display_char vs) = encode_all ws"
    by auto
  moreover from Cons obtain us where "list_all is_scalar us" "list_all (\<lambda>w. \<not> invisible w) us"
      "display_char v = encode_all us"
    using display_char_visible [of v] by auto
  ultimately show ?case
    by (intro exI [of _ "us @ ws"]) (simp add: encode_all_append)
qed

lemma display_char_id: "\<not> invisible v \<Longrightarrow> display_char v = encode_utf8 v"
  by (simp add: display_char_def invisible_def)

lemma hd_split_char: "hd (split_char c s) = takeWhile (\<lambda>x. x \<noteq> c) s"
proof (induction s)
  case (Cons x xs)
  then show ?case by (cases "split_char c xs") auto
qed simp

section \<open>Properties\<close>

text \<open>
  Joining a server-supplied child name to a directory stays directly below that directory:
  the joined path is the directory without trailing slashes, a slash and the name, its parent is
  that directory again, and it satisfies the bounds on remote paths. No name can climb out.
\<close>

theorem join_remote_parent:
  assumes "join_remote p c = Ok j"
  shows "j = trim_end_matches (\<lambda>c. c = CHR ''/'') p @ ''/'' @ c
       \<and> parent_remote j = Ok (if trim_end_matches (\<lambda>c. c = CHR ''/'') p = [] then ''/''
                               else trim_end_matches (\<lambda>c. c = CHR ''/'') p)
       \<and> c \<notin> {'''', ''.'', ''..''} \<and> CHR ''/'' \<notin> set c
       \<and> validate_remote_path j = Ok ()"
proof -
  note j = join_remote_OkD [OF assms]
  let ?t = "trim_end_matches (\<lambda>c. c = CHR ''/'') p"
  have ne: "j \<noteq> ''/''" "j \<noteq> []" using j(1,2) by (cases ?t; auto)+
  have "trim_end_matches (\<lambda>c. c = CHR ''/'') j = ?t @ ''/'' @ c"
    using trim_slash_id [OF j(2,3), of "?t @ ''/''"] j(1) by simp
  then have "rsplit_once (CHR ''/'') (trim_end_matches (\<lambda>c. c = CHR ''/'') j) = Some (?t, c)"
    using rsplit_once_last [OF j(3), of ?t] by simp
  moreover have ok: "validate_remote_path j = Ok ()"
    using ne j(7,8) by simp
  ultimately have "parent_remote j = Ok (if ?t = [] then ''/'' else ?t)"
    using ne by (simp add: parent_remote_def del: validate_remote_path_Ok)
  with ok j(1-5) show ?thesis by (simp del: validate_remote_path_Ok)
qed

theorem join_remote_parent_witness:
  "join_remote ''/srv//'' ''a.txt'' = Ok ''/srv/a.txt'' \<and> parent_remote ''/srv/a.txt'' = Ok ''/srv''"
proof -
  have j: "join_remote ''/srv//'' ''a.txt'' = Ok ''/srv/a.txt''" by code_simp
  have t: "trim_end_matches (\<lambda>c. c = CHR ''/'') ''/srv//'' = ''/srv''" by code_simp
  show ?thesis using join_remote_parent [OF j] j by (simp add: t)
qed

text \<open>
  A displayed name hides nothing. The output of \<open>display_name\<close> on any well-formed name is
  well-formed UTF-8 without control characters and without bidirectional overrides, and a name
  that has none of these is displayed unchanged.
\<close>

theorem display_name_visible:
  assumes "utf8_chars s = Some vs"
  shows "(\<exists>ws. utf8_chars (display_name s) = Some ws
             \<and> list_all (\<lambda>w. \<not> is_control w \<and> \<not> is_bidi_control w) ws)
       \<and> (list_all (\<lambda>w. \<not> is_control w \<and> \<not> is_bidi_control w) vs \<longrightarrow> display_name s = s)"
proof
  from utf8_chars_decode [OF assms] have vs: "list_all is_scalar vs" "encode_all vs = s" by auto
  have d: "display_name s = concat (map display_char vs)" using assms by (simp add: display_name_def)
  show "\<exists>ws. utf8_chars (display_name s) = Some ws
      \<and> list_all (\<lambda>w. \<not> is_control w \<and> \<not> is_bidi_control w) ws"
    using display_chars_visible [OF vs(1)] utf8_chars_encode_all d
    by (fastforce simp: invisible_def)
  show "list_all (\<lambda>w. \<not> is_control w \<and> \<not> is_bidi_control w) vs \<longrightarrow> display_name s = s"
  proof
    assume "list_all (\<lambda>w. \<not> is_control w \<and> \<not> is_bidi_control w) vs"
    then have "map display_char vs = map encode_utf8 vs"
      by (auto simp: list_all_iff invisible_def display_char_id)
    then have "concat (map display_char vs) = concat (map encode_utf8 vs)" by (rule arg_cong)
    with d vs(2) show "display_name s = s" unfolding encode_all_def by metis
  qed
qed

theorem display_name_visible_witness:
  "\<exists>ws. utf8_chars (display_name [CHR ''a'', CHR 0x0A, CHR 0xE2, CHR 0x80, CHR 0xAE]) = Some ws
      \<and> list_all (\<lambda>w. \<not> is_control w \<and> \<not> is_bidi_control w) ws"
proof -
  have "utf8_chars [CHR ''a'', CHR 0x0A, CHR 0xE2, CHR 0x80, CHR 0xAE] = Some [97, 10, 0x202E]"
    by (simp add: utf8_chars.simps utf8_next_def utf8_cont_def cont_bits_def)
  then show ?thesis using display_name_visible by blast
qed

text \<open>
  A name accepted for download is a single harmless component on the local file system as well:
  not empty, not a dot name, free of both separators, of drive and wildcard characters and of
  control characters, not ending in a dot or space, and its part before the first dot is no device name
  in any letter case.
\<close>

theorem windows_name_safe:
  assumes "validate_windows_file_name n = Ok ()" "valid_utf8 n"
  shows "n \<notin> {'''', ''.'', ''..''} \<and> length n \<le> 255
       \<and> set n \<inter> {CHR ''/'', CHR 0x5C, CHR '':'', CHR ''*'', CHR ''?'', CHR 0x22, CHR ''<'', CHR ''>'', CHR ''|'', CHR 0x00} = {}
       \<and> (\<exists>vs. utf8_chars n = Some vs \<and> list_all (\<lambda>v. \<not> is_control v) vs)
       \<and> last n \<noteq> CHR ''.'' \<and> last n \<noteq> CHR '' ''
       \<and> \<not> windows_device (to_ascii_uppercase
            (trim_end_matches (\<lambda>c. c = CHR ''.'' \<or> c = CHR '' '') (takeWhile (\<lambda>c. c \<noteq> CHR ''.'') n)))"
proof -
  have v: "n \<noteq> []" "n \<noteq> ''.''" "n \<noteq> ''..''" "CHR ''/'' \<notin> set n" "CHR 0x00 \<notin> set n" "length n \<le> 255"
    "\<not> ends_with n ''.''" "\<not> ends_with n '' ''" "\<not> list_ex windows_reserved_char n"
    "\<not> windows_device (to_ascii_uppercase
       (trim_end_matches (\<lambda>c. c = CHR ''.'' \<or> c = CHR '' '') (hd (split_char (CHR ''.'') n))))"
    "case utf8_chars n of None \<Rightarrow> True | Some vs \<Rightarrow> \<not> list_ex is_control vs"
    using assms(1)
    by (simp_all add: validate_windows_file_name_def and_then_Ok_iff Let_def split: if_splits option.splits)
  have "last n \<noteq> x" if "\<not> ends_with n [x]" for x
    using that v(1) by (metis append_butlast_last_id ends_with_append)
  then show ?thesis
    using v assms(2)
    by (auto simp: hd_split_char list_ex_iff list_all_iff windows_reserved_char_def valid_utf8_def)
qed

theorem windows_name_safe_witness:
  "validate_windows_file_name ''report.txt'' = Ok () \<and> last ''report.txt'' \<noteq> CHR ''.''"
proof -
  have "valid_utf8 ''report.txt''" by (simp add: valid_utf8_def utf8_chars.simps utf8_next_def)
  moreover have "validate_windows_file_name ''report.txt'' = Ok ()"
    by (simp add: validate_windows_file_name_def validate_child_name_def ends_with_def
        windows_reserved_char_def utf8_chars.simps utf8_next_def is_control_def trim_end_matches_def
        to_ascii_uppercase_def windows_device_def starts_with_def is_ascii_lowercase_def)
  ultimately show ?thesis using windows_name_safe by blast
qed

end
