(* ===== verification/Sftp_Model.thy ===== *)
theory Sftp_Model
  imports Editor_Text Remote_Paths
begin

text \<open>
  The data types of file management: \<^verbatim>\<open>crates/nexus-model/src/sftp.rs\<close>, the identities of
  \<^verbatim>\<open>crates/nexus-sftp/src/client.rs\<close> and the plan types of \<^verbatim>\<open>crates/nexus-sftp/src/policy.rs\<close>.
\<close>

section \<open>Sessions and remote entries\<close>

record sftp_extension =
  ext_name :: string
  ext_version :: string

record sftp_limits =
  lim_max_packet_bytes :: "string option"
  lim_max_read_bytes :: "string option"
  lim_max_write_bytes :: "string option"
  lim_max_open_handles :: "string option"
  lim_client_chunk_bytes :: string
  lim_listing_entry_cap :: u32

record sftp_session_info =
  si_id :: sftp_session_id
  si_host_id :: host_id
  si_host_session_id :: host_session_id
  si_protocol_version :: u32
  si_extensions :: "sftp_extension list"
  si_limits :: sftp_limits
  si_root_path :: string

datatype remote_entry_kind = KFile | KDirectory | KSymlink | KOther | KUnknown

record remote_entry =
  re_name :: string
  re_display_name :: string
  re_path :: string
  re_kind :: remote_entry_kind
  re_size_bytes :: "string option"
  re_modified_at :: "string option"
  re_permissions :: "string option"
  re_uid :: "u32 option"
  re_gid :: "u32 option"

record entry_identity =
  ei_kind :: remote_entry_kind
  ei_size :: "u64 option"
  ei_modified :: "u32 option"

record editor_revision =
  rev_identity :: entry_identity
  rev_raw_mode :: u32
  rev_uid :: u32
  rev_gid :: u32

definition supports :: "sftp_session_info \<Rightarrow> string \<Rightarrow> string \<Rightarrow> bool" where
  "supports info name version =
     list_ex (\<lambda>x. ext_name x = name \<and> ext_version x = version) (si_extensions info)"

section \<open>Plans\<close>

datatype conflict_policy = PSkip | PKeepBoth | PReplace

datatype file_operation_kind = FUpload | FDownload | FCreateDirectory | FRename | FDelete | FEditText

record file_plan_item =
  fi_source_display :: string
  fi_destination_display :: string
  fi_size_bytes :: "string option"

record file_operation_plan =
  fo_id :: file_plan_id
  fo_host_id :: host_id
  fo_host_session_id :: host_session_id
  fo_sftp_session_id :: sftp_session_id
  fo_kind :: file_operation_kind
  fo_risk :: operation_risk
  fo_conflict_policy :: "conflict_policy option"
  fo_items :: "file_plan_item list"
  fo_expires_at :: string

text \<open>
  Local objects. Paths and open handles are opaque to this code: a path is a string, a handle a
  number; \<open>SystemTime\<close> is a number.
\<close>

record local_object_id =
  lo_storage_id :: u64
  lo_file_id :: uuid

record local_identity =
  li_size :: u64
  li_modified :: "nat option"
  li_object_id :: local_object_id

record local_item =
  lc_path :: string
  lc_display_name :: string
  lc_size :: u64
  lc_modified :: "nat option"
  lc_identity :: local_identity
  lc_handle :: nat

record local_directory =
  ld_path :: string
  ld_display_name :: string
  ld_identity :: local_identity
  ld_handle :: nat

definition same_local_object :: "local_identity \<Rightarrow> local_identity \<Rightarrow> bool" where
  "same_local_object l r = (li_object_id l = li_object_id r)"

datatype 'i destination_action = ASkip | ACreateNew | AReplaceExisting 'i

record remote_source =
  rs_path :: string
  rs_name :: string
  rs_size :: "u64 option"
  rs_identity :: entry_identity

record planned_upload =
  pu_source :: local_item
  pu_destination :: string
  pu_action :: "entry_identity destination_action"

record planned_download =
  pw_source :: remote_source
  pw_destination :: local_directory
  pw_file_name :: string
  pw_action :: "local_identity destination_action"

datatype mutation_spec =
    MCreateDirectory string
  | MRename string string entry_identity
  | MDelete string remote_entry_kind entry_identity

text \<open>A payload names its client by the session the client belongs to.\<close>

datatype plan_payload =
    EditorSave sftp_session_info string editor_revision string string
  | UploadPayload sftp_session_info conflict_policy "planned_upload list"
  | DownloadPayload sftp_session_info conflict_policy "planned_download list"
  | MutationPayload sftp_session_info mutation_spec

record internal_plan =
  ip_view :: file_operation_plan
  ip_payload :: plan_payload

definition policy_error :: "string \<Rightarrow> app_error" where
  "policy_error m = AppError_new FilePolicy m"

definition local_access_error :: "string \<Rightarrow> app_error" where
  "local_access_error m = AppError_new LocalAccess m"

end
