(* ===== verification/Local_Access.thy ===== *)
theory Local_Access
  imports Sftp_Model Remote_Paths Interfaces
begin

text \<open>
  \<^verbatim>\<open>apps/desktop/src-tauri/src/local_access.rs\<close>: grants for the local files and directories the
  user picked in a native dialog. The renderer holds only a grant identifier, scoped to one SFTP
  session; the paths and the open handles stay here. The dialog and the opening of a path are
  arguments of the two \<open>choose\<close> operations. One clock reading serves a critical section.
\<close>

section \<open>State\<close>

definition GRANT_LIFETIME :: nat where "GRANT_LIFETIME = from_secs (10 * 60)"
definition GRANT_CAP :: nat where "GRANT_CAP = 64"
definition FILE_CAP :: nat where "FILE_CAP = 32"

datatype grant_value = GrantUpload "local_item list" | GrantDownload local_directory

record grant_scope =
  gs_host_id :: host_id
  gs_host_session_id :: host_session_id
  gs_sftp_session_id :: sftp_session_id

record stored_grant =
  sg_value :: grant_value
  sg_scope :: grant_scope
  sg_expires :: instant

record local_access =
  la_grants :: "(local_grant_id, stored_grant) fmap"
  la_lifetime :: nat
  la_poisoned :: bool

definition local_access_default :: local_access where
  "local_access_default = \<lparr>la_grants = fmempty, la_lifetime = GRANT_LIFETIME, la_poisoned = False\<rparr>"

datatype local_grant_kind = UploadFiles | DownloadDirectory

record local_selection_item =
  si_display_name :: string
  si_size_bytes :: "string option"

record local_selection_grant =
  lg_id :: local_grant_id
  lg_kind :: local_grant_kind
  lg_items :: "local_selection_item list"
  lg_expires_at :: string

section \<open>Operations\<close>

definition grants_unavailable :: app_error where
  "grants_unavailable = local_access_error ''Local access grants are unavailable.''"

definition grant_missing :: app_error where
  "grant_missing = local_access_error ''The local selection grant is missing or was already used.''"

definition grant_expired :: app_error where
  "grant_expired = local_access_error ''The local selection grant expired.''"

definition grant_foreign :: app_error where
  "grant_foreign = local_access_error ''The local selection grant belongs to a different SFTP session.''"

definition grant_wrong_scope :: app_error where
  "grant_wrong_scope = local_access_error ''The local grant has the wrong scope.''"

definition grant_insert ::
  "local_grant_kind \<Rightarrow> local_selection_item list \<Rightarrow> grant_value \<Rightarrow> grant_scope \<Rightarrow> local_grant_id \<Rightarrow> string \<Rightarrow>
   instant \<Rightarrow> local_access \<Rightarrow> local_selection_grant option app_result \<times> local_access" where
  "grant_insert kind items val scope gid until now s =
     (if la_poisoned s then (Err grants_unavailable, s)
      else
        let grants = fm_retain (\<lambda>_ g. sg_expires g > now) (la_grants s)
        in if fm_len grants \<ge> GRANT_CAP
           then (Err (local_access_error ''Too many local selections are awaiting approval.''), s\<lparr>la_grants := grants\<rparr>)
           else (Ok (Some \<lparr>lg_id = gid, lg_kind = kind, lg_items = items, lg_expires_at = until\<rparr>),
                 s\<lparr>la_grants := fmupd gid \<lparr>sg_value = val, sg_scope = scope, sg_expires = now + la_lifetime s\<rparr> grants\<rparr>))"

text \<open>
  \<open>choose_upload_files\<close>: \<open>dialog\<close> is the picked paths, \<open>file_name\<close> the last component of a path when
  it is valid Unicode, \<open>open_source\<close> opens a path as a regular file.
\<close>

definition selected_file ::
  "(string \<Rightarrow> string option) \<Rightarrow> (string \<Rightarrow> string \<Rightarrow> local_item app_result) \<Rightarrow> string \<Rightarrow>
   (local_item \<times> local_selection_item) app_result" where
  "selected_file file_name open_source path =
     and_then (ok_or (file_name path) (local_access_error ''A selected filename cannot be represented losslessly.'')) (\<lambda>name.
     and_then (validate_child_name name) (\<lambda>_.
     and_then (open_source path name) (\<lambda>item.
     Ok (item, \<lparr>si_display_name = display_name name, si_size_bytes = Some (fmt_dec (unat (lc_size item)))\<rparr>))))"

definition choose_upload_files ::
  "(string \<Rightarrow> string option) \<Rightarrow> (string \<Rightarrow> string \<Rightarrow> local_item app_result) \<Rightarrow> grant_scope \<Rightarrow> string list option \<Rightarrow>
   local_grant_id \<Rightarrow> string \<Rightarrow> instant \<Rightarrow> local_access \<Rightarrow> local_selection_grant option app_result \<times> local_access" where
  "choose_upload_files file_name open_source scope dialog gid until now s =
     (case dialog of
        None \<Rightarrow> (Ok None, s)
      | Some handles \<Rightarrow>
          if handles = [] \<or> length handles > FILE_CAP
          then (Err (local_access_error ''Choose between 1 and 32 regular files.''), s)
          else case try_map (selected_file file_name open_source) handles of
            Err e \<Rightarrow> (Err e, s)
          | Ok picked \<Rightarrow> grant_insert UploadFiles (map snd picked) (GrantUpload (map fst picked)) scope gid until now s)"

definition choose_download_directory ::
  "(string \<Rightarrow> string) \<Rightarrow> (string \<Rightarrow> local_directory app_result) \<Rightarrow> grant_scope \<Rightarrow> string option \<Rightarrow>
   local_grant_id \<Rightarrow> string \<Rightarrow> instant \<Rightarrow> local_access \<Rightarrow> local_selection_grant option app_result \<times> local_access" where
  "choose_download_directory path_display open_directory scope dialog gid until now s =
     (case dialog of
        None \<Rightarrow> (Ok None, s)
      | Some path \<Rightarrow>
          (case open_directory path of
             Err e \<Rightarrow> (Err e, s)
           | Ok directory \<Rightarrow>
               grant_insert DownloadDirectory [\<lparr>si_display_name = path_display path, si_size_bytes = None\<rparr>]
                 (GrantDownload directory) scope gid until now s))"

text \<open>\<open>consume\<close> removes the grant before it looks at it.\<close>

definition grant_consume ::
  "local_grant_id \<Rightarrow> grant_scope \<Rightarrow> instant \<Rightarrow> local_access \<Rightarrow> grant_value app_result \<times> local_access" where
  "grant_consume gid scope now s =
     (if la_poisoned s then (Err grants_unavailable, s)
      else case fmlookup (la_grants s) gid of
        None \<Rightarrow> (Err grant_missing, s)
      | Some g \<Rightarrow>
          (if now > sg_expires g then Err grant_expired
           else if sg_scope g \<noteq> scope then Err grant_foreign
           else Ok (sg_value g), s\<lparr>la_grants := fmdrop gid (la_grants s)\<rparr>))"

fun as_upload :: "grant_value \<Rightarrow> local_item list app_result" where
  "as_upload (GrantUpload items) = Ok items"
| "as_upload _ = Err grant_wrong_scope"

fun as_download :: "grant_value \<Rightarrow> local_directory app_result" where
  "as_download (GrantDownload d) = Ok d"
| "as_download _ = Err grant_wrong_scope"

definition consume_upload ::
  "local_grant_id \<Rightarrow> grant_scope \<Rightarrow> instant \<Rightarrow> local_access \<Rightarrow> local_item list app_result \<times> local_access" where
  "consume_upload gid scope now s =
     (case grant_consume gid scope now s of (r, s') \<Rightarrow> (and_then r as_upload, s'))"

definition consume_download_directory ::
  "local_grant_id \<Rightarrow> grant_scope \<Rightarrow> instant \<Rightarrow> local_access \<Rightarrow> local_directory app_result \<times> local_access" where
  "consume_download_directory gid scope now s =
     (case grant_consume gid scope now s of (r, s') \<Rightarrow> (and_then r as_download, s'))"

definition grants_revoke_all :: "local_access \<Rightarrow> unit app_result \<times> local_access" where
  "grants_revoke_all s = (if la_poisoned s then (Err grants_unavailable, s) else (Ok (), s\<lparr>la_grants := fmempty\<rparr>))"

definition grants_revoke_session :: "host_id \<Rightarrow> host_session_id \<Rightarrow> local_access \<Rightarrow> local_access" where
  "grants_revoke_session h hs s =
     (if la_poisoned s then s
      else s\<lparr>la_grants := fm_retain (\<lambda>_ g. gs_host_id (sg_scope g) \<noteq> h \<or> gs_host_session_id (sg_scope g) \<noteq> hs) (la_grants s)\<rparr>)"

definition grants_revoke_host :: "host_id \<Rightarrow> local_access \<Rightarrow> local_access" where
  "grants_revoke_host h s =
     (if la_poisoned s then s
      else s\<lparr>la_grants := fm_retain (\<lambda>_ g. gs_host_id (sg_scope g) \<noteq> h) (la_grants s)\<rparr>)"

definition grant_discard :: "local_grant_id \<Rightarrow> grant_scope \<Rightarrow> local_access \<Rightarrow> unit app_result \<times> local_access" where
  "grant_discard gid scope s =
     (if la_poisoned s then (Err grants_unavailable, s)
      else case fmlookup (la_grants s) gid of
        None \<Rightarrow> (Ok (), s)
      | Some g \<Rightarrow>
          if sg_scope g \<noteq> scope then (Err grant_foreign, s)
          else (Ok (), s\<lparr>la_grants := fmdrop gid (la_grants s)\<rparr>))"

definition grant_expiry_fires :: "local_grant_id \<Rightarrow> instant \<Rightarrow> local_access \<Rightarrow> local_access" where
  "grant_expiry_fires gid expires s =
     (if \<not> la_poisoned s \<and> (case fmlookup (la_grants s) gid of None \<Rightarrow> False | Some g \<Rightarrow> sg_expires g = expires)
      then s\<lparr>la_grants := fmdrop gid (la_grants s)\<rparr> else s)"

section \<open>Events\<close>

datatype grant_event =
    GInsert local_grant_kind "local_selection_item list" grant_value grant_scope local_grant_id string instant
  | GConsume local_grant_id grant_scope instant
  | GRevokeAll
  | GRevokeSession host_id host_session_id
  | GRevokeHost host_id
  | GDiscard local_grant_id grant_scope
  | GExpiryFires local_grant_id instant

fun grant_step :: "grant_event \<Rightarrow> local_access \<Rightarrow> local_access" where
  "grant_step (GInsert k is v sc gid until now) s = snd (grant_insert k is v sc gid until now s)"
| "grant_step (GConsume gid sc now) s = snd (grant_consume gid sc now s)"
| "grant_step GRevokeAll s = snd (grants_revoke_all s)"
| "grant_step (GRevokeSession h hs) s = grants_revoke_session h hs s"
| "grant_step (GRevokeHost h) s = grants_revoke_host h s"
| "grant_step (GDiscard gid sc) s = snd (grant_discard gid sc s)"
| "grant_step (GExpiryFires gid e) s = grant_expiry_fires gid e s"

definition grant_enabled :: "grant_event \<Rightarrow> local_access \<Rightarrow> bool" where
  "grant_enabled e s = True"

fun grant_issues :: "grant_event \<Rightarrow> local_grant_id \<Rightarrow> bool" where
  "grant_issues (GInsert k is v sc gid until now) i = (gid = i)"
| "grant_issues _ i = False"

definition grant_live :: "local_access \<Rightarrow> local_grant_id \<Rightarrow> bool" where
  "grant_live s gid = (fmlookup (la_grants s) gid \<noteq> None)"

definition grant_inv :: "local_access \<Rightarrow> bool" where
  "grant_inv s = (fm_len (la_grants s) \<le> GRANT_CAP)"

section \<open>Contract\<close>

lemmas grant_defs = grant_insert_def grant_consume_def grants_revoke_all_def grants_revoke_session_def
  grants_revoke_host_def grant_discard_def grant_expiry_fires_def

lemma grant_step_inv: "grant_inv s \<Longrightarrow> grant_inv (grant_step e s)"
proof (cases e)
  case (GInsert k items v sc gid until now)
  assume "grant_inv s"
  let ?g = "fm_retain (\<lambda>_ g. sg_expires g > now) (la_grants s)"
  have "fm_len ?g \<le> GRANT_CAP"
    using \<open>grant_inv s\<close> fm_len_retain_le [of "\<lambda>_ g. sg_expires g > now" "la_grants s"] by (simp add: grant_inv_def)
  with \<open>grant_inv s\<close> GInsert show ?thesis
    by (auto simp: grant_inv_def grant_insert_def Let_def intro!: order_trans [OF fm_len_upd_le])
qed (auto simp: grant_inv_def grant_defs intro: order_trans [OF fm_len_drop_le] order_trans [OF fm_len_retain_le]
    split: option.splits)

lemma grant_step_live:
  "grant_live (grant_step e s) i \<Longrightarrow> grant_live s i \<or> grant_issues e i"
  by (cases e) (auto simp: grant_live_def grant_defs Let_def split: if_splits option.splits)

text \<open>A grant is redeemed by either of the two typed operations.\<close>

datatype grant_request = RedeemUpload local_grant_id grant_scope instant | RedeemDownload local_grant_id grant_scope instant

fun redeem_target :: "grant_request \<Rightarrow> local_grant_id" where
  "redeem_target (RedeemUpload gid _ _) = gid"
| "redeem_target (RedeemDownload gid _ _) = gid"

fun redeem_grant :: "grant_request \<Rightarrow> local_access \<Rightarrow> grant_value app_result \<times> local_access" where
  "redeem_grant (RedeemUpload gid sc now) s =
     (case consume_upload gid sc now s of (r, s') \<Rightarrow> (and_then r (\<lambda>items. Ok (GrantUpload items)), s'))"
| "redeem_grant (RedeemDownload gid sc now) s =
     (case consume_download_directory gid sc now s of (r, s') \<Rightarrow> (and_then r (\<lambda>d. Ok (GrantDownload d)), s'))"

lemma redeem_grant_consume:
  "snd (redeem_grant q s) = s \<or> snd (redeem_grant q s) = s\<lparr>la_grants := fmdrop (redeem_target q) (la_grants s)\<rparr>"
  "redeem_grant q s = (Ok v, s') \<Longrightarrow> grant_live s (redeem_target q) \<and> \<not> grant_live s' (redeem_target q)"
  by (cases q; auto simp: consume_upload_def consume_download_directory_def grant_consume_def grant_live_def
      and_then_Ok_iff split: option.splits if_splits)+

interpretation grants: one_shot grant_enabled grant_step grant_inv grant_live grant_issues redeem_target redeem_grant
proof unfold_locales
  fix s q r s'
  assume "grant_inv s" "redeem_grant q s = (r, s')"
  then show "grant_inv s'"
    using redeem_grant_consume(1) [of q s] fm_len_drop_le [of "redeem_target q" "la_grants s"]
    by (auto simp: grant_inv_def)
qed (auto simp: grant_step_inv grant_step_live dest: redeem_grant_consume(2))

interpretation grant_count: bounded_store grant_enabled grant_step grant_inv "\<lambda>s. fm_len (la_grants s)" GRANT_CAP
  by unfold_locales (simp add: grant_inv_def)

section \<open>Properties\<close>

definition ex_scope :: grant_scope where
  "ex_scope = \<lparr>gs_host_id = HostId 1, gs_host_session_id = HostSessionId 2, gs_sftp_session_id = SftpSessionId 3\<rparr>"

definition ex_folder :: local_directory where
  "ex_folder = \<lparr>ld_path = ''/home/me'', ld_display_name = ''me'', ld_identity = \<lparr>li_size = 0, li_modified = None,
     li_object_id = \<lparr>lo_storage_id = 1, lo_file_id = 2\<rparr>\<rparr>, ld_handle = 5\<rparr>"

definition ex_granted :: local_access where
  "ex_granted = snd (grant_insert DownloadDirectory [] (GrantDownload ex_folder) ex_scope (LocalGrantId 4) [] 10
     local_access_default)"

lemma ex_granted_eq:
  "ex_granted = \<lparr>la_grants = fmupd (LocalGrantId 4) \<lparr>sg_value = GrantDownload ex_folder, sg_scope = ex_scope,
     sg_expires = 10 + GRANT_LIFETIME\<rparr> fmempty, la_lifetime = GRANT_LIFETIME, la_poisoned = False\<rparr>"
  by (simp add: ex_granted_def grant_insert_def local_access_default_def Let_def GRANT_CAP_def)

text \<open>
  C27: A local selection is used at most once, in the session it was made for. After a grant was
  redeemed for uploading or downloading, no later redemption of it succeeds, whatever
  selections, discards, revocations and expiry tasks run in between; and a redemption succeeds only under
  the scope of the grant and not after its deadline.
\<close>

theorem grant_redeemed_once:
  assumes "grant_inv s" "redeem_grant q s = (Ok v, s')" "enabled_run grant_enabled grant_step es s'"
    and "\<forall>e\<in>set es. \<not> grant_issues e (redeem_target q)" "redeem_target q' = redeem_target q"
  shows "\<not> is_ok (fst (redeem_grant q' (fold grant_step es s')))
    \<and> (\<exists>g. fmlookup (la_grants s) (redeem_target q) = Some g \<and> sg_value g = v
        \<and> (case q of RedeemUpload _ sc now \<Rightarrow> sg_scope g = sc \<and> now \<le> sg_expires g
                    | RedeemDownload _ sc now \<Rightarrow> sg_scope g = sc \<and> now \<le> sg_expires g))"
proof
  show "\<not> is_ok (fst (redeem_grant q' (fold grant_step es s')))"
    using assms by (rule grants.redeemed_once)
  have up: "as_upload x = Ok items \<longleftrightarrow> x = GrantUpload items" for x items by (cases x) auto
  have down: "as_download x = Ok d \<longleftrightarrow> x = GrantDownload d" for x d by (cases x) auto
  show "\<exists>g. fmlookup (la_grants s) (redeem_target q) = Some g \<and> sg_value g = v
        \<and> (case q of RedeemUpload _ sc now \<Rightarrow> sg_scope g = sc \<and> now \<le> sg_expires g
                    | RedeemDownload _ sc now \<Rightarrow> sg_scope g = sc \<and> now \<le> sg_expires g)"
    using assms(2)
    by (cases q) (auto simp: consume_upload_def consume_download_directory_def grant_consume_def
        and_then_Ok_iff up down split: option.splits if_splits)
qed

theorem grant_redeemed_once_witness:
  "\<not> is_ok (fst (redeem_grant (RedeemUpload (LocalGrantId 4) ex_scope 30)
     (fold grant_step [GRevokeHost (HostId 9)] (snd (redeem_grant (RedeemDownload (LocalGrantId 4) ex_scope 20) ex_granted)))))"
proof -
  have a: "grant_inv ex_granted" by (simp add: grant_inv_def ex_granted_eq fm_len_upd GRANT_CAP_def)
  have b: "redeem_grant (RedeemDownload (LocalGrantId 4) ex_scope 20) ex_granted =
      (Ok (GrantDownload ex_folder), snd (redeem_grant (RedeemDownload (LocalGrantId 4) ex_scope 20) ex_granted))"
    by (simp add: ex_granted_eq consume_download_directory_def grant_consume_def GRANT_LIFETIME_def from_secs_def)
  have c: "enabled_run grant_enabled grant_step [GRevokeHost (HostId 9)]
      (snd (redeem_grant (RedeemDownload (LocalGrantId 4) ex_scope 20) ex_granted))"
    by (simp add: grant_enabled_def)
  have d: "\<forall>e\<in>set [GRevokeHost (HostId 9)]. \<not> grant_issues e (redeem_target (RedeemDownload (LocalGrantId 4) ex_scope 20))"
    by simp
  from grant_redeemed_once [OF a b c d, of "RedeemUpload (LocalGrantId 4) ex_scope 30"] show ?thesis by simp
qed

text \<open>
  At most 64 selections await approval, an upload selection holds 1 to 32 files, and every name shown
  or stored for it is a plain child name with no invisible character.
\<close>

theorem local_selection_bounded:
  assumes "enabled_run grant_enabled grant_step es local_access_default"
    and "choose_upload_files file_name open_source scope dialog gid until now (fold grant_step es local_access_default)
         = (Ok (Some g), s')"
  shows "fm_len (la_grants s') \<le> 64
    \<and> (\<exists>items. fmlookup (la_grants s') gid = Some \<lparr>sg_value = GrantUpload items, sg_scope = scope,
          sg_expires = now + la_lifetime (fold grant_step es local_access_default)\<rparr>
        \<and> 1 \<le> length items \<and> length items \<le> 32 \<and> length (lg_items g) = length items
        \<and> list_all (\<lambda>v. \<exists>name. si_display_name v = display_name name \<and> validate_child_name name = Ok ()) (lg_items g))"
proof -
  let ?s = "fold grant_step es local_access_default"
  have "grant_inv local_access_default" by (simp add: grant_inv_def local_access_default_def)
  then have inv: "grant_inv ?s" using assms(1) by (rule grants.invar_run)
  obtain handles picked where h: "dialog = Some handles" "handles \<noteq> []" "length handles \<le> 32"
    "try_map (selected_file file_name open_source) handles = Ok picked"
    "grant_insert UploadFiles (map snd picked) (GrantUpload (map fst picked)) scope gid until now ?s = (Ok (Some g), s')"
    using assms(2) by (auto simp: choose_upload_files_def FILE_CAP_def split: option.splits if_splits result.splits)
  have all: "list_all2 (\<lambda>x y. selected_file file_name open_source x = Ok y) handles picked"
    using h(4) by (simp add: try_map_Ok_iff)
  then have len: "length picked = length handles" by (simp add: list_all2_lengthD)
  have "\<exists>name. si_display_name (snd y) = display_name name \<and> validate_child_name name = Ok ()" if y: "y \<in> set picked" for y
  proof -
    obtain i where "i < length picked" "y = picked ! i" using y by (auto simp: in_set_conv_nth)
    then have "selected_file file_name open_source (handles ! i) = Ok y"
      using all by (simp add: list_all2_conv_all_nth)
    then show ?thesis by (auto simp: selected_file_def and_then_Ok_iff)
  qed
  then have "list_all (\<lambda>v. \<exists>name. si_display_name v = display_name name \<and> validate_child_name name = Ok ()) (map snd picked)"
    by (auto simp: list_all_iff)
  moreover have "fm_len (la_grants s') \<le> 64"
    using grant_step_inv [OF inv, of "GInsert UploadFiles (map snd picked) (GrantUpload (map fst picked)) scope gid until now"] h(5)
    by (simp add: grant_inv_def GRANT_CAP_def)
  moreover have "g = \<lparr>lg_id = gid, lg_kind = UploadFiles, lg_items = map snd picked, lg_expires_at = until\<rparr>"
    "fmlookup (la_grants s') gid = Some \<lparr>sg_value = GrantUpload (map fst picked), sg_scope = scope,
       sg_expires = now + la_lifetime ?s\<rparr>"
    using h(5) by (auto simp: grant_insert_def Let_def split: if_splits)
  ultimately show ?thesis using h(2,3) len by (cases handles) auto
qed

definition ex_picked :: local_item where
  "ex_picked = \<lparr>lc_path = ''/home/me/a.txt'', lc_display_name = ''a.txt'', lc_size = 3, lc_modified = None,
     lc_identity = \<lparr>li_size = 3, li_modified = None, li_object_id = \<lparr>lo_storage_id = 1, lo_file_id = 7\<rparr>\<rparr>, lc_handle = 8\<rparr>"

lemma ex_picked_name: "validate_child_name ''a'' = Ok ()"
  by (simp add: validate_child_name_def)

theorem local_selection_bounded_witness:
  "fm_len (la_grants (snd (choose_upload_files (\<lambda>_. Some ''a'') (\<lambda>_ _. Ok ex_picked) ex_scope (Some [''/home/me/a''])
     (LocalGrantId 5) [] 20 (fold grant_step [GRevokeAll] local_access_default)))) \<le> 64"
proof -
  let ?c = "choose_upload_files (\<lambda>_. Some ''a'') (\<lambda>_ _. Ok ex_picked) ex_scope (Some [''/home/me/a''])
     (LocalGrantId 5) [] 20 (fold grant_step [GRevokeAll] local_access_default)"
  have "\<exists>g. fst ?c = Ok (Some g)"
    by (simp add: choose_upload_files_def selected_file_def ex_picked_name FILE_CAP_def grant_insert_def
        grants_revoke_all_def local_access_default_def GRANT_CAP_def Let_def)
  then obtain g where g: "?c = (Ok (Some g), snd ?c)" by (metis prod.collapse)
  have "enabled_run grant_enabled grant_step [GRevokeAll] local_access_default" by (simp add: grant_enabled_def)
  from local_selection_bounded [OF this g] show ?thesis by blast
qed

end
