(* ===== verification/Operation_Engine.thy ===== *)
theory Operation_Engine
  imports Nexus_Model
begin

text \<open>
  \<^verbatim>\<open>crates/nexus-operations/src/{command,engine}.rs\<close>: the fixed read-only commands and the engine
  that plans, validates, executes and verifies them. The remote session is a trait; its behaviour
  is an argument.
\<close>

section \<open>Commands\<close>

datatype read_only_command =
    CmdHostname
  | CmdOsRelease
  | CmdKernel
  | CmdArchitecture
  | CmdUptime
  | CmdLoadAverage
  | CmdMemory
  | CmdRootFilesystem
  | CmdCpuStat
  | CmdNetworkDevices
  | CmdNetworkAddresses
  | CmdNetworkRoutesV4
  | CmdNetworkRoutesV6
  | CmdListeningPorts
  | CmdDnsConfiguration
  | CmdSystemServices
  | CmdSystemJournal
  | CmdDockerContainers

fun command_text :: "read_only_command \<Rightarrow> string" where
  "command_text CmdHostname = ''uname -n''"
| "command_text CmdOsRelease = ''cat /etc/os-release''"
| "command_text CmdKernel = ''uname -r''"
| "command_text CmdArchitecture = ''uname -m''"
| "command_text CmdUptime = ''cat /proc/uptime''"
| "command_text CmdLoadAverage = ''cat /proc/loadavg''"
| "command_text CmdMemory = ''cat /proc/meminfo''"
| "command_text CmdRootFilesystem = ''LC_ALL=C df -Pk /''"
| "command_text CmdCpuStat = ''cat /proc/stat''"
| "command_text CmdNetworkDevices = ''cat /proc/net/dev''"
| "command_text CmdNetworkAddresses = ''LC_ALL=C ip -j address show''"
| "command_text CmdNetworkRoutesV4 = ''LC_ALL=C ip -j -4 route show table main''"
| "command_text CmdNetworkRoutesV6 = ''LC_ALL=C ip -j -6 route show table main''"
| "command_text CmdListeningPorts = ''LC_ALL=C ss -H -lntu''"
| "command_text CmdDnsConfiguration = ''LC_ALL=C cat /etc/resolv.conf''"
| "command_text CmdSystemServices =
       ''LC_ALL=C SYSTEMD_COLORS=0 SYSTEMD_URLIFY=0 systemctl --system --no-pager ''
       @ ''--all --type=service --property=Id --property=LoadState ''
       @ ''--property=ActiveState --property=SubState --property=CanStart ''
       @ ''--property=CanReload --property=Description show''"
| "command_text CmdSystemJournal =
       ''LC_ALL=C SYSTEMD_COLORS=0 SYSTEMD_URLIFY=0 journalctl --system --no-pager ''
       @ ''--quiet --boot=0 --reverse --lines=10 --output=json ''
       @ ''--output-fields=MESSAGE,PRIORITY,_SYSTEMD_UNIT,SYSLOG_IDENTIFIER''"
| "command_text CmdDockerContainers =
       ''LC_ALL=C docker --host unix:///var/run/docker.sock container ls --last 64 --no-trunc --format ''
       @ [CHR 0x27] @ ''{'' @ [CHR 0x22] @ ''id'' @ [CHR 0x22] @ '':{{json .ID}},'' @ [CHR 0x22]
       @ ''image'' @ [CHR 0x22] @ '':{{json .Image}},'' @ [CHR 0x22] @ ''name'' @ [CHR 0x22]
       @ '':{{json .Names}},'' @ [CHR 0x22] @ ''state'' @ [CHR 0x22] @ '':{{json .State}},''
       @ [CHR 0x22] @ ''status'' @ [CHR 0x22] @ '':{{json .Status}},'' @ [CHR 0x22] @ ''ports''
       @ [CHR 0x22] @ '':{{json .Ports}},'' @ [CHR 0x22] @ ''networks'' @ [CHR 0x22]
       @ '':{{json .Networks}}}'' @ [CHR 0x27]"

fun command_kind :: "read_only_command \<Rightarrow> string" where
  "command_kind CmdHostname = ''discovery.hostname''"
| "command_kind CmdOsRelease = ''discovery.os_release''"
| "command_kind CmdKernel = ''discovery.kernel''"
| "command_kind CmdArchitecture = ''discovery.architecture''"
| "command_kind CmdUptime = ''discovery.uptime''"
| "command_kind CmdLoadAverage = ''discovery.load''"
| "command_kind CmdMemory = ''discovery.memory''"
| "command_kind CmdRootFilesystem = ''discovery.root_filesystem''"
| "command_kind CmdCpuStat = ''monitor.cpu''"
| "command_kind CmdNetworkDevices = ''monitor.network''"
| "command_kind CmdNetworkAddresses = ''network.list''"
| "command_kind CmdNetworkRoutesV4 = ''network.routes_v4''"
| "command_kind CmdNetworkRoutesV6 = ''network.routes_v6''"
| "command_kind CmdListeningPorts = ''network.listening_ports''"
| "command_kind CmdDnsConfiguration = ''network.dns_configuration''"
| "command_kind CmdSystemServices = ''services.list''"
| "command_kind CmdSystemJournal = ''logs.list''"
| "command_kind CmdDockerContainers = ''containers.list''"

text \<open>\<open>operation\<close> draws a UUID for the identifier; \<open>uid\<close> is its text.\<close>

definition command_operation :: "string \<Rightarrow> read_only_command \<Rightarrow> operation" where
  "command_operation uid c = \<lparr>op_id = uid, op_kind = command_kind c, op_risk = ReadOnly\<rparr>"

section \<open>Engine\<close>

record operation_plan =
  pl_operation :: operation
  pl_command :: read_only_command

datatype rollback_status = NotRequired

record operation_engine =
  oe_timeout :: nat
  oe_max_output_bytes :: nat

definition operation_engine_default :: operation_engine where
  "operation_engine_default = \<lparr>oe_timeout = from_secs 8, oe_max_output_bytes = 64 * 1024\<rparr>"

definition engine_plan :: "string \<Rightarrow> read_only_command \<Rightarrow> operation_plan" where
  "engine_plan uid c = \<lparr>pl_operation = command_operation uid c, pl_command = c\<rparr>"

definition engine_validate :: "operation_plan \<Rightarrow> unit app_result" where
  "engine_validate p =
     (if op_risk (pl_operation p) \<noteq> ReadOnly \<or> op_kind (pl_operation p) \<noteq> command_kind (pl_command p)
      then Err (AppError_new Policy ''Only approved read-only discovery operations are available.'')
      else Ok ())"

definition engine_verify :: "operation_engine \<Rightarrow> operation_plan \<Rightarrow> string \<Rightarrow> unit app_result" where
  "engine_verify e p output =
     and_then (engine_validate p) (\<lambda>_.
       if length output > oe_max_output_bytes e \<or> CHR 0x00 \<in> set output
       then Err (AppError_new Discovery ''The remote command returned invalid or oversized discovery data.'')
       else Ok ())"

definition engine_rollback :: "operation_plan \<Rightarrow> rollback_status app_result" where
  "engine_rollback p = and_then (engine_validate p) (\<lambda>_. Ok NotRequired)"

definition engine_cancelled :: app_error where
  "engine_cancelled = AppError_new Cancelled ''The operation was cancelled.''"

text \<open>
  When the caller's token is cancelled: never, before the call, after the first check but before
  the biased \<open>select!\<close> polls the session, or while the session works.
\<close>

datatype cancel_point = NeverCancelled | CancelledBefore | CancelledAtSelect | CancelledWhileRunning

text \<open>
  The answer of \<open>session.execute\<close> is its result and the time it takes; the engine gives up after
  its timeout. The second component of the result is what was sent to the session.
\<close>

definition engine_execute ::
  "operation_engine \<Rightarrow> bool \<Rightarrow> (read_only_command \<Rightarrow> string app_result \<times> nat) \<Rightarrow> cancel_point \<Rightarrow>
   operation_plan \<Rightarrow> string app_result \<times> read_only_command list" where
  "engine_execute e closed session cancel p =
     (case engine_validate p of
        Err x \<Rightarrow> (Err x, [])
      | Ok _ \<Rightarrow>
          if cancel = CancelledBefore then (Err engine_cancelled, [])
          else if closed then (Err (AppError_new Connection ''The connection is closed.''), [])
          else if cancel = CancelledAtSelect then (Err engine_cancelled, [])
          else if cancel = CancelledWhileRunning then (Err engine_cancelled, [pl_command p])
          else (case session (pl_command p) of
                  (answer, elapsed) \<Rightarrow>
                    (if elapsed > oe_timeout e
                     then Err (AppError_new Timeout ''The discovery operation timed out.'')
                     else and_then answer (\<lambda>output.
                            and_then (engine_verify e p output) (\<lambda>_. Ok output)),
                     [pl_command p])))"

section \<open>Lemmas\<close>

lemma engine_validate_Ok [simp]:
  "engine_validate p = Ok u \<longleftrightarrow>
   op_risk (pl_operation p) = ReadOnly \<and> op_kind (pl_operation p) = command_kind (pl_command p)"
  by (auto simp: engine_validate_def)

lemma engine_plan_valid: "engine_validate (engine_plan uid c) = Ok ()"
  by (simp add: engine_plan_def command_operation_def)

text \<open>Bytes with which a shell would start a further command, redirect or substitute.\<close>

definition shell_active :: "char \<Rightarrow> bool" where
  "shell_active c = (c \<in> {CHR '';'', CHR ''&'', CHR ''|'', CHR 0x60, CHR ''$'', CHR ''<'', CHR ''>'',
     CHR ''('', CHR 0x5C, CHR 0x0A, CHR 0x0D, CHR 0x00})"

lemma command_text_inert: "list_all (\<lambda>x. \<not> shell_active x) (command_text c)"
  by (cases c) (simp_all add: shell_active_def)

lemma command_kind_inj: "command_kind c = command_kind d \<Longrightarrow> c = d"
  by (cases c; cases d; simp)

section \<open>Properties\<close>

text \<open>
  C40: Only reviewed read-only commands reach a host. Whatever plan metadata the engine is given, the
  session sees at most one command, namely the plan's own, and only if the plan declares the
  read-only risk and the kind of that very command; its shell text has no byte that could chain,
  redirect or substitute commands. An output is returned only if the session produced it in time
  and it is bounded and free of NUL.
\<close>

theorem engine_execute_reviewed:
  assumes "engine_execute e closed session cancel p = (r, sent)"
  shows "(sent = [] \<or> (sent = [pl_command p] \<and> op_risk (pl_operation p) = ReadOnly
            \<and> op_kind (pl_operation p) = command_kind (pl_command p) \<and> \<not> closed
            \<and> list_all (\<lambda>x. \<not> shell_active x) (command_text (pl_command p))))
       \<and> (\<forall>out. r = Ok out \<longrightarrow>
            (\<exists>t. session (pl_command p) = (Ok out, t) \<and> t \<le> oe_timeout e)
            \<and> length out \<le> oe_max_output_bytes e \<and> CHR 0x00 \<notin> set out \<and> cancel = NeverCancelled)"
proof -
  have "cancel = NeverCancelled" if "cancel \<noteq> CancelledBefore" "cancel \<noteq> CancelledAtSelect"
      "cancel \<noteq> CancelledWhileRunning"
    using that by (cases cancel) auto
  then show ?thesis
    using assms
    by (auto simp: engine_execute_def engine_verify_def and_then_Ok_iff command_text_inert
        split: result.splits if_splits prod.splits)
qed

theorem engine_execute_reviewed_witness:
  "\<exists>t. (\<lambda>c. (Ok ''web-1'', 5)) CmdHostname = (Ok ''web-1'' :: string app_result, t :: nat)
     \<and> t \<le> oe_timeout operation_engine_default"
proof -
  have "engine_execute operation_engine_default False (\<lambda>c. (Ok ''web-1'', 5)) NeverCancelled
      (engine_plan ''u'' CmdHostname) = (Ok ''web-1'', [CmdHostname])"
    by (simp add: engine_execute_def engine_verify_def engine_plan_valid operation_engine_default_def
        from_secs_def engine_plan_def command_operation_def engine_validate_def)
  from engine_execute_reviewed [OF this] show ?thesis by (simp add: engine_plan_def)
qed

end
