(* ===== verification/Service_Observations.thy ===== *)
theory Service_Observations
  imports Authority_Store
begin

text \<open>
  \<^verbatim>\<open>crates/nexus-core/src/service_observations.rs\<close>: the store of actionable service observations.
  A service listing is published as a set of opaque observation identifiers; planning a mutation
  starts by resolving one of them.
\<close>

section \<open>Data\<close>

definition SERVICE_OBSERVATION_TTL :: nat where
  "SERVICE_OBSERVATION_TTL = from_secs 120"

definition MAX_HOST_SETS :: nat where
  "MAX_HOST_SETS = 64"

definition MAX_ACTIONABLE_GLOBAL :: nat where
  "MAX_ACTIONABLE_GLOBAL = 4096"

text \<open>The precondition structs have no fields; an observation is its unit name.\<close>

datatype actionable_observation =
    ResetFailedObservation service_unit_name
  | TryRestartObservation service_unit_name
  | ReloadObservation service_unit_name
  | StartObservation service_unit_name

record observation_set =
  os_binding :: authority_binding
  os_issued_at :: instant
  os_expires_at :: instant
  os_entries :: "(service_observation_id, actionable_observation) fmap"

record observation_state =
  ob_sets :: "(host_id, observation_set) fmap"
  ob_newest_request :: "(host_id, u64) fmap"
  ob_sealed :: bool
  ob_poisoned :: bool

definition observation_state_default :: observation_state where
  "observation_state_default =
     \<lparr>ob_sets = fmempty, ob_newest_request = fmempty, ob_sealed = False, ob_poisoned = False\<rparr>"

definition observation_stale :: app_error where
  "observation_stale = AppError_new Conflict
     ''The service observation is stale; refresh services and try again.''"

definition observation_shutting_down :: app_error where
  "observation_shutting_down = AppError_new Conflict
     ''NexusOps is shutting down; service observations are unavailable.''"

definition observation_unavailable :: app_error where
  "observation_unavailable = AppError_new Conflict ''Service observation authority is unavailable.''"

section \<open>Operations\<close>

definition next_request :: "host_id \<Rightarrow> observation_state \<Rightarrow> u64" where
  "next_request h s =
     saturating_succ (case fmlookup (ob_newest_request s) h of None \<Rightarrow> 0 | Some n \<Rightarrow> n)"

definition begin_request :: "host_id \<Rightarrow> observation_state \<Rightarrow> u64 app_result \<times> observation_state" where
  "begin_request h s =
     (if ob_poisoned s then (Err observation_unavailable, s)
      else if ob_sealed s then (Err observation_shutting_down, s)
      else let q = next_request h s
           in (Ok q, s\<lparr>ob_newest_request := fmupd h q (ob_newest_request s)\<rparr>))"

definition actionable_count :: "(host_id, observation_set) fmap \<Rightarrow> nat" where
  "actionable_count sets = fm_sum (\<lambda>oset. fm_len (os_entries oset)) sets"

definition remove_expired_sets :: "instant \<Rightarrow> observation_state \<Rightarrow> observation_state" where
  "remove_expired_sets now s = s\<lparr>ob_sets := fm_retain (\<lambda>_ oset. os_expires_at oset > now) (ob_sets s)\<rparr>"

text \<open>
  One of the four blocks of the publication loop: if the entry is in the state the operation
  needs, draw the next identifier and store the observation under it. \<open>new_id k\<close> is the \<open>k\<close>-th
  identifier drawn.
\<close>

definition issue_observation ::
  "(nat \<Rightarrow> service_observation_id) \<Rightarrow> bool \<Rightarrow> actionable_observation \<Rightarrow>
   nat \<times> (service_observation_id, actionable_observation) fmap \<Rightarrow>
   service_observation_id option \<times> nat \<times> (service_observation_id, actionable_observation) fmap" where
  "issue_observation new_id matches_state obs km =
     (if matches_state then (Some (new_id (fst km)), Suc (fst km), fmupd (new_id (fst km)) obs (snd km))
      else (None, km))"

definition observe_entry ::
  "(nat \<Rightarrow> service_observation_id) \<Rightarrow> service_entry \<Rightarrow>
   nat \<times> (service_observation_id, actionable_observation) fmap \<Rightarrow>
   service_entry \<times> nat \<times> (service_observation_id, actionable_observation) fmap" where
  "observe_entry new_id e km =
     (case parse_unit (se_unit e) of
        Err _ \<Rightarrow> (e\<lparr>se_reset_failed_id := None, se_try_restart_id := None, se_reload_id := None,
                   se_start_id := None\<rparr>, km)
      | Ok u \<Rightarrow>
          let (i1, km1) = issue_observation new_id
                (reset_failed_matches (se_load_state e) (se_active_state e) (se_sub_state e))
                (ResetFailedObservation u) km;
              (i2, km2) = issue_observation new_id
                (try_restart_matches (se_load_state e) (se_active_state e) (se_sub_state e))
                (TryRestartObservation u) km1;
              (i3, km3) = issue_observation new_id
                (reload_matches (se_load_state e) (se_active_state e) (se_sub_state e) (se_can_reload e))
                (ReloadObservation u) km2;
              (i4, km4) = issue_observation new_id
                (start_matches (se_load_state e) (se_active_state e) (se_sub_state e) (se_can_start e))
                (StartObservation u) km3
          in (e\<lparr>se_reset_failed_id := i1, se_try_restart_id := i2, se_reload_id := i3,
                se_start_id := i4\<rparr>, km4))"

fun observe_entries ::
  "(nat \<Rightarrow> service_observation_id) \<Rightarrow> service_entry list \<Rightarrow>
   nat \<times> (service_observation_id, actionable_observation) fmap \<Rightarrow>
   service_entry list \<times> nat \<times> (service_observation_id, actionable_observation) fmap" where
  "observe_entries new_id [] km = ([], km)"
| "observe_entries new_id (e # es) km =
     (let (e', km1) = observe_entry new_id e km;
          (es', km2) = observe_entries new_id es km1
      in (e' # es', km2))"

text \<open>
  \<open>sets.iter().min_by_key(issued_at)\<close>: the first minimum in the iteration order of the map, which
  the standard library leaves open; \<open>order\<close> lists the hosts in that order.
\<close>

fun oldest_of :: "(host_id, observation_set) fmap \<Rightarrow> host_id list \<Rightarrow> (host_id \<times> instant) option" where
  "oldest_of sets [] = None"
| "oldest_of sets (h # hs) =
     (case fmlookup sets h of
        None \<Rightarrow> oldest_of sets hs
      | Some oset \<Rightarrow>
          (case oldest_of sets hs of
             None \<Rightarrow> Some (h, os_issued_at oset)
           | Some (h', t') \<Rightarrow> if os_issued_at oset \<le> t' then Some (h, os_issued_at oset) else Some (h', t')))"

lemma oldest_of_member: "oldest_of sets hs = Some (h, t) \<Longrightarrow> fmlookup sets h \<noteq> None"
  by (induction hs arbitrary: h t) (auto split: option.splits if_splits)

lemma oldest_of_drop:
  assumes "oldest_of sets hs = Some (h, t)"
  shows "fm_len (fmdrop h sets) < fm_len sets"
proof -
  have "fmlookup sets h \<noteq> None" using assms by (rule oldest_of_member)
  moreover from this have "fm_len sets \<noteq> 0" by (auto simp: fm_len_eq_0_iff)
  ultimately show ?thesis by (simp add: fm_len_drop)
qed

definition usize_saturating_add :: "nat \<Rightarrow> nat \<Rightarrow> nat" where
  "usize_saturating_add a b = min (a + b) (2 ^ 64 - 1)"

definition over_capacity :: "nat \<Rightarrow> (host_id, observation_set) fmap \<Rightarrow> bool" where
  "over_capacity n sets =
     (fm_len sets \<ge> MAX_HOST_SETS
      \<or> usize_saturating_add (actionable_count sets) n > MAX_ACTIONABLE_GLOBAL)"

function evict :: "host_id list \<Rightarrow> nat \<Rightarrow> (host_id, observation_set) fmap \<Rightarrow> (host_id, observation_set) fmap" where
  "evict order n sets =
     (if over_capacity n sets
      then (case oldest_of sets order of
              None \<Rightarrow> sets
            | Some (h, _) \<Rightarrow> evict order n (fmdrop h sets))
      else sets)"
  by pat_completeness auto
termination
  by (relation "measure (\<lambda>(order, n, sets). fm_len sets)") (auto dest: oldest_of_drop)

declare evict.simps [simp del]

definition publish ::
  "authority_binding \<Rightarrow> u64 \<Rightarrow> service_snapshot \<Rightarrow> (nat \<Rightarrow> service_observation_id) \<Rightarrow> host_id list \<Rightarrow>
   instant \<Rightarrow> observation_state \<Rightarrow> unit app_result \<times> service_snapshot \<times> observation_state" where
  "publish b q snap new_id order now s =
     (if ss_host_id snap \<noteq> ab_host_id b \<or> ss_host_session_id snap \<noteq> ab_host_session_id b
         \<or> length (ss_entries snap) > 512
      then (Err observation_stale, snap, s)
      else if ob_poisoned s then (Err observation_unavailable, snap, s)
      else if ob_sealed s \<or> fmlookup (ob_newest_request s) (ab_host_id b) \<noteq> Some q
      then (Err observation_stale, snap, s)
      else
        let s1 = remove_expired_sets now s;
            s2 = s1\<lparr>ob_sets := fmdrop (ab_host_id b) (ob_sets s1)\<rparr>;
            (entries', k, m) = observe_entries new_id (ss_entries snap) (0, fmempty);
            sets = evict order (fm_len m) (ob_sets s2);
            oset = \<lparr>os_binding = b, os_issued_at = now,
                   os_expires_at = now + SERVICE_OBSERVATION_TTL, os_entries = m\<rparr>
        in (Ok (), snap\<lparr>ss_entries := entries'\<rparr>, s2\<lparr>ob_sets := fmupd (ab_host_id b) oset sets\<rparr>))"

definition resolve ::
  "service_observation_id \<Rightarrow> authority_binding \<Rightarrow> instant \<Rightarrow> observation_state \<Rightarrow>
   actionable_observation app_result \<times> observation_state" where
  "resolve i expected now s =
     (if ob_poisoned s then (Err observation_unavailable, s)
      else let s1 = remove_expired_sets now s
           in (case fmlookup (ob_sets s1) (ab_host_id expected) of
                 None \<Rightarrow> (Err observation_stale, s1)
               | Some oset \<Rightarrow>
                   if os_binding oset \<noteq> expected then (Err observation_stale, s1)
                   else (ok_or (fmlookup (os_entries oset) i) observation_stale, s1)))"

fun as_reset_failed :: "actionable_observation \<Rightarrow> service_unit_name app_result" where
  "as_reset_failed (ResetFailedObservation u) = Ok u"
| "as_reset_failed _ = Err observation_stale"

fun as_try_restart :: "actionable_observation \<Rightarrow> service_unit_name app_result" where
  "as_try_restart (TryRestartObservation u) = Ok u"
| "as_try_restart _ = Err observation_stale"

fun as_reload :: "actionable_observation \<Rightarrow> service_unit_name app_result" where
  "as_reload (ReloadObservation u) = Ok u"
| "as_reload _ = Err observation_stale"

fun as_start :: "actionable_observation \<Rightarrow> service_unit_name app_result" where
  "as_start (StartObservation u) = Ok u"
| "as_start _ = Err observation_stale"

definition resolve_reset_failed ::
  "service_observation_id \<Rightarrow> authority_binding \<Rightarrow> instant \<Rightarrow> observation_state \<Rightarrow>
   service_unit_name app_result \<times> observation_state" where
  "resolve_reset_failed i b now s = apfst (\<lambda>r. and_then r as_reset_failed) (resolve i b now s)"

definition resolve_try_restart ::
  "service_observation_id \<Rightarrow> authority_binding \<Rightarrow> instant \<Rightarrow> observation_state \<Rightarrow>
   service_unit_name app_result \<times> observation_state" where
  "resolve_try_restart i b now s = apfst (\<lambda>r. and_then r as_try_restart) (resolve i b now s)"

definition resolve_reload ::
  "service_observation_id \<Rightarrow> authority_binding \<Rightarrow> instant \<Rightarrow> observation_state \<Rightarrow>
   service_unit_name app_result \<times> observation_state" where
  "resolve_reload i b now s = apfst (\<lambda>r. and_then r as_reload) (resolve i b now s)"

definition resolve_start ::
  "service_observation_id \<Rightarrow> authority_binding \<Rightarrow> instant \<Rightarrow> observation_state \<Rightarrow>
   service_unit_name app_result \<times> observation_state" where
  "resolve_start i b now s = apfst (\<lambda>r. and_then r as_start) (resolve i b now s)"

definition observation_revoke_host :: "host_id \<Rightarrow> observation_state \<Rightarrow> unit app_result \<times> observation_state" where
  "observation_revoke_host h s =
     (if ob_poisoned s then (Err observation_unavailable, s)
      else let s1 = s\<lparr>ob_sets := fmdrop h (ob_sets s)\<rparr>
           in (Ok (), s1\<lparr>ob_newest_request := fmupd h (next_request h s1) (ob_newest_request s1)\<rparr>))"

definition observation_revoke_session ::
  "host_id \<Rightarrow> host_session_id \<Rightarrow> observation_state \<Rightarrow> unit app_result \<times> observation_state" where
  "observation_revoke_session h hs s =
     (if ob_poisoned s then (Err observation_unavailable, s)
      else let s1 = (case fmlookup (ob_sets s) h of
                       None \<Rightarrow> s
                     | Some oset \<Rightarrow> if ab_host_session_id (os_binding oset) = hs
                                  then s\<lparr>ob_sets := fmdrop h (ob_sets s)\<rparr> else s)
           in (Ok (), s1\<lparr>ob_newest_request := fmupd h (next_request h s1) (ob_newest_request s1)\<rparr>))"

definition observation_seal :: "observation_state \<Rightarrow> unit app_result \<times> observation_state" where
  "observation_seal s =
     (if ob_poisoned s then (Err observation_unavailable, s)
      else (Ok (), s\<lparr>ob_sealed := True, ob_sets := fmempty, ob_newest_request := fmempty\<rparr>))"

datatype observation_event =
    OBegin host_id
  | OPublish authority_binding u64 service_snapshot "nat \<Rightarrow> service_observation_id" "host_id list" instant
  | OResolve service_observation_id authority_binding instant
  | ORevokeHost host_id
  | ORevokeSession host_id host_session_id
  | OSeal

fun observation_step :: "observation_event \<Rightarrow> observation_state \<Rightarrow> observation_state" where
  "observation_step (OBegin h) s = snd (begin_request h s)"
| "observation_step (OPublish b q snap new_id order now) s = snd (snd (publish b q snap new_id order now s))"
| "observation_step (OResolve i b now) s = snd (resolve i b now s)"
| "observation_step (ORevokeHost h) s = snd (observation_revoke_host h s)"
| "observation_step (ORevokeSession h hs) s = snd (observation_revoke_session h hs s)"
| "observation_step OSeal s = snd (observation_seal s)"

text \<open>The iteration order of a map visits every key it holds.\<close>

fun observation_enabled :: "observation_event \<Rightarrow> observation_state \<Rightarrow> bool" where
  "observation_enabled (OPublish b q snap new_id order now) s = (fmdom' (ob_sets s) \<subseteq> set order)"
| "observation_enabled _ s = True"

definition observation_inv :: "observation_state \<Rightarrow> bool" where
  "observation_inv s =
     (fm_len (ob_sets s) \<le> MAX_HOST_SETS
      \<and> actionable_count (ob_sets s) \<le> MAX_ACTIONABLE_GLOBAL
      \<and> (\<forall>h oset. fmlookup (ob_sets s) h = Some oset \<longrightarrow>
           ab_host_id (os_binding oset) = h
           \<and> os_expires_at oset = os_issued_at oset + SERVICE_OBSERVATION_TTL)
      \<and> (ob_sealed s \<longrightarrow> ob_sets s = fmempty))"

section \<open>Counting\<close>

lemmas [store_defs] = begin_request_def resolve_def observation_revoke_host_def
  observation_revoke_session_def observation_seal_def remove_expired_sets_def

lemma observe_entry_size:
  assumes "observe_entry new_id e (k, m) = (e', k', m')"
  shows "fm_len m' \<le> fm_len m + 4"
proof (cases "parse_unit (se_unit e)")
  case (Ok u)
  have step: "fm_len (snd (snd (issue_observation new_id P obs km))) \<le> Suc (fm_len (snd km))" for P obs km
    by (simp add: issue_observation_def fm_len_upd)
  have "fm_len (snd (snd (observe_entry new_id e (k, m)))) \<le> Suc (Suc (Suc (Suc (fm_len (snd (k, m))))))"
    using Ok unfolding observe_entry_def
    by (simp only: result.case Let_def case_prod_beta prod.sel)
      (intro order.trans [OF step] Suc_le_mono [THEN iffD2], simp)
  with assms show ?thesis by simp
next
  case (Err x)
  with assms show ?thesis by (simp add: observe_entry_def)
qed

lemma observe_entries_size:
  "observe_entries new_id es (k, m) = (es', k', m') \<Longrightarrow> fm_len m' \<le> fm_len m + 4 * length es"
proof (induction es arbitrary: k m es' k' m')
  case (Cons e es)
  then obtain e1 k1 m1 es1 where
    "observe_entry new_id e (k, m) = (e1, k1, m1)" "observe_entries new_id es (k1, m1) = (es1, k', m')"
    by (auto simp: Let_def split: prod.splits)
  with Cons.IH [of k1 m1 es1 k' m'] observe_entry_size [of new_id e k m e1 k1 m1] show ?case
    by simp
qed simp

lemma evict_subset:
  "fmlookup (evict order n sets) h = Some x \<Longrightarrow> fmlookup sets h = Some x"
proof (induction order n sets rule: evict.induct)
  case (1 order n sets)
  show ?case
  proof (cases "over_capacity n sets \<and> oldest_of sets order \<noteq> None")
    case True
    then obtain h0 t where o: "over_capacity n sets" "oldest_of sets order = Some (h0, t)"
      by auto
    with 1(2) have "fmlookup (evict order n (fmdrop h0 sets)) h = Some x"
      by (simp add: evict.simps [of order n sets])
    with 1(1) [OF o refl] have "fmlookup (fmdrop h0 sets) h = Some x" by simp
    then show ?thesis by (simp split: if_splits)
  next
    case False
    then have "evict order n sets = sets" by (subst evict.simps) (auto split: option.split)
    with 1(2) show ?thesis by simp
  qed
qed

lemma oldest_of_None: "oldest_of sets hs = None \<Longrightarrow> h \<in> set hs \<Longrightarrow> fmlookup sets h = None"
  by (induction hs) (auto split: option.splits if_splits)

lemma oldest_of_total:
  assumes "fmdom' sets \<subseteq> set order" "oldest_of sets order = None"
  shows "sets = fmempty"
proof (rule fmap_ext)
  fix h
  show "fmlookup sets h = fmlookup fmempty h"
    using assms oldest_of_None [OF assms(2), of h] by (cases "fmlookup sets h") (auto intro: fmdom'I)
qed

lemma evict_capacity:
  assumes "fmdom' sets \<subseteq> set order" "n \<le> MAX_ACTIONABLE_GLOBAL"
  shows "\<not> over_capacity n (evict order n sets)"
  using assms
proof (induction order n sets rule: evict.induct)
  case (1 order n sets)
  show ?case
  proof (cases "over_capacity n sets")
    case True
    show ?thesis
    proof (cases "oldest_of sets order")
      case None
      with 1 have "sets = fmempty" by (simp add: oldest_of_total)
      with True 1(3) show ?thesis
        by (simp add: over_capacity_def actionable_count_def usize_saturating_add_def MAX_HOST_SETS_def
            MAX_ACTIONABLE_GLOBAL_def)
    next
      case (Some p)
      then obtain h t where o: "oldest_of sets order = Some (h, t)" by (cases p) auto
      have "fmdom' (fmdrop h sets) \<subseteq> set order" using 1(2) by auto
      with 1(1) [OF True o refl] 1(3) True o show ?thesis
        by (simp add: evict.simps [of order n sets])
    qed
  qed (simp add: evict.simps [of order n sets])
qed

section \<open>Invariant\<close>

lemma actionable_count_upd:
  "actionable_count (fmupd h x sets) = fm_len (os_entries x) + actionable_count (fmdrop h sets)"
  by (simp add: actionable_count_def fm_sum_upd)

lemma fm_sum_retain_le: "fm_sum f (fm_retain P m) \<le> fm_sum f m"
proof -
  have "fm_sum f (fm_retain P m) \<le>
      (\<Sum>k\<in>fmdom' (fm_retain P m). case fmlookup m k of None \<Rightarrow> 0 | Some v \<Rightarrow> f v)"
    unfolding fm_sum_def by (rule sum_mono) (auto simp: fmlookup_retain split: option.splits)
  also have "\<dots> \<le> fm_sum f m"
    unfolding fm_sum_def by (rule sum_mono2) (auto simp: fm_retain_def)
  finally show ?thesis .
qed

lemma observation_invD:
  "observation_inv s \<Longrightarrow> fmlookup (ob_sets s) h = Some x \<Longrightarrow>
   ab_host_id (os_binding x) = h \<and> os_expires_at x = os_issued_at x + SERVICE_OBSERVATION_TTL"
  by (simp add: observation_inv_def)

lemma observation_inv_shrink:
  assumes "observation_inv s"
    and "\<And>h x. fmlookup (ob_sets s') h = Some x \<Longrightarrow> fmlookup (ob_sets s) h = Some x"
    and "fm_len (ob_sets s') \<le> fm_len (ob_sets s)"
    and "actionable_count (ob_sets s') \<le> actionable_count (ob_sets s)"
    and "ob_sealed s' \<longrightarrow> ob_sealed s \<or> ob_sets s' = fmempty"
  shows "observation_inv s'"
proof -
  have "ob_sets s' = fmempty" if "ob_sealed s'"
    using assms(1,2,5) that
    by (auto simp: observation_inv_def intro!: fmap_ext) (metis fmempty_lookup not_None_eq)
  with assms show ?thesis unfolding observation_inv_def by (meson le_trans)
qed

lemma observation_inv_expire: "observation_inv s \<Longrightarrow> observation_inv (remove_expired_sets now s)"
  by (rule observation_inv_shrink [of s])
    (auto simp: remove_expired_sets_def fm_len_retain_le actionable_count_def fm_sum_retain_le)

lemma observation_inv_drop: "observation_inv s \<Longrightarrow> observation_inv (s\<lparr>ob_sets := fmdrop h (ob_sets s)\<rparr>)"
  by (rule observation_inv_shrink [of s])
    (auto simp: fm_len_drop_le actionable_count_def fm_sum_drop_le split: if_splits)

lemma observation_inv_newest [simp]: "observation_inv (s\<lparr>ob_newest_request := x\<rparr>) = observation_inv s"
  by (simp add: observation_inv_def)

lemma publish_Ok_cases:
  assumes "publish b q snap new_id order now s = (Ok u, snap', s')"
  obtains es k m where "observe_entries new_id (ss_entries snap) (0, fmempty) = (es, k, m)"
    "length (ss_entries snap) \<le> 512" "\<not> ob_sealed s" "\<not> ob_poisoned s"
    "fmlookup (ob_newest_request s) (ab_host_id b) = Some q"
    "ss_host_id snap = ab_host_id b" "ss_host_session_id snap = ab_host_session_id b"
    "snap' = snap\<lparr>ss_entries := es\<rparr>"
    "s' = s\<lparr>ob_sets := fmupd (ab_host_id b)
           \<lparr>os_binding = b, os_issued_at = now, os_expires_at = now + SERVICE_OBSERVATION_TTL,
            os_entries = m\<rparr>
           (evict order (fm_len m) (fmdrop (ab_host_id b) (ob_sets (remove_expired_sets now s))))\<rparr>"
  using assms
  by (auto simp: publish_def Let_def remove_expired_sets_def split: if_splits prod.splits)

lemma publish_Err: "publish b q snap new_id order now s = (Err e, snap', s') \<Longrightarrow> s' = s \<and> snap' = snap"
  by (auto simp: publish_def Let_def split: if_splits prod.splits)

lemma publish_inv:
  assumes "observation_inv s" "fmdom' (ob_sets s) \<subseteq> set order"
    and "publish b q snap new_id order now s = (Ok u, snap', s')"
  shows "observation_inv s'"
  using assms(3)
proof (cases rule: publish_Ok_cases)
  case (1 es k m)
  let ?h = "ab_host_id b"
  let ?sets = "fmdrop ?h (ob_sets (remove_expired_sets now s))"
  let ?ev = "evict order (fm_len m) ?sets"
  have inv: "observation_inv (s\<lparr>ob_sets := ?sets\<rparr>)"
    using observation_inv_drop [OF observation_inv_expire [OF assms(1)], of ?h now]
    by (simp add: remove_expired_sets_def)
  have m: "fm_len m \<le> 2048" using observe_entries_size [OF 1(1)] 1(2) by simp
  have "fmdom' ?sets \<subseteq> set order"
    using assms(2) by (auto simp: remove_expired_sets_def fm_retain_def)
  with m have cap: "\<not> over_capacity (fm_len m) ?ev"
    by (intro evict_capacity) (simp_all add: MAX_ACTIONABLE_GLOBAL_def)
  have absent: "fmdrop ?h ?ev = ?ev"
    using evict_subset [of order "fm_len m" ?sets ?h] by (intro fmdrop_absent) (fastforce split: if_splits)
  have "fm_len (ob_sets s') \<le> MAX_HOST_SETS" "actionable_count (ob_sets s') \<le> MAX_ACTIONABLE_GLOBAL"
    using cap 1(9) fm_len_upd_le [of ?h _ ?ev] absent
    by (auto simp: over_capacity_def usize_saturating_add_def MAX_ACTIONABLE_GLOBAL_def MAX_HOST_SETS_def
        actionable_count_upd fm_len_upd)
  moreover have "ab_host_id (os_binding x) = h \<and> os_expires_at x = os_issued_at x + SERVICE_OBSERVATION_TTL"
    if "fmlookup (ob_sets s') h = Some x" for h x
  proof (cases "h = ?h")
    case True
    with that 1(9) show ?thesis by auto
  next
    case False
    with that 1(9) have "fmlookup ?ev h = Some x" by simp
    then have "fmlookup (ob_sets (s\<lparr>ob_sets := ?sets\<rparr>)) h = Some x"
      using evict_subset [of order "fm_len m" ?sets h x] by (simp del: fmlookup_drop)
    with inv show ?thesis by (rule observation_invD)
  qed
  ultimately show ?thesis
    using 1(3,9) by (simp add: observation_inv_def)
qed

lemma observation_step_inv:
  assumes "observation_inv s" "observation_enabled e s"
  shows "observation_inv (observation_step e s)"
proof (cases e)
  case (OPublish b q snap new_id order now)
  obtain r snap' s' where p: "publish b q snap new_id order now s = (r, snap', s')"
    by (cases "publish b q snap new_id order now s") auto
  show ?thesis
  proof (cases r)
    case (Ok u)
    with publish_inv [of s order b q snap new_id now u snap' s'] assms OPublish p show ?thesis by simp
  next
    case (Err x)
    with publish_Err [of b q snap new_id order now s x snap' s'] assms OPublish p show ?thesis by simp
  qed
next
  case (OResolve i b now)
  with assms show ?thesis
    by (auto simp: resolve_def Let_def observation_inv_expire split: option.split)
next
  case (ORevokeHost h)
  with assms observation_inv_drop [of s h] show ?thesis
    by (simp add: observation_revoke_host_def Let_def)
next
  case (ORevokeSession h hs)
  with assms observation_inv_drop [of s h] show ?thesis
    by (auto simp: observation_revoke_session_def Let_def split: option.split)
next
  case OSeal
  with assms show ?thesis
    by (auto simp: observation_seal_def observation_inv_def actionable_count_def)
qed (use assms in \<open>auto simp: begin_request_def Let_def\<close>)

interpretation observation_sets: bounded_store observation_enabled observation_step observation_inv
  "\<lambda>s. fm_len (ob_sets s)" MAX_HOST_SETS
  by unfold_locales (simp_all add: observation_step_inv, simp add: observation_inv_def)

interpretation observation_entries: bounded_store observation_enabled observation_step observation_inv
  "\<lambda>s. actionable_count (ob_sets s)" MAX_ACTIONABLE_GLOBAL
  by unfold_locales (simp add: observation_inv_def)

section \<open>What a publication offers\<close>

definition published :: "service_entry \<Rightarrow> service_observation_id \<Rightarrow> actionable_observation \<Rightarrow> bool" where
  "published e i obs =
     (\<exists>u. parse_unit (se_unit e) = Ok u \<and>
        ((obs = ResetFailedObservation u \<and> se_reset_failed_id e = Some i)
         \<or> (obs = TryRestartObservation u \<and> se_try_restart_id e = Some i)
         \<or> (obs = ReloadObservation u \<and> se_reload_id e = Some i)
         \<or> (obs = StartObservation u \<and> se_start_id e = Some i)))"

text \<open>An entry carries an identifier exactly for the operations its observed state admits.\<close>

definition entry_honest :: "service_entry \<Rightarrow> bool" where
  "entry_honest e =
     ((se_reset_failed_id e \<noteq> None \<longleftrightarrow> is_ok (parse_unit (se_unit e))
         \<and> reset_failed_matches (se_load_state e) (se_active_state e) (se_sub_state e))
      \<and> (se_try_restart_id e \<noteq> None \<longleftrightarrow> is_ok (parse_unit (se_unit e))
         \<and> try_restart_matches (se_load_state e) (se_active_state e) (se_sub_state e))
      \<and> (se_reload_id e \<noteq> None \<longleftrightarrow> is_ok (parse_unit (se_unit e))
         \<and> reload_matches (se_load_state e) (se_active_state e) (se_sub_state e) (se_can_reload e))
      \<and> (se_start_id e \<noteq> None \<longleftrightarrow> is_ok (parse_unit (se_unit e))
         \<and> start_matches (se_load_state e) (se_active_state e) (se_sub_state e) (se_can_start e)))"

definition drawn_upto ::
  "(nat \<Rightarrow> service_observation_id) \<Rightarrow> nat \<times> (service_observation_id, actionable_observation) fmap \<Rightarrow> bool" where
  "drawn_upto new_id km = (\<forall>i. fmlookup (snd km) i \<noteq> None \<longrightarrow> (\<exists>j<fst km. i = new_id j))"

lemma issue_observation_spec:
  assumes "inj_on new_id {..<N}" "fst km < N" "drawn_upto new_id km"
    and "issue_observation new_id P obs km = (i, km')"
  shows "drawn_upto new_id km'" "fst km' \<le> Suc (fst km)" "i \<noteq> None \<longleftrightarrow> P"
    "fmlookup (snd km') j = Some x \<longleftrightarrow> fmlookup (snd km) j = Some x \<or> (i = Some j \<and> x = obs)"
proof -
  have fresh: "fmlookup (snd km) (new_id (fst km)) = None"
    using assms(1-3) unfolding drawn_upto_def
    by (metis inj_onD lessThan_iff less_irrefl less_trans)
  show "drawn_upto new_id km'" "fst km' \<le> Suc (fst km)" "i \<noteq> None \<longleftrightarrow> P"
    using assms(3,4)
    by (fastforce simp: issue_observation_def drawn_upto_def less_Suc_eq split: if_splits)+
  show "fmlookup (snd km') j = Some x \<longleftrightarrow> fmlookup (snd km) j = Some x \<or> (i = Some j \<and> x = obs)"
    using assms(4) fresh by (auto simp: issue_observation_def split: if_splits)
qed

lemma observe_entry_spec:
  assumes "inj_on new_id {..<N}" "fst km + 4 \<le> N" "drawn_upto new_id km"
    and "observe_entry new_id e km = (e', km')"
  shows "drawn_upto new_id km' \<and> fst km' \<le> fst km + 4 \<and> entry_honest e'
    \<and> (\<forall>j x. fmlookup (snd km') j = Some x \<longleftrightarrow> fmlookup (snd km) j = Some x \<or> published e' j x)"
proof (cases "parse_unit (se_unit e)")
  case (Err x)
  with assms show ?thesis by (auto simp: observe_entry_def entry_honest_def published_def)
next
  case (Ok u)
  define P1 P2 P3 P4 where P:
    "P1 = reset_failed_matches (se_load_state e) (se_active_state e) (se_sub_state e)"
    "P2 = try_restart_matches (se_load_state e) (se_active_state e) (se_sub_state e)"
    "P3 = reload_matches (se_load_state e) (se_active_state e) (se_sub_state e) (se_can_reload e)"
    "P4 = start_matches (se_load_state e) (se_active_state e) (se_sub_state e) (se_can_start e)"
  obtain i1 km1 where 1: "issue_observation new_id P1 (ResetFailedObservation u) km = (i1, km1)" by (rule prod.exhaust)
  obtain i2 km2 where 2: "issue_observation new_id P2 (TryRestartObservation u) km1 = (i2, km2)" by (rule prod.exhaust)
  obtain i3 km3 where 3: "issue_observation new_id P3 (ReloadObservation u) km2 = (i3, km3)" by (rule prod.exhaust)
  obtain i4 km4 where 4: "issue_observation new_id P4 (StartObservation u) km3 = (i4, km4)" by (rule prod.exhaust)
  have e': "e' = e\<lparr>se_reset_failed_id := i1, se_try_restart_id := i2, se_reload_id := i3, se_start_id := i4\<rparr>"
    "km' = km4"
    using assms(4) Ok 1 2 3 4 by (simp_all add: observe_entry_def P)
  have "fst km < N" using assms(2) by simp
  note s1 = issue_observation_spec [OF assms(1) this assms(3) 1]
  have "fst km1 < N" using assms(2) s1(2) by simp
  note s2 = issue_observation_spec [OF assms(1) this s1(1) 2]
  have "fst km2 < N" using assms(2) s1(2) s2(2) by simp
  note s3 = issue_observation_spec [OF assms(1) this s2(1) 3]
  have "fst km3 < N" using assms(2) s1(2) s2(2) s3(2) by simp
  note s4 = issue_observation_spec [OF assms(1) this s3(1) 4]
  have "fst km4 \<le> fst km + 4" using s1(2) s2(2) s3(2) s4(2) by simp
  moreover have "entry_honest e'"
    using Ok s1(3) s2(3) s3(3) s4(3) by (simp add: e' entry_honest_def P)
  moreover have "fmlookup (snd km') j = Some x \<longleftrightarrow> fmlookup (snd km) j = Some x \<or> published e' j x" for j x
    using Ok by (auto simp: e' published_def s1(4) s2(4) s3(4) s4(4))
  ultimately show ?thesis using s4(1) e'(2) by blast
qed

lemma observe_entries_spec:
  assumes "inj_on new_id {..<N}"
  shows "fst km + 4 * length es \<le> N \<Longrightarrow> drawn_upto new_id km \<Longrightarrow> observe_entries new_id es km = (es', km') \<Longrightarrow>
    list_all entry_honest es'
    \<and> (\<forall>j x. fmlookup (snd km') j = Some x \<longleftrightarrow>
         fmlookup (snd km) j = Some x \<or> (\<exists>e\<in>set es'. published e j x))"
proof (induction es arbitrary: km es' km')
  case (Cons e es)
  obtain e1 km1 where 1: "observe_entry new_id e km = (e1, km1)" by (rule prod.exhaust)
  obtain es1 km2 where 2: "observe_entries new_id es km1 = (es1, km2)" by (rule prod.exhaust)
  from Cons.prems(3) 1 2 have eq: "es' = e1 # es1" "km' = km2" by simp_all
  have "fst km + 4 \<le> N" using Cons.prems(1) by simp
  note spec = observe_entry_spec [OF assms this Cons.prems(2) 1]
  with Cons.prems(1) have "fst km1 + 4 * length es \<le> N" by simp
  with Cons.IH [of km1 es1 km2] 2 spec eq show ?case by auto
qed simp

lemma resolve_fresh_set:
  assumes "\<not> ob_poisoned s" "now < os_expires_at oset" "os_binding oset = b"
    and "fmlookup (ob_sets s) (ab_host_id b) = Some oset"
  shows "fst (resolve i b now s) = ok_or (fmlookup (os_entries oset) i) observation_stale"
proof -
  have "fmlookup (ob_sets (remove_expired_sets now s)) (ab_host_id b) = Some oset"
    using assms by (simp add: remove_expired_sets_def)
  with assms show ?thesis by (simp add: resolve_def Let_def)
qed

section \<open>Request sequence numbers\<close>

definition superseded :: "host_id \<Rightarrow> u64 \<Rightarrow> observation_state \<Rightarrow> bool" where
  "superseded h q s =
     (ob_poisoned s \<or> ob_sealed s
      \<or> (case fmlookup (ob_newest_request s) h of None \<Rightarrow> False | Some n \<Rightarrow> unat q < unat n))"

lemma next_request_gt:
  assumes "fmlookup (ob_newest_request s) h = Some n" "unat q < unat n"
  shows "unat q < unat (next_request h s)"
  using assms saturating_succ_le [of n] by (simp add: next_request_def)

lemma publish_frame:
  "ob_newest_request (snd (snd (publish b q snap new_id order now s))) = ob_newest_request s"
  "ob_sealed (snd (snd (publish b q snap new_id order now s))) = ob_sealed s"
  "ob_poisoned (snd (snd (publish b q snap new_id order now s))) = ob_poisoned s"
  by (simp_all add: publish_def Let_def remove_expired_sets_def split: prod.split)

lemma superseded_step:
  assumes "superseded h q s"
  shows "superseded h q (observation_step e s)"
proof (cases e)
  case (OPublish b q' snap new_id order now)
  with assms show ?thesis by (simp add: superseded_def publish_frame)
next
  case (OBegin g)
  with assms show ?thesis
    using next_request_gt [of s h _ q]
    by (auto simp: superseded_def begin_request_def Let_def split: option.splits)
next
  case (ORevokeHost g)
  with assms show ?thesis
    using next_request_gt [of "s\<lparr>ob_sets := fmdrop g (ob_sets s)\<rparr>" h _ q]
    by (auto simp: superseded_def observation_revoke_host_def Let_def split: option.splits)
next
  case (ORevokeSession g hs)
  with assms show ?thesis
    using next_request_gt [of "s\<lparr>ob_sets := fmdrop g (ob_sets s)\<rparr>" h _ q] next_request_gt [of s h _ q]
    by (auto simp: superseded_def observation_revoke_session_def Let_def split: option.splits)
qed (use assms in \<open>auto simp: superseded_def resolve_def observation_seal_def
  remove_expired_sets_def Let_def split: option.splits\<close>)

lemma superseded_run: "superseded h q s \<Longrightarrow> superseded h q (fold observation_step es s)"
  by (induction es arbitrary: s) (auto intro: superseded_step)

text \<open>The request is at most the newest one; then any event that overtakes it supersedes it.\<close>

definition requested :: "host_id \<Rightarrow> u64 \<Rightarrow> observation_state \<Rightarrow> bool" where
  "requested h q s = (superseded h q s \<or> fmlookup (ob_newest_request s) h = Some q)"

definition overtakes :: "host_id \<Rightarrow> observation_event \<Rightarrow> bool" where
  "overtakes h e = (e = OBegin h \<or> e = ORevokeHost h \<or> (\<exists>hs. e = ORevokeSession h hs) \<or> e = OSeal)"

lemma next_request_supersedes:
  assumes "fmlookup (ob_newest_request s) h = Some q" "q \<noteq> -1"
  shows "unat q < unat (next_request h s)"
  using assms by (simp add: next_request_def saturating_succ_def unat_succ)

lemma overtakes_step:
  assumes "requested h q s" "overtakes h e" "q \<noteq> -1"
  shows "superseded h q (observation_step e s)"
proof (cases "superseded h q s")
  case True
  then show ?thesis by (rule superseded_step)
next
  case False
  then have q: "fmlookup (ob_newest_request s) h = Some q" "\<not> ob_sealed s" "\<not> ob_poisoned s"
    using assms(1) by (auto simp: requested_def superseded_def)
  note lt = next_request_supersedes [OF q(1) assms(3)]
    next_request_supersedes [of "s\<lparr>ob_sets := fmdrop h (ob_sets s)\<rparr>" h q]
  from assms(2) q lt assms(3) show ?thesis
    by (auto simp: overtakes_def superseded_def begin_request_def observation_revoke_host_def
        observation_revoke_session_def observation_seal_def Let_def split: option.splits if_splits)
qed

lemma requested_step:
  assumes "requested h q s" "\<not> overtakes h e"
  shows "requested h q (observation_step e s)"
proof (cases "superseded h q s")
  case True
  then show ?thesis by (simp add: requested_def superseded_step)
next
  case False
  then have "fmlookup (ob_newest_request s) h = Some q"
    using assms(1) by (simp add: requested_def)
  with assms(2) have "fmlookup (ob_newest_request (observation_step e s)) h = Some q"
    by (cases e) (auto simp: overtakes_def begin_request_def resolve_def observation_revoke_host_def
        observation_revoke_session_def publish_frame remove_expired_sets_def Let_def split: option.split)
  then show ?thesis by (simp add: requested_def)
qed

lemma overtaken_run:
  "requested h q s \<Longrightarrow> q \<noteq> -1 \<Longrightarrow> list_ex (overtakes h) es \<Longrightarrow>
   superseded h q (fold observation_step es s)"
proof (induction es arbitrary: s)
  case (Cons e es)
  then show ?case
    using overtakes_step [of h q s e] requested_step [of h q s e] superseded_run
    by (cases "overtakes h e") auto
qed simp

section \<open>Properties\<close>

text \<open>
  The observation store is bounded: whatever is requested, published, resolved or revoked, at
  most 64 hosts and 4096 actionable observations are held, and a sealed store holds none.
\<close>

theorem observations_bounded:
  assumes "enabled_run observation_enabled observation_step es observation_state_default"
  shows "let s = fold observation_step es observation_state_default in
      fm_len (ob_sets s) \<le> 64 \<and> actionable_count (ob_sets s) \<le> 4096
      \<and> (ob_sealed s \<longrightarrow> ob_sets s = fmempty)"
proof -
  have inv: "observation_inv observation_state_default"
    by (simp add: observation_inv_def observation_state_default_def actionable_count_def)
  show ?thesis
    using observation_sets.run_bounded [OF inv assms] observation_entries.run_bounded [OF inv assms]
      observation_sets.invar_run [OF inv assms]
    by (simp add: MAX_HOST_SETS_def MAX_ACTIONABLE_GLOBAL_def observation_inv_def Let_def)
qed

definition ex_entry :: service_entry where
  "ex_entry = \<lparr>se_unit = ''ssh.service'', se_load_state = ''loaded'', se_active_state = ''active'',
     se_sub_state = ''running'', se_description = ''OpenSSH'', se_can_start = True,
     se_can_reload = True, se_reset_failed_id = None, se_try_restart_id = None,
     se_reload_id = None, se_start_id = None\<rparr>"

definition ex_snapshot :: service_snapshot where
  "ex_snapshot = \<lparr>ss_host_id = HostId 1, ss_host_session_id = HostSessionId 2,
     ss_observed_at = [], ss_entries = [ex_entry]\<rparr>"

definition ex_new_id :: "nat \<Rightarrow> service_observation_id" where
  "ex_new_id k = ServiceObservationId (word_of_nat k)"

definition ex_requested :: observation_state where
  "ex_requested = snd (begin_request (HostId 1) observation_state_default)"

lemma ex_requested_eq: "begin_request (HostId 1) observation_state_default = (Ok 1, ex_requested)"
  by (simp add: ex_requested_def begin_request_def observation_state_default_def next_request_def
      saturating_succ_def Let_def)

lemma ex_requested_fields:
  "ob_newest_request ex_requested = fmupd (HostId 1) 1 fmempty" "ob_sets ex_requested = fmempty"
  "\<not> ob_sealed ex_requested" "\<not> ob_poisoned ex_requested"
  by (simp_all add: ex_requested_def begin_request_def observation_state_default_def next_request_def
      saturating_succ_def Let_def)

theorem observations_bounded_witness:
  "fm_len (ob_sets (fold observation_step
     [OBegin (HostId 1), OPublish ex_binding 1 ex_snapshot ex_new_id [HostId 1] 10, OSeal]
     observation_state_default)) \<le> 64"
proof -
  have "enabled_run observation_enabled observation_step
     [OBegin (HostId 1), OPublish ex_binding 1 ex_snapshot ex_new_id [HostId 1] 10, OSeal]
     observation_state_default"
    by (simp add: observation_state_default_def begin_request_def Let_def)
  from observations_bounded [OF this] show ?thesis by (simp only: Let_def)
qed

text \<open>
  Publishing and resolving agree. After a publication whose identifiers are pairwise distinct,
  every entry of the returned snapshot carries identifiers for exactly the operations its observed
  state admits, and until the set expires an identifier resolves, under the same session binding,
  to precisely the operation and the parsed unit of the entry that carries it, and to nothing else.
  (At most 512 entries with four operations each draw an identifier, so 2048 suffice.)
\<close>

theorem publish_resolve_exact:
  assumes "publish b q snap new_id order now s = (Ok (), snap', s')" "inj_on new_id {..<2048}"
    and "now' < now + SERVICE_OBSERVATION_TTL"
  shows "list_all entry_honest (ss_entries snap')
       \<and> (\<forall>i obs. fst (resolve i b now' s') = Ok obs \<longleftrightarrow> (\<exists>e\<in>set (ss_entries snap'). published e i obs))"
  using assms(1)
proof (cases rule: publish_Ok_cases)
  case (1 es k m)
  have "fst (0 :: nat, fmempty) + 4 * length (ss_entries snap) \<le> 2048" using 1(2) by simp
  moreover have "drawn_upto new_id (0, fmempty)" by (simp add: drawn_upto_def)
  ultimately have spec: "list_all entry_honest es"
    "\<forall>j x. fmlookup m j = Some x \<longleftrightarrow> (\<exists>e\<in>set es. published e j x)"
    using observe_entries_spec [OF assms(2) _ _ 1(1)] by auto
  have "fst (resolve i b now' s') = ok_or (fmlookup m i) observation_stale" for i
    using resolve_fresh_set [of s' now' "\<lparr>os_binding = b, os_issued_at = now,
        os_expires_at = now + SERVICE_OBSERVATION_TTL, os_entries = m\<rparr>" b i] 1(4,9) assms(3)
    by simp
  then have "fst (resolve i b now' s') = Ok obs \<longleftrightarrow> fmlookup m i = Some obs" for i obs
    by (cases "fmlookup m i") simp_all
  with spec 1(8) show ?thesis by simp
qed

theorem publish_resolve_exact_witness:
  "list_all entry_honest (ss_entries (fst (snd
     (publish ex_binding 1 ex_snapshot ex_new_id [] 10 ex_requested))))"
proof -
  have "\<exists>snap' s'. publish ex_binding 1 ex_snapshot ex_new_id [] 10 ex_requested = (Ok (), snap', s')"
    by (simp add: publish_def ex_snapshot_def ex_binding_def ex_requested_fields Let_def split: prod.split)
  then obtain snap' s' where
    p: "publish ex_binding 1 ex_snapshot ex_new_id [] 10 ex_requested = (Ok (), snap', s')" by blast
  have "inj_on ex_new_id {..<2048}"
    by (rule inj_onI) (auto simp: ex_new_id_def word_of_nat_eq_iff take_bit_nat_eq_self)
  from publish_resolve_exact [OF p this, of 11] p show ?thesis
    by (simp add: SERVICE_OBSERVATION_TTL_def from_secs_def)
qed

text \<open>
  A late answer never replaces newer knowledge. Once a host's request has been overtaken (by a
  newer request, a revocation of the host or of a session of it, or the shutdown), no publication
  under its number succeeds, and the refused publication changes neither store nor snapshot. The
  number must not be the largest of its type, where the counter saturates.
\<close>

theorem stale_publication_refused:
  assumes "begin_request h s = (Ok q, s1)" "q \<noteq> -1" "list_ex (overtakes h) es" "ab_host_id b = h"
    and "publish b q snap new_id order now (fold observation_step es s1) = (r, snap', s')"
  shows "\<not> is_ok r \<and> snap' = snap \<and> s' = fold observation_step es s1"
proof -
  have "requested h q s1"
    using assms(1) by (auto simp: requested_def begin_request_def Let_def split: if_splits)
  then have "superseded h q (fold observation_step es s1)"
    using assms(2,3) by (rule overtaken_run)
  then have "\<not> is_ok r"
    using assms(4,5) by (cases r) (auto simp: superseded_def elim!: publish_Ok_cases)
  then show ?thesis
    using assms(5) publish_Err by (cases r) auto
qed

theorem stale_publication_refused_witness:
  "\<not> is_ok (fst (publish ex_binding 1 ex_snapshot ex_new_id [] 20
     (fold observation_step [OResolve (ServiceObservationId 3) ex_binding 15, OBegin (HostId 1)] ex_requested)))"
proof -
  let ?es = "[OResolve (ServiceObservationId 3) ex_binding 15, OBegin (HostId 1)]"
  obtain r snap' s' where
    p: "publish ex_binding 1 ex_snapshot ex_new_id [] 20 (fold observation_step ?es ex_requested) = (r, snap', s')"
    by (rule prod_cases3)
  have "list_ex (overtakes (HostId 1)) ?es" "ab_host_id ex_binding = HostId 1"
    by (simp_all add: overtakes_def ex_binding_def)
  from stale_publication_refused [OF ex_requested_eq _ this p] show ?thesis
    unfolding p by simp
qed

end
