(* ===== verification/File_Plans.thy ===== *)
theory File_Plans
  imports Sftp_Model Interfaces
begin

text \<open>
  \<open>FilePlanStore\<close> of \<^verbatim>\<open>crates/nexus-sftp/src/policy.rs\<close>: reviewed file operations that can be
  executed once, and the editor documents that authorise saves. Each critical section of the
  source is one function here; it reads the clock once (\<open>now\<close>). A mutex that was poisoned by a
  panic is a flag. The tasks that wait for an expiry are events.
\<close>

section \<open>State\<close>

definition PLAN_LIFETIME :: nat where "PLAN_LIFETIME = from_secs (5 * 60)"
definition PLAN_CAP :: nat where "PLAN_CAP = 100"
definition DOCUMENT_LIFETIME :: nat where "DOCUMENT_LIFETIME = from_secs (60 * 60)"

datatype editor_document_use = DocReady | DocPlanning file_plan_id | DocPending file_plan_id

record editor_document =
  ed_host :: host_id
  ed_host_session :: host_session_id
  ed_sftp :: sftp_session_id
  ed_path :: string
  ed_revision :: editor_revision
  ed_content_digest :: string
  ed_newline :: text_newline
  ed_bom :: bool
  ed_expires :: instant
  ed_use_state :: editor_document_use

record stored_plan =
  sp_plan :: "internal_plan option"
  sp_expires :: instant
  sp_editor_document :: "editor_document_id option"

record file_plan_store =
  fs_plans :: "(file_plan_id, stored_plan) fmap"
  fs_documents :: "(editor_document_id, editor_document) fmap"
  fs_lifetime :: nat
  fs_plans_poisoned :: bool
  fs_documents_poisoned :: bool

definition file_plan_store_default :: file_plan_store where
  "file_plan_store_default =
     \<lparr>fs_plans = fmempty, fs_documents = fmempty, fs_lifetime = PLAN_LIFETIME,
      fs_plans_poisoned = False, fs_documents_poisoned = False\<rparr>"

text \<open>The session a caller names.\<close>

type_synonym session_key = "host_id \<times> host_session_id \<times> sftp_session_id"

definition document_key :: "editor_document \<Rightarrow> session_key" where
  "document_key d = (ed_host d, ed_host_session d, ed_sftp d)"

definition info_key :: "sftp_session_info \<Rightarrow> session_key" where
  "info_key i = (si_host_id i, si_host_session_id i, si_id i)"

definition plan_key :: "internal_plan \<Rightarrow> session_key" where
  "plan_key p = (fo_host_id (ip_view p), fo_host_session_id (ip_view p), fo_sftp_session_id (ip_view p))"

section \<open>Editor documents\<close>

definition release_editor_reservation ::
  "editor_document_id \<Rightarrow> editor_document_use \<Rightarrow> instant \<Rightarrow> file_plan_store \<Rightarrow> bool \<times> file_plan_store" where
  "release_editor_reservation d expected now s =
     (case fmlookup (fs_documents s) d of
        None \<Rightarrow> (False, s)
      | Some doc \<Rightarrow>
          if ed_use_state doc \<noteq> expected then (False, s)
          else if ed_expires doc \<le> now then (False, s\<lparr>fs_documents := fmdrop d (fs_documents s)\<rparr>)
          else (True, s\<lparr>fs_documents := fmupd d (doc\<lparr>ed_use_state := DocReady\<rparr>) (fs_documents s)\<rparr>))"

text \<open>\<open>Drop for EditorPlanningGuard\<close>, while the guard is active.\<close>

definition drop_planning_guard ::
  "editor_document_id \<Rightarrow> file_plan_id \<Rightarrow> instant \<Rightarrow> file_plan_store \<Rightarrow> file_plan_store" where
  "drop_planning_guard d reservation now s =
     (if fs_documents_poisoned s then s
      else snd (release_editor_reservation d (DocPlanning reservation) now s))"

definition revoke_all :: "file_plan_store \<Rightarrow> unit app_result \<times> file_plan_store" where
  "revoke_all s =
     (if fs_documents_poisoned s then (Err (policy_error ''File authority is unavailable.''), s)
      else let s1 = s\<lparr>fs_documents := fmempty\<rparr>
           in if fs_plans_poisoned s1 then (Err (policy_error ''File authority is unavailable.''), s1)
              else (Ok (), s1\<lparr>fs_plans := fmempty\<rparr>))"

definition file_revoke_session :: "host_id \<Rightarrow> host_session_id \<Rightarrow> file_plan_store \<Rightarrow> file_plan_store" where
  "file_revoke_session h hs s =
     (let s1 = (if fs_documents_poisoned s then s
                else s\<lparr>fs_documents :=
                   fm_retain (\<lambda>_ d. ed_host d \<noteq> h \<or> ed_host_session d \<noteq> hs) (fs_documents s)\<rparr>)
      in if fs_plans_poisoned s1 then s1
         else s1\<lparr>fs_plans := fm_retain (\<lambda>_ st. case sp_plan st of
                   None \<Rightarrow> False
                 | Some p \<Rightarrow> fo_host_id (ip_view p) \<noteq> h \<or> fo_host_session_id (ip_view p) \<noteq> hs)
                 (fs_plans s1)\<rparr>)"

text \<open>
  Registration retires expired documents and documents for the same file of the same session,
  with the plans that depend on them. \<open>digest\<close> is SHA-256.
\<close>

definition retired_document :: "sftp_session_info \<Rightarrow> string \<Rightarrow> instant \<Rightarrow> editor_document \<Rightarrow> bool" where
  "retired_document info path now d =
     (ed_expires d \<le> now \<or> (document_key d = info_key info \<and> ed_path d = path))"

definition register_editor_document ::
  "(string \<Rightarrow> string) \<Rightarrow> sftp_session_info \<Rightarrow> string \<Rightarrow> editor_revision \<Rightarrow> string \<Rightarrow> text_newline \<Rightarrow> bool \<Rightarrow>
   editor_document_id \<Rightarrow> instant \<Rightarrow> file_plan_store \<Rightarrow> editor_document_id app_result \<times> file_plan_store" where
  "register_editor_document digest info path revision original newline bom new now s =
     (case validate_remote_path path of
        Err e \<Rightarrow> (Err e, s)
      | Ok _ \<Rightarrow>
          if fs_documents_poisoned s
          then (Err (policy_error ''The editor authority store is unavailable.''), s)
          else
            let retired = fm_retain (\<lambda>_ d. retired_document info path now d) (fs_documents s);
                s1 = s\<lparr>fs_documents :=
                       fm_retain (\<lambda>_ d. \<not> retired_document info path now d) (fs_documents s)\<rparr>;
                any = (fm_len retired \<noteq> 0)
            in if any \<and> fs_plans_poisoned s
               then (Err (policy_error ''The file plan store is unavailable.''), s1)
               else
                 let s2 = (if any then s1\<lparr>fs_plans := fm_retain (\<lambda>_ st. case sp_editor_document st of
                                       None \<Rightarrow> True | Some i \<Rightarrow> fmlookup retired i = None) (fs_plans s1)\<rparr>
                           else s1)
                 in if fm_len (fs_documents s2) \<ge> PLAN_CAP
                    then (Err (policy_error ''Too many editor documents are open.''), s2)
                    else (Ok new, s2\<lparr>fs_documents := fmupd new
                            \<lparr>ed_host = si_host_id info, ed_host_session = si_host_session_id info,
                             ed_sftp = si_id info, ed_path = path, ed_revision = revision,
                             ed_content_digest = digest original, ed_newline = newline,
                             ed_bom = bom, ed_expires = now + DOCUMENT_LIFETIME,
                             ed_use_state = DocReady\<rparr> (fs_documents s2)\<rparr>))"

text \<open>Removing the plan a document was pending for, if it is that document's plan.\<close>

definition remove_document_plan :: "file_plan_id \<Rightarrow> editor_document_id \<Rightarrow> file_plan_store \<Rightarrow> file_plan_store" where
  "remove_document_plan pid d s =
     (case fmlookup (fs_plans s) pid of
        None \<Rightarrow> s
      | Some st \<Rightarrow> if sp_editor_document st = Some d
                  then s\<lparr>fs_plans := fmdrop pid (fs_plans s)\<rparr> else s)"

fun pending_plan :: "editor_document_use \<Rightarrow> file_plan_id option" where
  "pending_plan (DocPending pid) = Some pid"
| "pending_plan _ = None"

definition discard_editor_document ::
  "editor_document_id \<Rightarrow> session_key \<Rightarrow> file_plan_store \<Rightarrow> unit app_result \<times> file_plan_store" where
  "discard_editor_document d key s =
     (if fs_documents_poisoned s
      then (Err (policy_error ''The editor authority store is unavailable.''), s)
      else (case fmlookup (fs_documents s) d of
              None \<Rightarrow> (Ok (), s)
            | Some doc \<Rightarrow>
                if document_key doc \<noteq> key
                then (Err (policy_error ''The editor document belongs to another SFTP session.''), s)
                else
                  let s1 = s\<lparr>fs_documents := fmdrop d (fs_documents s)\<rparr>
                  in (case pending_plan (ed_use_state doc) of
                        None \<Rightarrow> (Ok (), s1)
                      | Some pid \<Rightarrow>
                          if fs_plans_poisoned s1
                          then (Err (policy_error ''The file plan store is unavailable.''), s1)
                          else (Ok (), remove_document_plan pid d s1))))"

section \<open>Inserting plans\<close>

record plan_insert =
  pi_id :: file_plan_id
  pi_info :: sftp_session_info
  pi_kind :: file_operation_kind
  pi_risk :: operation_risk
  pi_conflict_policy :: "conflict_policy option"
  pi_items :: "file_plan_item list"
  pi_payload :: plan_payload
  pi_editor_document :: "editor_document_id option"

text \<open>\<open>until\<close> is the RFC 3339 text of the wall-clock expiry.\<close>

definition plan_view :: "string \<Rightarrow> plan_insert \<Rightarrow> file_operation_plan" where
  "plan_view until r =
     \<lparr>fo_id = pi_id r, fo_host_id = si_host_id (pi_info r),
      fo_host_session_id = si_host_session_id (pi_info r), fo_sftp_session_id = si_id (pi_info r),
      fo_kind = pi_kind r, fo_risk = pi_risk r, fo_conflict_policy = pi_conflict_policy r,
      fo_items = pi_items r, fo_expires_at = until\<rparr>"

definition fresh_plan :: "string \<Rightarrow> instant \<Rightarrow> plan_insert \<Rightarrow> stored_plan" where
  "fresh_plan until expires r =
     \<lparr>sp_plan = Some \<lparr>ip_view = plan_view until r, ip_payload = pi_payload r\<rparr>,
      sp_expires = expires, sp_editor_document = pi_editor_document r\<rparr>"

lemma fresh_plan_sel [simp]:
  "sp_editor_document (fresh_plan until expires r) = pi_editor_document r"
  "sp_expires (fresh_plan until expires r) = expires"
  "sp_plan (fresh_plan until expires r) = Some \<lparr>ip_view = plan_view until r, ip_payload = pi_payload r\<rparr>"
  by (simp_all add: fresh_plan_def)

definition insert_with_id ::
  "string \<Rightarrow> plan_insert \<Rightarrow> instant \<Rightarrow> file_plan_store \<Rightarrow> file_operation_plan app_result \<times> file_plan_store" where
  "insert_with_id until r now s =
     (if fs_plans_poisoned s then (Err (policy_error ''The file plan store is unavailable.''), s)
      else
        let s1 = s\<lparr>fs_plans := fm_retain (\<lambda>_ st. sp_expires st > now \<and> sp_plan st \<noteq> None) (fs_plans s)\<rparr>
        in if fm_len (fs_plans s1) \<ge> PLAN_CAP
           then (Err (policy_error ''Too many file-operation plans are awaiting approval.''), s1)
           else (Ok (plan_view until r),
                 s1\<lparr>fs_plans := fmupd (pi_id r)
                      (fresh_plan until (now + fs_lifetime s) r) (fs_plans s1)\<rparr>))"

text \<open>The first critical section of \<open>plan_editor_save\<close>: reserve the document.\<close>

definition reserve_document ::
  "sftp_session_info \<Rightarrow> editor_document_id \<Rightarrow> file_plan_id \<Rightarrow> instant \<Rightarrow> file_plan_store \<Rightarrow>
   editor_document app_result \<times> file_plan_store" where
  "reserve_document info d reservation now s =
     (if fs_documents_poisoned s
      then (Err (policy_error ''The editor authority store is unavailable.''), s)
      else (case fmlookup (fs_documents s) d of
              None \<Rightarrow> (Err (policy_error ''The editor document is stale; reload it.''), s)
            | Some doc \<Rightarrow>
                if ed_expires doc \<le> now \<or> document_key doc \<noteq> info_key info
                then (Err (policy_error ''The editor document belongs to an old or expired session.''), s)
                else if ed_use_state doc \<noteq> DocReady
                then (Err (policy_error ''A save is already being prepared or reviewed for this document.''), s)
                else let doc' = doc\<lparr>ed_use_state := DocPlanning reservation\<rparr>
                     in (Ok doc', s\<lparr>fs_documents := fmupd d doc' (fs_documents s)\<rparr>)))"

definition editor_plan_insert ::
  "sftp_session_info \<Rightarrow> editor_document_id \<Rightarrow> file_plan_id \<Rightarrow> editor_document \<Rightarrow> string \<Rightarrow> plan_insert" where
  "editor_plan_insert info d reservation doc bytes =
     \<lparr>pi_id = reservation, pi_info = info, pi_kind = FEditText, pi_risk = High,
      pi_conflict_policy = None,
      pi_items = [\<lparr>fi_source_display = ''Edited text'', fi_destination_display = display_name (ed_path doc),
                   fi_size_bytes = Some (fmt_dec (length bytes))\<rparr>],
      pi_payload = EditorSave info (ed_path doc) (ed_revision doc) (ed_content_digest doc) bytes,
      pi_editor_document = Some d\<rparr>"

lemma editor_plan_insert_sel [simp]:
  "pi_id (editor_plan_insert info d reservation doc bytes) = reservation"
  "pi_editor_document (editor_plan_insert info d reservation doc bytes) = Some d"
  by (simp_all add: editor_plan_insert_def)

text \<open>The last critical section: re-check the reservation, insert the plan, mark it pending.\<close>

definition commit_editor_plan ::
  "sftp_session_info \<Rightarrow> editor_document_id \<Rightarrow> file_plan_id \<Rightarrow> editor_document \<Rightarrow> string \<Rightarrow> string \<Rightarrow> instant \<Rightarrow>
   file_plan_store \<Rightarrow> file_operation_plan app_result \<times> file_plan_store" where
  "commit_editor_plan info d reservation doc bytes until now s =
     (if fs_documents_poisoned s
      then (Err (policy_error ''The editor authority store is unavailable.''), s)
      else (case fmlookup (fs_documents s) d of
              None \<Rightarrow> (Err (policy_error ''The editor document was retired during planning.''), s)
            | Some cur \<Rightarrow>
                if ed_expires cur \<le> now \<or> ed_use_state cur \<noteq> DocPlanning reservation
                  \<or> document_key cur \<noteq> info_key info
                then (Err (policy_error ''The editor document was retired or expired during planning.''), s)
                else (case insert_with_id until (editor_plan_insert info d reservation doc bytes) now s of
                        (Err e, s1) \<Rightarrow> (Err e, s1)
                      | (Ok view, s1) \<Rightarrow>
                          (Ok view, s1\<lparr>fs_documents :=
                             fmupd d (cur\<lparr>ed_use_state := DocPending reservation\<rparr>) (fs_documents s1)\<rparr>))))"

section \<open>Consuming and discarding plans\<close>

text \<open>Releasing the document of a removed plan.\<close>

definition release_plan_document ::
  "editor_document_id option \<Rightarrow> file_plan_id \<Rightarrow> instant \<Rightarrow> file_plan_store \<Rightarrow> bool \<times> file_plan_store" where
  "release_plan_document ed pid now s =
     (case ed of None \<Rightarrow> (True, s) | Some d \<Rightarrow> release_editor_reservation d (DocPending pid) now s)"

definition file_discard ::
  "file_plan_id \<Rightarrow> session_key \<Rightarrow> instant \<Rightarrow> file_plan_store \<Rightarrow> bool app_result \<times> file_plan_store" where
  "file_discard pid key now s =
     (if fs_documents_poisoned s
      then (Err (policy_error ''The editor authority store is unavailable.''), s)
      else if fs_plans_poisoned s
      then (Err (policy_error ''The file plan store is unavailable.''), s)
      else (case fmlookup (fs_plans s) pid of
              None \<Rightarrow> (Ok False, s)
            | Some st \<Rightarrow>
                let dropped = s\<lparr>fs_plans := fmdrop pid (fs_plans s)\<rparr>
                in if sp_expires st \<le> now
                   then (Ok False, snd (release_plan_document (sp_editor_document st) pid now dropped))
                   else (case sp_plan st of
                           None \<Rightarrow> (Ok False, dropped)
                         | Some p \<Rightarrow>
                             if plan_key p \<noteq> key
                             then (Err (policy_error ''The file-operation plan does not belong to this host session.''), s)
                             else apfst Ok (release_plan_document (sp_editor_document st) pid now dropped))))"

definition document_authorised ::
  "editor_document_id \<Rightarrow> file_plan_id \<Rightarrow> session_key \<Rightarrow> instant \<Rightarrow> file_plan_store \<Rightarrow> bool" where
  "document_authorised d pid key now s =
     (case fmlookup (fs_documents s) d of
        None \<Rightarrow> False
      | Some doc \<Rightarrow> ed_expires doc > now \<and> ed_use_state doc = DocPending pid \<and> document_key doc = key)"

text \<open>A used plan stays in the map without its body until it is swept.\<close>

definition take_plan :: "file_plan_id \<Rightarrow> stored_plan \<Rightarrow> file_plan_store \<Rightarrow> internal_plan app_result \<times> file_plan_store" where
  "take_plan pid st s =
     (ok_or (sp_plan st) (policy_error ''The file-operation plan was already used.''),
      s\<lparr>fs_plans := fmupd pid (st\<lparr>sp_plan := None\<rparr>) (fs_plans s)\<rparr>)"

definition file_consume ::
  "file_plan_id \<Rightarrow> session_key \<Rightarrow> instant \<Rightarrow> file_plan_store \<Rightarrow> internal_plan app_result \<times> file_plan_store" where
  "file_consume pid key now s =
     (if fs_documents_poisoned s
      then (Err (policy_error ''The editor authority store is unavailable.''), s)
      else if fs_plans_poisoned s
      then (Err (policy_error ''The file plan store is unavailable.''), s)
      else (case fmlookup (fs_plans s) pid of
              None \<Rightarrow> (Err (policy_error ''The file-operation plan is missing or was already used.''), s)
            | Some st \<Rightarrow>
                if now > sp_expires st
                then (Err (policy_error ''The file-operation plan expired.''),
                      snd (release_plan_document (sp_editor_document st) pid now
                             (s\<lparr>fs_plans := fmdrop pid (fs_plans s)\<rparr>)))
                else if (case sp_plan st of None \<Rightarrow> True | Some p \<Rightarrow> plan_key p \<noteq> key)
                then (Err (policy_error ''The file-operation plan does not belong to this host session.''), s)
                else (case sp_editor_document st of
                        None \<Rightarrow> take_plan pid st s
                      | Some d \<Rightarrow>
                          if \<not> document_authorised d pid key now s
                          then (Err (policy_error ''The editor document was retired or expired.''),
                                s\<lparr>fs_plans := fmdrop pid (fs_plans s)\<rparr>)
                          else take_plan pid st (s\<lparr>fs_documents := fmdrop d (fs_documents s)\<rparr>))))"

section \<open>Expiry tasks\<close>

definition plan_expiry_fires ::
  "file_plan_id \<Rightarrow> instant \<Rightarrow> editor_document_id option \<Rightarrow> instant \<Rightarrow> file_plan_store \<Rightarrow> file_plan_store" where
  "plan_expiry_fires pid expires ed now s =
     (if fs_documents_poisoned s then s
      else
        let s1 = (if \<not> fs_plans_poisoned s \<and> (case fmlookup (fs_plans s) pid of
                        None \<Rightarrow> False | Some st \<Rightarrow> sp_expires st = expires)
                  then s\<lparr>fs_plans := fmdrop pid (fs_plans s)\<rparr> else s)
        in (case ed of None \<Rightarrow> s1
            | Some d \<Rightarrow> snd (release_editor_reservation d (DocPending pid) now s1)))"

definition document_expiry_fires :: "editor_document_id \<Rightarrow> instant \<Rightarrow> file_plan_store \<Rightarrow> file_plan_store" where
  "document_expiry_fires d expires s =
     (if fs_documents_poisoned s then s
      else (case fmlookup (fs_documents s) d of
              None \<Rightarrow> s
            | Some doc \<Rightarrow>
                if ed_expires doc \<noteq> expires then s
                else
                  let s1 = s\<lparr>fs_documents := fmdrop d (fs_documents s)\<rparr>
                  in (case pending_plan (ed_use_state doc) of
                        None \<Rightarrow> s1
                      | Some pid \<Rightarrow> if fs_plans_poisoned s1 then s1 else remove_document_plan pid d s1)))"

section \<open>Events\<close>

datatype file_event =
    FRegister "string \<Rightarrow> string" sftp_session_info string editor_revision string text_newline bool
      editor_document_id instant
  | FDiscardDocument editor_document_id session_key
  | FReserve sftp_session_info editor_document_id file_plan_id instant
  | FCommit sftp_session_info editor_document_id file_plan_id editor_document string string instant
  | FDropGuard editor_document_id file_plan_id instant
  | FInsert string plan_insert instant
  | FDiscard file_plan_id session_key instant
  | FConsume file_plan_id session_key instant
  | FRevokeSession host_id host_session_id
  | FRevokeAll
  | FPlanExpiry file_plan_id instant "editor_document_id option" instant
  | FDocumentExpiry editor_document_id instant

fun file_step :: "file_event \<Rightarrow> file_plan_store \<Rightarrow> file_plan_store" where
  "file_step (FRegister digest info path revision orig nl bom new now) s =
     snd (register_editor_document digest info path revision orig nl bom new now s)"
| "file_step (FDiscardDocument d key) s = snd (discard_editor_document d key s)"
| "file_step (FReserve info d res now) s = snd (reserve_document info d res now s)"
| "file_step (FCommit info d res doc bytes until now) s =
     snd (commit_editor_plan info d res doc bytes until now s)"
| "file_step (FDropGuard d res now) s = drop_planning_guard d res now s"
| "file_step (FInsert until r now) s = snd (insert_with_id until r now s)"
| "file_step (FDiscard pid key now) s = snd (file_discard pid key now s)"
| "file_step (FConsume pid key now) s = snd (file_consume pid key now s)"
| "file_step (FRevokeSession h hs) s = file_revoke_session h hs s"
| "file_step FRevokeAll s = snd (revoke_all s)"
| "file_step (FPlanExpiry pid expires ed now) s = plan_expiry_fires pid expires ed now s"
| "file_step (FDocumentExpiry d expires) s = document_expiry_fires d expires s"

text \<open>
  What the environment guarantees: fresh identifiers are in use nowhere in the store, plain plans
  have no editor document, and an expiry task carries the data of the plan it was started for.
\<close>

definition document_unused :: "editor_document_id \<Rightarrow> file_plan_store \<Rightarrow> bool" where
  "document_unused d s =
     (fmlookup (fs_documents s) d = None
      \<and> (\<forall>pid st. fmlookup (fs_plans s) pid = Some st \<longrightarrow> sp_editor_document st \<noteq> Some d))"

fun file_enabled :: "file_event \<Rightarrow> file_plan_store \<Rightarrow> bool" where
  "file_enabled (FRegister digest info path revision orig nl bom new now) s = document_unused new s"
| "file_enabled (FCommit info d res doc bytes until now) s = (fmlookup (fs_plans s) res = None)"
| "file_enabled (FInsert until r now) s =
     (fmlookup (fs_plans s) (pi_id r) = None \<and> pi_editor_document r = None)"
| "file_enabled (FPlanExpiry pid expires ed now) s =
     (\<forall>st. fmlookup (fs_plans s) pid = Some st \<longrightarrow> sp_expires st = expires \<and> sp_editor_document st = ed)"
| "file_enabled _ s = True"

fun file_issues :: "file_event \<Rightarrow> file_plan_id \<Rightarrow> bool" where
  "file_issues (FCommit info d res doc bytes until now) pid = (res = pid)"
| "file_issues (FInsert until r now) pid = (pi_id r = pid)"
| "file_issues _ pid = False"

section \<open>Invariant\<close>

definition file_live :: "file_plan_store \<Rightarrow> file_plan_id \<Rightarrow> bool" where
  "file_live s pid = (case fmlookup (fs_plans s) pid of None \<Rightarrow> False | Some st \<Rightarrow> sp_plan st \<noteq> None)"

text \<open>A live plan for a document is the one its document is pending for.\<close>

definition linked :: "file_plan_store \<Rightarrow> bool" where
  "linked s = (\<forall>pid st d doc. fmlookup (fs_plans s) pid = Some st \<longrightarrow> sp_plan st \<noteq> None \<longrightarrow>
     sp_editor_document st = Some d \<longrightarrow> fmlookup (fs_documents s) d = Some doc \<longrightarrow>
     ed_use_state doc = DocPending pid)"

definition file_inv :: "file_plan_store \<Rightarrow> bool" where
  "file_inv s =
     (fm_len (fs_plans s) \<le> PLAN_CAP \<and> fm_len (fs_documents s) \<le> PLAN_CAP
      \<and> (\<not> fs_plans_poisoned s \<longrightarrow> linked s))"

lemma linkedD:
  "linked s \<Longrightarrow> fmlookup (fs_plans s) pid = Some st \<Longrightarrow> sp_plan st \<noteq> None \<Longrightarrow>
   sp_editor_document st = Some d \<Longrightarrow> fmlookup (fs_documents s) d = Some doc \<Longrightarrow>
   ed_use_state doc = DocPending pid"
  unfolding linked_def by blast

lemma linked_shrink:
  assumes "linked s"
    and "\<And>pid st. fmlookup (fs_plans s') pid = Some st \<Longrightarrow> sp_plan st \<noteq> None \<Longrightarrow> fmlookup (fs_plans s) pid = Some st"
    and "\<And>d doc. fmlookup (fs_documents s') d = Some doc \<Longrightarrow> fmlookup (fs_documents s) d = Some doc"
  shows "linked s'"
  unfolding linked_def using linkedD [OF assms(1)] assms(2,3) by metis

text \<open>Removing entries from either map.\<close>

lemma file_inv_shrink:
  assumes "file_inv s"
    and "\<And>pid st. fmlookup (fs_plans s') pid = Some st \<Longrightarrow> fmlookup (fs_plans s) pid = Some st"
    and "\<And>d doc. fmlookup (fs_documents s') d = Some doc \<Longrightarrow> fmlookup (fs_documents s) d = Some doc"
    and "fs_plans_poisoned s' = fs_plans_poisoned s"
  shows "file_inv s'"
proof -
  have sub: "fmdom m |\<subseteq>| fmdom n" if "\<And>k v. fmlookup m k = Some v \<Longrightarrow> fmlookup n k = Some v"
    for m n :: "('k, 'v) fmap"
    using that by (metis fmdomI fmdomE fsubsetI)
  have "fm_len (fs_plans s') \<le> fm_len (fs_plans s)" "fm_len (fs_documents s') \<le> fm_len (fs_documents s)"
    using assms(2,3) by (auto intro!: fm_len_mono sub)
  moreover have "\<not> fs_plans_poisoned s' \<longrightarrow> linked s'"
    using assms linked_shrink [of s s'] by (simp add: file_inv_def)
  ultimately show ?thesis using assms(1) by (simp add: file_inv_def)
qed

lemma release_cases:
  obtains (none) "release_editor_reservation d expected now s = (False, s)"
  | (expired) doc where "fmlookup (fs_documents s) d = Some doc" "ed_use_state doc = expected"
      "release_editor_reservation d expected now s = (False, s\<lparr>fs_documents := fmdrop d (fs_documents s)\<rparr>)"
  | (released) doc where "fmlookup (fs_documents s) d = Some doc" "ed_use_state doc = expected" "now < ed_expires doc"
      "release_editor_reservation d expected now s =
         (True, s\<lparr>fs_documents := fmupd d (doc\<lparr>ed_use_state := DocReady\<rparr>) (fs_documents s)\<rparr>)"
proof (cases "fmlookup (fs_documents s) d")
  case None
  then show ?thesis by (intro none) (simp add: release_editor_reservation_def)
next
  case (Some doc)
  consider "ed_use_state doc \<noteq> expected" | "ed_use_state doc = expected" "ed_expires doc \<le> now"
    | "ed_use_state doc = expected" "now < ed_expires doc" by fastforce
  then show ?thesis
  proof cases
    case 1
    with Some show ?thesis by (intro none) (simp add: release_editor_reservation_def)
  next
    case 2
    with Some show ?thesis by (intro expired) (simp_all add: release_editor_reservation_def)
  next
    case 3
    with Some show ?thesis by (intro released) (simp_all add: release_editor_reservation_def)
  qed
qed

lemma release_frame [simp]:
  "fs_plans (snd (release_editor_reservation d expected now s)) = fs_plans s"
  "fs_plans_poisoned (snd (release_editor_reservation d expected now s)) = fs_plans_poisoned s"
  "fs_documents_poisoned (snd (release_editor_reservation d expected now s)) = fs_documents_poisoned s"
  by (cases rule: release_cases [of d expected now s]; simp)+

lemma release_plan_frame [simp]:
  "fs_plans (snd (release_plan_document ed pid now s)) = fs_plans s"
  by (cases ed) (simp_all add: release_plan_document_def)

lemma file_inv_update_document:
  assumes "file_inv s" "fmlookup (fs_documents s) d = Some doc"
    and "\<And>pid st. \<not> fs_plans_poisoned s \<Longrightarrow> fmlookup (fs_plans s) pid = Some st \<Longrightarrow> sp_plan st \<noteq> None \<Longrightarrow>
           sp_editor_document st \<noteq> Some d"
  shows "file_inv (s\<lparr>fs_documents := fmupd d doc' (fs_documents s)\<rparr>)"
  using assms by (fastforce simp: file_inv_def linked_def fm_len_upd)

lemma file_inv_release:
  assumes "file_inv s"
    and "\<And>pid. \<not> fs_plans_poisoned s \<Longrightarrow> expected = DocPending pid \<Longrightarrow> \<not> file_live s pid"
  shows "file_inv (snd (release_editor_reservation d expected now s))"
proof (cases rule: release_cases [of d expected now s])
  case none
  with assms(1) show ?thesis by simp
next
  case (expired doc)
  then show ?thesis by (simp, intro file_inv_shrink [OF assms(1)]) (auto split: if_splits)
next
  case (released doc)
  have "sp_editor_document st \<noteq> Some d"
    if "\<not> fs_plans_poisoned s" "fmlookup (fs_plans s) pid = Some st" "sp_plan st \<noteq> None" for pid st
  proof
    assume "sp_editor_document st = Some d"
    with that released(1,2) assms(1) have "expected = DocPending pid"
      using linkedD [of s pid st d doc] by (simp add: file_inv_def)
    with assms(2) that show False by (auto simp: file_live_def)
  qed
  with file_inv_update_document [OF assms(1) released(1)] released(4) show ?thesis by simp
qed

lemma file_inv_release_plan:
  "file_inv s \<Longrightarrow> (\<not> fs_plans_poisoned s \<Longrightarrow> \<not> file_live s pid) \<Longrightarrow>
   file_inv (snd (release_plan_document ed pid now s))"
  by (cases ed) (auto simp: release_plan_document_def intro!: file_inv_release)

lemma file_inv_drop_plan: "file_inv s \<Longrightarrow> file_inv (s\<lparr>fs_plans := fmdrop pid (fs_plans s)\<rparr>)"
  by (rule file_inv_shrink) (auto split: if_splits)

lemma file_inv_drop_document: "file_inv s \<Longrightarrow> file_inv (s\<lparr>fs_documents := fmdrop d (fs_documents s)\<rparr>)"
  by (rule file_inv_shrink) (auto split: if_splits)

lemma file_inv_remove_document_plan: "file_inv s \<Longrightarrow> file_inv (remove_document_plan pid d s)"
  by (auto simp: remove_document_plan_def file_inv_drop_plan split: option.split)

lemma file_live_drop [simp]: "\<not> file_live (s\<lparr>fs_plans := fmdrop pid m\<rparr>) pid"
  by (simp add: file_live_def)

lemma file_live_documents [simp]: "file_live (s\<lparr>fs_documents := m\<rparr>) = file_live s"
  by (simp add: file_live_def fun_eq_iff)

lemma file_inv_take:
  assumes "file_inv s" "fmlookup (fs_plans s) pid = Some st"
  shows "file_inv (snd (take_plan pid st s))"
  using assms by (auto simp: file_inv_def take_plan_def fm_len_upd linked_def split: if_splits)

lemma insert_with_id_cases:
  obtains (poisoned) e where "fs_plans_poisoned s" "insert_with_id until r now s = (Err e, s)"
  | (full) e where "\<not> fs_plans_poisoned s" "insert_with_id until r now s =
      (Err e, s\<lparr>fs_plans := fm_retain (\<lambda>_ st. sp_expires st > now \<and> sp_plan st \<noteq> None) (fs_plans s)\<rparr>)"
  | (inserted) "\<not> fs_plans_poisoned s"
      "fm_len (fm_retain (\<lambda>_ st. sp_expires st > now \<and> sp_plan st \<noteq> None) (fs_plans s)) < PLAN_CAP"
      "insert_with_id until r now s = (Ok (plan_view until r),
         s\<lparr>fs_plans := fmupd (pi_id r)
            (fresh_plan until (now + fs_lifetime s) r)
            (fm_retain (\<lambda>_ st. sp_expires st > now \<and> sp_plan st \<noteq> None) (fs_plans s))\<rparr>)"
proof -
  let ?m = "fm_retain (\<lambda>_ st. sp_expires st > now \<and> sp_plan st \<noteq> None) (fs_plans s)"
  consider "fs_plans_poisoned s" | "\<not> fs_plans_poisoned s" "PLAN_CAP \<le> fm_len ?m"
    | "\<not> fs_plans_poisoned s" "fm_len ?m < PLAN_CAP" by linarith
  then show ?thesis
  proof cases
    case 1
    with poisoned show ?thesis by (simp add: insert_with_id_def)
  next
    case 2
    with full show ?thesis by (simp add: insert_with_id_def)
  next
    case 3
    then show ?thesis by (intro inserted) (simp_all add: insert_with_id_def)
  qed
qed

lemma file_inv_retain_plans: "file_inv s \<Longrightarrow> file_inv (s\<lparr>fs_plans := fm_retain P (fs_plans s)\<rparr>)"
  by (rule file_inv_shrink) auto

lemma file_inv_retain_documents: "file_inv s \<Longrightarrow> file_inv (s\<lparr>fs_documents := fm_retain P (fs_documents s)\<rparr>)"
  by (rule file_inv_shrink) auto

lemma file_inv_add_plan:
  assumes "file_inv s" "fm_len (fs_plans s) < PLAN_CAP"
    and "\<And>d doc. sp_editor_document st = Some d \<Longrightarrow> fmlookup (fs_documents s) d = Some doc \<Longrightarrow>
           ed_use_state doc = DocPending pid"
  shows "file_inv (s\<lparr>fs_plans := fmupd pid st (fs_plans s)\<rparr>)"
  using assms by (auto simp: file_inv_def fm_len_upd linked_def split: if_splits)

lemma insert_with_id_inv:
  assumes "file_inv s" "pi_editor_document r = None"
  shows "file_inv (snd (insert_with_id until r now s))"
proof (cases rule: insert_with_id_cases [of s until r now])
  case poisoned
  with assms show ?thesis by simp
next
  case full
  with assms show ?thesis by (simp add: file_inv_retain_plans)
next
  case inserted
  let ?s = "s\<lparr>fs_plans := fm_retain (\<lambda>_ st. sp_expires st > now \<and> sp_plan st \<noteq> None) (fs_plans s)\<rparr>"
  show ?thesis
    using file_inv_add_plan [of ?s "fresh_plan until (now + fs_lifetime s) r" "pi_id r"] file_inv_retain_plans [OF assms(1)] inserted assms(2)
    by simp
qed

lemma commit_editor_plan_inv:
  assumes "file_inv s" "fmlookup (fs_plans s) res = None"
  shows "file_inv (snd (commit_editor_plan info d res doc bytes until now s))"
proof (cases "\<not> fs_documents_poisoned s \<and> (\<exists>cur. fmlookup (fs_documents s) d = Some cur \<and>
    now < ed_expires cur \<and> ed_use_state cur = DocPlanning res \<and> document_key cur = info_key info)")
  case False
  then have "snd (commit_editor_plan info d res doc bytes until now s) = s"
    by (auto simp: commit_editor_plan_def not_le split: option.split)
  with assms(1) show ?thesis by simp
next
  case True
  let ?r = "editor_plan_insert info d res doc bytes"
  from True obtain cur where cur: "fmlookup (fs_documents s) d = Some cur" "ed_use_state cur = DocPlanning res"
    "now < ed_expires cur" "document_key cur = info_key info" "\<not> fs_documents_poisoned s" by blast
  have step: "snd (commit_editor_plan info d res doc bytes until now s) =
      (case insert_with_id until ?r now s of (Err e, s1) \<Rightarrow> s1
       | (Ok v, s1) \<Rightarrow> s1\<lparr>fs_documents := fmupd d (cur\<lparr>ed_use_state := DocPending res\<rparr>) (fs_documents s1)\<rparr>)"
    using cur by (simp add: commit_editor_plan_def split: prod.split result.split)
  show ?thesis
  proof (cases rule: insert_with_id_cases [of s until ?r now])
    case poisoned
    with assms step show ?thesis by simp
  next
    case full
    with assms step show ?thesis by (simp add: file_inv_retain_plans)
  next
    case inserted
    let ?s = "s\<lparr>fs_plans := fm_retain (\<lambda>_ st. sp_expires st > now \<and> sp_plan st \<noteq> None) (fs_plans s)\<rparr>"
    let ?t = "?s\<lparr>fs_documents := fmupd d (cur\<lparr>ed_use_state := DocPending res\<rparr>) (fs_documents s)\<rparr>"
    have "sp_editor_document st \<noteq> Some d" if "fmlookup (fs_plans s) pid = Some st" "sp_plan st \<noteq> None" for pid st
    proof
      assume "sp_editor_document st = Some d"
      with that cur(1) assms(1) inserted(1) have "ed_use_state cur = DocPending pid"
        using linkedD [of s pid st d cur] by (simp add: file_inv_def)
      with cur(2) show False by simp
    qed
    then have "file_inv (?s\<lparr>fs_documents := fmupd d (cur\<lparr>ed_use_state := DocPending res\<rparr>) (fs_documents ?s)\<rparr>)"
      by (intro file_inv_update_document [where doc = cur] file_inv_retain_plans [OF assms(1)]) (auto simp: cur(1))
    then have "file_inv ?t" by simp
    then have "file_inv (?t\<lparr>fs_plans := fmupd res (fresh_plan until (now + fs_lifetime s) ?r) (fs_plans ?t)\<rparr>)"
      by (rule file_inv_add_plan) (use inserted(2) in \<open>auto split: if_splits\<close>)
    then show ?thesis using inserted(3) step by (simp add: file_inv_def linked_def)
  qed
qed

lemma reserve_document_inv:
  assumes "file_inv s"
  shows "file_inv (snd (reserve_document info d res now s))"
proof (cases "\<exists>doc. fmlookup (fs_documents s) d = Some doc \<and> ed_use_state doc = DocReady")
  case True
  then obtain doc where doc: "fmlookup (fs_documents s) d = Some doc" "ed_use_state doc = DocReady" by blast
  have "sp_editor_document st \<noteq> Some d"
    if "\<not> fs_plans_poisoned s" "fmlookup (fs_plans s) pid = Some st" "sp_plan st \<noteq> None" for pid st
    using that doc assms linkedD [of s pid st d doc] by (auto simp: file_inv_def)
  then have "file_inv (s\<lparr>fs_documents := fmupd d (doc\<lparr>ed_use_state := DocPlanning res\<rparr>) (fs_documents s)\<rparr>)"
    by (intro file_inv_update_document [OF assms doc(1)]) auto
  with assms doc show ?thesis by (auto simp: reserve_document_def Let_def)
next
  case False
  then have "snd (reserve_document info d res now s) = s"
    by (auto simp: reserve_document_def split: option.split)
  with assms show ?thesis by simp
qed

lemma register_document_inv:
  assumes "file_inv s" "document_unused new s"
  shows "file_inv (snd (register_editor_document digest info path revision orig nl bom new now s))"
proof -
  let ?s1 = "s\<lparr>fs_documents := fm_retain (\<lambda>_ d. \<not> retired_document info path now d) (fs_documents s)\<rparr>"
  let ?s2 = "\<lambda>P. ?s1\<lparr>fs_plans := fm_retain P (fs_plans s)\<rparr>"
  have inv: "file_inv ?s1" "file_inv (?s2 P)" for P
    using file_inv_retain_documents [OF assms(1)] file_inv_retain_plans [of ?s1 P] by simp_all
  have new: "file_inv (t\<lparr>fs_documents := fmupd new doc (fs_documents t)\<rparr>)"
    if "file_inv t" "fm_len (fs_documents t) < PLAN_CAP" "fs_plans_poisoned t = fs_plans_poisoned s"
      "\<And>pid st. fmlookup (fs_plans t) pid = Some st \<Longrightarrow> fmlookup (fs_plans s) pid = Some st" for t doc
    using that assms(2)
    by (fastforce simp: file_inv_def document_unused_def fm_len_upd linked_def split: if_splits)
  show ?thesis
    using assms(1) inv new [of ?s1] new [of "?s2 P" for P]
    by (simp add: register_editor_document_def Let_def not_le split: result.split)
qed

lemma file_step_inv:
  assumes "file_inv s" "file_enabled e s"
  shows "file_inv (file_step e s)"
proof (cases e)
  case FRegister
  with assms show ?thesis by (simp add: register_document_inv)
next
  case (FDiscardDocument d key)
  with assms show ?thesis
    by (auto simp: discard_editor_document_def Let_def file_inv_drop_document file_inv_remove_document_plan
        split: option.split)
next
  case FReserve
  with assms show ?thesis by (simp add: reserve_document_inv)
next
  case FCommit
  with assms show ?thesis by (simp add: commit_editor_plan_inv)
next
  case FDropGuard
  with assms show ?thesis by (auto simp: drop_planning_guard_def intro!: file_inv_release)
next
  case FInsert
  with assms show ?thesis by (simp add: insert_with_id_inv)
next
  case (FDiscard pid key now)
  with assms show ?thesis
    by (auto simp: file_discard_def Let_def intro!: file_inv_release_plan file_inv_drop_plan split: option.split)
next
  case (FConsume pid key now)
  with assms show ?thesis
    by (auto simp: file_consume_def Let_def intro!: file_inv_release_plan file_inv_drop_plan file_inv_take
        file_inv_drop_document split: option.split)
next
  case (FRevokeSession h hs)
  with assms show ?thesis
    by (auto simp: file_revoke_session_def Let_def intro!: file_inv_shrink [OF assms(1)])
next
  case FRevokeAll
  with assms show ?thesis by (auto simp: revoke_all_def Let_def intro!: file_inv_shrink [OF assms(1)])
next
  case (FPlanExpiry pid expires ed now)
  with assms show ?thesis
    by (auto simp: plan_expiry_fires_def Let_def file_live_def intro!: file_inv_release file_inv_drop_plan
        split: option.splits)
next
  case (FDocumentExpiry d expires)
  with assms show ?thesis
    by (auto simp: document_expiry_fires_def Let_def intro!: file_inv_drop_document
        file_inv_remove_document_plan split: option.split)
qed

section \<open>Plans as one-shot authority\<close>

lemma file_consume_Ok:
  assumes "file_consume pid key now s = (Ok p, s')"
  shows "\<exists>st. fmlookup (fs_plans s) pid = Some st \<and> sp_plan st = Some p \<and> now \<le> sp_expires st
    \<and> plan_key p = key \<and> \<not> fs_plans_poisoned s \<and> \<not> fs_documents_poisoned s
    \<and> fs_plans s' = fmupd pid (st\<lparr>sp_plan := None\<rparr>) (fs_plans s)
    \<and> (case sp_editor_document st of
         None \<Rightarrow> fs_documents s' = fs_documents s
       | Some d \<Rightarrow> document_authorised d pid key now s \<and> fs_documents s' = fmdrop d (fs_documents s))"
proof (cases "fmlookup (fs_plans s) pid")
  case None
  with assms show ?thesis by (simp add: file_consume_def split: if_splits)
next
  case (Some st)
  with assms show ?thesis
    by (cases "sp_plan st"; cases "sp_editor_document st")
      (auto simp: file_consume_def take_plan_def not_less split: if_splits)
qed

lemma file_consume_spent: "file_consume pid key now s = (Ok p, s') \<Longrightarrow> \<not> file_live s' pid"
  by (drule file_consume_Ok) (auto simp: file_live_def)

lemma plans_subset_live:
  "(\<And>st. fmlookup (fs_plans s') pid = Some st \<Longrightarrow> sp_plan st \<noteq> None \<Longrightarrow> fmlookup (fs_plans s) pid = Some st) \<Longrightarrow>
   file_live s' pid \<Longrightarrow> file_live s pid"
  by (auto simp: file_live_def split: option.splits)

lemma insert_live:
  "file_live (snd (insert_with_id until r now s)) pid \<Longrightarrow> file_live s pid \<or> pi_id r = pid"
  by (cases rule: insert_with_id_cases [of s until r now])
    (auto simp: file_live_def split: option.splits if_splits)

lemma commit_live:
  "file_live (snd (commit_editor_plan info d res doc bytes until now s)) pid \<Longrightarrow> file_live s pid \<or> res = pid"
  using insert_live [of until "editor_plan_insert info d res doc bytes" now s pid]
  by (cases "insert_with_id until (editor_plan_insert info d res doc bytes) now s")
    (auto simp: commit_editor_plan_def split: option.splits if_splits result.splits)

lemma file_step_live:
  assumes "file_live (file_step e s) pid"
  shows "file_live s pid \<or> file_issues e pid"
proof (cases e)
  case FInsert
  with assms show ?thesis using insert_live by auto
next
  case FCommit
  with assms show ?thesis using commit_live by auto
next
  case (FConsume p key now)
  with assms show ?thesis
    by (auto simp: file_consume_def take_plan_def release_plan_document_def file_live_def
        split: if_splits option.splits)
next
  case (FDiscard p key now)
  with assms show ?thesis
    by (auto simp: file_discard_def Let_def file_live_def split: if_splits option.splits)
qed (use assms in \<open>auto simp: register_editor_document_def discard_editor_document_def reserve_document_def
  drop_planning_guard_def file_revoke_session_def revoke_all_def plan_expiry_fires_def
  document_expiry_fires_def remove_document_plan_def file_live_def Let_def
  split: if_splits option.splits result.splits\<close>)

interpretation file_plans: one_shot file_enabled file_step file_inv file_live file_issues
  "\<lambda>(pid, key, now). pid" "\<lambda>(pid, key, now). file_consume pid key now"
proof unfold_locales
  fix s e i
  show "file_inv s \<Longrightarrow> file_enabled e s \<Longrightarrow> file_inv (file_step e s)" by (rule file_step_inv)
  show "file_inv s \<Longrightarrow> file_enabled e s \<Longrightarrow> file_live (file_step e s) i \<Longrightarrow> file_live s i \<or> file_issues e i"
    using file_step_live by blast
next
  fix s s' q p r
  show "file_inv s \<Longrightarrow> (case q of (pid, key, now) \<Rightarrow> file_consume pid key now) s = (r, s') \<Longrightarrow> file_inv s'"
    using file_step_inv [of s "FConsume (fst q) (fst (snd q)) (snd (snd q))"] by (cases q) simp
  assume "(case q of (pid, key, now) \<Rightarrow> file_consume pid key now) s = (Ok p, s')"
  then show "file_live s (case q of (pid, key, now) \<Rightarrow> pid)" "\<not> file_live s' (case q of (pid, key, now) \<Rightarrow> pid)"
    using file_consume_Ok file_consume_spent by (cases q; fastforce simp: file_live_def)+
qed

interpretation file_plan_count: bounded_store file_enabled file_step file_inv "\<lambda>s. fm_len (fs_plans s)" PLAN_CAP
  by unfold_locales (simp add: file_inv_def)

interpretation editor_document_count: bounded_store file_enabled file_step file_inv
  "\<lambda>s. fm_len (fs_documents s)" PLAN_CAP
  by unfold_locales (simp add: file_inv_def)

section \<open>Retired documents\<close>

fun registers_document :: "file_event \<Rightarrow> editor_document_id \<Rightarrow> bool" where
  "registers_document (FRegister digest info path revision orig nl bom new now) d = (new = d)"
| "registers_document _ d = False"

lemma release_absent:
  "fmlookup (fs_documents s) d = None \<Longrightarrow> fmlookup (fs_documents (snd (release_editor_reservation d' expected now s))) d = None"
  by (cases rule: release_cases [of d' expected now s]) auto

lemma insert_documents [simp]: "fs_documents (snd (insert_with_id until r now s)) = fs_documents s"
  by (cases rule: insert_with_id_cases [of s until r now]) simp_all

lemma document_absent_step:
  assumes "fmlookup (fs_documents s) d = None" "\<not> registers_document e d"
  shows "fmlookup (fs_documents (file_step e s)) d = None"
proof (cases e)
  case (FCommit info d' res doc bytes until now)
  with assms show ?thesis
    using insert_documents [of until "editor_plan_insert info d' res doc bytes" now s]
    by (cases "insert_with_id until (editor_plan_insert info d' res doc bytes) now s")
      (auto simp: commit_editor_plan_def split: option.split result.split)
next
  case FRegister
  with assms show ?thesis
    by (auto simp: register_editor_document_def Let_def split: result.split)
next
  case (FDiscard p key now)
  with assms show ?thesis
    by (auto simp: file_discard_def Let_def release_plan_document_def release_absent split: option.split)
next
  case (FConsume p key now)
  with assms show ?thesis
    by (auto simp: file_consume_def take_plan_def release_plan_document_def release_absent split: option.split)
qed (use assms in \<open>auto simp: discard_editor_document_def reserve_document_def drop_planning_guard_def
  file_revoke_session_def revoke_all_def plan_expiry_fires_def document_expiry_fires_def
  remove_document_plan_def release_absent Let_def split: option.split\<close>)

lemma document_absent_run:
  "fmlookup (fs_documents s) d = None \<Longrightarrow> list_all (\<lambda>e. \<not> registers_document e d) es \<Longrightarrow>
   fmlookup (fs_documents (fold file_step es s)) d = None"
  by (induction es arbitrary: s) (simp_all add: document_absent_step)

section \<open>Properties\<close>

definition ex_info :: sftp_session_info where
  "ex_info = \<lparr>si_id = SftpSessionId 3, si_host_id = HostId 1, si_host_session_id = HostSessionId 2,
     si_protocol_version = 3, si_extensions = [], si_limits =
       \<lparr>lim_max_packet_bytes = None, lim_max_read_bytes = None, lim_max_write_bytes = None,
        lim_max_open_handles = None, lim_client_chunk_bytes = [], lim_listing_entry_cap = 5000\<rparr>,
     si_root_path = ''/''\<rparr>"

definition ex_key :: session_key where
  "ex_key = (HostId 1, HostSessionId 2, SftpSessionId 3)"

definition ex_insert :: plan_insert where
  "ex_insert = \<lparr>pi_id = FilePlanId 7, pi_info = ex_info, pi_kind = FCreateDirectory, pi_risk = Low,
     pi_conflict_policy = None, pi_items = [], pi_payload = MutationPayload ex_info (MCreateDirectory ''/srv/new''),
     pi_editor_document = None\<rparr>"

lemma ex_insert_sel:
  "pi_id ex_insert = FilePlanId 7" "pi_info ex_insert = ex_info" "pi_editor_document ex_insert = None"
  "pi_payload ex_insert = MutationPayload ex_info (MCreateDirectory ''/srv/new'')" "info_key ex_info = ex_key"
  by (simp_all add: ex_insert_def ex_info_def info_key_def ex_key_def)

definition ex_files :: file_plan_store where
  "ex_files = snd (insert_with_id [] ex_insert 10 file_plan_store_default)"

lemma ex_files_insert:
  "insert_with_id [] ex_insert 10 file_plan_store_default = (Ok (plan_view [] ex_insert), ex_files)"
  by (simp add: ex_files_def insert_with_id_def file_plan_store_default_def PLAN_CAP_def Let_def)

lemma ex_files_fields:
  "fs_plans ex_files = fmupd (FilePlanId 7) (fresh_plan [] (10 + PLAN_LIFETIME) ex_insert) fmempty"
  "fs_documents ex_files = fmempty" "\<not> fs_plans_poisoned ex_files" "\<not> fs_documents_poisoned ex_files"
  by (simp_all add: ex_files_def insert_with_id_def file_plan_store_default_def PLAN_CAP_def Let_def ex_insert_def)

lemma file_inv_default: "file_inv file_plan_store_default"
  by (simp add: file_inv_def file_plan_store_default_def linked_def)

lemma ex_files_inv: "file_inv ex_files"
  using insert_with_id_inv [OF file_inv_default, of ex_insert "[]" 10] by (simp add: ex_files_def ex_insert_def)

text \<open>
  C4: A reviewed file operation is executed at most once: after a successful consumption no later
  consumption of the same plan identifier succeeds, from any session and at any time, whatever
  plans, saves, discards, revocations and expiry tasks run in between, unless the identifier is
  issued again.
\<close>

theorem file_plan_redeemed_once:
  assumes "file_inv s" "file_consume pid key now s = (Ok p, s')"
    and "enabled_run file_enabled file_step es s'" "\<forall>e\<in>set es. \<not> file_issues e pid"
  shows "\<not> is_ok (fst (file_consume pid key' now' (fold file_step es s')))"
  using file_plans.redeemed_once [of s "(pid, key, now)" p s' es "(pid, key', now')"] assms by simp

lemma ex_files_consume:
  "file_consume (FilePlanId 7) ex_key 20 ex_files =
     (Ok \<lparr>ip_view = plan_view [] ex_insert, ip_payload = pi_payload ex_insert\<rparr>,
      snd (file_consume (FilePlanId 7) ex_key 20 ex_files))"
  by (simp add: file_consume_def ex_files_fields take_plan_def plan_key_def plan_view_def ex_insert_def
      ex_info_def ex_key_def PLAN_LIFETIME_def from_secs_def)

theorem file_plan_redeemed_once_witness:
  "\<not> is_ok (fst (file_consume (FilePlanId 7) ex_key 30
     (fold file_step [FRevokeSession (HostId 9) (HostSessionId 9)]
       (snd (file_consume (FilePlanId 7) ex_key 20 ex_files)))))"
  by (rule file_plan_redeemed_once [OF ex_files_inv ex_files_consume]) simp_all

text \<open>
  C34: What was reviewed is what runs. A plan that was inserted is returned by consumption under the
  same session, until its lifetime is over, with exactly the payload and the view that were shown
  for approval.
\<close>

theorem file_plan_round_trip:
  assumes "insert_with_id until r now s = (Ok v, s')" "pi_editor_document r = None"
    and "\<not> fs_documents_poisoned s" "now' \<le> now + fs_lifetime s"
  shows "fst (file_consume (pi_id r) (info_key (pi_info r)) now' s') =
      Ok \<lparr>ip_view = v, ip_payload = pi_payload r\<rparr>"
  using assms
  by (cases rule: insert_with_id_cases [of s until r now])
    (auto simp: file_consume_def take_plan_def plan_key_def plan_view_def info_key_def)

theorem file_plan_round_trip_witness:
  "fst (file_consume (FilePlanId 7) ex_key 20 ex_files) =
     Ok \<lparr>ip_view = plan_view [] ex_insert, ip_payload = MutationPayload ex_info (MCreateDirectory ''/srv/new'')\<rparr>"
  using file_plan_round_trip [OF ex_files_insert, of 20]
  by (simp add: ex_insert_sel file_plan_store_default_def PLAN_LIFETIME_def from_secs_def)

text \<open>
  C5: An opened document is saved at most once. Consuming the save of a document retires the
  document for good: no later plan for the same document can be consumed, however the store is
  used in between, because document identifiers are not registered twice.
\<close>

theorem editor_document_saved_once:
  assumes "file_consume pid key now s = (Ok p, s')"
    and "fmlookup (fs_plans s) pid = Some st" "sp_editor_document st = Some d"
    and "list_all (\<lambda>e. \<not> registers_document e d) es"
    and "fmlookup (fs_plans (fold file_step es s')) pid' = Some st'" "sp_editor_document st' = Some d"
  shows "\<not> is_ok (fst (file_consume pid' key' now' (fold file_step es s')))"
proof
  let ?t = "fold file_step es s'"
  have "fmlookup (fs_documents s') d = None"
    using file_consume_Ok [OF assms(1)] assms(2,3) by auto
  then have absent: "fmlookup (fs_documents ?t) d = None"
    using assms(4) by (rule document_absent_run)
  assume "is_ok (fst (file_consume pid' key' now' ?t))"
  then obtain q u where "file_consume pid' key' now' ?t = (Ok q, u)"
    by (metis is_ok_iff prod.collapse)
  with file_consume_Ok [of pid' key' now' ?t q u] assms(5,6) absent show False
    by (auto simp: document_authorised_def)
qed

definition ex_document :: editor_document where
  "ex_document = \<lparr>ed_host = HostId 1, ed_host_session = HostSessionId 2, ed_sftp = SftpSessionId 3,
     ed_path = ''/etc/motd'', ed_revision = \<lparr>rev_identity = \<lparr>ei_kind = KFile, ei_size = None, ei_modified = None\<rparr>,
       rev_raw_mode = 0, rev_uid = 0, rev_gid = 0\<rparr>, ed_content_digest = [], ed_newline = Lf, ed_bom = False,
     ed_expires = 1000, ed_use_state = DocPending (FilePlanId 8)\<rparr>"

definition ex_save :: "file_plan_id \<Rightarrow> stored_plan" where
  "ex_save pid = fresh_plan [] 500 (editor_plan_insert ex_info (EditorDocumentId 4) pid ex_document ''hi'')"

definition ex_editing :: file_plan_store where
  "ex_editing = file_plan_store_default\<lparr>fs_documents := fmupd (EditorDocumentId 4) ex_document fmempty,
     fs_plans := fmupd (FilePlanId 9) (ex_save (FilePlanId 9)) (fmupd (FilePlanId 8) (ex_save (FilePlanId 8)) fmempty)\<rparr>"

theorem editor_document_saved_once_witness:
  "\<not> is_ok (fst (file_consume (FilePlanId 9) ex_key 30
     (fold file_step [FDropGuard (EditorDocumentId 4) (FilePlanId 9) 25]
       (snd (file_consume (FilePlanId 8) ex_key 20 ex_editing)))))"
proof -
  have c: "\<exists>p. file_consume (FilePlanId 8) ex_key 20 ex_editing =
      (Ok p, ex_editing\<lparr>fs_documents := fmempty, fs_plans := fmupd (FilePlanId 8)
         ((ex_save (FilePlanId 8))\<lparr>sp_plan := None\<rparr>) (fs_plans ex_editing)\<rparr>)"
    by (simp add: file_consume_def ex_editing_def ex_save_def file_plan_store_default_def take_plan_def
        document_authorised_def document_key_def ex_document_def ex_key_def plan_key_def plan_view_def
        editor_plan_insert_def ex_info_def fmdrop_fmupd)
  then obtain p where p: "file_consume (FilePlanId 8) ex_key 20 ex_editing =
      (Ok p, ex_editing\<lparr>fs_documents := fmempty, fs_plans := fmupd (FilePlanId 8)
         ((ex_save (FilePlanId 8))\<lparr>sp_plan := None\<rparr>) (fs_plans ex_editing)\<rparr>)" ..
  show ?thesis unfolding p snd_conv
    by (rule editor_document_saved_once [OF p, of "ex_save (FilePlanId 8)" "EditorDocumentId 4" _ _ "ex_save (FilePlanId 9)"])
      (simp_all add: ex_editing_def ex_save_def drop_planning_guard_def release_editor_reservation_def
        file_plan_store_default_def)
qed

text \<open>
  Ending a session ends its plans. After the session is revoked, no plan that belonged to it
  can ever be consumed again, whatever happens afterwards, unless its identifier is issued anew.
\<close>

theorem file_revoked_session_dead:
  assumes "file_inv s" "\<not> fs_plans_poisoned s" "fmlookup (fs_plans s) pid = Some st" "sp_plan st = Some p"
    and "fo_host_id (ip_view p) = h" "fo_host_session_id (ip_view p) = hs"
    and "enabled_run file_enabled file_step es (file_revoke_session h hs s)"
    and "\<forall>e\<in>set es. \<not> file_issues e pid"
  shows "\<not> is_ok (fst (file_consume pid key now (fold file_step es (file_revoke_session h hs s))))"
proof -
  have "\<not> file_live (file_revoke_session h hs s) pid"
    using assms(2-6) by (auto simp: file_revoke_session_def file_live_def Let_def split: option.split)
  moreover have "file_inv (file_revoke_session h hs s)"
    using file_step_inv [OF assms(1), of "FRevokeSession h hs"] by simp
  ultimately show ?thesis
    using file_plans.dead_stays_dead [of "file_revoke_session h hs s" es "(pid, key, now)"] assms(7,8)
    by simp
qed

theorem file_revoked_session_dead_witness:
  "\<not> is_ok (fst (file_consume (FilePlanId 7) ex_key 30
     (fold file_step [FDiscard (FilePlanId 8) ex_key 25] (file_revoke_session (HostId 1) (HostSessionId 2) ex_files))))"
  by (rule file_revoked_session_dead [OF ex_files_inv, of _ "fresh_plan [] (10 + PLAN_LIFETIME) ex_insert"
        "\<lparr>ip_view = plan_view [] ex_insert, ip_payload = pi_payload ex_insert\<rparr>"])
    (simp_all add: ex_files_fields plan_view_def ex_insert_def ex_info_def)

text \<open>
  The store of file plans and editor documents is bounded: at most one hundred of each, in every
  reachable state.
\<close>

theorem file_store_bounded:
  assumes "enabled_run file_enabled file_step es file_plan_store_default"
  shows "fm_len (fs_plans (fold file_step es file_plan_store_default)) \<le> 100
       \<and> fm_len (fs_documents (fold file_step es file_plan_store_default)) \<le> 100"
  using file_plan_count.run_bounded [OF file_inv_default assms]
    editor_document_count.run_bounded [OF file_inv_default assms]
  by (simp add: PLAN_CAP_def)

theorem file_store_bounded_witness:
  "fm_len (fs_plans (fold file_step [FInsert [] ex_insert 10, FConsume (FilePlanId 7) ex_key 20]
     file_plan_store_default)) \<le> 100"
proof -
  have "enabled_run file_enabled file_step [FInsert [] ex_insert 10, FConsume (FilePlanId 7) ex_key 20]
     file_plan_store_default"
    by (simp add: file_plan_store_default_def ex_insert_def)
  from file_store_bounded [OF this] show ?thesis by blast
qed

end
