(* ===== verification/File_Planning.thy ===== *)
theory File_Planning
  imports File_Plans
begin

text \<open>
  The planners of \<^verbatim>\<open>crates/nexus-sftp/src/policy.rs\<close>: \<open>plan_editor_save\<close>, \<open>plan_upload\<close>,
  \<open>plan_download\<close> and \<open>plan_mutation\<close>. What the SFTP client and the local file system answer
  during one planning call are arguments.
\<close>

section \<open>Saving an edited document\<close>

definition posix_rename :: string where "posix_rename = ''posix-rename@openssh.com''"
definition hardlink :: string where "hardlink = ''hardlink@openssh.com''"

text \<open>The checks between the two critical sections: what may be saved, and that nothing changed.\<close>

definition check_editor_save ::
  "(string \<Rightarrow> string) \<Rightarrow> sftp_session_info \<Rightarrow> (string \<Rightarrow> editor_revision app_result) \<Rightarrow>
   (string \<Rightarrow> string app_result) \<Rightarrow> editor_document \<Rightarrow> string \<Rightarrow> string app_result" where
  "check_editor_save digest info revision_of bytes_of doc txt =
     (if \<not> supports info posix_rename ''1''
      then Err (AppError_new SftpUnavailable ''Safe editor replacement requires posix-rename@openssh.com v1.'')
      else and_then (encode_text txt (ed_newline doc) (ed_bom doc)) (\<lambda>bytes.
           and_then (revision_of (ed_path doc)) (\<lambda>r.
             if r \<noteq> ed_revision doc
             then Err (AppError_new Conflict ''The remote file changed since it was opened.'')
             else and_then (bytes_of (ed_path doc)) (\<lambda>cur.
                    if digest cur \<noteq> ed_content_digest doc
                    then Err (AppError_new Conflict ''The remote file contents changed since it was opened.'')
                    else Ok bytes))))"

text \<open>
  The whole call: reserve, let other tasks run (\<open>es\<close>) while the client is asked, commit. The
  planning guard releases the reservation on every failure after the reservation.
\<close>

definition plan_editor_save ::
  "(string \<Rightarrow> string) \<Rightarrow> sftp_session_info \<Rightarrow> (string \<Rightarrow> editor_revision app_result) \<Rightarrow>
   (string \<Rightarrow> string app_result) \<Rightarrow> editor_document_id \<Rightarrow> string \<Rightarrow> file_plan_id \<Rightarrow> string \<Rightarrow>
   instant \<Rightarrow> file_event list \<Rightarrow> instant \<Rightarrow> file_plan_store \<Rightarrow> file_operation_plan app_result \<times> file_plan_store" where
  "plan_editor_save digest info revision_of bytes_of d txt res until now1 es now2 s =
     (case reserve_document info d res now1 s of
        (Err e, s1) \<Rightarrow> (Err e, s1)
      | (Ok doc, s1) \<Rightarrow>
          let s2 = fold file_step es s1
          in (case check_editor_save digest info revision_of bytes_of doc txt of
                Err e \<Rightarrow> (Err e, drop_planning_guard d res now2 s2)
              | Ok bytes \<Rightarrow>
                  (case commit_editor_plan info d res doc bytes until now2 s2 of
                     (Ok v, s3) \<Rightarrow> (Ok v, s3)
                   | (Err e, s3) \<Rightarrow> (Err e, drop_planning_guard d res now2 s3))))"

section \<open>Names that keep both files\<close>

definition split_name :: "string \<Rightarrow> string \<times> string" where
  "split_name name =
     (case rsplit_once (CHR ''.'') name of
        Some (stem, ext) \<Rightarrow> if stem \<noteq> [] then (stem, CHR ''.'' # ext) else (name, [])
      | None \<Rightarrow> (name, []))"

definition numbered_name :: "string \<Rightarrow> nat \<Rightarrow> string" where
  "numbered_name name n =
     (let (stem, ext) = split_name name in stem @ '' ('' @ fmt_dec n @ '')'' @ ext)"

definition no_keep_both :: app_error where
  "no_keep_both = policy_error ''No available Keep both name was found.''"

text \<open>The loop over \<open>1..=1000\<close>; \<open>k\<close> candidates are left.\<close>

fun keep_both_remote_from ::
  "(string \<Rightarrow> entry_identity option app_result) \<Rightarrow> string \<Rightarrow> string \<Rightarrow> nat \<Rightarrow> nat \<Rightarrow> string app_result" where
  "keep_both_remote_from ident dir name n 0 = Err no_keep_both"
| "keep_both_remote_from ident dir name n (Suc k) =
     and_then (join_remote dir (numbered_name name n)) (\<lambda>candidate.
     and_then (ident candidate) (\<lambda>found.
       if found = None then Ok candidate else keep_both_remote_from ident dir name (Suc n) k))"

definition keep_both_remote ::
  "(string \<Rightarrow> entry_identity option app_result) \<Rightarrow> string \<Rightarrow> string \<Rightarrow> string app_result" where
  "keep_both_remote ident dir name = keep_both_remote_from ident dir name 1 1000"

fun keep_both_local_from :: "(string \<Rightarrow> bool) \<Rightarrow> string \<Rightarrow> nat \<Rightarrow> nat \<Rightarrow> string app_result" where
  "keep_both_local_from exists name n 0 = Err no_keep_both"
| "keep_both_local_from exists name n (Suc k) =
     (if \<not> exists (numbered_name name n) then Ok (numbered_name name n)
      else keep_both_local_from exists name (Suc n) k)"

definition keep_both_local :: "(string \<Rightarrow> bool) \<Rightarrow> string \<Rightarrow> string app_result" where
  "keep_both_local exists name = keep_both_local_from exists name 1 1000"

section \<open>Uploads\<close>

definition upload_destination ::
  "sftp_session_info \<Rightarrow> (string \<Rightarrow> entry_identity option app_result) \<Rightarrow> string \<Rightarrow> conflict_policy \<Rightarrow> string \<Rightarrow>
   string \<Rightarrow> entry_identity option \<Rightarrow> (string \<times> entry_identity destination_action) app_result" where
  "upload_destination info ident dir policy name base existing =
     (case existing of
        None \<Rightarrow>
          if supports info hardlink ''1'' then Ok (base, ACreateNew)
          else Err (policy_error ''Safe new-file finalization requires hardlink@openssh.com v1.'')
      | Some i \<Rightarrow>
          (case policy of
             PSkip \<Rightarrow> Ok (base, ASkip)
           | PReplace \<Rightarrow>
               if ei_kind i = KFile \<and> supports info posix_rename ''1'' then Ok (base, AReplaceExisting i)
               else Err (policy_error ''Replace is limited to an existing regular file.'')
           | PKeepBoth \<Rightarrow>
               if \<not> supports info hardlink ''1''
               then Err (policy_error ''Safe Keep both finalization requires hardlink@openssh.com v1.'')
               else and_then (keep_both_remote ident dir name) (\<lambda>c. Ok (c, ACreateNew))))"

definition plan_upload_item ::
  "sftp_session_info \<Rightarrow> (local_item \<Rightarrow> unit app_result) \<Rightarrow> (string \<Rightarrow> entry_identity option app_result) \<Rightarrow>
   string \<Rightarrow> conflict_policy \<Rightarrow> local_item \<Rightarrow> (file_plan_item \<times> planned_upload) app_result" where
  "plan_upload_item info validate_source ident dir policy source =
     and_then (validate_source source) (\<lambda>_.
     and_then (validate_child_name (lc_display_name source)) (\<lambda>_.
     and_then (join_remote dir (lc_display_name source)) (\<lambda>base.
     and_then (ident base) (\<lambda>existing.
     and_then (upload_destination info ident dir policy (lc_display_name source) base existing) (\<lambda>(dest, action).
       Ok (\<lparr>fi_source_display = display_name (lc_display_name source), fi_destination_display = display_name dest,
            fi_size_bytes = Some (fmt_dec (unat (lc_size source)))\<rparr>,
           \<lparr>pu_source = source, pu_destination = dest, pu_action = action\<rparr>))))))"

text \<open>\<open>insert\<close> draws the plan identifier; plain plans have no editor document.\<close>

definition plan_insert_of ::
  "file_plan_id \<Rightarrow> sftp_session_info \<Rightarrow> file_operation_kind \<Rightarrow> operation_risk \<Rightarrow> conflict_policy option \<Rightarrow>
   file_plan_item list \<Rightarrow> plan_payload \<Rightarrow> plan_insert" where
  "plan_insert_of pid info kind risk policy items payload =
     \<lparr>pi_id = pid, pi_info = info, pi_kind = kind, pi_risk = risk, pi_conflict_policy = policy,
      pi_items = items, pi_payload = payload, pi_editor_document = None\<rparr>"

definition plan_upload ::
  "sftp_session_info \<Rightarrow> (local_item \<Rightarrow> unit app_result) \<Rightarrow> (string \<Rightarrow> entry_identity option app_result) \<Rightarrow>
   local_item list \<Rightarrow> string \<Rightarrow> conflict_policy \<Rightarrow> file_plan_id \<Rightarrow> string \<Rightarrow> instant \<Rightarrow> file_plan_store \<Rightarrow>
   file_operation_plan app_result \<times> file_plan_store" where
  "plan_upload info validate_source ident sources dir policy pid until now s =
     (case and_then (validate_remote_path dir) (\<lambda>_.
             if sources = [] then Err (policy_error ''Select at least one regular file.'')
             else try_map (plan_upload_item info validate_source ident dir policy) sources) of
        Err e \<Rightarrow> (Err e, s)
      | Ok planned \<Rightarrow>
          insert_with_id until (plan_insert_of pid info FUpload Moderate (Some policy) (map fst planned)
            (UploadPayload info policy (map snd planned))) now s)"

section \<open>Downloads\<close>

text \<open>
  The local directory is fixed by the grant; its entries are named by their file names.
  \<open>local_identity\<close>, \<open>exists\<close> and \<open>shown\<close> are the metadata, existence and display text of an entry.
\<close>

definition download_destination ::
  "(string \<Rightarrow> bool) \<Rightarrow> conflict_policy \<Rightarrow> string \<Rightarrow> local_identity option \<Rightarrow>
   (string \<times> local_identity destination_action) app_result" where
  "download_destination exists policy name existing =
     (case existing of
        None \<Rightarrow> Ok (name, ACreateNew)
      | Some i \<Rightarrow>
          (case policy of
             PSkip \<Rightarrow> Ok (name, ASkip)
           | PReplace \<Rightarrow> Ok (name, AReplaceExisting i)
           | PKeepBoth \<Rightarrow> and_then (keep_both_local exists name) (\<lambda>c. Ok (c, ACreateNew))))"

definition plan_download_item ::
  "(string \<Rightarrow> remote_entry app_result) \<Rightarrow> (string \<Rightarrow> entry_identity option app_result) \<Rightarrow>
   (local_directory \<Rightarrow> unit app_result) \<Rightarrow> (string \<Rightarrow> local_identity option app_result) \<Rightarrow>
   (string \<Rightarrow> bool) \<Rightarrow> (string \<Rightarrow> string) \<Rightarrow> local_directory \<Rightarrow> conflict_policy \<Rightarrow> string \<Rightarrow>
   (file_plan_item \<times> planned_download) app_result" where
  "plan_download_item stat ident validate_dir local_ident exists shown dir policy path =
     and_then (stat path) (\<lambda>entry.
       if re_kind entry \<noteq> KFile then Err (policy_error ''Only regular files can be downloaded.'')
       else
         and_then (validate_windows_file_name (re_name entry)) (\<lambda>_.
         and_then (validate_dir dir) (\<lambda>_.
         and_then (local_ident (re_name entry)) (\<lambda>existing.
         and_then (download_destination exists policy (re_name entry) existing) (\<lambda>(file, action).
         and_then (ident path) (\<lambda>found.
         and_then (ok_or found (AppError_new NotFound ''The remote source no longer exists.'')) (\<lambda>i.
           Ok (\<lparr>fi_source_display = re_display_name entry, fi_destination_display = display_name (shown file),
                fi_size_bytes = re_size_bytes entry\<rparr>,
               \<lparr>pw_source = \<lparr>rs_path = path, rs_name = re_name entry, rs_size = ei_size i, rs_identity = i\<rparr>,
                pw_destination = dir, pw_file_name = file, pw_action = action\<rparr>))))))))"

definition plan_download ::
  "sftp_session_info \<Rightarrow> (string \<Rightarrow> remote_entry app_result) \<Rightarrow> (string \<Rightarrow> entry_identity option app_result) \<Rightarrow>
   (local_directory \<Rightarrow> unit app_result) \<Rightarrow> (string \<Rightarrow> local_identity option app_result) \<Rightarrow>
   (string \<Rightarrow> bool) \<Rightarrow> (string \<Rightarrow> string) \<Rightarrow> string list \<Rightarrow> local_directory \<Rightarrow> conflict_policy \<Rightarrow>
   file_plan_id \<Rightarrow> string \<Rightarrow> instant \<Rightarrow> file_plan_store \<Rightarrow> file_operation_plan app_result \<times> file_plan_store" where
  "plan_download info stat ident validate_dir local_ident exists shown paths dir policy pid until now s =
     (case (if paths = [] then Err (policy_error ''Select at least one regular file.'')
            else try_map (plan_download_item stat ident validate_dir local_ident exists shown dir policy) paths) of
        Err e \<Rightarrow> (Err e, s)
      | Ok planned \<Rightarrow>
          insert_with_id until (plan_insert_of pid info FDownload Moderate (Some policy) (map fst planned)
            (DownloadPayload info policy (map snd planned))) now s)"

section \<open>Mutations\<close>

definition mutation_item :: "string \<Rightarrow> string \<Rightarrow> file_plan_item" where
  "mutation_item source dest =
     \<lparr>fi_source_display = source, fi_destination_display = dest, fi_size_bytes = None\<rparr>"

fun review_mutation :: "mutation_spec \<Rightarrow> (file_operation_kind \<times> operation_risk \<times> file_plan_item) app_result" where
  "review_mutation (MCreateDirectory path) =
     and_then (validate_remote_path path) (\<lambda>_.
       Ok (FCreateDirectory, Low, mutation_item ''New directory'' (display_name path)))"
| "review_mutation (MRename source dest expected) =
     and_then (validate_remote_path source) (\<lambda>_.
     and_then (validate_remote_path dest) (\<lambda>_.
       Ok (FRename, Moderate, mutation_item (display_name source) (display_name dest))))"
| "review_mutation (MDelete path kind expected) =
     and_then (validate_remote_path path) (\<lambda>_.
       Ok (FDelete, Destructive, mutation_item (display_name path) ''Permanent deletion''))"

definition plan_mutation ::
  "sftp_session_info \<Rightarrow> mutation_spec \<Rightarrow> file_plan_id \<Rightarrow> string \<Rightarrow> instant \<Rightarrow> file_plan_store \<Rightarrow>
   file_operation_plan app_result \<times> file_plan_store" where
  "plan_mutation info spec pid until now s =
     (case review_mutation spec of
        Err e \<Rightarrow> (Err e, s)
      | Ok (kind, risk, item) \<Rightarrow>
          insert_with_id until (plan_insert_of pid info kind risk None [item] (MutationPayload info spec)) now s)"

section \<open>Lemmas\<close>

lemma keep_both_remote_from_Ok:
  "keep_both_remote_from ident dir name n k = Ok c \<Longrightarrow>
   \<exists>j. join_remote dir (numbered_name name j) = Ok c \<and> ident c = Ok None \<and> n \<le> j \<and> j < n + k"
proof (induction k arbitrary: n)
  case (Suc k)
  then show ?case
    by (fastforce simp: and_then_Ok_iff split: if_splits dest: Suc.IH)
qed simp

lemma keep_both_local_from_Ok:
  "keep_both_local_from exists name n k = Ok c \<Longrightarrow>
   \<exists>j. c = numbered_name name j \<and> \<not> exists c \<and> n \<le> j \<and> j < n + k"
proof (induction k arbitrary: n)
  case (Suc k)
  then show ?case
    by (fastforce split: if_splits dest: Suc.IH)
qed simp

lemma insert_with_id_Ok:
  "insert_with_id until r now s = (Ok v, s') \<Longrightarrow>
   v = plan_view until r \<and> fmlookup (fs_plans s') (pi_id r) = Some (fresh_plan until (now + fs_lifetime s) r)
   \<and> fs_documents s' = fs_documents s"
  by (cases rule: insert_with_id_cases [of s until r now]) auto

lemma reserve_document_Ok:
  assumes "reserve_document info d res now s = (Ok doc, s1)"
  shows "\<exists>orig. fmlookup (fs_documents s) d = Some orig \<and> ed_use_state orig = DocReady
    \<and> doc = orig\<lparr>ed_use_state := DocPlanning res\<rparr> \<and> document_key orig = info_key info \<and> now < ed_expires orig
    \<and> fmlookup (fs_documents s1) d = Some doc"
  using assms
  by (auto simp: reserve_document_def Let_def not_le split: if_splits option.splits)

lemma commit_editor_plan_Ok:
  assumes "commit_editor_plan info d res doc bytes until now s = (Ok v, s')"
  shows "\<exists>cur. fmlookup (fs_documents s) d = Some cur \<and> ed_use_state cur = DocPlanning res
    \<and> fmlookup (fs_documents s') d = Some (cur\<lparr>ed_use_state := DocPending res\<rparr>)
    \<and> fmlookup (fs_plans s') res =
        Some (fresh_plan until (now + fs_lifetime s) (editor_plan_insert info d res doc bytes))"
proof -
  obtain cur where cur: "fmlookup (fs_documents s) d = Some cur" "ed_use_state cur = DocPlanning res"
    using assms by (auto simp: commit_editor_plan_def split: if_splits option.splits)
  obtain r s1 where i: "insert_with_id until (editor_plan_insert info d res doc bytes) now s = (r, s1)"
    by (rule prod.exhaust)
  show ?thesis
    using assms cur i insert_with_id_Ok [of until "editor_plan_insert info d res doc bytes" now s v s1]
    by (auto simp: commit_editor_plan_def split: if_splits result.splits)
qed

lemma drop_guard_releases:
  "\<not> fs_documents_poisoned s \<Longrightarrow> fmlookup (fs_documents (drop_planning_guard d res now s)) d = Some doc \<Longrightarrow>
   ed_use_state doc \<noteq> DocPlanning res"
  by (auto simp: drop_planning_guard_def release_editor_reservation_def split: option.splits if_splits)

lemma insert_poisoned [simp]:
  "fs_documents_poisoned (snd (insert_with_id until r now s)) = fs_documents_poisoned s"
  by (cases rule: insert_with_id_cases [of s until r now]) simp_all

lemma commit_poisoned [simp]:
  "fs_documents_poisoned (snd (commit_editor_plan info d res doc bytes until now s)) = fs_documents_poisoned s"
  using insert_poisoned [of until "editor_plan_insert info d res doc bytes" now s]
  by (cases "insert_with_id until (editor_plan_insert info d res doc bytes) now s")
    (auto simp: commit_editor_plan_def split: option.split result.split)

lemma file_step_poisoned [simp]: "fs_documents_poisoned (file_step e s) = fs_documents_poisoned s"
  by (cases e)
    (auto simp: register_editor_document_def discard_editor_document_def reserve_document_def
      drop_planning_guard_def file_discard_def file_consume_def file_revoke_session_def revoke_all_def
      plan_expiry_fires_def document_expiry_fires_def remove_document_plan_def take_plan_def
      release_plan_document_def Let_def split: option.split result.split)

lemma fold_file_step_poisoned [simp]:
  "fs_documents_poisoned (fold file_step es s) = fs_documents_poisoned s"
  by (induction es arbitrary: s) simp_all

lemma reserve_document_Err: "reserve_document info d res now s = (Err e, s1) \<Longrightarrow> s1 = s"
  by (auto simp: reserve_document_def Let_def split: if_splits option.splits)

lemma check_editor_save_Ok:
  "check_editor_save digest info revision_of bytes_of doc txt = Ok bytes \<Longrightarrow>
   encode_text txt (ed_newline doc) (ed_bom doc) = Ok bytes \<and> revision_of (ed_path doc) = Ok (ed_revision doc)
   \<and> (\<exists>cur. bytes_of (ed_path doc) = Ok cur \<and> digest cur = ed_content_digest doc)"
  by (auto simp: check_editor_save_def and_then_Ok_iff split: if_splits)

lemma editor_plan_payload [simp]:
  "pi_payload (editor_plan_insert info d res doc bytes) =
     EditorSave info (ed_path doc) (ed_revision doc) (ed_content_digest doc) bytes"
  by (simp add: editor_plan_insert_def)

section \<open>Properties\<close>

text \<open>
  C6: A save is offered for review only when it cannot lose anybody's changes: the remote file had
  the revision and the content digest recorded when the document was opened, the document belonged
  to the same session and was free, and the stored plan writes exactly the encoding of the edited
  text over exactly that file. When planning fails at any point, the document is not left reserved.
\<close>

theorem plan_editor_save_safe:
  assumes "plan_editor_save digest info revision_of bytes_of d txt res until now1 es now2 s = (r, s')"
    and "\<not> fs_documents_poisoned s"
    and "\<And>doc. fmlookup (fs_documents s) d = Some doc \<Longrightarrow> ed_use_state doc \<noteq> DocPlanning res"
  shows "(case r of
      Ok v \<Rightarrow> \<exists>doc bytes cur. fmlookup (fs_documents s) d = Some doc \<and> ed_use_state doc = DocReady
         \<and> document_key doc = info_key info \<and> revision_of (ed_path doc) = Ok (ed_revision doc)
         \<and> bytes_of (ed_path doc) = Ok cur \<and> digest cur = ed_content_digest doc
         \<and> encode_text txt (ed_newline doc) (ed_bom doc) = Ok bytes
         \<and> (\<exists>st p. fmlookup (fs_plans s') res = Some st \<and> sp_plan st = Some p
              \<and> ip_payload p = EditorSave info (ed_path doc) (ed_revision doc) (ed_content_digest doc) bytes
              \<and> sp_editor_document st = Some d)
         \<and> (\<exists>doc'. fmlookup (fs_documents s') d = Some doc' \<and> ed_use_state doc' = DocPending res)
    | Err e \<Rightarrow> \<forall>doc. fmlookup (fs_documents s') d = Some doc \<longrightarrow> ed_use_state doc \<noteq> DocPlanning res)"
proof (cases "reserve_document info d res now1 s")
  case (Pair q s1)
  show ?thesis
  proof (cases q)
    case (Err e)
    with Pair assms reserve_document_Err [of info d res now1 s e s1] show ?thesis
      by (auto simp: plan_editor_save_def)
  next
    case (Ok doc)
    let ?s2 = "fold file_step es s1"
    from reserve_document_Ok Pair Ok obtain orig where
      o: "fmlookup (fs_documents s) d = Some orig" "ed_use_state orig = DocReady"
        "doc = orig\<lparr>ed_use_state := DocPlanning res\<rparr>" "document_key orig = info_key info"
      by blast
    have np: "\<not> fs_documents_poisoned ?s2"
      using file_step_poisoned [of "FReserve info d res now1" s] Pair assms(2) by simp
    show ?thesis
    proof (cases "check_editor_save digest info revision_of bytes_of doc txt")
      case (Err e)
      with Pair Ok assms(1) drop_guard_releases [OF np] show ?thesis
        by (auto simp: plan_editor_save_def)
    next
      case bytes: (Ok bytes)
      obtain c s3 where c: "commit_editor_plan info d res doc bytes until now2 ?s2 = (c, s3)"
        by (rule prod.exhaust)
      show ?thesis
      proof (cases c)
        case (Err e)
        have "\<not> fs_documents_poisoned s3" using commit_poisoned [of info d res doc bytes until now2 ?s2] c np by simp
        with Err Pair Ok bytes c assms(1) drop_guard_releases [of s3] show ?thesis
          by (auto simp: plan_editor_save_def)
      next
        case committed: (Ok v)
        have r: "r = Ok v" "s' = s3"
          using assms(1) Pair Ok bytes c committed by (simp_all add: plan_editor_save_def)
        from c committed have "commit_editor_plan info d res doc bytes until now2 ?s2 = (Ok v, s3)" by simp
        note plan = commit_editor_plan_Ok [OF this]
        from check_editor_save_Ok [OF bytes] o obtain cur where
          "encode_text txt (ed_newline orig) (ed_bom orig) = Ok bytes"
          "revision_of (ed_path orig) = Ok (ed_revision orig)" "bytes_of (ed_path orig) = Ok cur"
          "digest cur = ed_content_digest orig" by auto
        with plan o r show ?thesis by auto
      qed
    qed
  qed
qed

definition ex_open :: file_plan_store where
  "ex_open = file_plan_store_default\<lparr>fs_documents :=
     fmupd (EditorDocumentId 4) (ex_document\<lparr>ed_use_state := DocReady\<rparr>) fmempty\<rparr>"

definition ex_info_rename :: sftp_session_info where
  "ex_info_rename = ex_info\<lparr>si_extensions := [\<lparr>ext_name = posix_rename, ext_version = ''1''\<rparr>,
     \<lparr>ext_name = hardlink, ext_version = ''1''\<rparr>]\<rparr>"

theorem plan_editor_save_safe_witness:
  "\<exists>doc. fmlookup (fs_documents ex_open) (EditorDocumentId 4) = Some doc \<and> ed_use_state doc = DocReady
     \<and> document_key doc = info_key ex_info_rename"
proof -
  let ?call = "plan_editor_save (\<lambda>_. []) ex_info_rename (\<lambda>_. Ok (ed_revision ex_document)) (\<lambda>_. Ok ''old'')
    (EditorDocumentId 4) ''new'' (FilePlanId 8) [] 10 [] 20 ex_open"
  have "\<exists>v. fst ?call = Ok v"
    by (simp add: plan_editor_save_def Let_def reserve_document_def ex_open_def file_plan_store_default_def
        document_key_def info_key_def ex_info_rename_def ex_info_def ex_document_def check_editor_save_def
        supports_def encode_text_def MAX_REMOTE_EDITOR_BYTES_def NUL_def CR_def commit_editor_plan_def
        insert_with_id_def PLAN_CAP_def)
  then obtain v where v: "fst ?call = Ok v" ..
  have "?call = (fst ?call, snd ?call)" "\<not> fs_documents_poisoned ex_open"
    by (simp_all add: ex_open_def file_plan_store_default_def)
  from plan_editor_save_safe [OF this] v show ?thesis
    by (fastforce simp: ex_open_def ex_document_def)
qed

definition upload_respects ::
  "sftp_session_info \<Rightarrow> (string \<Rightarrow> entry_identity option app_result) \<Rightarrow> string \<Rightarrow> conflict_policy \<Rightarrow> planned_upload \<Rightarrow> bool" where
  "upload_respects info ident dir policy u =
     ((\<exists>name. join_remote dir name = Ok (pu_destination u))
      \<and> (case pu_action u of
           ACreateNew \<Rightarrow> ident (pu_destination u) = Ok None \<and> supports info hardlink ''1''
         | AReplaceExisting i \<Rightarrow> policy = PReplace \<and> ident (pu_destination u) = Ok (Some i)
             \<and> ei_kind i = KFile \<and> supports info posix_rename ''1''
         | ASkip \<Rightarrow> policy = PSkip \<and> (\<exists>i. ident (pu_destination u) = Ok (Some i))))"

lemma plan_upload_item_respects:
  assumes "plan_upload_item info validate_source ident dir policy source = Ok (item, u)"
  shows "upload_respects info ident dir policy u \<and> pu_source u = source"
proof -
  from assms obtain base existing dest action where
    b: "join_remote dir (lc_display_name source) = Ok base" "ident base = Ok existing"
      "upload_destination info ident dir policy (lc_display_name source) base existing = Ok (dest, action)"
      "u = \<lparr>pu_source = source, pu_destination = dest, pu_action = action\<rparr>"
    by (auto simp: plan_upload_item_def and_then_Ok_iff)
  show ?thesis
    using b
    by (auto simp: upload_destination_def upload_respects_def and_then_Ok_iff keep_both_remote_def
        split: option.splits conflict_policy.splits if_splits dest!: keep_both_remote_from_Ok)
qed

text \<open>
  C7: An upload plan respects the user's conflict policy. Every planned destination is a direct
  child of the chosen remote directory; it is created only where the server reported nothing, it
  replaces only a regular file with the recorded identity and only under the policy that allows
  replacing, and it is skipped only under the policy that asks for it.
\<close>

theorem plan_upload_respects_policy:
  assumes "plan_upload info validate_source ident sources dir policy pid until now s = (Ok v, s')"
  shows "\<exists>st p us. fmlookup (fs_plans s') pid = Some st \<and> sp_plan st = Some p \<and> ip_view p = v
     \<and> ip_payload p = UploadPayload info policy us \<and> map pu_source us = sources
     \<and> list_all (upload_respects info ident dir policy) us \<and> fo_risk v = Moderate"
proof -
  let ?item = "plan_upload_item info validate_source ident dir policy"
  from assms obtain planned where planned: "try_map ?item sources = Ok planned"
    and i: "insert_with_id until (plan_insert_of pid info FUpload Moderate (Some policy) (map fst planned)
      (UploadPayload info policy (map snd planned))) now s = (Ok v, s')"
    by (auto simp: plan_upload_def and_then_Ok_iff split: result.splits if_splits)
  have "list_all2 (\<lambda>x y. ?item x = Ok y) sources planned"
    using planned by (simp add: try_map_Ok_iff)
  then have "map pu_source (map snd planned) = sources
      \<and> list_all (upload_respects info ident dir policy) (map snd planned)"
    by (induction rule: list_all2_induct) (auto dest: plan_upload_item_respects)
  with insert_with_id_Ok [OF i] show ?thesis
    by (auto simp: plan_insert_of_def plan_view_def)
qed

definition ex_item :: local_item where
  "ex_item = \<lparr>lc_path = ''a.txt'', lc_display_name = ''a.txt'', lc_size = 2, lc_modified = None,
     lc_identity = \<lparr>li_size = 2, li_modified = None, li_object_id = \<lparr>lo_storage_id = 1, lo_file_id = 1\<rparr>\<rparr>,
     lc_handle = 0\<rparr>"

theorem plan_upload_respects_policy_witness:
  "\<exists>st p us. fmlookup (fs_plans (snd (plan_upload ex_info_rename (\<lambda>_. Ok ()) (\<lambda>_. Ok None) [ex_item] ''/srv'' PSkip
        (FilePlanId 5) [] 10 file_plan_store_default))) (FilePlanId 5) = Some st \<and> sp_plan st = Some p
     \<and> ip_payload p = UploadPayload ex_info_rename PSkip us \<and> map pu_source us = [ex_item]"
proof -
  let ?call = "plan_upload ex_info_rename (\<lambda>_. Ok ()) (\<lambda>_. Ok None) [ex_item] ''/srv'' PSkip
    (FilePlanId 5) [] 10 file_plan_store_default"
  have j: "join_remote ''/srv'' ''a.txt'' = Ok ''/srv/a.txt''" by code_simp
  have n: "validate_child_name ''a.txt'' = Ok ()" "validate_remote_path ''/srv'' = Ok ()" by code_simp+
  have "\<exists>v. fst ?call = Ok v"
    using j n
    by (simp add: plan_upload_def plan_upload_item_def upload_destination_def ex_item_def supports_def
        ex_info_rename_def insert_with_id_def Let_def file_plan_store_default_def PLAN_CAP_def
        del: validate_remote_path_Ok validate_child_name_Ok)
  then obtain v where "?call = (Ok v, snd ?call)" by (metis prod.collapse)
  from plan_upload_respects_policy [OF this] show ?thesis
    by (elim exE conjE) (intro exI conjI)
qed

definition download_respects ::
  "(string \<Rightarrow> remote_entry app_result) \<Rightarrow> (string \<Rightarrow> entry_identity option app_result) \<Rightarrow>
   (string \<Rightarrow> local_identity option app_result) \<Rightarrow> (string \<Rightarrow> bool) \<Rightarrow> conflict_policy \<Rightarrow> planned_download \<Rightarrow> bool" where
  "download_respects stat ident local_ident exists policy w =
     ((\<exists>entry. stat (rs_path (pw_source w)) = Ok entry \<and> re_kind entry = KFile
         \<and> validate_windows_file_name (re_name entry) = Ok () \<and> rs_name (pw_source w) = re_name entry
         \<and> (pw_file_name w = re_name entry
            \<or> (policy = PKeepBoth \<and> (\<exists>n\<in>{1..1000}. pw_file_name w = numbered_name (re_name entry) n))))
      \<and> ident (rs_path (pw_source w)) = Ok (Some (rs_identity (pw_source w)))
      \<and> (case pw_action w of
           ACreateNew \<Rightarrow> local_ident (pw_file_name w) = Ok None \<or> \<not> exists (pw_file_name w)
         | AReplaceExisting i \<Rightarrow> policy = PReplace \<and> local_ident (pw_file_name w) = Ok (Some i)
         | ASkip \<Rightarrow> policy = PSkip \<and> (\<exists>i. local_ident (pw_file_name w) = Ok (Some i))))"

lemma plan_download_item_respects:
  assumes "plan_download_item stat ident validate_dir local_ident exists shown dir policy path = Ok (item, w)"
  shows "download_respects stat ident local_ident exists policy w \<and> rs_path (pw_source w) = path
    \<and> pw_destination w = dir"
proof -
  from assms obtain entry existing fname action i where
    b: "stat path = Ok entry" "re_kind entry = KFile" "validate_windows_file_name (re_name entry) = Ok ()"
      "local_ident (re_name entry) = Ok existing" "ident path = Ok (Some i)"
      "download_destination exists policy (re_name entry) existing = Ok (fname, action)"
      "w = \<lparr>pw_source = \<lparr>rs_path = path, rs_name = re_name entry, rs_size = ei_size i, rs_identity = i\<rparr>,
            pw_destination = dir, pw_file_name = fname, pw_action = action\<rparr>"
    by (auto simp: plan_download_item_def and_then_Ok_iff ok_or_def split: if_splits option.splits)
  show ?thesis
    using b
    by (auto simp: download_destination_def download_respects_def and_then_Ok_iff keep_both_local_def
        split: option.splits conflict_policy.splits dest!: keep_both_local_from_Ok)
qed

text \<open>
  C38: A download plan writes only harmless names. Every source is a regular file, its server-given
  name passed the local file-name rules, and an existing local file is replaced only under the
  policy that allows it and with its identity recorded.
\<close>

theorem plan_download_respects_policy:
  assumes "plan_download info stat ident validate_dir local_ident exists shown paths dir policy pid until now s = (Ok v, s')"
  shows "\<exists>st p ws. fmlookup (fs_plans s') pid = Some st \<and> sp_plan st = Some p \<and> ip_view p = v
     \<and> ip_payload p = DownloadPayload info policy ws \<and> map (\<lambda>w. rs_path (pw_source w)) ws = paths
     \<and> list_all (download_respects stat ident local_ident exists policy) ws"
proof -
  let ?item = "plan_download_item stat ident validate_dir local_ident exists shown dir policy"
  from assms obtain planned where planned: "try_map ?item paths = Ok planned"
    and i: "insert_with_id until (plan_insert_of pid info FDownload Moderate (Some policy) (map fst planned)
      (DownloadPayload info policy (map snd planned))) now s = (Ok v, s')"
    by (auto simp: plan_download_def split: result.splits if_splits)
  have "list_all2 (\<lambda>x y. ?item x = Ok y) paths planned"
    using planned by (simp add: try_map_Ok_iff)
  then have "map (\<lambda>w. rs_path (pw_source w)) (map snd planned) = paths
      \<and> list_all (download_respects stat ident local_ident exists policy) (map snd planned)"
    by (induction rule: list_all2_induct) (auto dest: plan_download_item_respects)
  with insert_with_id_Ok [OF i] show ?thesis
    by (auto simp: plan_insert_of_def plan_view_def)
qed

definition ex_directory :: local_directory where
  "ex_directory = \<lparr>ld_path = ''d'', ld_display_name = ''d'', ld_identity = lc_identity ex_item, ld_handle = 1\<rparr>"

definition ex_remote :: remote_entry where
  "ex_remote = \<lparr>re_name = ''a.txt'', re_display_name = ''a.txt'', re_path = ''/srv/a.txt'', re_kind = KFile,
     re_size_bytes = None, re_modified_at = None, re_permissions = None, re_uid = None, re_gid = None\<rparr>"

theorem plan_download_respects_policy_witness:
  "\<exists>st p ws. fmlookup (fs_plans (snd (plan_download ex_info (\<lambda>_. Ok ex_remote)
        (\<lambda>_. Ok (Some (rev_identity (ed_revision ex_document)))) (\<lambda>_. Ok ()) (\<lambda>_. Ok None) (\<lambda>_. False) (\<lambda>f. f)
        [''/srv/a.txt''] ex_directory PReplace (FilePlanId 5) [] 10 file_plan_store_default))) (FilePlanId 5) = Some st
     \<and> sp_plan st = Some p \<and> ip_payload p = DownloadPayload ex_info PReplace ws
     \<and> map (\<lambda>w. rs_path (pw_source w)) ws = [''/srv/a.txt'']"
proof -
  let ?call = "plan_download ex_info (\<lambda>_. Ok ex_remote)
    (\<lambda>_. Ok (Some (rev_identity (ed_revision ex_document)))) (\<lambda>_. Ok ()) (\<lambda>_. Ok None) (\<lambda>_. False) (\<lambda>f. f)
    [''/srv/a.txt''] ex_directory PReplace (FilePlanId 5) [] 10 file_plan_store_default"
  have n: "validate_windows_file_name ''a.txt'' = Ok ()"
    by (simp add: validate_windows_file_name_def validate_child_name_def ends_with_def
        windows_reserved_char_def utf8_chars.simps utf8_next_def is_control_def trim_end_matches_def
        to_ascii_uppercase_def windows_device_def starts_with_def is_ascii_lowercase_def)
  have "\<exists>v. fst ?call = Ok v"
    using n
    by (simp add: plan_download_def plan_download_item_def download_destination_def ex_remote_def
        insert_with_id_def Let_def file_plan_store_default_def PLAN_CAP_def)
  then obtain v where "?call = (Ok v, snd ?call)" by (metis prod.collapse)
  from plan_download_respects_policy [OF this] show ?thesis
    by (elim exE conjE) (intro exI conjI)
qed

end
