(* ===== verification/Transfer_Jobs.thy ===== *)
theory Transfer_Jobs
  imports Sftp_Model Interfaces
begin

text \<open>
  \<^verbatim>\<open>crates/nexus-sftp/src/transfer.rs\<close>, the queue: transfer jobs, their views, the bounded history,
  cancellation, and the life of a job's task from spawning to its end: the host permit, the global
  permit, the lock of its destination, the run, the report. The shared state is one record;
  a cancellation token is the identifier of its job in a set, and the \<open>Arc\<close> of a destination
  lock is a number. A task's steps are its critical sections.
\<close>

section \<open>Jobs\<close>

definition GLOBAL_ACTIVE :: nat where "GLOBAL_ACTIVE = 4"
definition HOST_ACTIVE :: nat where "HOST_ACTIVE = 2"
definition JOB_CAP :: nat where "JOB_CAP = 100"
definition HISTORY_CAP :: nat where "HISTORY_CAP = 100"

datatype transfer_direction = DirUpload | DirDownload

datatype transfer_state =
    JQueued | JPreparing | JAwaitingDecision | JTransferring | JCancelRequested | JFinalizing
  | JCompleted | JFailed | JCancelled | JOutcomeUnknown

record transfer_job =
  tj_id :: transfer_job_id
  tj_host_id :: host_id
  tj_host_session_id :: host_session_id
  tj_sftp_session_id :: sftp_session_id
  tj_direction :: transfer_direction
  tj_source_display :: string
  tj_destination_display :: string
  tj_state :: transfer_state
  tj_confirmed_bytes :: string
  tj_total_bytes :: "string option"
  tj_error :: "app_error option"
  tj_retryable :: bool

datatype source =
    SourceLocal local_item
  | SourceRemote remote_source
  | SourceEditor string editor_revision string

datatype destination =
    DestRemote string "entry_identity destination_action"
  | DestLocal local_directory string "local_identity destination_action"

text \<open>A client is named by the session it belongs to, as in a plan's payload.\<close>

record job_spec =
  js_client :: sftp_session_info
  js_direction :: transfer_direction
  js_source :: source
  js_destination :: destination

record job_record =
  jr_view :: transfer_job
  jr_active_spec :: "job_spec option"
  jr_cleanup_unconfirmed :: bool

text \<open>
  Where a task is: waiting for its host's permit, for the global permit, about to prepare, waiting
  for its destination, running, released (its permits and its lock dropped) with the outcome still to
  report, ended, or stopped by unwinding.
\<close>

datatype task_phase =
    PWaitHost | PWaitGlobal | PPrepare | PWaitDestination | PRun
  | PReleased "unit app_result" | PEnded | PAborted

record task =
  tk_phase :: task_phase
  tk_host :: host_id
  tk_key :: string
  tk_lock :: "nat option"

record transfers =
  tx_jobs :: "(transfer_job_id, job_record) fmap"
  tx_order :: "transfer_job_id list"
  tx_disconnecting :: "(host_id \<times> host_session_id) fset"
  tx_cleanup_tasks :: "transfer_job_id fset"
  tx_shutting_down :: bool
  tx_poisoned :: bool
  tx_cancelled :: "transfer_job_id fset"
  tx_tasks :: "(transfer_job_id, task) fmap"
  tx_global :: nat
  tx_hosts :: "(host_id, nat) fmap"
  tx_destinations :: "(string, nat) fmap"
  tx_locked :: "nat fset"
  tx_next_lock :: nat

definition transfers_new :: transfers where
  "transfers_new =
     \<lparr>tx_jobs = fmempty, tx_order = [], tx_disconnecting = {||}, tx_cleanup_tasks = {||},
      tx_shutting_down = False, tx_poisoned = False, tx_cancelled = {||}, tx_tasks = fmempty,
      tx_global = GLOBAL_ACTIVE, tx_hosts = fmempty, tx_destinations = fmempty, tx_locked = {||},
      tx_next_lock = 0\<rparr>"

fun terminal :: "transfer_state \<Rightarrow> bool" where
  "terminal JCompleted = True"
| "terminal JFailed = True"
| "terminal JCancelled = True"
| "terminal JOutcomeUnknown = True"
| "terminal _ = False"

abbreviation job_state :: "job_record \<Rightarrow> transfer_state" where
  "job_state j \<equiv> tj_state (jr_view j)"

definition transfer_error :: "string \<Rightarrow> app_error" where
  "transfer_error m = AppError_new Transfer m"

definition transfers_unavailable :: app_error where
  "transfers_unavailable = transfer_error ''The transfer manager is unavailable.''"

section \<open>The history\<close>

definition forgettable :: "transfers \<Rightarrow> transfer_job_id \<Rightarrow> bool" where
  "forgettable s i =
     ((case fmlookup (tx_jobs s) i of
         None \<Rightarrow> False | Some j \<Rightarrow> terminal (job_state j) \<and> \<not> jr_cleanup_unconfirmed j)
      \<and> i |\<notin>| tx_cleanup_tasks s)"

text \<open>\<open>trim_history_locked\<close>: drop the oldest finished jobs while more than the cap are kept.\<close>

function trim_history :: "transfers \<Rightarrow> transfers" where
  "trim_history s =
     (if fm_count (\<lambda>j. terminal (job_state j)) (tx_jobs s) > HISTORY_CAP
      then (case find (forgettable s) (tx_order s) of
              None \<Rightarrow> s
            | Some i \<Rightarrow>
                trim_history (s\<lparr>tx_order := remove1 i (tx_order s), tx_jobs := fmdrop i (tx_jobs s)\<rparr>))
      else s)"
  by auto
termination
  by (relation "measure (\<lambda>s. length (tx_order s))")
    (auto simp: find_Some_iff length_remove1 dest: nth_mem)

declare trim_history.simps [simp del]

definition upd_job :: "transfer_job_id \<Rightarrow> (job_record \<Rightarrow> job_record) \<Rightarrow> transfers \<Rightarrow> transfers" where
  "upd_job i f s =
     (case fmlookup (tx_jobs s) i of
        None \<Rightarrow> s | Some j \<Rightarrow> s\<lparr>tx_jobs := fmupd i (f j) (tx_jobs s)\<rparr>)"

section \<open>Reports of a task\<close>

definition with_state :: "transfer_state \<Rightarrow> job_record \<Rightarrow> job_record" where
  "with_state next j =
     (let j1 = j\<lparr>jr_view := (jr_view j)\<lparr>tj_state := next\<rparr>\<rparr>
      in if terminal next then j1\<lparr>jr_active_spec := None, jr_view := (jr_view j1)\<lparr>tj_retryable := False\<rparr>\<rparr>
         else j1)"

definition set_job_state :: "transfer_job_id \<Rightarrow> transfer_state \<Rightarrow> transfers \<Rightarrow> transfers" where
  "set_job_state i next s =
     (if tx_poisoned s then s
      else case fmlookup (tx_jobs s) i of
        None \<Rightarrow> s
      | Some j \<Rightarrow>
          let s1 = s\<lparr>tx_jobs := fmupd i (with_state next j) (tx_jobs s)\<rparr>
          in if terminal next then trim_history s1 else s1)"

definition with_failure :: "transfer_state \<Rightarrow> app_error \<Rightarrow> job_record \<Rightarrow> job_record" where
  "with_failure st err j =
     j\<lparr>jr_view := (jr_view j)\<lparr>tj_state := st, tj_error := Some err, tj_retryable := False\<rparr>,
       jr_active_spec := None\<rparr>"

definition finish_error :: "transfer_job_id \<Rightarrow> app_error \<Rightarrow> transfers \<Rightarrow> transfers" where
  "finish_error i err s =
     (if tx_poisoned s then s else trim_history (upd_job i (with_failure JFailed err) s))"

definition finish_unknown :: "transfer_job_id \<Rightarrow> app_error \<Rightarrow> transfers \<Rightarrow> transfers" where
  "finish_unknown i err s =
     (if tx_poisoned s then s else trim_history (upd_job i (with_failure JOutcomeUnknown err) s))"

definition progress :: "transfer_job_id \<Rightarrow> u64 \<Rightarrow> transfers \<Rightarrow> transfers" where
  "progress i n s =
     (if tx_poisoned s then s
      else upd_job i (\<lambda>j. j\<lparr>jr_view := (jr_view j)\<lparr>tj_confirmed_bytes := fmt_dec (unat n)\<rparr>\<rparr>) s)"

definition enter_finalizing :: "transfer_job_id \<Rightarrow> transfers \<Rightarrow> unit app_result \<times> transfers" where
  "enter_finalizing i s =
     (if tx_poisoned s then (Err transfers_unavailable, s)
      else case fmlookup (tx_jobs s) i of
        None \<Rightarrow> (Err (transfer_error ''The transfer no longer exists.''), s)
      | Some j \<Rightarrow>
          if i |\<in>| tx_cancelled s \<or> job_state j = JCancelRequested
          then (Err (AppError_new Cancelled ''The transfer was cancelled before finalization.''), s)
          else (Ok (), s\<lparr>tx_jobs := fmupd i (with_state JFinalizing j) (tx_jobs s)\<rparr>))"

definition mark_unconfirmed :: "transfer_job_id \<Rightarrow> transfers \<Rightarrow> transfers" where
  "mark_unconfirmed i s =
     (if tx_poisoned s then s else upd_job i (\<lambda>j. j\<lparr>jr_cleanup_unconfirmed := True\<rparr>) s)"

section \<open>Requests\<close>

definition cancellable :: "transfer_state \<Rightarrow> bool" where
  "cancellable st = (st \<in> {JQueued, JPreparing, JTransferring})"

definition job_key :: "job_record \<Rightarrow> host_id \<times> host_session_id \<times> sftp_session_id" where
  "job_key j = (tj_host_id (jr_view j), tj_host_session_id (jr_view j), tj_sftp_session_id (jr_view j))"

definition of_session :: "host_id \<Rightarrow> host_session_id \<Rightarrow> job_record \<Rightarrow> bool" where
  "of_session h hs j = (tj_host_id (jr_view j) = h \<and> tj_host_session_id (jr_view j) = hs)"

definition cancel ::
  "transfer_job_id \<Rightarrow> host_id \<times> host_session_id \<times> sftp_session_id \<Rightarrow> transfers \<Rightarrow> unit app_result \<times> transfers" where
  "cancel i key s =
     (if tx_poisoned s then (Err transfers_unavailable, s)
      else case fmlookup (tx_jobs s) i of
        None \<Rightarrow> (Err (transfer_error ''The transfer no longer exists.''), s)
      | Some j \<Rightarrow>
          if job_key j \<noteq> key
          then (Err (AppError_new Policy ''The transfer does not belong to this SFTP session.''), s)
          else if cancellable (job_state j)
          then (Ok (), s\<lparr>tx_jobs := fmupd i (with_state JCancelRequested j) (tx_jobs s),
                         tx_cancelled := finsert i (tx_cancelled s)\<rparr>)
          else (Ok (), s))"

definition retry_plan ::
  "transfer_job_id \<Rightarrow> host_id \<times> host_session_id \<times> sftp_session_id \<Rightarrow> transfers \<Rightarrow> file_operation_plan app_result" where
  "retry_plan i key s =
     (if tx_poisoned s then Err transfers_unavailable
      else case fmlookup (tx_jobs s) i of
        None \<Rightarrow> Err (transfer_error ''The transfer no longer exists.'')
      | Some j \<Rightarrow>
          if job_key j \<noteq> key
          then Err (AppError_new Policy ''The transfer belongs to a different SFTP session.'')
          else if \<not> (job_state j = JCancelled \<or> (job_state j = JFailed \<and> tj_retryable (jr_view j)))
          then Err (AppError_new Policy ''This transfer outcome cannot be retried; refresh and prepare a new operation.'')
          else Err (AppError_new Policy ''Select the local source or destination again to prepare a retry.''))"

text \<open>The loop that requests cancellation of every job that satisfies \<open>P\<close> and can still be cancelled.\<close>

definition cancel_where :: "(job_record \<Rightarrow> bool) \<Rightarrow> transfers \<Rightarrow> transfers" where
  "cancel_where P s =
     s\<lparr>tx_jobs := fmmap (\<lambda>j. if P j \<and> cancellable (job_state j) then with_state JCancelRequested j else j) (tx_jobs s),
       tx_cancelled := tx_cancelled s |\<union>| fm_keys (\<lambda>j. P j \<and> cancellable (job_state j)) (tx_jobs s)\<rparr>"

definition disconnect :: "host_id \<Rightarrow> host_session_id \<Rightarrow> transfers \<Rightarrow> transfers" where
  "disconnect h hs s =
     (if tx_poisoned s then s
      else cancel_where (of_session h hs) (s\<lparr>tx_disconnecting := finsert (h, hs) (tx_disconnecting s)\<rparr>))"

definition session_of :: "transfers \<Rightarrow> transfer_job_id \<Rightarrow> host_id \<times> host_session_id" where
  "session_of s i =
     (case fmlookup (tx_jobs s) i of
        None \<Rightarrow> (HostId 0, HostSessionId 0)
      | Some j \<Rightarrow> (tj_host_id (jr_view j), tj_host_session_id (jr_view j)))"

definition shutdown_transfers :: "transfers \<Rightarrow> transfers" where
  "shutdown_transfers s =
     (if tx_poisoned s then s
      else cancel_where (\<lambda>_. True)
        (s\<lparr>tx_shutting_down := True,
           tx_disconnecting := tx_disconnecting s |\<union>|
             session_of s |`| fm_keys (\<lambda>j. \<not> terminal (job_state j)) (tx_jobs s)\<rparr>))"

definition list_jobs :: "host_id option \<Rightarrow> transfers \<Rightarrow> transfer_job list" where
  "list_jobs h s =
     (if tx_poisoned s then []
      else map jr_view (filter (\<lambda>j. case h of None \<Rightarrow> True | Some v \<Rightarrow> tj_host_id (jr_view j) = v)
             (List.map_filter (fmlookup (tx_jobs s)) (tx_order s))))"

section \<open>Enqueueing\<close>

definition upload_spec :: "sftp_session_info \<Rightarrow> planned_upload \<Rightarrow> job_spec" where
  "upload_spec client item =
     \<lparr>js_client = client, js_direction = DirUpload, js_source = SourceLocal (pu_source item),
      js_destination = DestRemote (pu_destination item) (pu_action item)\<rparr>"

definition download_spec :: "sftp_session_info \<Rightarrow> planned_download \<Rightarrow> job_spec" where
  "download_spec client item =
     \<lparr>js_client = client, js_direction = DirDownload, js_source = SourceRemote (pw_source item),
      js_destination = DestLocal (pw_destination item) (pw_file_name item) (pw_action item)\<rparr>"

definition editor_spec :: "sftp_session_info \<Rightarrow> string \<Rightarrow> editor_revision \<Rightarrow> string \<Rightarrow> string \<Rightarrow> job_spec" where
  "editor_spec client path expected digest bytes =
     \<lparr>js_client = client, js_direction = DirUpload, js_source = SourceEditor bytes expected digest,
      js_destination = DestRemote path ACreateNew\<rparr>"

definition labels :: "job_spec \<Rightarrow> string \<times> string \<times> u64 option" where
  "labels spec =
     (case (js_source spec, js_destination spec) of
        (SourceEditor bytes _ _, DestRemote path _) \<Rightarrow>
          (''Edited text'', display_name path, Some (of_nat (length bytes)))
      | (SourceLocal item, DestRemote path _) \<Rightarrow>
          (display_name (lc_display_name item), display_name path, Some (lc_size item))
      | (SourceRemote r, DestLocal directory file_name _) \<Rightarrow>
          (display_name (rs_name r), display_name (ld_display_name directory @ [CHR 0x5C] @ file_name), rs_size r)
      | _ \<Rightarrow> (''Unavailable'', ''Unavailable'', None))"

text \<open>
  \<open>destination_key\<close>. The text of a UUID is the library's; lower-casing follows the Unicode tables
  of the standard library. Both are arguments.
\<close>

record text_formats =
  fmt_uuid :: "uuid \<Rightarrow> string"
  fmt_lower :: "string \<Rightarrow> string"

fun sftp_uuid :: "sftp_session_id \<Rightarrow> uuid" where
  "sftp_uuid (SftpSessionId u) = u"

definition destination_key :: "text_formats \<Rightarrow> job_spec \<Rightarrow> string" where
  "destination_key fmt spec =
     (case js_destination spec of
        DestRemote path _ \<Rightarrow> ''r:'' @ fmt_uuid fmt (sftp_uuid (si_id (js_client spec))) @ '':'' @ path
      | DestLocal directory file_name _ \<Rightarrow>
          ''l:'' @ fmt_dec (unat (lo_storage_id (li_object_id (ld_identity directory)))) @ '':''
            @ fmt_dec (unat (lo_file_id (li_object_id (ld_identity directory)))) @ '':'' @ fmt_lower fmt file_name)"

definition new_job :: "transfer_job_id \<Rightarrow> job_spec \<Rightarrow> transfer_job" where
  "new_job i spec =
     (case labels spec of (src, dst, size_of) \<Rightarrow>
        \<lparr>tj_id = i, tj_host_id = si_host_id (js_client spec), tj_host_session_id = si_host_session_id (js_client spec),
         tj_sftp_session_id = si_id (js_client spec), tj_direction = js_direction spec, tj_source_display = src,
         tj_destination_display = dst, tj_state = JQueued, tj_confirmed_bytes = ''0'',
         tj_total_bytes = map_option (\<lambda>n. fmt_dec (unat n)) size_of, tj_error = None, tj_retryable = False\<rparr>)"

definition insert_job :: "text_formats \<Rightarrow> transfer_job_id \<times> job_spec \<Rightarrow> transfers \<Rightarrow> transfers" where
  "insert_job fmt ispec s =
     (case ispec of (i, spec) \<Rightarrow>
        s\<lparr>tx_order := tx_order s @ [i],
          tx_jobs := fmupd i \<lparr>jr_view = new_job i spec, jr_active_spec = Some spec, jr_cleanup_unconfirmed = False\<rparr> (tx_jobs s),
          tx_tasks := fmupd i \<lparr>tk_phase = PWaitHost, tk_host = si_host_id (js_client spec),
                                tk_key = destination_key fmt spec, tk_lock = None\<rparr> (tx_tasks s)\<rparr>)"

definition unfinished_count :: "transfers \<Rightarrow> nat" where
  "unfinished_count s = fm_count (\<lambda>j. \<not> terminal (job_state j)) (tx_jobs s)"

definition enqueue_batch ::
  "text_formats \<Rightarrow> transfer_job_id list \<Rightarrow> job_spec list \<Rightarrow> transfers \<Rightarrow> transfer_job list app_result \<times> transfers" where
  "enqueue_batch fmt ids specs s =
     (if specs = [] then (Ok [], s)
      else if tx_poisoned s then (Err transfers_unavailable, s)
      else if tx_shutting_down s
        \<or> list_ex (\<lambda>spec. (si_host_id (js_client spec), si_host_session_id (js_client spec)) |\<in>| tx_disconnecting s) specs
      then (Err (AppError_new Cancelled ''This SFTP session is disconnecting.''), s)
      else
        let s1 = trim_history s
        in if length specs > JOB_CAP - unfinished_count s1
           then (Err (transfer_error ''The complete transfer batch cannot fit in the bounded queue.''), s1)
           else (Ok (map2 new_job ids specs), fold (insert_job fmt) (zip ids specs) s1))"

section \<open>Tasks\<close>

definition task_phase_of :: "transfers \<Rightarrow> transfer_job_id \<Rightarrow> task_phase option" where
  "task_phase_of s i = map_option tk_phase (fmlookup (tx_tasks s) i)"

definition set_phase :: "transfer_job_id \<Rightarrow> task_phase \<Rightarrow> transfers \<Rightarrow> transfers" where
  "set_phase i p s =
     (case fmlookup (tx_tasks s) i of
        None \<Rightarrow> s | Some t \<Rightarrow> s\<lparr>tx_tasks := fmupd i (t\<lparr>tk_phase := p\<rparr>) (tx_tasks s)\<rparr>)"

definition host_permits :: "host_id \<Rightarrow> transfers \<Rightarrow> nat" where
  "host_permits h s = (case fmlookup (tx_hosts s) h of None \<Rightarrow> HOST_ACTIVE | Some n \<Rightarrow> n)"

definition give_host :: "host_id \<Rightarrow> transfers \<Rightarrow> transfers" where
  "give_host h s = s\<lparr>tx_hosts := fmupd h (host_permits h s + 1) (tx_hosts s)\<rparr>"

definition give_global :: "transfers \<Rightarrow> transfers" where
  "give_global s = s\<lparr>tx_global := tx_global s + 1\<rparr>"

text \<open>The end of a task: its captured values are dropped, with them its reference to the lock.\<close>

definition end_task :: "transfer_job_id \<Rightarrow> task_phase \<Rightarrow> transfers \<Rightarrow> transfers" where
  "end_task i p s =
     (case fmlookup (tx_tasks s) i of
        None \<Rightarrow> s | Some t \<Rightarrow> s\<lparr>tx_tasks := fmupd i (t\<lparr>tk_phase := p, tk_lock := None\<rparr>) (tx_tasks s)\<rparr>)"

text \<open>\<open>Arc::strong_count\<close> of a lock: the entries of the map and the tasks that hold it.\<close>

definition strong_count :: "nat \<Rightarrow> transfers \<Rightarrow> nat" where
  "strong_count l s =
     fm_count (\<lambda>l'. l' = l) (tx_destinations s) + fm_count (\<lambda>t. tk_lock t = Some l) (tx_tasks s)"

definition unmap_destination :: "task \<Rightarrow> transfers \<Rightarrow> transfers" where
  "unmap_destination t s =
     (case tk_lock t of
        None \<Rightarrow> s
      | Some l \<Rightarrow>
          if strong_count l s = 2 then s\<lparr>tx_destinations := fmdrop (tk_key t) (tx_destinations s)\<rparr> else s)"

text \<open>The steps of \<open>spawn_job\<close>'s task \<open>i\<close>, whose record is \<open>t\<close>.\<close>

definition task_cancelled :: "transfer_job_id \<Rightarrow> task \<Rightarrow> transfers \<Rightarrow> transfers" where
  "task_cancelled i t s =
     (let s1 = set_job_state i JCancelled s
      in case tk_phase t of
           PWaitHost \<Rightarrow> end_task i PEnded s1
         | PWaitGlobal \<Rightarrow> end_task i PEnded (give_host (tk_host t) s1)
         | _ \<Rightarrow> end_task i PEnded (give_host (tk_host t) (give_global (unmap_destination t s1))))"

definition task_takes_host :: "transfer_job_id \<Rightarrow> task \<Rightarrow> transfers \<Rightarrow> transfers" where
  "task_takes_host i t s =
     set_phase i PWaitGlobal (s\<lparr>tx_hosts := fmupd (tk_host t) (host_permits (tk_host t) s - 1) (tx_hosts s)\<rparr>)"

definition task_takes_global :: "transfer_job_id \<Rightarrow> transfers \<Rightarrow> transfers" where
  "task_takes_global i s = set_phase i PPrepare (s\<lparr>tx_global := tx_global s - 1\<rparr>)"

definition task_prepares :: "transfer_job_id \<Rightarrow> task \<Rightarrow> transfers \<Rightarrow> transfers" where
  "task_prepares i t s =
     (let s1 = set_job_state i JPreparing s;
          (l, s2) = (case fmlookup (tx_destinations s1) (tk_key t) of
                       Some l \<Rightarrow> (l, s1)
                     | None \<Rightarrow> (tx_next_lock s1,
                                s1\<lparr>tx_destinations := fmupd (tk_key t) (tx_next_lock s1) (tx_destinations s1),
                                   tx_next_lock := Suc (tx_next_lock s1)\<rparr>))
      in s2\<lparr>tx_tasks := fmupd i (t\<lparr>tk_phase := PWaitDestination, tk_lock := Some l\<rparr>) (tx_tasks s2)\<rparr>)"

definition task_locks :: "transfer_job_id \<Rightarrow> task \<Rightarrow> transfers \<Rightarrow> transfers" where
  "task_locks i t s =
     (case tk_lock t of
        None \<Rightarrow> s | Some l \<Rightarrow> set_phase i PRun (s\<lparr>tx_locked := finsert l (tx_locked s)\<rparr>))"

definition unlock :: "task \<Rightarrow> transfers \<Rightarrow> transfers" where
  "unlock t s = (case tk_lock t of None \<Rightarrow> s | Some l \<Rightarrow> s\<lparr>tx_locked := tx_locked s |-| {|l|}\<rparr>)"

definition task_releases :: "transfer_job_id \<Rightarrow> task \<Rightarrow> unit app_result \<Rightarrow> transfers \<Rightarrow> transfers" where
  "task_releases i t outcome s =
     set_phase i (PReleased outcome) (give_host (tk_host t) (give_global (unlock t s)))"

definition report_outcome :: "transfer_job_id \<Rightarrow> unit app_result \<Rightarrow> transfers \<Rightarrow> transfers" where
  "report_outcome i outcome s =
     (case outcome of
        Ok _ \<Rightarrow> set_job_state i JCompleted s
      | Err e \<Rightarrow>
          if err_code e = Cancelled then set_job_state i JCancelled s
          else if err_code e = OutcomeUnknownCode then finish_unknown i e s
          else finish_error i e s)"

definition task_reports :: "transfer_job_id \<Rightarrow> task \<Rightarrow> unit app_result \<Rightarrow> transfers \<Rightarrow> transfers" where
  "task_reports i t outcome s = end_task i PEnded (report_outcome i outcome (unmap_destination t s))"

text \<open>
  Unwinding a running task drops its guards. When the staging file was owned, \<open>RemoteStagingGuard::drop\<close>
  starts a cleanup task; its end reports the job as failed.
\<close>

definition task_aborts :: "transfer_job_id \<Rightarrow> task \<Rightarrow> bool \<Rightarrow> transfers \<Rightarrow> transfers" where
  "task_aborts i t owned s =
     (let s1 = (if owned \<and> \<not> tx_poisoned s then s\<lparr>tx_cleanup_tasks := finsert i (tx_cleanup_tasks s)\<rparr> else s)
      in end_task i PAborted (give_host (tk_host t) (give_global (unlock t s1))))"

definition cleanup_ends :: "transfer_job_id \<Rightarrow> bool \<Rightarrow> transfers \<Rightarrow> transfers" where
  "cleanup_ends i removed s =
     (let s1 = (if removed then s else mark_unconfirmed i s);
          s2 = finish_error i (transfer_error (if removed
                 then ''The transfer stopped unexpectedly after owned staging was removed.''
                 else ''The transfer stopped and owned staging cleanup could not be confirmed.'')) s1
      in if tx_poisoned s2 then s2 else s2\<lparr>tx_cleanup_tasks := tx_cleanup_tasks s2 |-| {|i|}\<rparr>)"

section \<open>Events\<close>

datatype transfer_event =
    JEnqueue text_formats "transfer_job_id list" "job_spec list"
  | JCancel transfer_job_id "host_id \<times> host_session_id \<times> sftp_session_id"
  | JDisconnect host_id host_session_id
  | JShutdown
  | JTaskCancelled transfer_job_id
  | JTakesHost transfer_job_id
  | JTakesGlobal transfer_job_id
  | JPrepares transfer_job_id
  | JLocks transfer_job_id
  | JStreams transfer_job_id
  | JProgress transfer_job_id u64
  | JEntersFinalizing transfer_job_id
  | JUnconfirmed transfer_job_id
  | JReleases transfer_job_id "unit app_result"
  | JReports transfer_job_id "unit app_result"
  | JAborts transfer_job_id bool
  | JCleanupEnds transfer_job_id bool

definition on_task :: "transfer_job_id \<Rightarrow> (task \<Rightarrow> transfers \<Rightarrow> transfers) \<Rightarrow> transfers \<Rightarrow> transfers" where
  "on_task i f s = (case fmlookup (tx_tasks s) i of None \<Rightarrow> s | Some t \<Rightarrow> f t s)"

fun transfer_step :: "transfer_event \<Rightarrow> transfers \<Rightarrow> transfers" where
  "transfer_step (JEnqueue fmt ids specs) s = snd (enqueue_batch fmt ids specs s)"
| "transfer_step (JCancel i key) s = snd (cancel i key s)"
| "transfer_step (JDisconnect h hs) s = disconnect h hs s"
| "transfer_step JShutdown s = shutdown_transfers s"
| "transfer_step (JTaskCancelled i) s = on_task i (task_cancelled i) s"
| "transfer_step (JTakesHost i) s = on_task i (task_takes_host i) s"
| "transfer_step (JTakesGlobal i) s = task_takes_global i s"
| "transfer_step (JPrepares i) s = on_task i (task_prepares i) s"
| "transfer_step (JLocks i) s = on_task i (task_locks i) s"
| "transfer_step (JStreams i) s = set_job_state i JTransferring s"
| "transfer_step (JProgress i n) s = progress i n s"
| "transfer_step (JEntersFinalizing i) s = snd (enter_finalizing i s)"
| "transfer_step (JUnconfirmed i) s = mark_unconfirmed i s"
| "transfer_step (JReleases i r) s = on_task i (\<lambda>t. task_releases i t r) s"
| "transfer_step (JReports i r) s = on_task i (\<lambda>t. task_reports i t r) s"
| "transfer_step (JAborts i owned) s = on_task i (\<lambda>t. task_aborts i t owned) s"
| "transfer_step (JCleanupEnds i removed) s = cleanup_ends i removed s"

text \<open>
  A task takes its steps in the order of the code: a permit or a lock only when it is free, the
  steps of the run only while it runs. The identifiers of a batch are new.
\<close>

fun transfer_enabled :: "transfer_event \<Rightarrow> transfers \<Rightarrow> bool" where
  "transfer_enabled (JEnqueue fmt ids specs) s =
     (length ids = length specs \<and> distinct ids \<and> list_all (\<lambda>i. fmlookup (tx_tasks s) i = None) ids)"
| "transfer_enabled (JTaskCancelled i) s =
     (i |\<in>| tx_cancelled s \<and> task_phase_of s i \<in> {Some PWaitHost, Some PWaitGlobal, Some PWaitDestination})"
| "transfer_enabled (JTakesHost i) s =
     (case fmlookup (tx_tasks s) i of None \<Rightarrow> False
      | Some t \<Rightarrow> tk_phase t = PWaitHost \<and> 0 < host_permits (tk_host t) s)"
| "transfer_enabled (JTakesGlobal i) s = (task_phase_of s i = Some PWaitGlobal \<and> 0 < tx_global s)"
| "transfer_enabled (JPrepares i) s = (task_phase_of s i = Some PPrepare)"
| "transfer_enabled (JLocks i) s =
     (case fmlookup (tx_tasks s) i of None \<Rightarrow> False
      | Some t \<Rightarrow> tk_phase t = PWaitDestination \<and> (case tk_lock t of None \<Rightarrow> False | Some l \<Rightarrow> l |\<notin>| tx_locked s))"
| "transfer_enabled (JStreams i) s = (task_phase_of s i = Some PRun)"
| "transfer_enabled (JProgress i n) s = (task_phase_of s i = Some PRun)"
| "transfer_enabled (JEntersFinalizing i) s = (task_phase_of s i = Some PRun)"
| "transfer_enabled (JUnconfirmed i) s = (task_phase_of s i = Some PRun)"
| "transfer_enabled (JReleases i r) s = (task_phase_of s i = Some PRun)"
| "transfer_enabled (JReports i r) s = (task_phase_of s i = Some (PReleased r))"
| "transfer_enabled (JAborts i owned) s = (task_phase_of s i = Some PRun)"
| "transfer_enabled (JCleanupEnds i removed) s = (task_phase_of s i = Some PAborted \<and> i |\<in>| tx_cleanup_tasks s)"
| "transfer_enabled _ s = True"

end
