(* ===== verification/Transfer_Queue.thy ===== *)
theory Transfer_Queue
  imports Transfer_Jobs
begin

text \<open>
  The transfer queue of \<open>Transfer_Jobs\<close> keeps its promises in every interleaving of requests and tasks:
  permits are conserved, two running tasks never share a destination, cancelled jobs do not finalize,
  finished jobs stay finished, and a quiesced session has nothing running.
\<close>

section \<open>What the reports leave alone\<close>

lemma trim_history_shape: "\<exists>order jobs. trim_history s = s\<lparr>tx_order := order, tx_jobs := jobs\<rparr>"
proof (induction s rule: trim_history.induct)
  case (1 s)
  show ?case
  proof (cases "fm_count (\<lambda>j. terminal (job_state j)) (tx_jobs s) > HISTORY_CAP")
    case True
    show ?thesis
    proof (cases "find (forgettable s) (tx_order s)")
      case None
      then have "trim_history s = s" by (subst trim_history.simps) simp
      then show ?thesis by (intro exI [of _ "tx_order s"] exI [of _ "tx_jobs s"]) simp
    next
      case (Some i)
      with 1 [OF True Some] True show ?thesis by (subst trim_history.simps) auto
    qed
  next
    case False
    then have "trim_history s = s" by (subst trim_history.simps) simp
    then show ?thesis by (intro exI [of _ "tx_order s"] exI [of _ "tx_jobs s"]) simp
  qed
qed

lemma trim_history_frame [simp]:
  "tx_tasks (trim_history s) = tx_tasks s" "tx_global (trim_history s) = tx_global s"
  "tx_hosts (trim_history s) = tx_hosts s" "tx_destinations (trim_history s) = tx_destinations s"
  "tx_locked (trim_history s) = tx_locked s" "tx_next_lock (trim_history s) = tx_next_lock s"
  "tx_cancelled (trim_history s) = tx_cancelled s" "tx_cleanup_tasks (trim_history s) = tx_cleanup_tasks s"
  "tx_disconnecting (trim_history s) = tx_disconnecting s" "tx_shutting_down (trim_history s) = tx_shutting_down s"
  "tx_poisoned (trim_history s) = tx_poisoned s"
  using trim_history_shape [of s] by auto

text \<open>The part of the state that only tasks and enqueueing change.\<close>

definition queue_of ::
  "transfers \<Rightarrow> (transfer_job_id, task) fmap \<times> nat \<times> (host_id, nat) fmap \<times> (string, nat) fmap \<times> nat fset \<times> nat" where
  "queue_of s = (tx_tasks s, tx_global s, tx_hosts s, tx_destinations s, tx_locked s, tx_next_lock s)"

lemma queue_of_reports [simp]:
  "queue_of (trim_history s) = queue_of s"
  "queue_of (upd_job i f s) = queue_of s"
  "queue_of (set_job_state i st s) = queue_of s"
  "queue_of (finish_error i e s) = queue_of s"
  "queue_of (finish_unknown i e s) = queue_of s"
  "queue_of (progress i n s) = queue_of s"
  "queue_of (snd (enter_finalizing i s)) = queue_of s"
  "queue_of (mark_unconfirmed i s) = queue_of s"
  "queue_of (snd (cancel i key s)) = queue_of s"
  "queue_of (cancel_where P s) = queue_of s"
  "queue_of (disconnect h hs s) = queue_of s"
  "queue_of (shutdown_transfers s) = queue_of s"
  "queue_of (report_outcome i r s) = queue_of s"
  "queue_of (cleanup_ends i b s) = queue_of s"
  by (simp_all add: queue_of_def upd_job_def set_job_state_def finish_error_def finish_unknown_def progress_def
      enter_finalizing_def mark_unconfirmed_def cancel_def cancel_where_def disconnect_def shutdown_transfers_def
      report_outcome_def cleanup_ends_def Let_def split: option.splits result.splits)

lemma queue_of_eqD:
  assumes "queue_of s' = queue_of s"
  shows "tx_tasks s' = tx_tasks s" "tx_global s' = tx_global s" "tx_hosts s' = tx_hosts s"
    "tx_destinations s' = tx_destinations s" "tx_locked s' = tx_locked s" "tx_next_lock s' = tx_next_lock s"
  using assms by (simp_all add: queue_of_def)

lemmas queue_fields [simp] =
  queue_of_reports(3) [THEN queue_of_eqD(1)] queue_of_reports(3) [THEN queue_of_eqD(2)]
  queue_of_reports(3) [THEN queue_of_eqD(3)] queue_of_reports(3) [THEN queue_of_eqD(4)]
  queue_of_reports(3) [THEN queue_of_eqD(5)] queue_of_reports(3) [THEN queue_of_eqD(6)]
  queue_of_reports(13) [THEN queue_of_eqD(1)] queue_of_reports(13) [THEN queue_of_eqD(2)]
  queue_of_reports(13) [THEN queue_of_eqD(3)] queue_of_reports(13) [THEN queue_of_eqD(4)]
  queue_of_reports(13) [THEN queue_of_eqD(5)] queue_of_reports(13) [THEN queue_of_eqD(6)]

text \<open>Which events touch the queue, and how.\<close>

fun queue_event :: "transfer_event \<Rightarrow> bool" where
  "queue_event (JEnqueue _ _ _) = True"
| "queue_event (JTaskCancelled _) = True"
| "queue_event (JTakesHost _) = True"
| "queue_event (JTakesGlobal _) = True"
| "queue_event (JPrepares _) = True"
| "queue_event (JLocks _) = True"
| "queue_event (JReleases _ _) = True"
| "queue_event (JReports _ _) = True"
| "queue_event (JAborts _ _) = True"
| "queue_event _ = False"

lemma queue_of_step: "\<not> queue_event e \<Longrightarrow> queue_of (transfer_step e s) = queue_of s"
  by (cases e) auto

section \<open>Permits\<close>

definition holds_global :: "task \<Rightarrow> bool" where
  "holds_global t = (tk_phase t \<in> {PPrepare, PWaitDestination, PRun})"

definition holds_host :: "host_id \<Rightarrow> task \<Rightarrow> bool" where
  "holds_host h t = (tk_host t = h \<and> tk_phase t \<in> {PWaitGlobal, PPrepare, PWaitDestination, PRun})"

definition permits_inv :: "transfers \<Rightarrow> bool" where
  "permits_inv s \<longleftrightarrow> tx_global s + fm_count holds_global (tx_tasks s) = GLOBAL_ACTIVE
     \<and> (\<forall>h. host_permits h s + fm_count (holds_host h) (tx_tasks s) = HOST_ACTIVE)"

lemma permits_inv_cong:
  "queue_of s' = queue_of s \<Longrightarrow> permits_inv s' = permits_inv s"
  by (simp add: permits_inv_def host_permits_def queue_of_def)

text \<open>Changing one task changes the counts by that task.\<close>

lemma task_counts:
  assumes "fmlookup (tx_tasks s) i = Some t"
  shows "fm_count P (fmupd i t' (tx_tasks s)) + (if P t then 1 else 0) = fm_count P (tx_tasks s) + (if P t' then 1 else 0)"
  using assms fm_count_drop [of P "tx_tasks s" i] fm_count_upd [of P i t' "tx_tasks s"] by simp

lemma permits_task_change:
  assumes inv: "permits_inv s" and t: "fmlookup (tx_tasks s) i = Some t" and "tk_host t' = tk_host t"
    and tasks: "tx_tasks s' = fmupd i t' (tx_tasks s)"
    and global: "tx_global s' + (if holds_global t' then 1 else 0) = tx_global s + (if holds_global t then 1 else 0)"
    and host: "host_permits (tk_host t) s' + (if holds_host (tk_host t) t' then 1 else 0)
             = host_permits (tk_host t) s + (if holds_host (tk_host t) t then 1 else 0)"
    and others: "\<And>h. h \<noteq> tk_host t \<Longrightarrow> host_permits h s' = host_permits h s"
  shows "permits_inv s'"
proof -
  have "tx_global s' + fm_count holds_global (tx_tasks s') = GLOBAL_ACTIVE"
    using inv global task_counts [OF t, of holds_global t'] unfolding permits_inv_def tasks by linarith
  moreover have "host_permits h s' + fm_count (holds_host h) (tx_tasks s') = HOST_ACTIVE" for h
  proof (cases "h = tk_host t")
    case True
    have "host_permits h s + fm_count (holds_host h) (tx_tasks s) = HOST_ACTIVE"
      using inv by (simp add: permits_inv_def)
    with host task_counts [OF t, of "holds_host h" t'] show ?thesis unfolding tasks True by linarith
  next
    case False
    then have "\<not> holds_host h t" "\<not> holds_host h t'" using assms(3) by (auto simp: holds_host_def)
    with task_counts [OF t, of "holds_host h" t'] others [OF False] inv show ?thesis
      by (simp add: permits_inv_def tasks)
  qed
  ultimately show ?thesis by (simp add: permits_inv_def)
qed

lemma insert_job_queue:
  "tx_tasks (insert_job fmt (i, spec) s) = fmupd i \<lparr>tk_phase = PWaitHost, tk_host = si_host_id (js_client spec),
     tk_key = destination_key fmt spec, tk_lock = None\<rparr> (tx_tasks s)"
  "tx_global (insert_job fmt (i, spec) s) = tx_global s" "tx_hosts (insert_job fmt (i, spec) s) = tx_hosts s"
  "tx_destinations (insert_job fmt (i, spec) s) = tx_destinations s" "tx_locked (insert_job fmt (i, spec) s) = tx_locked s"
  "tx_next_lock (insert_job fmt (i, spec) s) = tx_next_lock s"
  by (simp_all add: insert_job_def)

text \<open>An invariant that a new waiting task does not disturb is kept by enqueueing a batch.\<close>

lemma insert_jobs_inv:
  assumes step: "\<And>i spec s. I s \<Longrightarrow> fmlookup (tx_tasks s) i = None \<Longrightarrow> I (insert_job fmt (i, spec) s)"
  shows "I s \<Longrightarrow> distinct ids \<Longrightarrow> list_all (\<lambda>i. fmlookup (tx_tasks s) i = None) ids \<Longrightarrow>
    I (fold (insert_job fmt) (zip ids specs) s)"
proof (induction ids arbitrary: specs s)
  case (Cons i ids)
  show ?case
  proof (cases specs)
    case (Cons spec specs')
    have "list_all (\<lambda>i. fmlookup (tx_tasks (insert_job fmt (i', spec) s)) i = None) ids" if "i' = i" for i'
      using Cons.prems(2,3) that by (auto simp: insert_job_queue list_all_iff)
    with Cons.IH [OF step [OF Cons.prems(1)], of i spec specs'] Cons.prems(2,3) Cons show ?thesis by simp
  qed (use Cons.prems in simp)
qed simp

lemma enqueue_inv:
  assumes "I s" "transfer_enabled (JEnqueue fmt ids specs) s" "\<And>s. I (trim_history s) = I s"
    and "\<And>i spec s. I s \<Longrightarrow> fmlookup (tx_tasks s) i = None \<Longrightarrow> I (insert_job fmt (i, spec) s)"
  shows "I (snd (enqueue_batch fmt ids specs s))"
  using assms insert_jobs_inv [of I fmt "trim_history s" ids specs]
  by (auto simp: enqueue_batch_def Let_def)

lemma permits_insert_job:
  assumes "permits_inv s" "fmlookup (tx_tasks s) i = None"
  shows "permits_inv (insert_job fmt (i, spec) s)"
  using assms
  by (simp add: permits_inv_def host_permits_def insert_job_queue fm_count_upd fmdrop_absent
      holds_global_def holds_host_def)

lemma set_phase_Some:
  "fmlookup (tx_tasks s) i = Some t \<Longrightarrow> set_phase i p s = s\<lparr>tx_tasks := fmupd i (t\<lparr>tk_phase := p\<rparr>) (tx_tasks s)\<rparr>"
  by (simp add: set_phase_def)

lemma end_task_Some:
  "fmlookup (tx_tasks s) i = Some t \<Longrightarrow>
   end_task i p s = s\<lparr>tx_tasks := fmupd i (t\<lparr>tk_phase := p, tk_lock := None\<rparr>) (tx_tasks s)\<rparr>"
  by (simp add: end_task_def)

lemma host_permits_upd [simp]:
  "host_permits h (s\<lparr>tx_hosts := fmupd h' n (tx_hosts s)\<rparr>) = (if h = h' then n else host_permits h s)"
  by (simp add: host_permits_def)

lemma unmap_frame [simp]:
  "tx_tasks (unmap_destination t s) = tx_tasks s" "tx_global (unmap_destination t s) = tx_global s"
  "tx_hosts (unmap_destination t s) = tx_hosts s" "tx_locked (unmap_destination t s) = tx_locked s"
  "tx_next_lock (unmap_destination t s) = tx_next_lock s" "tx_jobs (unmap_destination t s) = tx_jobs s"
  "tx_order (unmap_destination t s) = tx_order s" "tx_poisoned (unmap_destination t s) = tx_poisoned s"
  "tx_cleanup_tasks (unmap_destination t s) = tx_cleanup_tasks s"
  by (simp_all add: unmap_destination_def split: option.splits)

lemma unlock_frame [simp]:
  "tx_tasks (unlock t s) = tx_tasks s" "tx_global (unlock t s) = tx_global s" "tx_hosts (unlock t s) = tx_hosts s"
  "tx_destinations (unlock t s) = tx_destinations s" "tx_next_lock (unlock t s) = tx_next_lock s"
  by (simp_all add: unlock_def split: option.splits)

lemmas task_defs = task_cancelled_def task_takes_host_def task_takes_global_def task_prepares_def task_locks_def
  task_releases_def task_reports_def task_aborts_def on_task_def give_host_def give_global_def

lemma permits_step:
  assumes "permits_inv s" "transfer_enabled e s"
  shows "permits_inv (transfer_step e s)"
proof (cases "queue_event e")
  case False
  with assms(1) permits_inv_cong [OF queue_of_step] show ?thesis by blast
next
  case True
  then show ?thesis
  proof (cases e)
    case (JEnqueue fmt ids specs)
    with assms show ?thesis
      using enqueue_inv [of permits_inv s fmt ids specs] permits_insert_job permits_inv_cong [OF queue_of_reports(1)]
      by simp
  next
    case (JTaskCancelled i)
    then obtain t where t: "fmlookup (tx_tasks s) i = Some t" "tk_phase t \<in> {PWaitHost, PWaitGlobal, PWaitDestination}"
      using assms(2) by (auto simp: task_phase_of_def)
    then show ?thesis
      using JTaskCancelled
      by (intro permits_task_change [OF assms(1) t(1), where t' = "t\<lparr>tk_phase := PEnded, tk_lock := None\<rparr>"])
        (auto simp: task_defs Let_def end_task_Some holds_global_def holds_host_def host_permits_def)
  next
    case (JTakesHost i)
    then obtain t where t: "fmlookup (tx_tasks s) i = Some t" "tk_phase t = PWaitHost" "0 < host_permits (tk_host t) s"
      using assms(2) by (auto split: option.splits)
    then show ?thesis
      using JTakesHost
      by (intro permits_task_change [OF assms(1) t(1), where t' = "t\<lparr>tk_phase := PWaitGlobal\<rparr>"])
        (auto simp: task_defs set_phase_Some holds_global_def holds_host_def host_permits_def)
  next
    case (JTakesGlobal i)
    then obtain t where t: "fmlookup (tx_tasks s) i = Some t" "tk_phase t = PWaitGlobal" "0 < tx_global s"
      using assms(2) by (auto simp: task_phase_of_def)
    then show ?thesis
      using JTakesGlobal
      by (intro permits_task_change [OF assms(1) t(1), where t' = "t\<lparr>tk_phase := PPrepare\<rparr>"])
        (auto simp: task_defs set_phase_Some holds_global_def holds_host_def host_permits_def)
  next
    case (JPrepares i)
    then obtain t where t: "fmlookup (tx_tasks s) i = Some t" "tk_phase t = PPrepare"
      using assms(2) by (auto simp: task_phase_of_def)
    then show ?thesis
      using JPrepares
      by (intro permits_task_change [OF assms(1) t(1), where t' = "t\<lparr>tk_phase := PWaitDestination,
          tk_lock := Some (case fmlookup (tx_destinations s) (tk_key t) of Some l \<Rightarrow> l | None \<Rightarrow> tx_next_lock s)\<rparr>"])
        (auto simp: task_defs Let_def holds_global_def holds_host_def host_permits_def split: option.splits)
  next
    case (JLocks i)
    then obtain t l where t: "fmlookup (tx_tasks s) i = Some t" "tk_phase t = PWaitDestination" "tk_lock t = Some l"
      using assms(2) by (auto split: option.splits)
    then show ?thesis
      using JLocks
      by (intro permits_task_change [OF assms(1) t(1), where t' = "t\<lparr>tk_phase := PRun\<rparr>"])
        (auto simp: task_defs set_phase_Some holds_global_def holds_host_def host_permits_def)
  next
    case (JReleases i r)
    then obtain t where t: "fmlookup (tx_tasks s) i = Some t" "tk_phase t = PRun"
      using assms(2) by (auto simp: task_phase_of_def)
    then show ?thesis
      using JReleases
      by (intro permits_task_change [OF assms(1) t(1), where t' = "t\<lparr>tk_phase := PReleased r\<rparr>"])
        (auto simp: task_defs set_phase_Some holds_global_def holds_host_def host_permits_def)
  next
    case (JReports i r)
    then obtain t where t: "fmlookup (tx_tasks s) i = Some t" "tk_phase t = PReleased r"
      using assms(2) by (auto simp: task_phase_of_def)
    then show ?thesis
      using JReports
      by (intro permits_task_change [OF assms(1) t(1), where t' = "t\<lparr>tk_phase := PEnded, tk_lock := None\<rparr>"])
        (auto simp: task_defs end_task_Some holds_global_def holds_host_def host_permits_def)
  next
    case (JAborts i owned)
    then obtain t where t: "fmlookup (tx_tasks s) i = Some t" "tk_phase t = PRun"
      using assms(2) by (auto simp: task_phase_of_def)
    then show ?thesis
      using JAborts
      by (intro permits_task_change [OF assms(1) t(1), where t' = "t\<lparr>tk_phase := PAborted, tk_lock := None\<rparr>"])
        (auto simp: task_defs Let_def end_task_Some holds_global_def holds_host_def host_permits_def)
  qed (use True in auto)
qed

section \<open>Destination locks\<close>

fun has_lock :: "task_phase \<Rightarrow> bool" where
  "has_lock PWaitDestination = True"
| "has_lock PRun = True"
| "has_lock (PReleased _) = True"
| "has_lock _ = False"

text \<open>
  A task that holds a reference to a lock finds that lock in the map under its key; different keys have
  different locks; a running task's lock is locked, and only one runs with it.
\<close>

definition locks_inv :: "transfers \<Rightarrow> bool" where
  "locks_inv s \<longleftrightarrow>
     (\<forall>i t. fmlookup (tx_tasks s) i = Some t \<longrightarrow>
        (if has_lock (tk_phase t) then (\<exists>l. tk_lock t = Some l \<and> fmlookup (tx_destinations s) (tk_key t) = Some l)
         else tk_lock t = None))
     \<and> (\<forall>i t l. fmlookup (tx_tasks s) i = Some t \<longrightarrow> tk_phase t = PRun \<longrightarrow> tk_lock t = Some l \<longrightarrow> l |\<in>| tx_locked s)
     \<and> (\<forall>i j t u. fmlookup (tx_tasks s) i = Some t \<longrightarrow> fmlookup (tx_tasks s) j = Some u \<longrightarrow> tk_phase t = PRun \<longrightarrow>
          tk_phase u = PRun \<longrightarrow> tk_lock t = tk_lock u \<longrightarrow> i = j)
     \<and> (\<forall>k l. fmlookup (tx_destinations s) k = Some l \<longrightarrow> l < tx_next_lock s)
     \<and> (\<forall>k k' l. fmlookup (tx_destinations s) k = Some l \<longrightarrow> fmlookup (tx_destinations s) k' = Some l \<longrightarrow> k = k')"

lemma locks_inv_cong: "queue_of s' = queue_of s \<Longrightarrow> locks_inv s' = locks_inv s"
  by (simp add: locks_inv_def queue_of_def)

lemma locks_invD:
  assumes "locks_inv s"
  shows "fmlookup (tx_tasks s) i = Some t \<Longrightarrow> has_lock (tk_phase t) \<Longrightarrow>
      (\<exists>l. tk_lock t = Some l \<and> fmlookup (tx_destinations s) (tk_key t) = Some l)"
    and "fmlookup (tx_tasks s) i = Some t \<Longrightarrow> \<not> has_lock (tk_phase t) \<Longrightarrow> tk_lock t = None"
    and "fmlookup (tx_tasks s) i = Some t \<Longrightarrow> tk_phase t = PRun \<Longrightarrow> tk_lock t = Some l \<Longrightarrow> l |\<in>| tx_locked s"
    and "fmlookup (tx_tasks s) i = Some t \<Longrightarrow> fmlookup (tx_tasks s) j = Some u \<Longrightarrow> tk_phase t = PRun \<Longrightarrow>
      tk_phase u = PRun \<Longrightarrow> tk_lock t = tk_lock u \<Longrightarrow> i = j"
    and "fmlookup (tx_destinations s) k = Some l \<Longrightarrow> l < tx_next_lock s"
    and "fmlookup (tx_destinations s) k = Some l \<Longrightarrow> fmlookup (tx_destinations s) k' = Some l \<Longrightarrow> k = k'"
  using assms unfolding locks_inv_def by metis+

lemma locks_task_change:
  assumes inv: "locks_inv s"
    and tasks: "tx_tasks s' = fmupd i t' (tx_tasks s)"
    and mine: "if has_lock (tk_phase t') then (\<exists>l. tk_lock t' = Some l \<and> fmlookup (tx_destinations s') (tk_key t') = Some l)
        else tk_lock t' = None"
    and others: "\<And>j u. j \<noteq> i \<Longrightarrow> fmlookup (tx_tasks s) j = Some u \<Longrightarrow> has_lock (tk_phase u) \<Longrightarrow>
        fmlookup (tx_destinations s') (tk_key u) = fmlookup (tx_destinations s) (tk_key u)"
    and run: "\<And>l. tk_phase t' = PRun \<Longrightarrow> tk_lock t' = Some l \<Longrightarrow> l |\<in>| tx_locked s' \<and>
        (\<forall>j u. j \<noteq> i \<longrightarrow> fmlookup (tx_tasks s) j = Some u \<longrightarrow> tk_phase u = PRun \<longrightarrow> tk_lock u \<noteq> Some l)"
    and locked: "\<And>j u l. j \<noteq> i \<Longrightarrow> fmlookup (tx_tasks s) j = Some u \<Longrightarrow> tk_phase u = PRun \<Longrightarrow> tk_lock u = Some l \<Longrightarrow>
        l |\<in>| tx_locked s'"
    and map: "\<And>k l. fmlookup (tx_destinations s') k = Some l \<Longrightarrow> l < tx_next_lock s'"
      "\<And>k k' l. fmlookup (tx_destinations s') k = Some l \<Longrightarrow> fmlookup (tx_destinations s') k' = Some l \<Longrightarrow> k = k'"
  shows "locks_inv s'"
  unfolding locks_inv_def
proof (intro conjI allI impI)
  fix j u assume j: "fmlookup (tx_tasks s') j = Some u"
  show "if has_lock (tk_phase u) then (\<exists>l. tk_lock u = Some l \<and> fmlookup (tx_destinations s') (tk_key u) = Some l)
      else tk_lock u = None"
  proof (cases "j = i")
    case True
    with j have "u = t'" by (simp add: tasks)
    then show ?thesis using mine by (simp only:)
  next
    case False
    with j have "fmlookup (tx_tasks s) j = Some u" by (simp add: tasks)
    with others [OF False this] locks_invD(1,2) [OF inv this] show ?thesis by auto
  qed
next
  fix j u l assume "fmlookup (tx_tasks s') j = Some u" "tk_phase u = PRun" "tk_lock u = Some l"
  then show "l |\<in>| tx_locked s'" using run locked by (cases "j = i") (auto simp: tasks)
next
  fix j k u v
  assume a: "fmlookup (tx_tasks s') j = Some u" "fmlookup (tx_tasks s') k = Some v" "tk_phase u = PRun" "tk_phase v = PRun"
    "tk_lock u = tk_lock v"
  have alone: False if w: "n \<noteq> i" "fmlookup (tx_tasks s) n = Some w" "tk_phase w = PRun" "tk_phase t' = PRun"
    "tk_lock t' = tk_lock w" for n w
  proof -
    obtain l where l: "tk_lock t' = Some l" using mine w(4) by auto
    with run [OF w(4) l] w show False by metis
  qed
  show "j = k"
  proof (rule ccontr)
    assume "j \<noteq> k"
    then consider "j = i" "k \<noteq> i" | "j \<noteq> i" "k = i" | "j \<noteq> i" "k \<noteq> i" by blast
    then show False
    proof cases
      case 1
      then show False using a alone [of k v] by (simp add: tasks)
    next
      case 2
      then show False using a alone [of j u] by (simp add: tasks)
    next
      case 3
      then show False using a locks_invD(4) [OF inv, of j u k v] \<open>j \<noteq> k\<close> by (simp add: tasks)
    qed
  qed
qed (fact map)+

text \<open>A step of a task that leaves the map alone and does not unlock anything.\<close>

lemma locks_idle_change:
  assumes inv: "locks_inv s" and tasks: "tx_tasks s' = fmupd i t' (tx_tasks s)"
    and same: "tx_destinations s' = tx_destinations s" "tx_next_lock s' = tx_next_lock s" "tx_locked s' = tx_locked s"
    and t': "\<not> has_lock (tk_phase t')" "tk_lock t' = None"
  shows "locks_inv s'"
proof (rule locks_task_change [OF inv tasks])
  fix k l assume "fmlookup (tx_destinations s') k = Some l"
  then show "l < tx_next_lock s'" unfolding same by (rule locks_invD(5) [OF inv])
next
  fix k k' l assume "fmlookup (tx_destinations s') k = Some l" "fmlookup (tx_destinations s') k' = Some l"
  then show "k = k'" unfolding same by (rule locks_invD(6) [OF inv])
next
  fix j u l assume "fmlookup (tx_tasks s) j = Some u" "tk_phase u = PRun" "tk_lock u = Some l"
  then show "l |\<in>| tx_locked s'" unfolding same by (rule locks_invD(3) [OF inv])
qed (use t' same in auto)

text \<open>
  Removing a destination from the map when only the map and the removing task hold its lock leaves every
  other task's lock in the map.
\<close>

lemma unmap_others:
  assumes inv: "locks_inv s" and i: "fmlookup (tx_tasks s) i = Some t" "has_lock (tk_phase t)"
    and j: "fmlookup (tx_tasks s) j = Some u" "has_lock (tk_phase u)" "j \<noteq> i"
  shows "fmlookup (tx_destinations (unmap_destination t s)) (tk_key u) = fmlookup (tx_destinations s) (tk_key u)"
proof (cases "tk_key u = tk_key t")
  case True
  obtain l where l: "tk_lock t = Some l" "fmlookup (tx_destinations s) (tk_key t) = Some l"
    using locks_invD(1) [OF inv i] by auto
  have u: "tk_lock u = Some l" using locks_invD(1) [OF inv j(1,2)] True l by simp
  have "fm_count (\<lambda>t. tk_lock t = Some l) (tx_tasks s) \<noteq> 1"
    using fm_count_1D [OF _ i(1) _ j(1), of "\<lambda>t. tk_lock t = Some l"] l(1) u j(3) by auto
  moreover have "0 < fm_count (\<lambda>t. tk_lock t = Some l) (tx_tasks s)"
    using fm_count_drop [of "\<lambda>t. tk_lock t = Some l" "tx_tasks s" i] i l(1) by simp
  moreover have "0 < fm_count (\<lambda>l'. l' = l) (tx_destinations s)"
    using fm_count_drop [of "\<lambda>l'. l' = l" "tx_destinations s" "tk_key t"] l(2) by simp
  ultimately have "strong_count l s \<noteq> 2" by (simp add: strong_count_def)
  with l(1) show ?thesis by (simp add: unmap_destination_def)
next
  case False
  then show ?thesis by (simp add: unmap_destination_def split: option.splits)
qed

lemma unmap_subset:
  "fmlookup (tx_destinations (unmap_destination t s)) k = Some l \<Longrightarrow> fmlookup (tx_destinations s) k = Some l"
  by (auto simp: unmap_destination_def split: option.splits if_splits)

lemma unmap_report [simp]:
  "tx_destinations (unmap_destination t (set_job_state i st s)) = tx_destinations (unmap_destination t s)"
  by (simp add: unmap_destination_def strong_count_def split: option.split)

lemma locks_insert_job:
  assumes "locks_inv s" "fmlookup (tx_tasks s) i = None"
  shows "locks_inv (insert_job fmt (i, spec) s)"
  by (rule locks_idle_change [OF assms(1) insert_job_queue(1)]) (simp_all add: insert_job_queue)

lemma locks_end:
  assumes inv: "locks_inv s" and i: "fmlookup (tx_tasks s) i = Some t" "has_lock (tk_phase t)"
    and s': "tx_tasks s' = fmupd i (t\<lparr>tk_phase := PEnded, tk_lock := None\<rparr>) (tx_tasks s)"
      "tx_destinations s' = tx_destinations (unmap_destination t s)" "tx_locked s' = tx_locked s"
      "tx_next_lock s' = tx_next_lock s"
  shows "locks_inv s'"
proof (rule locks_task_change [OF inv s'(1)])
  fix k l assume "fmlookup (tx_destinations s') k = Some l"
  then show "l < tx_next_lock s'" unfolding s' by (rule locks_invD(5) [OF inv unmap_subset])
next
  fix k k' l assume "fmlookup (tx_destinations s') k = Some l" "fmlookup (tx_destinations s') k' = Some l"
  then show "k = k'" unfolding s' by (rule locks_invD(6) [OF inv unmap_subset unmap_subset])
next
  fix j u assume "j \<noteq> i" "fmlookup (tx_tasks s) j = Some u" "has_lock (tk_phase u)"
  then show "fmlookup (tx_destinations s') (tk_key u) = fmlookup (tx_destinations s) (tk_key u)"
    unfolding s' by (intro unmap_others [OF inv i])
next
  fix j u l assume "fmlookup (tx_tasks s) j = Some u" "tk_phase u = PRun" "tk_lock u = Some l"
  then show "l |\<in>| tx_locked s'" unfolding s' by (rule locks_invD(3) [OF inv])
qed simp_all

lemma locks_unlock:
  assumes inv: "locks_inv s" and i: "fmlookup (tx_tasks s) i = Some t" "tk_phase t = PRun"
    and t': "tk_phase t' \<noteq> PRun" "tk_key t' = tk_key t"
      "if has_lock (tk_phase t') then tk_lock t' = tk_lock t else tk_lock t' = None"
    and s': "tx_tasks s' = fmupd i t' (tx_tasks s)" "tx_destinations s' = tx_destinations s"
      "tx_locked s' = tx_locked (unlock t s)" "tx_next_lock s' = tx_next_lock s"
  shows "locks_inv s'"
proof (rule locks_task_change [OF inv s'(1)])
  show "if has_lock (tk_phase t') then (\<exists>l. tk_lock t' = Some l \<and> fmlookup (tx_destinations s') (tk_key t') = Some l)
      else tk_lock t' = None"
    using t'(2,3) locks_invD(1) [OF inv i(1)] i(2) s'(2) by (auto split: if_splits)
next
  fix j u l assume j: "j \<noteq> i" "fmlookup (tx_tasks s) j = Some u" "tk_phase u = PRun" "tk_lock u = Some l"
  then have "tk_lock t \<noteq> Some l" using locks_invD(4) [OF inv i(1) j(2)] i(2) by auto
  then show "l |\<in>| tx_locked s'"
    using locks_invD(3) [OF inv j(2-4)] by (auto simp: s'(3) unlock_def split: option.splits)
next
  fix k l assume "fmlookup (tx_destinations s') k = Some l"
  then show "l < tx_next_lock s'" unfolding s' by (rule locks_invD(5) [OF inv])
next
  fix k k' l assume "fmlookup (tx_destinations s') k = Some l" "fmlookup (tx_destinations s') k' = Some l"
  then show "k = k'" unfolding s' by (rule locks_invD(6) [OF inv])
qed (use t'(1) s'(2) in simp_all)

lemma locks_prepares:
  assumes inv: "locks_inv s"
  shows "locks_inv (task_prepares i t s)"
proof -
  define l where "l = (case fmlookup (tx_destinations s) (tk_key t) of Some l \<Rightarrow> l | None \<Rightarrow> tx_next_lock s)"
  let ?s = "task_prepares i t s" and ?t = "t\<lparr>tk_phase := PWaitDestination, tk_lock := Some l\<rparr>"
  have s': "tx_tasks ?s = fmupd i ?t (tx_tasks s)" "tx_locked ?s = tx_locked s"
    "tx_destinations ?s = fmupd (tk_key t) l (tx_destinations s)" "tx_next_lock s \<le> tx_next_lock ?s" "l < tx_next_lock ?s"
    using locks_invD(5) [OF inv, of "tk_key t"]
    by (auto simp: task_prepares_def l_def Let_def intro!: fmap_ext split: option.split)
  have l_key: "k = tk_key t" if "fmlookup (tx_destinations s) k = Some l" for k
    using that locks_invD(5) [OF inv that] locks_invD(6) [OF inv that, of "tk_key t"]
    by (auto simp: l_def split: option.splits)
  show ?thesis
  proof (rule locks_task_change [OF inv s'(1)])
    fix j u assume "fmlookup (tx_tasks s) j = Some u" "has_lock (tk_phase u)"
    from locks_invD(1) [OF inv this]
    show "fmlookup (tx_destinations ?s) (tk_key u) = fmlookup (tx_destinations s) (tk_key u)"
      by (auto simp: s' l_def)
  next
    fix j u m assume "fmlookup (tx_tasks s) j = Some u" "tk_phase u = PRun" "tk_lock u = Some m"
    then show "m |\<in>| tx_locked ?s" unfolding s' by (rule locks_invD(3) [OF inv])
  next
    fix k m assume "fmlookup (tx_destinations ?s) k = Some m"
    with s'(4,5) locks_invD(5) [OF inv, of k m] show "m < tx_next_lock ?s" by (auto simp: s'(3) split: if_splits)
  next
    fix k k' m assume "fmlookup (tx_destinations ?s) k = Some m" "fmlookup (tx_destinations ?s) k' = Some m"
    then show "k = k'"
      using l_key locks_invD(6) [OF inv, of k m k'] by (auto simp: s'(3) split: if_splits)
  qed (simp_all add: s')
qed

lemma locks_locks:
  assumes inv: "locks_inv s" and t: "fmlookup (tx_tasks s) i = Some t" "tk_phase t = PWaitDestination" "tk_lock t = Some l"
    "l |\<notin>| tx_locked s"
  shows "locks_inv (task_locks i t s)"
proof -
  let ?s = "task_locks i t s" and ?t = "t\<lparr>tk_phase := PRun\<rparr>"
  have s': "tx_tasks ?s = fmupd i ?t (tx_tasks s)" "tx_locked ?s = finsert l (tx_locked s)"
    "tx_destinations ?s = tx_destinations s" "tx_next_lock ?s = tx_next_lock s"
    using t by (simp_all add: task_locks_def set_phase_Some)
  have held: "m |\<in>| tx_locked s" if "fmlookup (tx_tasks s) j = Some u" "tk_phase u = PRun" "tk_lock u = Some m" for j u m
    using that by (rule locks_invD(3) [OF inv])
  show ?thesis
  proof (rule locks_task_change [OF inv s'(1)])
    fix m assume "tk_lock ?t = Some m"
    then have "m = l" using t(3) by simp
    then show "m |\<in>| tx_locked ?s \<and>
      (\<forall>j u. j \<noteq> i \<longrightarrow> fmlookup (tx_tasks s) j = Some u \<longrightarrow> tk_phase u = PRun \<longrightarrow> tk_lock u \<noteq> Some m)"
      using held t(4) by (auto simp: s')
  next
    fix k m assume "fmlookup (tx_destinations ?s) k = Some m"
    then show "m < tx_next_lock ?s" unfolding s' by (rule locks_invD(5) [OF inv])
  next
    fix k k' m assume "fmlookup (tx_destinations ?s) k = Some m" "fmlookup (tx_destinations ?s) k' = Some m"
    then show "k = k'" unfolding s' by (rule locks_invD(6) [OF inv])
  qed (use locks_invD(1) [OF inv t(1)] t held s' in \<open>simp_all\<close>)
qed

lemma locks_step:
  assumes "locks_inv s" "transfer_enabled e s"
  shows "locks_inv (transfer_step e s)"
proof (cases "queue_event e")
  case False
  with assms(1) locks_inv_cong [OF queue_of_step] show ?thesis by blast
next
  case True
  then show ?thesis
  proof (cases e)
    case (JEnqueue fmt ids specs)
    with assms show ?thesis
      using enqueue_inv [of locks_inv s fmt ids specs] locks_insert_job locks_inv_cong [OF queue_of_reports(1)]
      by simp
  next
    case (JTaskCancelled i)
    then obtain t where t: "fmlookup (tx_tasks s) i = Some t" "tk_phase t \<in> {PWaitHost, PWaitGlobal, PWaitDestination}"
      using assms(2) by (auto simp: task_phase_of_def)
    show ?thesis
    proof (cases "tk_phase t = PWaitDestination")
      case True
      with t JTaskCancelled show ?thesis
        by (intro locks_end [OF assms(1) t(1)]) (auto simp: task_defs Let_def end_task_Some unmap_report)
    next
      case False
      with t JTaskCancelled show ?thesis
        by (intro locks_idle_change [OF assms(1), where i = i and t' = "t\<lparr>tk_phase := PEnded, tk_lock := None\<rparr>"])
          (auto simp: task_defs Let_def end_task_Some)
    qed
  next
    case (JTakesHost i)
    then obtain t where t: "fmlookup (tx_tasks s) i = Some t" "tk_phase t = PWaitHost"
      using assms(2) by (auto split: option.splits)
    then show ?thesis
      using JTakesHost locks_invD(2) [OF assms(1) t(1)]
      by (intro locks_idle_change [OF assms(1), where i = i and t' = "t\<lparr>tk_phase := PWaitGlobal\<rparr>"])
        (auto simp: task_defs set_phase_Some)
  next
    case (JTakesGlobal i)
    then obtain t where t: "fmlookup (tx_tasks s) i = Some t" "tk_phase t = PWaitGlobal"
      using assms(2) by (auto simp: task_phase_of_def)
    then show ?thesis
      using JTakesGlobal locks_invD(2) [OF assms(1) t(1)]
      by (intro locks_idle_change [OF assms(1), where i = i and t' = "t\<lparr>tk_phase := PPrepare\<rparr>"])
        (auto simp: task_defs set_phase_Some)
  next
    case (JPrepares i)
    then obtain t where t: "fmlookup (tx_tasks s) i = Some t" "tk_phase t = PPrepare"
      using assms(2) by (auto simp: task_phase_of_def)
    with JPrepares show ?thesis by (simp add: on_task_def locks_prepares [OF assms(1)])
  next
    case (JLocks i)
    then obtain t l where t: "fmlookup (tx_tasks s) i = Some t" "tk_phase t = PWaitDestination" "tk_lock t = Some l"
      "l |\<notin>| tx_locked s"
      using assms(2) by (auto split: option.splits)
    with JLocks show ?thesis by (simp add: on_task_def locks_locks [OF assms(1)])
  next
    case (JReleases i r)
    then obtain t where t: "fmlookup (tx_tasks s) i = Some t" "tk_phase t = PRun"
      using assms(2) by (auto simp: task_phase_of_def)
    then show ?thesis
      using JReleases
      by (intro locks_unlock [OF assms(1) t, where t' = "t\<lparr>tk_phase := PReleased r\<rparr>"])
        (auto simp: task_defs set_phase_Some)
  next
    case (JReports i r)
    then obtain t where t: "fmlookup (tx_tasks s) i = Some t" "tk_phase t = PReleased r"
      using assms(2) by (auto simp: task_phase_of_def)
    then show ?thesis
      using JReports
      by (intro locks_end [OF assms(1) t(1)]) (auto simp: task_defs end_task_Some)
  next
    case (JAborts i owned)
    then obtain t where t: "fmlookup (tx_tasks s) i = Some t" "tk_phase t = PRun"
      using assms(2) by (auto simp: task_phase_of_def)
    then show ?thesis
      using JAborts
      by (intro locks_unlock [OF assms(1) t, where t' = "t\<lparr>tk_phase := PAborted, tk_lock := None\<rparr>"])
        (auto simp: task_defs Let_def end_task_Some unlock_def split: option.splits)
  qed (use True in auto)
qed

end
