(* ===== verification/Transfer_History.thy ===== *)
theory Transfer_History
  imports Transfer_Queue
begin

text \<open>
  The records of the transfer queue: a job's record belongs to a task that is still to end or is final,
  finished jobs keep no specification, only they are forgotten, and the number of unfinished jobs is bounded.
  Over these, quiescing a session (\<open>quiesce_session\<close>, \<open>quiesce_all\<close>).
\<close>

section \<open>Forgetting finished jobs\<close>

lemma trim_history_unfold:
  "trim_history s =
     (if fm_count (\<lambda>j. terminal (job_state j)) (tx_jobs s) \<le> HISTORY_CAP then s
      else case find (forgettable s) (tx_order s) of
        None \<Rightarrow> s
      | Some i \<Rightarrow> trim_history (s\<lparr>tx_order := remove1 i (tx_order s), tx_jobs := fmdrop i (tx_jobs s)\<rparr>))"
  by (subst trim_history.simps) (simp add: not_less)

text \<open>An invariant that dropping one forgettable job keeps.\<close>

lemma trim_history_keeps:
  assumes "I s"
    and drop: "\<And>s i. I s \<Longrightarrow> forgettable s i \<Longrightarrow> i \<in> set (tx_order s) \<Longrightarrow>
      I (s\<lparr>tx_order := remove1 i (tx_order s), tx_jobs := fmdrop i (tx_jobs s)\<rparr>)"
  shows "I (trim_history s)"
  using assms(1)
proof (induction s rule: trim_history.induct)
  case (1 s)
  show ?case
  proof (cases "find (forgettable s) (tx_order s)")
    case None
    with 1 show ?thesis by (subst trim_history_unfold) simp
  next
    case (Some i)
    then have "I (s\<lparr>tx_order := remove1 i (tx_order s), tx_jobs := fmdrop i (tx_jobs s)\<rparr>)"
      using drop [OF 1(2)] by (auto simp: find_Some_iff)
    with 1 Some show ?thesis by (subst trim_history_unfold) simp
  qed
qed

lemma trim_history_jobs:
  "fmlookup (tx_jobs (trim_history s)) i = Some j \<Longrightarrow> fmlookup (tx_jobs s) i = Some j"
proof -
  have "\<forall>i j. fmlookup (tx_jobs (trim_history s)) i = Some j \<longrightarrow> fmlookup (tx_jobs s) i = Some j"
    by (rule trim_history_keeps) (auto split: if_splits)
  then show "fmlookup (tx_jobs (trim_history s)) i = Some j \<Longrightarrow> fmlookup (tx_jobs s) i = Some j" by blast
qed

lemma trim_history_unfinished:
  assumes "fmlookup (tx_jobs s) i = Some j" "\<not> forgettable s i"
  shows "fmlookup (tx_jobs (trim_history s)) i = Some j"
proof -
  have "fmlookup (tx_jobs (trim_history s)) i = Some j \<and> \<not> forgettable (trim_history s) i"
    by (rule trim_history_keeps) (use assms in \<open>auto simp: forgettable_def\<close>)
  then show ?thesis by blast
qed

lemma trim_history_result:
  "fm_count (\<lambda>j. terminal (job_state j)) (tx_jobs (trim_history s)) \<le> HISTORY_CAP
   \<or> list_all (\<lambda>i. \<not> forgettable (trim_history s) i) (tx_order (trim_history s))"
proof (induction s rule: trim_history.induct)
  case (1 s)
  show ?case
  proof (cases "fm_count (\<lambda>j. terminal (job_state j)) (tx_jobs s) > HISTORY_CAP")
    case True
    show ?thesis
    proof (cases "find (forgettable s) (tx_order s)")
      case None
      moreover from None have "list_all (\<lambda>i. \<not> forgettable s i) (tx_order s)"
        by (simp add: find_None_iff list_all_iff)
      ultimately show ?thesis by (subst (1 2 3) trim_history_unfold) simp
    next
      case (Some i)
      with 1 [OF True Some] True show ?thesis by (subst (1 2 3) trim_history_unfold) simp
    qed
  next
    case False
    then have "trim_history s = s" by (subst trim_history_unfold) simp
    with False show ?thesis by simp
  qed
qed

section \<open>Records and tasks\<close>

definition alive :: "task \<Rightarrow> bool" where
  "alive t = (tk_phase t \<noteq> PEnded \<and> tk_phase t \<noteq> PAborted)"

definition busy :: "transfers \<Rightarrow> transfer_job_id \<Rightarrow> bool" where
  "busy s i = ((case fmlookup (tx_tasks s) i of None \<Rightarrow> False | Some t \<Rightarrow> alive t) \<or> i |\<in>| tx_cleanup_tasks s)"

definition jobs_inv :: "transfer_job_id set \<Rightarrow> transfers \<Rightarrow> bool" where
  "jobs_inv X s \<longleftrightarrow>
     distinct (tx_order s) \<and> (\<forall>i. i \<in> set (tx_order s) \<longleftrightarrow> fmlookup (tx_jobs s) i \<noteq> None)
     \<and> (\<forall>i. fmlookup (tx_jobs s) i \<noteq> None \<longrightarrow> fmlookup (tx_tasks s) i \<noteq> None)
     \<and> (\<forall>i j. fmlookup (tx_jobs s) i = Some j \<longrightarrow> terminal (job_state j) \<longrightarrow> jr_active_spec j = None)
     \<and> (\<forall>i. i \<notin> X \<longrightarrow> busy s i \<longrightarrow> (\<exists>j. fmlookup (tx_jobs s) i = Some j \<and> \<not> terminal (job_state j)))
     \<and> (\<forall>i. i |\<in>| tx_cleanup_tasks s \<longrightarrow> task_phase_of s i = Some PAborted)"

lemma jobs_invD:
  assumes "jobs_inv X s"
  shows "distinct (tx_order s)" and "i \<in> set (tx_order s) \<longleftrightarrow> fmlookup (tx_jobs s) i \<noteq> None"
    and "fmlookup (tx_jobs s) i \<noteq> None \<Longrightarrow> fmlookup (tx_tasks s) i \<noteq> None"
    and "fmlookup (tx_jobs s) i = Some j \<Longrightarrow> terminal (job_state j) \<Longrightarrow> jr_active_spec j = None"
    and "i \<notin> X \<Longrightarrow> busy s i \<Longrightarrow> \<exists>j. fmlookup (tx_jobs s) i = Some j \<and> \<not> terminal (job_state j)"
    and "i |\<in>| tx_cleanup_tasks s \<Longrightarrow> task_phase_of s i = Some PAborted"
  using assms unfolding jobs_inv_def by blast+

lemma jobs_inv_new: "jobs_inv {} transfers_new"
  by (simp add: jobs_inv_def transfers_new_def busy_def)

lemma jobs_drop:
  assumes inv: "jobs_inv X s" and i: "forgettable s i" "i \<in> set (tx_order s)"
  shows "jobs_inv X (s\<lparr>tx_order := remove1 i (tx_order s), tx_jobs := fmdrop i (tx_jobs s)\<rparr>)" (is "jobs_inv X ?s")
  unfolding jobs_inv_def
proof (intro conjI allI impI)
  fix k assume k: "k \<notin> X" "busy ?s k"
  then have "busy s k" by (simp add: busy_def)
  with k(1) jobs_invD(5) [OF inv] obtain j where j: "fmlookup (tx_jobs s) k = Some j" "\<not> terminal (job_state j)" by blast
  with i(1) have "k \<noteq> i" by (auto simp: forgettable_def)
  with j show "\<exists>j. fmlookup (tx_jobs ?s) k = Some j \<and> \<not> terminal (job_state j)" by simp
next
  fix k assume "k |\<in>| tx_cleanup_tasks ?s"
  then show "task_phase_of ?s k = Some PAborted" using jobs_invD(6) [OF inv, of k] by (simp add: task_phase_of_def)
next
  show "(k \<in> set (tx_order ?s)) = (fmlookup (tx_jobs ?s) k \<noteq> None)" for k
    using jobs_invD(1) [OF inv] jobs_invD(2) [OF inv, of k] by (simp add: set_remove1_eq)
qed (use jobs_invD(1) [OF inv] jobs_invD(3,4) [OF inv] in \<open>auto split: if_splits\<close>)

lemma jobs_trim: "jobs_inv X s \<Longrightarrow> jobs_inv X (trim_history s)"
  by (rule trim_history_keeps) (auto intro: jobs_drop)

text \<open>Changing the record of one job; \<open>Y\<close> excuses the job of a task that is about to end.\<close>

lemma jobs_upd:
  assumes inv: "jobs_inv X s" and i: "fmlookup (tx_jobs s) i = Some j"
    and j': "terminal (job_state j') \<Longrightarrow> jr_active_spec j' = None" "terminal (job_state j') \<Longrightarrow> terminal (job_state j) \<or> i \<in> Y"
    and "X \<subseteq> Y"
  shows "jobs_inv Y (s\<lparr>tx_jobs := fmupd i j' (tx_jobs s)\<rparr>)" (is "jobs_inv Y ?s")
  unfolding jobs_inv_def
proof (intro conjI allI impI)
  fix k assume k: "k \<notin> Y" "busy ?s k"
  then have "busy s k" "k \<notin> X" using assms(5) by (auto simp: busy_def)
  with k(1) j'(2) show "\<exists>j. fmlookup (tx_jobs ?s) k = Some j \<and> \<not> terminal (job_state j)"
    using jobs_invD(5) [OF inv, of k] i by (cases "k = i") auto
next
  fix k assume "k |\<in>| tx_cleanup_tasks ?s"
  then show "task_phase_of ?s k = Some PAborted" using jobs_invD(6) [OF inv, of k] by (simp add: task_phase_of_def)
next
  fix k w assume "fmlookup (tx_jobs ?s) k = Some w" "terminal (job_state w)"
  then show "jr_active_spec w = None"
    using j'(1) jobs_invD(4) [OF inv, of k w] by (auto split: if_splits)
next
  show "(k \<in> set (tx_order ?s)) = (fmlookup (tx_jobs ?s) k \<noteq> None)" for k
    using jobs_invD(2) [OF inv, of k] i by auto
next
  show "fmlookup (tx_tasks ?s) k \<noteq> None" if "fmlookup (tx_jobs ?s) k \<noteq> None" for k
    using jobs_invD(3) [OF inv, of k] i that by (auto split: if_splits)
qed (use jobs_invD(1) [OF inv] in simp)

text \<open>A change of tasks, permits and locks.\<close>

lemma jobs_tasks:
  assumes inv: "jobs_inv X s" and "tx_jobs s' = tx_jobs s" "tx_order s' = tx_order s"
    and clean: "\<And>k. k |\<in>| tx_cleanup_tasks s' \<Longrightarrow> task_phase_of s' k = Some PAborted"
    and tasks: "\<And>k. fmlookup (tx_tasks s) k \<noteq> None \<Longrightarrow> fmlookup (tx_tasks s') k \<noteq> None"
    and busy: "\<And>k. k \<notin> Y \<Longrightarrow> busy s' k \<Longrightarrow> busy s k \<and> k \<notin> X"
  shows "jobs_inv Y s'"
  unfolding jobs_inv_def assms(2,3)
  using jobs_invD(1) [OF inv] jobs_invD(2-5) [OF inv] clean tasks busy by blast

lemma with_state_simps [simp]:
  "job_state (with_state st j) = st" "job_key (with_state st j) = job_key j"
  "jr_active_spec (with_state st j) = (if terminal st then None else jr_active_spec j)"
  by (simp_all add: with_state_def job_key_def Let_def)

lemma with_failure_simps [simp]:
  "job_state (with_failure st e j) = st" "job_key (with_failure st e j) = job_key j"
  "jr_active_spec (with_failure st e j) = None"
  by (simp_all add: with_failure_def job_key_def)

lemma jobs_mono: "jobs_inv X s \<Longrightarrow> X \<subseteq> Y \<Longrightarrow> jobs_inv Y s"
  unfolding jobs_inv_def by blast

lemma jobs_set_state:
  assumes "jobs_inv X s" "terminal st \<Longrightarrow> i \<in> Y" "X \<subseteq> Y"
  shows "jobs_inv Y (set_job_state i st s)"
proof (cases "fmlookup (tx_jobs s) i")
  case (Some j)
  have "jobs_inv Y (s\<lparr>tx_jobs := fmupd i (with_state st j) (tx_jobs s)\<rparr>)"
    by (rule jobs_upd [OF assms(1) Some]) (use assms in auto)
  with Some jobs_mono [OF assms(1,3)] show ?thesis by (simp add: set_job_state_def Let_def jobs_trim)
qed (use jobs_mono [OF assms(1,3)] in \<open>simp add: set_job_state_def\<close>)

lemma jobs_upd_job:
  assumes "jobs_inv X s" "X \<subseteq> Y"
    and "\<And>j. fmlookup (tx_jobs s) i = Some j \<Longrightarrow> terminal (job_state (f j)) \<Longrightarrow>
      jr_active_spec (f j) = None \<and> (terminal (job_state j) \<or> i \<in> Y)"
  shows "jobs_inv Y (upd_job i f s)"
proof (cases "fmlookup (tx_jobs s) i")
  case (Some j)
  then show ?thesis
    using jobs_upd [OF assms(1) Some, of "f j" Y] assms(2,3) by (simp add: upd_job_def)
qed (use jobs_mono [OF assms(1,2)] in \<open>simp add: upd_job_def\<close>)

lemma jobs_finish:
  assumes "jobs_inv X s" "i \<in> Y" "X \<subseteq> Y"
  shows "jobs_inv Y (finish_error i e s)" "jobs_inv Y (finish_unknown i e s)" "jobs_inv Y (report_outcome i r s)"
proof -
  have upd: "jobs_inv Y (trim_history (upd_job i (with_failure st err) s))" for st err
    by (intro jobs_trim jobs_upd_job [OF assms(1,3)]) (use assms in simp)
  show "jobs_inv Y (finish_error i e s)" "jobs_inv Y (finish_unknown i e s)" "jobs_inv Y (report_outcome i r s)"
    using upd jobs_mono [OF assms(1,3)] jobs_set_state [OF assms(1) _ assms(3)] assms(2)
    by (auto simp: finish_error_def finish_unknown_def report_outcome_def split: result.split)
qed

lemma jobs_insert_job:
  assumes inv: "jobs_inv {} s" and i: "fmlookup (tx_tasks s) i = None"
  shows "jobs_inv {} (insert_job fmt (i, spec) s)" (is "jobs_inv {} ?s")
proof -
  have new: "fmlookup (tx_jobs s) i = None" using jobs_invD(3) [OF inv, of i] i by blast
  have view: "tj_state (new_job i spec) = JQueued" by (simp add: new_job_def split: prod.split)
  have s': "tx_order ?s = tx_order s @ [i]" "tx_cleanup_tasks ?s = tx_cleanup_tasks s"
    "tx_jobs ?s = fmupd i \<lparr>jr_view = new_job i spec, jr_active_spec = Some spec, jr_cleanup_unconfirmed = False\<rparr> (tx_jobs s)"
    by (simp_all add: insert_job_def)
  show ?thesis
    unfolding jobs_inv_def
  proof (intro conjI allI impI)
    fix k assume "busy ?s k"
    then show "\<exists>j. fmlookup (tx_jobs ?s) k = Some j \<and> \<not> terminal (job_state j)"
      using jobs_invD(5) [OF inv, of k] view
      by (cases "k = i") (auto simp: s' busy_def insert_job_queue)
  next
    fix k assume "k |\<in>| tx_cleanup_tasks ?s"
    then show "task_phase_of ?s k = Some PAborted"
      using jobs_invD(6) [OF inv, of k] i by (cases "k = i") (auto simp: s' task_phase_of_def insert_job_queue)
  next
    show "(k \<in> set (tx_order ?s)) = (fmlookup (tx_jobs ?s) k \<noteq> None)" for k
      using jobs_invD(2) [OF inv, of k] by (auto simp: s')
  next
    show "fmlookup (tx_tasks ?s) k \<noteq> None" if "fmlookup (tx_jobs ?s) k \<noteq> None" for k
      using jobs_invD(3) [OF inv, of k] that by (auto simp: s' insert_job_queue split: if_splits)
  next
    fix k j assume "fmlookup (tx_jobs ?s) k = Some j" "terminal (job_state j)"
    then show "jr_active_spec j = None"
      using jobs_invD(4) [OF inv, of k j] view by (auto simp: s' split: if_splits)
  qed (use jobs_invD(1) [OF inv] jobs_invD(2) [OF inv, of i] new in \<open>simp add: s'\<close>)
qed

lemma cancel_where_lookup:
  "fmlookup (tx_jobs (cancel_where P s)) i =
     map_option (\<lambda>j. if P j \<and> cancellable (job_state j) then with_state JCancelRequested j else j) (fmlookup (tx_jobs s) i)"
  by (simp add: cancel_where_def)

lemma jobs_cancel_where:
  assumes inv: "jobs_inv {} s"
  shows "jobs_inv {} (cancel_where P s)" (is "jobs_inv {} ?s")
  unfolding jobs_inv_def
proof (intro conjI allI impI)
  have same: "tx_order ?s = tx_order s" "tx_tasks ?s = tx_tasks s" "tx_cleanup_tasks ?s = tx_cleanup_tasks s"
    by (simp_all add: cancel_where_def)
  show "distinct (tx_order ?s)" using jobs_invD(1) [OF inv] by (simp add: same)
  show "(k \<in> set (tx_order ?s)) = (fmlookup (tx_jobs ?s) k \<noteq> None)" for k
    using jobs_invD(2) [OF inv, of k] by (simp add: same cancel_where_lookup)
  show "fmlookup (tx_tasks ?s) k \<noteq> None" if "fmlookup (tx_jobs ?s) k \<noteq> None" for k
    using jobs_invD(3) [OF inv, of k] that by (simp add: same cancel_where_lookup)
  show "task_phase_of ?s k = Some PAborted" if "k |\<in>| tx_cleanup_tasks ?s" for k
    using jobs_invD(6) [OF inv, of k] that by (simp add: same task_phase_of_def)
  show "\<exists>j. fmlookup (tx_jobs ?s) k = Some j \<and> \<not> terminal (job_state j)" if "busy ?s k" for k
  proof -
    have "busy s k" using that by (simp add: same busy_def)
    then obtain j where "fmlookup (tx_jobs s) k = Some j" "\<not> terminal (job_state j)" using jobs_invD(5) [OF inv] by blast
    then show ?thesis by (simp add: cancel_where_lookup)
  qed
  show "jr_active_spec j = None" if "fmlookup (tx_jobs ?s) k = Some j" "terminal (job_state j)" for k j
    using jobs_invD(4) [OF inv, of k] that by (auto simp: cancel_where_lookup split: if_splits)
qed

lemma jobs_flags [simp]:
  "jobs_inv X (s\<lparr>tx_disconnecting := d\<rparr>) = jobs_inv X s" "jobs_inv X (s\<lparr>tx_cancelled := c\<rparr>) = jobs_inv X s"
  "jobs_inv X (s\<lparr>tx_shutting_down := b\<rparr>) = jobs_inv X s"
  by (simp_all add: jobs_inv_def busy_def task_phase_of_def)

lemma task_phase_cases:
  assumes "task_phase_of s i = Some p"
  obtains t where "fmlookup (tx_tasks s) i = Some t" "tk_phase t = p"
  using assms by (auto simp: task_phase_of_def)

text \<open>A task that moves on, or ends, leaves the records alone.\<close>

lemma jobs_moves:
  assumes inv: "jobs_inv X s" and i: "fmlookup (tx_tasks s) i = Some t" "tk_phase t \<noteq> PAborted"
    and s': "tx_jobs s' = tx_jobs s" "tx_order s' = tx_order s" "tx_cleanup_tasks s' = tx_cleanup_tasks s"
      "tx_tasks s' = fmupd i t' (tx_tasks s)"
    and t': "X \<subseteq> {i}" "alive t' \<Longrightarrow> alive t \<and> X = {}"
  shows "jobs_inv {} s'"
proof (rule jobs_tasks [OF inv s'(1,2)])
  have ni: "i |\<notin>| tx_cleanup_tasks s"
    using jobs_invD(6) [OF inv, of i] i by (auto simp: task_phase_of_def)
  fix k
  show "task_phase_of s' k = Some PAborted" if "k |\<in>| tx_cleanup_tasks s'"
    using jobs_invD(6) [OF inv, of k] that ni by (auto simp: s' task_phase_of_def)
  show "busy s k \<and> k \<notin> X" if "busy s' k"
    using that t' ni i by (cases "k = i") (auto simp: busy_def s')
  show "fmlookup (tx_tasks s') k \<noteq> None" if "fmlookup (tx_tasks s) k \<noteq> None"
    using that by (simp add: s')
qed

lemma report_frame [simp]:
  "tx_cleanup_tasks (set_job_state i st s) = tx_cleanup_tasks s" "tx_cleanup_tasks (finish_error i e s) = tx_cleanup_tasks s"
  "tx_cleanup_tasks (finish_unknown i e s) = tx_cleanup_tasks s" "tx_cleanup_tasks (report_outcome i r s) = tx_cleanup_tasks s"
  "tx_cleanup_tasks (mark_unconfirmed i s) = tx_cleanup_tasks s"
  "tx_poisoned (finish_error i e s) = tx_poisoned s" "tx_poisoned (mark_unconfirmed i s) = tx_poisoned s"
  by (simp_all add: set_job_state_def finish_error_def finish_unknown_def report_outcome_def mark_unconfirmed_def
      upd_job_def Let_def split: option.split result.split)

lemma jobs_cleanup_ends:
  assumes inv: "jobs_inv {} s" and i: "task_phase_of s i = Some PAborted"
  shows "jobs_inv {} (cleanup_ends i removed s)"
proof (cases "tx_poisoned s")
  case True
  with inv show ?thesis by (simp add: cleanup_ends_def Let_def mark_unconfirmed_def finish_error_def)
next
  case False
  let ?s1 = "if removed then s else mark_unconfirmed i s"
  have "jobs_inv {} ?s1"
    using inv by (auto simp: mark_unconfirmed_def intro!: jobs_upd_job dest: jobs_invD(4))
  then have fin: "jobs_inv {i} (finish_error i e ?s1)" for e by (rule jobs_finish) auto
  have "jobs_inv {} (s2\<lparr>tx_cleanup_tasks := tx_cleanup_tasks s2 |-| {|i|}\<rparr>)" if "s2 = finish_error i e ?s1" for s2 e
  proof (rule jobs_tasks [OF fin [of e, folded that]])
    have "tx_tasks s2 = tx_tasks s" using that queue_of_reports(4,8) [THEN queue_of_eqD(1)] by simp
    then show "busy s2 k \<and> k \<notin> {i}" if "busy (s2\<lparr>tx_cleanup_tasks := tx_cleanup_tasks s2 |-| {|i|}\<rparr>) k" for k
      using that i by (cases "k = i") (auto simp: busy_def task_phase_of_def alive_def)
    show "task_phase_of (s2\<lparr>tx_cleanup_tasks := tx_cleanup_tasks s2 |-| {|i|}\<rparr>) k = Some PAborted"
      if "k |\<in>| tx_cleanup_tasks (s2\<lparr>tx_cleanup_tasks := tx_cleanup_tasks s2 |-| {|i|}\<rparr>)" for k
      using that jobs_invD(6) [OF fin, of k e] \<open>s2 = finish_error i e ?s1\<close> by (simp add: task_phase_of_def)
  qed simp_all
  with False show ?thesis by (simp add: cleanup_ends_def Let_def)
qed

lemma jobs_task_cancelled:
  assumes inv: "jobs_inv {} s" and t: "fmlookup (tx_tasks s) i = Some t" "tk_phase t \<noteq> PAborted"
  shows "jobs_inv {} (task_cancelled i t s)"
proof (rule jobs_moves [OF jobs_set_state [OF inv]])
  show "fmlookup (tx_tasks (set_job_state i JCancelled s)) i = Some t" using t by simp
  show "tx_tasks (task_cancelled i t s) = fmupd i (t\<lparr>tk_phase := PEnded, tk_lock := None\<rparr>) (tx_tasks (set_job_state i JCancelled s))"
    using t by (simp add: task_defs Let_def end_task_Some split: task_phase.split)
qed (use t in \<open>auto simp: task_defs Let_def end_task_Some alive_def split: task_phase.split\<close>)

lemma jobs_enqueue:
  assumes "jobs_inv {} s" "transfer_enabled (JEnqueue fmt ids specs) s"
  shows "jobs_inv {} (snd (enqueue_batch fmt ids specs s))"
  using assms jobs_trim [OF assms(1)] insert_jobs_inv [of "jobs_inv {}" fmt "trim_history s" ids specs] jobs_insert_job
  by (simp add: enqueue_batch_def Let_def)

lemma task_prepares_frame:
  "\<exists>l. tx_tasks (task_prepares i t s) = fmupd i (t\<lparr>tk_phase := PWaitDestination, tk_lock := Some l\<rparr>) (tx_tasks s)"
  "tx_jobs (task_prepares i t s) = tx_jobs (set_job_state i JPreparing s)"
  "tx_order (task_prepares i t s) = tx_order (set_job_state i JPreparing s)"
  "tx_cleanup_tasks (task_prepares i t s) = tx_cleanup_tasks s"
  by (cases "fmlookup (tx_destinations s) (tk_key t)"; auto simp: task_prepares_def Let_def)+

lemma task_aborts_frame:
  assumes "fmlookup (tx_tasks s) i = Some t"
  shows "tx_tasks (task_aborts i t owned s) = fmupd i (t\<lparr>tk_phase := PAborted, tk_lock := None\<rparr>) (tx_tasks s)"
    "tx_jobs (task_aborts i t owned s) = tx_jobs s" "tx_order (task_aborts i t owned s) = tx_order s"
    "tx_cleanup_tasks (task_aborts i t owned s) =
       (if owned \<and> \<not> tx_poisoned s then finsert i (tx_cleanup_tasks s) else tx_cleanup_tasks s)"
  using assms by (auto simp: task_defs end_task_Some unlock_def Let_def split: option.split)

lemma jobs_step:
  assumes inv: "jobs_inv {} s" and en: "transfer_enabled e s"
  shows "jobs_inv {} (transfer_step e s)"
proof (cases e)
  case (JCancel i key)
  then show ?thesis
    using inv by (auto simp: cancel_def split: option.split intro!: jobs_upd [OF inv])
next
  case (JTaskCancelled i)
  with en obtain t where "fmlookup (tx_tasks s) i = Some t" "tk_phase t \<noteq> PAborted"
    by (auto simp: task_phase_of_def)
  with JTaskCancelled show ?thesis by (simp add: on_task_def jobs_task_cancelled [OF inv])
next
  case (JTakesHost i)
  with en obtain t where t: "fmlookup (tx_tasks s) i = Some t" "tk_phase t = PWaitHost" by (auto split: option.splits)
  with JTakesHost show ?thesis
    by (intro jobs_moves [OF inv t(1), where t' = "t\<lparr>tk_phase := PWaitGlobal\<rparr>"])
      (auto simp: task_defs set_phase_Some alive_def)
next
  case (JTakesGlobal i)
  with en obtain t where t: "fmlookup (tx_tasks s) i = Some t" "tk_phase t = PWaitGlobal" by (auto simp: task_phase_of_def)
  with JTakesGlobal show ?thesis
    by (intro jobs_moves [OF inv t(1), where t' = "t\<lparr>tk_phase := PPrepare\<rparr>"])
      (auto simp: task_defs set_phase_Some alive_def)
next
  case (JPrepares i)
  with en obtain t where t: "fmlookup (tx_tasks s) i = Some t" "tk_phase t = PPrepare" by (auto simp: task_phase_of_def)
  have inv': "jobs_inv {} (set_job_state i JPreparing s)" by (rule jobs_set_state [OF inv]) simp_all
  obtain l where l:
    "tx_tasks (task_prepares i t s) = fmupd i (t\<lparr>tk_phase := PWaitDestination, tk_lock := Some l\<rparr>) (tx_tasks s)"
    using task_prepares_frame(1) by blast
  have "jobs_inv {} (task_prepares i t s)"
    by (rule jobs_moves [OF inv', where i = i and t = t and t' = "t\<lparr>tk_phase := PWaitDestination, tk_lock := Some l\<rparr>"])
      (simp_all add: t l task_prepares_frame(2-4) alive_def)
  with JPrepares t show ?thesis by (simp add: on_task_def)
next
  case (JLocks i)
  with en obtain t l where t: "fmlookup (tx_tasks s) i = Some t" "tk_phase t = PWaitDestination" "tk_lock t = Some l"
    by (auto split: option.splits)
  with JLocks show ?thesis
    by (intro jobs_moves [OF inv t(1), where t' = "t\<lparr>tk_phase := PRun\<rparr>"])
      (auto simp: task_defs set_phase_Some alive_def)
next
  case (JReleases i r)
  with en obtain t where t: "fmlookup (tx_tasks s) i = Some t" "tk_phase t = PRun" by (auto simp: task_phase_of_def)
  with JReleases show ?thesis
    by (intro jobs_moves [OF inv t(1), where t' = "t\<lparr>tk_phase := PReleased r\<rparr>"])
      (auto simp: task_defs set_phase_Some alive_def unlock_def split: option.split)
next
  case (JReports i r)
  with en obtain t where t: "fmlookup (tx_tasks s) i = Some t" "tk_phase t = PReleased r" by (auto simp: task_phase_of_def)
  let ?s = "unmap_destination t s"
  have "jobs_inv {} ?s"
    by (rule jobs_tasks [OF inv]) (use jobs_invD(6) [OF inv] in \<open>auto simp: busy_def task_phase_of_def\<close>)
  then have "jobs_inv {i} (report_outcome i r ?s)" by (rule jobs_finish) auto
  then have "jobs_inv {} (task_reports i t r s)"
    using t by (intro jobs_moves [where i = i and t = t and s = "report_outcome i r ?s" and X = "{i}"
          and t' = "t\<lparr>tk_phase := PEnded, tk_lock := None\<rparr>"])
      (auto simp: task_reports_def end_task_Some alive_def)
  with JReports t show ?thesis by (simp add: on_task_def)
next
  case (JAborts i owned)
  with en obtain t where t: "fmlookup (tx_tasks s) i = Some t" "tk_phase t = PRun" by (auto simp: task_phase_of_def)
  have "jobs_inv {} (task_aborts i t owned s)"
    by (rule jobs_tasks [OF inv])
      (use t jobs_invD(6) [OF inv] in \<open>auto simp: task_aborts_frame task_phase_of_def busy_def alive_def split: if_splits\<close>)
  with JAborts t show ?thesis by (simp add: on_task_def)
next
  case (JEntersFinalizing i)
  then show ?thesis using inv by (auto simp: enter_finalizing_def split: option.split intro!: jobs_upd [OF inv])
next
  case (JStreams i)
  have "jobs_inv {} (set_job_state i JTransferring s)" by (rule jobs_set_state [OF inv]) simp_all
  with JStreams show ?thesis by simp
next
  case (JProgress i n)
  then show ?thesis
    using inv by (auto simp: progress_def intro!: jobs_upd_job [OF inv] dest: jobs_invD(4))
next
  case (JUnconfirmed i)
  then show ?thesis
    using inv by (auto simp: mark_unconfirmed_def intro!: jobs_upd_job [OF inv] dest: jobs_invD(4))
qed (use inv en in \<open>simp_all add: jobs_enqueue jobs_cleanup_ends disconnect_def shutdown_transfers_def
    jobs_cancel_where\<close>)

section \<open>What becomes of a record\<close>

definition job_moves :: "job_record \<Rightarrow> job_record \<Rightarrow> bool" where
  "job_moves j j' = (j' = j \<or> \<not> terminal (job_state j) \<and> job_key j' = job_key j)"

definition jobs_from :: "transfers \<Rightarrow> transfers \<Rightarrow> bool" where
  "jobs_from s s' \<longleftrightarrow>
     (\<forall>i j'. fmlookup (tx_jobs s') i = Some j' \<longrightarrow> (\<exists>j. fmlookup (tx_jobs s) i = Some j \<and> job_moves j j'))"

lemma jobs_from_refl: "tx_jobs s' = tx_jobs s \<Longrightarrow> jobs_from s s'"
  by (simp add: jobs_from_def job_moves_def)

lemma jobs_from_self [simp]: "jobs_from s s"
  by (simp add: jobs_from_refl)

lemma jobs_from_trim: "jobs_from s s' \<Longrightarrow> jobs_from s (trim_history s')"
  by (auto simp: jobs_from_def dest: trim_history_jobs)

lemma jobs_from_upd:
  assumes "fmlookup (tx_jobs s) i \<noteq> None" "\<And>j. fmlookup (tx_jobs s) i = Some j \<Longrightarrow> job_moves j j'"
  shows "jobs_from s (s\<lparr>tx_jobs := fmupd i j' (tx_jobs s)\<rparr>)"
  using assms by (auto simp: jobs_from_def job_moves_def)

lemma jobs_from_set_state:
  assumes "\<And>j. fmlookup (tx_jobs s) i = Some j \<Longrightarrow> \<not> terminal (job_state j)"
  shows "jobs_from s (set_job_state i st s)"
  using assms
  by (auto simp: set_job_state_def Let_def job_moves_def split: option.split
      intro!: jobs_from_trim jobs_from_upd)

lemma jobs_from_upd_job:
  assumes "\<And>j. fmlookup (tx_jobs s) i = Some j \<Longrightarrow> job_moves j (f j)"
  shows "jobs_from s (upd_job i f s)"
  using assms by (auto simp: upd_job_def split: option.split intro!: jobs_from_upd)

lemma jobs_from_finish:
  assumes "\<And>j. fmlookup (tx_jobs s) i = Some j \<Longrightarrow> \<not> terminal (job_state j)"
  shows "jobs_from s (finish_error i e s)" "jobs_from s (finish_unknown i e s)" "jobs_from s (report_outcome i r s)"
proof -
  have fail: "jobs_from s (trim_history (upd_job i (with_failure st err) s))" for st err
    by (intro jobs_from_trim jobs_from_upd_job) (simp add: job_moves_def assms)
  show "jobs_from s (finish_error i e s)" "jobs_from s (finish_unknown i e s)" "jobs_from s (report_outcome i r s)"
    using fail jobs_from_set_state [of s i, OF assms]
    by (auto simp: finish_error_def finish_unknown_def report_outcome_def jobs_from_refl split: result.split)
qed

lemma jobs_from_cancel_where: "jobs_from s (cancel_where P s)"
  by (auto simp: jobs_from_def job_moves_def cancel_where_lookup cancellable_def)

lemma jobs_from_cong: "tx_jobs s = tx_jobs r \<Longrightarrow> tx_jobs s' = tx_jobs r' \<Longrightarrow> jobs_from s s' = jobs_from r r'"
  by (simp add: jobs_from_def)

lemma job_moves_trans: "job_moves j j' \<Longrightarrow> job_moves j' j'' \<Longrightarrow> job_moves j j''"
  by (auto simp: job_moves_def)

lemma jobs_from_trans: "jobs_from s s' \<Longrightarrow> jobs_from s' s'' \<Longrightarrow> jobs_from s s''"
  unfolding jobs_from_def by (meson job_moves_trans)

lemma busy_unfinished:
  assumes "jobs_inv {} s" "busy s i"
  shows "fmlookup (tx_jobs s) i = Some j \<Longrightarrow> \<not> terminal (job_state j)"
  using jobs_invD(5) [OF assms(1) _ assms(2)] by auto

lemma phase_busy: "task_phase_of s i = Some p \<Longrightarrow> p \<noteq> PEnded \<Longrightarrow> p \<noteq> PAborted \<Longrightarrow> busy s i"
  by (auto simp: task_phase_of_def busy_def alive_def)

lemma end_task_jobs [simp]: "tx_jobs (end_task i p s) = tx_jobs s"
  by (simp add: end_task_def split: option.split)

lemma set_phase_jobs [simp]: "tx_jobs (set_phase i p s) = tx_jobs s"
  by (simp add: set_phase_def split: option.split)

lemma jobs_from_cleanup:
  assumes "jobs_inv {} s" "i |\<in>| tx_cleanup_tasks s"
  shows "jobs_from s (cleanup_ends i removed s)"
proof -
  have open_job: "\<not> terminal (job_state j)" if "fmlookup (tx_jobs s) i = Some j" for j
    using busy_unfinished [OF assms(1) _ that] assms(2) by (simp add: busy_def)
  let ?s = "if removed then s else mark_unconfirmed i s"
  have s1: "jobs_from s ?s"
    using open_job by (auto simp: mark_unconfirmed_def job_moves_def job_key_def intro!: jobs_from_upd_job)
  have "\<not> terminal (job_state j)" if "fmlookup (tx_jobs ?s) i = Some j" for j
    using that open_job by (auto simp: mark_unconfirmed_def upd_job_def split: if_splits option.splits)
  then have "jobs_from ?s (finish_error i e ?s)" for e by (rule jobs_from_finish)
  then have "jobs_from s (finish_error i e ?s)" for e using s1 jobs_from_trans by blast
  then show ?thesis by (simp add: cleanup_ends_def Let_def jobs_from_def)
qed

lemma insert_jobs_lookup:
  "fmlookup (tx_jobs (fold (insert_job fmt) ps s)) i = Some j \<Longrightarrow>
     fmlookup (tx_jobs s) i = Some j
     \<or> (\<exists>spec. (i, spec) \<in> set ps
          \<and> j = \<lparr>jr_view = new_job i spec, jr_active_spec = Some spec, jr_cleanup_unconfirmed = False\<rparr>)"
proof (induction ps arbitrary: s)
  case (Cons p ps)
  obtain k spec where p: "p = (k, spec)" by (cases p)
  from Cons.IH [of "insert_job fmt p s"] Cons.prems show ?case
    by (cases "i = k") (auto simp: p insert_job_def)
qed simp

definition fresh_record :: "transfers \<Rightarrow> transfer_job_id \<Rightarrow> job_record \<Rightarrow> bool" where
  "fresh_record s i j =
     (fmlookup (tx_tasks s) i = None \<and> \<not> tx_shutting_down s
      \<and> (tj_host_id (jr_view j), tj_host_session_id (jr_view j)) |\<notin>| tx_disconnecting s)"

lemma new_job_view [simp]:
  "tj_host_id (new_job i spec) = si_host_id (js_client spec)"
  "tj_host_session_id (new_job i spec) = si_host_session_id (js_client spec)"
  "tj_state (new_job i spec) = JQueued"
  by (simp_all add: new_job_def split: prod.split)

lemma enqueue_batch_cases:
  obtains "snd (enqueue_batch fmt ids specs s) = s" | "snd (enqueue_batch fmt ids specs s) = trim_history s"
  | "\<not> tx_shutting_down s"
    "list_all (\<lambda>spec. (si_host_id (js_client spec), si_host_session_id (js_client spec)) |\<notin>| tx_disconnecting s) specs"
    "length specs \<le> JOB_CAP - unfinished_count (trim_history s)"
    "snd (enqueue_batch fmt ids specs s) = fold (insert_job fmt) (zip ids specs) (trim_history s)"
proof (cases "specs = [] \<or> tx_poisoned s \<or> tx_shutting_down s
    \<or> list_ex (\<lambda>spec. (si_host_id (js_client spec), si_host_session_id (js_client spec)) |\<in>| tx_disconnecting s) specs")
  case True
  then have "snd (enqueue_batch fmt ids specs s) = s" by (auto simp: enqueue_batch_def)
  with that(1) show thesis .
next
  case open_queue: False
  then have dis: "list_all (\<lambda>spec. (si_host_id (js_client spec), si_host_session_id (js_client spec)) |\<notin>| tx_disconnecting s) specs"
    by (simp add: list_all_iff list_ex_iff)
  show thesis
  proof (cases "length specs > JOB_CAP - unfinished_count (trim_history s)")
    case True
    with open_queue have "snd (enqueue_batch fmt ids specs s) = trim_history s" by (simp add: enqueue_batch_def Let_def)
    with that(2) show thesis .
  next
    case False
    with open_queue have new: "snd (enqueue_batch fmt ids specs s) = fold (insert_job fmt) (zip ids specs) (trim_history s)"
      by (simp add: enqueue_batch_def Let_def)
    have "\<not> tx_shutting_down s" using open_queue by blast
    moreover have "length specs \<le> JOB_CAP - unfinished_count (trim_history s)" using False by linarith
    ultimately show thesis using dis new by (intro that(3))
  qed
qed

lemma enqueue_records:
  assumes en: "transfer_enabled (JEnqueue fmt ids specs) s"
    and j: "fmlookup (tx_jobs (snd (enqueue_batch fmt ids specs s))) i = Some j"
  shows "fmlookup (tx_jobs s) i = Some j \<or> fresh_record s i j"
proof (cases rule: enqueue_batch_cases [of fmt ids specs s])
  case 3
  from j [unfolded 3(4)] show ?thesis
  proof (rule insert_jobs_lookup [THEN disjE])
    assume "fmlookup (tx_jobs (trim_history s)) i = Some j"
    then show ?thesis by (intro disjI1) (rule trim_history_jobs)
  next
    assume "\<exists>spec. (i, spec) \<in> set (zip ids specs)
      \<and> j = \<lparr>jr_view = new_job i spec, jr_active_spec = Some spec, jr_cleanup_unconfirmed = False\<rparr>"
    then obtain spec where spec: "i \<in> set ids" "spec \<in> set specs"
      "j = \<lparr>jr_view = new_job i spec, jr_active_spec = Some spec, jr_cleanup_unconfirmed = False\<rparr>"
      by (auto dest: set_zip_leftD set_zip_rightD)
    from spec(1) en have "fmlookup (tx_tasks s) i = None" by (simp add: list_all_iff)
    moreover from spec(2) 3(2)
    have "(si_host_id (js_client spec), si_host_session_id (js_client spec)) |\<notin>| tx_disconnecting s"
      by (simp add: list_all_iff)
    ultimately show ?thesis using 3(1) by (simp add: fresh_record_def spec(3))
  qed
next
  case 1
  from j [unfolded 1] show ?thesis by (rule disjI1)
next
  case 2
  from j [unfolded 2] show ?thesis by (intro disjI1) (rule trim_history_jobs)
qed

lemma jobs_from_step:
  assumes inv: "jobs_inv {} s" and en: "transfer_enabled e s" and "\<nexists>fmt ids specs. e = JEnqueue fmt ids specs"
  shows "jobs_from s (transfer_step e s)"
proof (cases e)
  case (JCancel k key)
  then show ?thesis
    by (auto simp: cancel_def job_moves_def cancellable_def jobs_from_def split: option.split)
next
  case (JTaskCancelled k)
  with en have open_job: "fmlookup (tx_jobs s) k = Some j \<Longrightarrow> \<not> terminal (job_state j)" for j
    using busy_unfinished [OF inv phase_busy] by auto
  have "tx_jobs (task_cancelled k t s) = tx_jobs (set_job_state k JCancelled s)" for t
    by (simp add: task_defs Let_def split: task_phase.split)
  with JTaskCancelled open_job jobs_from_set_state [of s k JCancelled] show ?thesis
    by (auto simp: on_task_def jobs_from_def job_moves_def split: option.split)
next
  case (JPrepares k)
  with en have "fmlookup (tx_jobs s) k = Some j \<Longrightarrow> \<not> terminal (job_state j)" for j
    using busy_unfinished [OF inv phase_busy] by auto
  with JPrepares jobs_from_set_state [of s k JPreparing] show ?thesis
    by (auto simp: on_task_def jobs_from_def job_moves_def task_prepares_frame split: option.split)
next
  case (JStreams k)
  with en have "fmlookup (tx_jobs s) k = Some j \<Longrightarrow> \<not> terminal (job_state j)" for j
    using busy_unfinished [OF inv phase_busy] by auto
  with JStreams show ?thesis by (simp add: jobs_from_set_state)
next
  case (JProgress k n)
  with en have "fmlookup (tx_jobs s) k = Some j \<Longrightarrow> \<not> terminal (job_state j)" for j
    using busy_unfinished [OF inv phase_busy] by auto
  with JProgress show ?thesis
    by (auto simp: progress_def job_moves_def job_key_def intro!: jobs_from_upd_job)
next
  case (JEntersFinalizing k)
  with en have "fmlookup (tx_jobs s) k = Some j \<Longrightarrow> \<not> terminal (job_state j)" for j
    using busy_unfinished [OF inv phase_busy] by auto
  with JEntersFinalizing show ?thesis
    by (auto simp: enter_finalizing_def job_moves_def split: option.split intro!: jobs_from_upd)
next
  case (JUnconfirmed k)
  with en have "fmlookup (tx_jobs s) k = Some j \<Longrightarrow> \<not> terminal (job_state j)" for j
    using busy_unfinished [OF inv phase_busy] by auto
  with JUnconfirmed show ?thesis
    by (auto simp: mark_unconfirmed_def job_moves_def job_key_def intro!: jobs_from_upd_job)
next
  case (JReports k r)
  with en have "fmlookup (tx_jobs (unmap_destination t s)) k = Some j \<Longrightarrow> \<not> terminal (job_state j)" for j t
    using busy_unfinished [OF inv phase_busy] by auto
  then have "jobs_from (unmap_destination t s) (report_outcome k r (unmap_destination t s))" for t
    by (rule jobs_from_finish(3))
  with JReports show ?thesis
    by (simp add: on_task_def task_reports_def jobs_from_def job_moves_def split: option.split)
next
  case (JAborts k owned)
  then show ?thesis by (auto simp: on_task_def task_aborts_frame jobs_from_def job_moves_def split: option.split)
next
  case (JCleanupEnds k removed)
  with inv en show ?thesis by (simp add: jobs_from_cleanup)
qed (use assms(3) inv en in \<open>auto simp: disconnect_def shutdown_transfers_def task_defs unlock_def
    jobs_from_def job_moves_def cancel_where_lookup cancellable_def split: option.split\<close>)

text \<open>After a step a record is the old one, or a live job's record that moved on, or that of a newly queued job.\<close>

lemma step_records:
  assumes inv: "jobs_inv {} s" and en: "transfer_enabled e s" and j: "fmlookup (tx_jobs (transfer_step e s)) i = Some j'"
  shows "(\<exists>j. fmlookup (tx_jobs s) i = Some j \<and> job_moves j j') \<or> fresh_record s i j'"
proof (cases "\<exists>fmt ids specs. e = JEnqueue fmt ids specs")
  case True
  then obtain fmt ids specs where e: "e = JEnqueue fmt ids specs" by blast
  with enqueue_records [of fmt ids specs s i j'] en j show ?thesis by (auto simp: job_moves_def)
qed (use jobs_from_step [OF inv en] j in \<open>auto simp: jobs_from_def\<close>)

section \<open>Flags that only grow\<close>

lemma insert_jobs_flags [simp]:
  "tx_disconnecting (fold (insert_job fmt) ps s) = tx_disconnecting s"
  "tx_shutting_down (fold (insert_job fmt) ps s) = tx_shutting_down s"
  "tx_cancelled (fold (insert_job fmt) ps s) = tx_cancelled s" "tx_poisoned (fold (insert_job fmt) ps s) = tx_poisoned s"
  by (induction ps arbitrary: s) (simp_all add: insert_job_def split: prod.split)

lemma report_flags [simp]:
  "tx_disconnecting (set_job_state i st s) = tx_disconnecting s" "tx_shutting_down (set_job_state i st s) = tx_shutting_down s"
  "tx_cancelled (set_job_state i st s) = tx_cancelled s" "tx_poisoned (set_job_state i st s) = tx_poisoned s"
  "tx_disconnecting (upd_job i f s) = tx_disconnecting s" "tx_shutting_down (upd_job i f s) = tx_shutting_down s"
  "tx_cancelled (upd_job i f s) = tx_cancelled s" "tx_poisoned (upd_job i f s) = tx_poisoned s"
  "tx_disconnecting (end_task i p s) = tx_disconnecting s" "tx_shutting_down (end_task i p s) = tx_shutting_down s"
  "tx_cancelled (end_task i p s) = tx_cancelled s" "tx_poisoned (end_task i p s) = tx_poisoned s"
  "tx_disconnecting (set_phase i p s) = tx_disconnecting s" "tx_shutting_down (set_phase i p s) = tx_shutting_down s"
  "tx_cancelled (set_phase i p s) = tx_cancelled s" "tx_poisoned (set_phase i p s) = tx_poisoned s"
  "tx_disconnecting (unmap_destination t s) = tx_disconnecting s" "tx_shutting_down (unmap_destination t s) = tx_shutting_down s"
  "tx_cancelled (unmap_destination t s) = tx_cancelled s"
  by (simp_all add: set_job_state_def upd_job_def end_task_def set_phase_def unmap_destination_def Let_def
      split: option.split)

text \<open>\<open>flags_grow s s'\<close>: nothing is reopened and no cancellation is taken back.\<close>

definition flags_grow :: "transfers \<Rightarrow> transfers \<Rightarrow> bool" where
  "flags_grow s s' \<longleftrightarrow> tx_disconnecting s |\<subseteq>| tx_disconnecting s' \<and> (tx_shutting_down s \<longrightarrow> tx_shutting_down s')
     \<and> tx_cancelled s |\<subseteq>| tx_cancelled s' \<and> tx_poisoned s' = tx_poisoned s"

lemma flags_grow_trans: "flags_grow s s' \<Longrightarrow> flags_grow s' s'' \<Longrightarrow> flags_grow s s''"
  by (auto simp: flags_grow_def)

lemma flags_step: "flags_grow s (transfer_step e s)"
proof (cases e)
  case (JEnqueue fmt ids specs)
  then show ?thesis by (cases rule: enqueue_batch_cases [of fmt ids specs s]) (simp_all add: flags_grow_def)
next
  case (JTaskCancelled i)
  then show ?thesis by (simp add: flags_grow_def on_task_def task_defs Let_def split: option.split task_phase.split)
next
  case (JPrepares i)
  then show ?thesis
    by (auto simp: flags_grow_def on_task_def task_prepares_def Let_def split: option.split)
next
  case (JReports i r)
  then show ?thesis
    by (simp add: flags_grow_def on_task_def task_reports_def report_outcome_def finish_error_def finish_unknown_def
        split: option.split result.split)
next
  case (JAborts i owned)
  then show ?thesis
    by (simp add: flags_grow_def on_task_def task_aborts_def give_host_def give_global_def unlock_def Let_def split: option.split)
qed (auto simp: flags_grow_def cancel_def disconnect_def shutdown_transfers_def cancel_where_def progress_def enter_finalizing_def
    mark_unconfirmed_def cleanup_ends_def finish_error_def task_defs unlock_def Let_def split: option.split)

lemma flags_run: "flags_grow s (fold transfer_step es s)"
proof (induction es arbitrary: s)
  case (Cons e es)
  then show ?case using flags_step [of s e] flags_grow_trans by fastforce
qed (simp add: flags_grow_def)

end
