(* ===== verification/Transfer_Quiesce.thy ===== *)
theory Transfer_Quiesce
  imports Transfer_History
begin

text \<open>
  Quiescing the transfers of a session or of the whole application (\<open>quiesce_session\<close>,
  \<open>quiesce_all\<close> of \<^verbatim>\<open>transfer.rs\<close>), and what the queue promises in every interleaving: bounded
  concurrency, exclusive destinations, final results, binding cancellation, no deadlock.
\<close>

section \<open>Quiescing\<close>

text \<open>The \<open>done\<close> token of a job is cancelled when its task drops its completion guard.\<close>

definition job_done :: "transfers \<Rightarrow> transfer_job_id \<Rightarrow> bool" where
  "job_done s i = (case fmlookup (tx_tasks s) i of None \<Rightarrow> False | Some t \<Rightarrow> \<not> alive t)"

text \<open>
  The lists are what other tasks do between the critical sections: before the pending jobs are read,
  until all of them are done or the deadline passes, and until their cleanup is done or the deadline passes.
\<close>

record quiesce_waits =
  qw_before :: "transfer_event list"
  qw_jobs :: "transfer_event list"
  qw_cleanup :: "transfer_event list"

definition quiesce_session ::
  "host_id \<Rightarrow> host_session_id \<Rightarrow> quiesce_waits \<Rightarrow> transfers \<Rightarrow> unit app_result \<times> transfers" where
  "quiesce_session h hs w s =
     (let s1 = fold transfer_step (qw_before w) (disconnect h hs s)
      in if tx_poisoned s1 then (Err transfers_unavailable, s1)
      else
        let pending = fm_keys (\<lambda>j. of_session h hs j \<and> \<not> terminal (job_state j)) (tx_jobs s1);
            s2 = fold transfer_step (qw_jobs w) s1
        in if fBex pending (\<lambda>i. \<not> job_done s2 i)
           then (Err (transfer_error ''Transfer cleanup did not finish before the connection timeout; the SFTP session remains open.''), s2)
           else if tx_poisoned s2 then (Err transfers_unavailable, s2)
           else
             let cleanup = fm_keys (of_session h hs) (tx_jobs s2) |\<inter>| tx_cleanup_tasks s2;
                 s3 = fold transfer_step (qw_cleanup w) s2
             in if fBex cleanup (\<lambda>i. i |\<in>| tx_cleanup_tasks s3)
                then (Err (transfer_error ''Owned staging cleanup did not finish before the connection timeout; the SFTP session remains open.''), s3)
                else if tx_poisoned s3 then (Err transfers_unavailable, s3)
                else if fm_count (\<lambda>j. of_session h hs j \<and> jr_cleanup_unconfirmed j) (tx_jobs s3) \<noteq> 0
                then (Err (transfer_error ''Owned staging cleanup could not be confirmed; the SFTP session remains open.''), s3)
                else if fm_count (\<lambda>j. of_session h hs j \<and> \<not> terminal (job_state j)) (tx_jobs s3) \<noteq> 0
                then (Err (transfer_error ''A transfer stopped before cleanup could be confirmed; the SFTP session remains open.''), s3)
                else (Ok (), s3))"

definition quiesce_targets :: "transfers \<Rightarrow> (host_id \<times> host_session_id) fset" where
  "quiesce_targets s =
     session_of s |`| (fm_keys (\<lambda>j. \<not> terminal (job_state j) \<or> jr_cleanup_unconfirmed j) (tx_jobs s)
       |\<union>| (fmdom (tx_jobs s) |\<inter>| tx_cleanup_tasks s))"

text \<open>The sessions in the order in which the hash set is iterated, each with what happens while it is quiesced.\<close>

fun quiesce_each ::
  "((host_id \<times> host_session_id) \<times> quiesce_waits) list \<Rightarrow> transfers \<Rightarrow> unit app_result \<times> transfers" where
  "quiesce_each [] s = (Ok (), s)"
| "quiesce_each (((h, hs), w) # rest) s =
     (case quiesce_session h hs w s of
        (Err e, s') \<Rightarrow> (Err e, s')
      | (Ok _, s') \<Rightarrow> quiesce_each rest s')"

definition quiesce_all ::
  "((host_id \<times> host_session_id) \<times> quiesce_waits) list \<Rightarrow> transfers \<Rightarrow> unit app_result \<times> transfers" where
  "quiesce_all sessions s =
     (if tx_poisoned s then (Err transfers_unavailable, s) else quiesce_each sessions s)"

definition waits_enabled :: "host_id \<Rightarrow> host_session_id \<Rightarrow> quiesce_waits \<Rightarrow> transfers \<Rightarrow> bool" where
  "waits_enabled h hs w s =
     enabled_run transfer_enabled transfer_step (qw_before w @ qw_jobs w @ qw_cleanup w) (disconnect h hs s)"

fun all_waits_enabled :: "((host_id \<times> host_session_id) \<times> quiesce_waits) list \<Rightarrow> transfers \<Rightarrow> bool" where
  "all_waits_enabled [] s = True"
| "all_waits_enabled (((h, hs), w) # rest) s =
     (waits_enabled h hs w s \<and> all_waits_enabled rest (snd (quiesce_session h hs w s)))"

section \<open>The queue's invariant\<close>

definition runners_inv :: "transfers \<Rightarrow> bool" where
  "runners_inv s \<longleftrightarrow>
     (\<forall>l. l |\<in>| tx_locked s \<longrightarrow> (\<exists>i t. fmlookup (tx_tasks s) i = Some t \<and> tk_phase t = PRun \<and> tk_lock t = Some l))"

lemma runners_invD: "runners_inv s \<Longrightarrow> l |\<in>| tx_locked s \<Longrightarrow>
    \<exists>i t. fmlookup (tx_tasks s) i = Some t \<and> tk_phase t = PRun \<and> tk_lock t = Some l"
  by (simp add: runners_inv_def)

lemma runners_keep:
  assumes "runners_inv s" "tx_locked s' |\<subseteq>| tx_locked s"
    and "\<And>i t. fmlookup (tx_tasks s) i = Some t \<Longrightarrow> tk_phase t = PRun \<Longrightarrow> fmlookup (tx_tasks s') i = Some t
      \<or> (\<forall>l. tk_lock t = Some l \<longrightarrow> l |\<notin>| tx_locked s')"
  shows "runners_inv s'"
  unfolding runners_inv_def
proof (intro allI impI)
  fix l assume l: "l |\<in>| tx_locked s'"
  then obtain i t where t: "fmlookup (tx_tasks s) i = Some t" "tk_phase t = PRun" "tk_lock t = Some l"
    using runners_invD [OF assms(1)] assms(2) by blast
  with assms(3) [OF t(1,2)] l show "\<exists>i t. fmlookup (tx_tasks s') i = Some t \<and> tk_phase t = PRun \<and> tk_lock t = Some l"
    by blast
qed

lemma runners_cong: "queue_of s' = queue_of s \<Longrightarrow> runners_inv s' = runners_inv s"
  by (simp add: runners_inv_def queue_of_def)

lemma runners_other_task:
  assumes "runners_inv s" "fmlookup (tx_tasks s) i = Some t" "tk_phase t \<noteq> PRun"
    "tx_tasks s' = fmupd i t' (tx_tasks s)" "tx_locked s' = tx_locked s"
  shows "runners_inv s'"
  by (rule runners_keep [OF assms(1)]) (use assms in auto)

lemma runners_insert_job:
  "runners_inv s \<Longrightarrow> fmlookup (tx_tasks s) i = None \<Longrightarrow> runners_inv (insert_job fmt (i, spec) s)"
  by (rule runners_keep) (auto simp: insert_job_queue)

lemma runners_unlock:
  assumes "runners_inv s" "fmlookup (tx_tasks s) i = Some t"
    "tx_tasks s' = fmupd i t' (tx_tasks s)" "tx_locked s' = tx_locked (unlock t s)"
  shows "runners_inv s'"
proof (rule runners_keep [OF assms(1)])
  show "tx_locked s' |\<subseteq>| tx_locked s" unfolding assms(4) by (auto simp: unlock_def split: option.split)
  fix j u assume j: "fmlookup (tx_tasks s) j = Some u"
  show "fmlookup (tx_tasks s') j = Some u \<or> (\<forall>l. tk_lock u = Some l \<longrightarrow> l |\<notin>| tx_locked s')"
  proof (cases "j = i")
    case True
    with j assms(2) have "u = t" by simp
    then show ?thesis unfolding assms(4) by (simp add: unlock_def)
  next
    case False
    with j show ?thesis by (simp add: assms(3))
  qed
qed

lemma runners_locks:
  assumes "runners_inv s" "fmlookup (tx_tasks s) i = Some t" "tk_lock t = Some l" "tk_phase t = PWaitDestination"
  shows "runners_inv (task_locks i t s)"
  unfolding runners_inv_def
proof (intro allI impI)
  fix k assume "k |\<in>| tx_locked (task_locks i t s)"
  then consider "k = l" | "k |\<in>| tx_locked s" using assms by (auto simp: task_locks_def set_phase_Some)
  then show "\<exists>j u. fmlookup (tx_tasks (task_locks i t s)) j = Some u \<and> tk_phase u = PRun \<and> tk_lock u = Some k"
  proof cases
    case 1
    with assms show ?thesis by (intro exI [of _ i]) (simp add: task_locks_def set_phase_Some)
  next
    case 2
    then obtain j u where j: "fmlookup (tx_tasks s) j = Some u" "tk_phase u = PRun" "tk_lock u = Some k"
      using runners_invD [OF assms(1)] by blast
    with assms have "j \<noteq> i" by auto
    with j assms show ?thesis by (intro exI [of _ j]) (simp add: task_locks_def set_phase_Some)
  qed
qed

lemma runners_step:
  assumes inv: "runners_inv s" and en: "transfer_enabled e s"
  shows "runners_inv (transfer_step e s)"
proof (cases "queue_event e")
  case False
  with inv runners_cong [OF queue_of_step] show ?thesis by blast
next
  case True
  then show ?thesis
  proof (cases e)
    case (JEnqueue fmt ids specs)
    with assms show ?thesis
      using enqueue_inv [of runners_inv s fmt ids specs] runners_insert_job runners_cong [OF queue_of_reports(1)]
      by simp
  next
    case (JTaskCancelled i)
    with en obtain t where t: "fmlookup (tx_tasks s) i = Some t" "tk_phase t \<noteq> PRun" by (auto simp: task_phase_of_def)
    have "runners_inv (task_cancelled i t s)"
      by (rule runners_other_task [OF inv t, where t' = "t\<lparr>tk_phase := PEnded, tk_lock := None\<rparr>"])
        (use t in \<open>auto simp: task_defs Let_def end_task_Some split: task_phase.split\<close>)
    with JTaskCancelled t show ?thesis by (simp add: on_task_def)
  next
    case (JTakesHost i)
    with en obtain t where t: "fmlookup (tx_tasks s) i = Some t" "tk_phase t = PWaitHost" by (auto split: option.splits)
    with JTakesHost show ?thesis
      by (intro runners_other_task [OF inv t(1), where t' = "t\<lparr>tk_phase := PWaitGlobal\<rparr>"]) (auto simp: task_defs set_phase_Some)
  next
    case (JTakesGlobal i)
    with en obtain t where t: "fmlookup (tx_tasks s) i = Some t" "tk_phase t = PWaitGlobal" by (auto simp: task_phase_of_def)
    with JTakesGlobal show ?thesis
      by (intro runners_other_task [OF inv t(1), where t' = "t\<lparr>tk_phase := PPrepare\<rparr>"]) (auto simp: task_defs set_phase_Some)
  next
    case (JPrepares i)
    with en obtain t where t: "fmlookup (tx_tasks s) i = Some t" "tk_phase t \<noteq> PRun" by (auto simp: task_phase_of_def)
    obtain l where l:
      "tx_tasks (task_prepares i t s) = fmupd i (t\<lparr>tk_phase := PWaitDestination, tk_lock := Some l\<rparr>) (tx_tasks s)"
      using task_prepares_frame(1) by blast
    have "tx_locked (task_prepares i t s) = tx_locked s"
      by (cases "fmlookup (tx_destinations s) (tk_key t)") (simp_all add: task_prepares_def Let_def)
    with JPrepares t runners_other_task [OF inv t l] show ?thesis by (simp add: on_task_def)
  next
    case (JLocks i)
    with en obtain t l where "fmlookup (tx_tasks s) i = Some t" "tk_phase t = PWaitDestination" "tk_lock t = Some l"
      by (auto split: option.splits)
    with JLocks show ?thesis by (simp add: on_task_def runners_locks [OF inv])
  next
    case (JReleases i r)
    with en obtain t where t: "fmlookup (tx_tasks s) i = Some t" "tk_phase t = PRun" by (auto simp: task_phase_of_def)
    with JReleases show ?thesis
      by (intro runners_unlock [OF inv t(1), where t' = "t\<lparr>tk_phase := PReleased r\<rparr>"]) (auto simp: task_defs set_phase_Some)
  next
    case (JReports i r)
    with en obtain t where t: "fmlookup (tx_tasks s) i = Some t" "tk_phase t \<noteq> PRun" by (auto simp: task_phase_of_def)
    with JReports show ?thesis
      by (intro runners_other_task [OF inv t(1), where t' = "t\<lparr>tk_phase := PEnded, tk_lock := None\<rparr>"])
        (auto simp: task_defs end_task_Some)
  next
    case (JAborts i owned)
    with en obtain t where t: "fmlookup (tx_tasks s) i = Some t" "tk_phase t = PRun" by (auto simp: task_phase_of_def)
    have "tx_locked (task_aborts i t owned s) = tx_locked (unlock t s)"
      using t by (auto simp: task_defs end_task_Some unlock_def Let_def split: option.split)
    with JAborts t show ?thesis
      using runners_unlock [OF inv t(1) task_aborts_frame(1) [OF t(1)]] by (simp add: on_task_def)
  qed (use True in auto)
qed

lemma insert_jobs_unfinished: "unfinished_count (fold (insert_job fmt) ps s) \<le> unfinished_count s + length ps"
proof (induction ps arbitrary: s)
  case (Cons p ps)
  obtain i spec where p: "p = (i, spec)" by (cases p)
  have "unfinished_count (insert_job fmt p s) \<le> unfinished_count s + 1"
    using fm_count_drop_le [of "\<lambda>j. \<not> terminal (job_state j)" i "tx_jobs s"]
    by (simp add: p unfinished_count_def insert_job_def fm_count_upd)
  with Cons.IH [of "insert_job fmt p s"] show ?case by simp
qed simp

lemma trim_unfinished: "unfinished_count (trim_history s) \<le> unfinished_count s"
  unfolding unfinished_count_def by (rule fm_count_mono) (blast dest: trim_history_jobs)

lemma unfinished_step:
  assumes inv: "jobs_inv {} s" and en: "transfer_enabled e s" and cap: "unfinished_count s \<le> JOB_CAP"
  shows "unfinished_count (transfer_step e s) \<le> JOB_CAP"
proof (cases "\<exists>fmt ids specs. e = JEnqueue fmt ids specs")
  case True
  then obtain fmt ids specs where e: "e = JEnqueue fmt ids specs" by blast
  then have len: "length (zip ids specs) \<le> length specs" by simp
  show ?thesis
  proof (cases rule: enqueue_batch_cases [of fmt ids specs s])
    case 3
    then show ?thesis
      using insert_jobs_unfinished [of fmt "zip ids specs" "trim_history s"] trim_unfinished [of s] cap len
      unfolding e transfer_step.simps 3(4) by linarith
  qed (use e cap trim_unfinished [of s] in auto)
next
  case False
  have "jobs_from s (transfer_step e s)" using jobs_from_step [OF inv en] False by blast
  then have "unfinished_count (transfer_step e s) \<le> unfinished_count s"
    unfolding unfinished_count_def by (intro fm_count_mono) (auto simp: jobs_from_def job_moves_def)
  with cap show ?thesis by linarith
qed

lemma step_keeps_tasks:
  assumes "transfer_enabled e s" "fmlookup (tx_tasks s) i \<noteq> None"
  shows "fmlookup (tx_tasks (transfer_step e s)) i \<noteq> None"
proof (cases "queue_event e")
  case False
  then show ?thesis using queue_of_step [THEN queue_of_eqD(1)] assms(2) by simp
next
  case True
  then show ?thesis
  proof (cases e)
    case (JEnqueue fmt ids specs)
    with assms show ?thesis
      using enqueue_inv [of "\<lambda>s. fmlookup (tx_tasks s) i \<noteq> None" s fmt ids specs] by (simp add: insert_job_queue)
  next
    case (JTaskCancelled k)
    with assms(2) show ?thesis
      by (auto simp: on_task_def task_defs Let_def end_task_def split: option.split task_phase.split)
  next
    case (JPrepares k)
    have "fmlookup (tx_tasks (task_prepares k t s)) i \<noteq> None" for t
      using task_prepares_frame(1) [of k t s] assms(2) by auto
    with JPrepares assms(2) show ?thesis by (simp add: on_task_def split: option.split)
  next
    case (JReports k r)
    with assms(2) show ?thesis
      by (auto simp: on_task_def task_reports_def end_task_def split: option.split)
  next
    case (JAborts k owned)
    with assms(2) show ?thesis by (auto simp: on_task_def task_aborts_frame split: option.split)
  qed (use assms(2) True in \<open>auto simp: on_task_def task_defs set_phase_def unlock_def split: option.split\<close>)
qed

definition transfers_inv :: "transfers \<Rightarrow> bool" where
  "transfers_inv s \<longleftrightarrow> permits_inv s \<and> locks_inv s \<and> runners_inv s \<and> jobs_inv {} s \<and> unfinished_count s \<le> JOB_CAP"

lemma transfers_inv_new: "transfers_inv transfers_new"
  using jobs_inv_new
  by (simp add: transfers_inv_def permits_inv_def locks_inv_def runners_inv_def transfers_new_def host_permits_def
      unfinished_count_def)

lemma transfers_inv_step: "transfers_inv s \<Longrightarrow> transfer_enabled e s \<Longrightarrow> transfers_inv (transfer_step e s)"
  by (simp add: transfers_inv_def permits_step locks_step runners_step jobs_step unfinished_step)

interpretation transfer_queue: guarded_machine transfer_enabled transfer_step transfers_inv
  by unfold_locales (rule transfers_inv_step)

interpretation unfinished_jobs: bounded_store transfer_enabled transfer_step transfers_inv unfinished_count JOB_CAP
  by unfold_locales (simp add: transfers_inv_def)

lemma forgotten_run:
  assumes "transfers_inv s" "enabled_run transfer_enabled transfer_step es s"
    and "fmlookup (tx_tasks s) i \<noteq> None" "fmlookup (tx_jobs s) i = None"
  shows "fmlookup (tx_jobs (fold transfer_step es s)) i = None"
  using assms
proof (induction es arbitrary: s)
  case (Cons e es)
  then have inv: "jobs_inv {} s" and en: "transfer_enabled e s" by (simp_all add: transfers_inv_def)
  have "fmlookup (tx_jobs (transfer_step e s)) i = None"
    using step_records [OF inv en, of i] Cons.prems(3,4) by (cases "fmlookup (tx_jobs (transfer_step e s)) i") (auto simp: fresh_record_def)
  with Cons.IH [OF transfers_inv_step [OF Cons.prems(1) en]] step_keeps_tasks [OF en Cons.prems(3)] Cons.prems(2)
  show ?case by simp
qed simp

abbreviation running :: "task \<Rightarrow> bool" where
  "running t \<equiv> tk_phase t = PRun"

lemma running_bounds:
  assumes "permits_inv s"
  shows "fm_count running (tx_tasks s) \<le> GLOBAL_ACTIVE"
    and "fm_count (\<lambda>t. tk_host t = h \<and> running t) (tx_tasks s) \<le> HOST_ACTIVE"
proof -
  have "fm_count running (tx_tasks s) \<le> fm_count holds_global (tx_tasks s)"
    by (rule fm_count_mono) (auto simp: holds_global_def)
  with assms show "fm_count running (tx_tasks s) \<le> GLOBAL_ACTIVE" by (simp add: permits_inv_def)
  have "fm_count (\<lambda>t. tk_host t = h \<and> running t) (tx_tasks s) \<le> fm_count (holds_host h) (tx_tasks s)"
    by (rule fm_count_mono) (auto simp: holds_host_def)
  moreover have "host_permits h s + fm_count (holds_host h) (tx_tasks s) = HOST_ACTIVE"
    using assms by (simp add: permits_inv_def)
  ultimately show "fm_count (\<lambda>t. tk_host t = h \<and> running t) (tx_tasks s) \<le> HOST_ACTIVE" by linarith
qed

lemma same_destination_same_task:
  assumes inv: "locks_inv s" and i: "fmlookup (tx_tasks s) i = Some t" "running t"
    and j: "fmlookup (tx_tasks s) j = Some u" "running u" and "tk_key t = tk_key u"
  shows "i = j"
proof (rule locks_invD(4) [OF inv i(1) j(1) i(2) j(2)])
  show "tk_lock t = tk_lock u"
    using locks_invD(1) [OF inv i(1)] locks_invD(1) [OF inv j(1)] i(2) j(2) assms(6) by auto
qed

section \<open>Progress\<close>

text \<open>How many steps a task has left.\<close>

fun phase_rank :: "task_phase \<Rightarrow> nat" where
  "phase_rank PWaitHost = 6"
| "phase_rank PWaitGlobal = 5"
| "phase_rank PPrepare = 4"
| "phase_rank PWaitDestination = 3"
| "phase_rank PRun = 2"
| "phase_rank (PReleased _) = 1"
| "phase_rank PEnded = 0"
| "phase_rank PAborted = 0"

definition tasks_left :: "transfers \<Rightarrow> nat" where
  "tasks_left s = fm_sum (\<lambda>t. phase_rank (tk_phase t)) (tx_tasks s)"

lemma tasks_left_upd:
  assumes "fmlookup (tx_tasks s) i = Some t" "tx_tasks s' = fmupd i t' (tx_tasks s)"
    "phase_rank (tk_phase t') < phase_rank (tk_phase t)"
  shows "tasks_left s' < tasks_left s"
  using assms by (simp add: tasks_left_def fm_sum_upd fm_sum_drop)

lemma phase_left:
  assumes t: "fmlookup (tx_tasks s) i = Some t"
  shows "tk_phase t = PRun \<Longrightarrow> transfer_enabled (JReleases i r) s \<and> tasks_left (transfer_step (JReleases i r) s) < tasks_left s"
    and "tk_phase t = PReleased r \<Longrightarrow> transfer_enabled (JReports i r) s \<and> tasks_left (transfer_step (JReports i r) s) < tasks_left s"
    and "tk_phase t = PPrepare \<Longrightarrow> transfer_enabled (JPrepares i) s \<and> tasks_left (transfer_step (JPrepares i) s) < tasks_left s"
    and "tk_phase t = PWaitDestination \<Longrightarrow> tk_lock t = Some l \<Longrightarrow> l |\<notin>| tx_locked s \<Longrightarrow>
      transfer_enabled (JLocks i) s \<and> tasks_left (transfer_step (JLocks i) s) < tasks_left s"
    and "tk_phase t = PWaitGlobal \<Longrightarrow> 0 < tx_global s \<Longrightarrow>
      transfer_enabled (JTakesGlobal i) s \<and> tasks_left (transfer_step (JTakesGlobal i) s) < tasks_left s"
    and "tk_phase t = PWaitHost \<Longrightarrow> 0 < host_permits (tk_host t) s \<Longrightarrow>
      transfer_enabled (JTakesHost i) s \<and> tasks_left (transfer_step (JTakesHost i) s) < tasks_left s"
proof -
  obtain l' where prep:
    "tx_tasks (task_prepares i t s) = fmupd i (t\<lparr>tk_phase := PWaitDestination, tk_lock := Some l'\<rparr>) (tx_tasks s)"
    using task_prepares_frame(1) by blast
  show "tk_phase t = PPrepare \<Longrightarrow> transfer_enabled (JPrepares i) s \<and> tasks_left (transfer_step (JPrepares i) s) < tasks_left s"
    using t prep by (auto simp: task_phase_of_def on_task_def intro!: tasks_left_upd)
qed (use t in \<open>auto simp: task_phase_of_def task_defs set_phase_Some end_task_Some intro!: tasks_left_upd [OF t]\<close>)

lemma fm_count_0I: "(\<And>k v. fmlookup m k = Some v \<Longrightarrow> \<not> P v) \<Longrightarrow> fm_count P m = 0"
  using fm_count_mono [of m P fmempty P] by simp

lemma some_task_advances:
  assumes inv: "transfers_inv s" and i: "fmlookup (tx_tasks s) i = Some t" "alive t"
  shows "\<exists>e. transfer_enabled e s \<and> tasks_left (transfer_step e s) < tasks_left s"
proof (cases "\<exists>k u. fmlookup (tx_tasks s) k = Some u \<and> tk_phase u \<notin> {PWaitHost, PWaitGlobal, PWaitDestination, PEnded, PAborted}")
  case True
  then obtain k u where u: "fmlookup (tx_tasks s) k = Some u"
    "tk_phase u \<notin> {PWaitHost, PWaitGlobal, PWaitDestination, PEnded, PAborted}" by blast
  then have "tk_phase u = PRun \<or> tk_phase u = PPrepare \<or> (\<exists>r. tk_phase u = PReleased r)" by (cases "tk_phase u") auto
  then show ?thesis using phase_left(1-3) [OF u(1)] by blast
next
  case False
  then have waits: "tk_phase u \<in> {PWaitHost, PWaitGlobal, PWaitDestination, PEnded, PAborted}"
    if "fmlookup (tx_tasks s) k = Some u" for k u using that by blast
  show ?thesis
  proof (cases "\<exists>k u. fmlookup (tx_tasks s) k = Some u \<and> tk_phase u = PWaitDestination")
    case True
    then obtain k u where u: "fmlookup (tx_tasks s) k = Some u" "tk_phase u = PWaitDestination" by blast
    then obtain l where l: "tk_lock u = Some l"
      using locks_invD(1) [of s k u] inv by (auto simp: transfers_inv_def)
    have "l |\<notin>| tx_locked s"
    proof
      assume "l |\<in>| tx_locked s"
      then obtain j v where "fmlookup (tx_tasks s) j = Some v" "tk_phase v = PRun"
        using runners_invD [of s l] inv by (auto simp: transfers_inv_def)
      with waits show False by fastforce
    qed
    with phase_left(4) [OF u l] show ?thesis by blast
  next
    case no_dest: False
    have "fm_count holds_global (tx_tasks s) = 0"
      by (rule fm_count_0I) (use waits no_dest in \<open>fastforce simp: holds_global_def\<close>)
    then have global: "0 < tx_global s"
      using inv by (simp add: transfers_inv_def permits_inv_def GLOBAL_ACTIVE_def)
    show ?thesis
    proof (cases "\<exists>k u. fmlookup (tx_tasks s) k = Some u \<and> tk_phase u = PWaitGlobal")
      case True
      with phase_left(5) global show ?thesis by blast
    next
      case no_global: False
      have "fm_count (holds_host (tk_host t)) (tx_tasks s) = 0"
        by (rule fm_count_0I) (use waits no_dest no_global in \<open>fastforce simp: holds_host_def\<close>)
      moreover have "host_permits (tk_host t) s + fm_count (holds_host (tk_host t)) (tx_tasks s) = HOST_ACTIVE"
        using inv by (simp add: transfers_inv_def permits_inv_def)
      ultimately have "0 < host_permits (tk_host t) s" by (simp add: HOST_ACTIVE_def)
      moreover have "tk_phase t = PWaitHost"
        using waits [OF i(1)] no_dest no_global i by (auto simp: alive_def)
      ultimately show ?thesis using phase_left(6) [OF i(1)] by blast
    qed
  qed
qed

section \<open>Cancelled and quiet jobs\<close>

lemma set_state_lookup:
  assumes "fmlookup (tx_jobs (set_job_state k st s)) i = Some j'"
  shows "\<exists>j. fmlookup (tx_jobs s) i = Some j \<and> (j' = j \<or> i = k \<and> j' = with_state st j)"
  using assms
  by (auto simp: set_job_state_def Let_def split: if_splits option.splits dest!: trim_history_jobs)

lemma upd_job_lookup:
  assumes "fmlookup (tx_jobs (upd_job k f s)) i = Some j'"
  shows "\<exists>j. fmlookup (tx_jobs s) i = Some j \<and> (j' = j \<or> i = k \<and> j' = f j)"
  using assms by (auto simp: upd_job_def split: if_splits option.splits)

lemma finish_lookup:
  assumes "fmlookup (tx_jobs (trim_history (upd_job k (with_failure st e) s))) i = Some j'"
  shows "\<exists>j. fmlookup (tx_jobs s) i = Some j \<and> (j' = j \<or> job_state j' = st)"
  using upd_job_lookup [OF trim_history_jobs [OF assms]] by auto

lemma report_lookup:
  assumes "fmlookup (tx_jobs (report_outcome k r s)) i = Some j'"
  shows "\<exists>j. fmlookup (tx_jobs s) i = Some j \<and> (j' = j \<or> terminal (job_state j'))"
  using assms set_state_lookup [of k _ s i j'] finish_lookup [of k _ _ s i j']
  by (fastforce simp: report_outcome_def finish_unknown_def finish_error_def split: result.splits if_splits)

text \<open>Only \<open>enter_finalizing\<close> makes a job \<open>Finalizing\<close>, and it refuses cancelled jobs.\<close>

definition keeps_out :: "transfer_job_id \<Rightarrow> transfers \<Rightarrow> bool" where
  "keeps_out i s \<longleftrightarrow> i |\<in>| tx_cancelled s \<and> fmlookup (tx_tasks s) i \<noteq> None
     \<and> (\<forall>j. fmlookup (tx_jobs s) i = Some j \<longrightarrow> job_state j \<noteq> JFinalizing)"

lemma enter_refuses: "i |\<in>| tx_cancelled s \<Longrightarrow> \<not> is_ok (fst (enter_finalizing i s))"
  by (simp add: enter_finalizing_def split: option.split)

lemma keeps_out_step:
  assumes out: "keeps_out i s" and en: "transfer_enabled e s"
  shows "keeps_out i (transfer_step e s)"
proof -
  have old: "job_state j \<noteq> JFinalizing" if "fmlookup (tx_jobs s) i = Some j" for j
    using out that by (simp add: keeps_out_def)
  have "job_state j' \<noteq> JFinalizing" if j': "fmlookup (tx_jobs (transfer_step e s)) i = Some j'" for j'
  proof (cases e)
    case (JEnqueue fmt ids specs)
    with enqueue_records [of fmt ids specs s i j'] en j' out old show ?thesis by (auto simp: keeps_out_def fresh_record_def)
  next
    case (JTaskCancelled k)
    have "tx_jobs (task_cancelled k t s) = tx_jobs (set_job_state k JCancelled s)" for t
      by (simp add: task_defs Let_def split: task_phase.split)
    with JTaskCancelled j' have "fmlookup (tx_jobs (set_job_state k JCancelled s)) i = Some j' \<or> fmlookup (tx_jobs s) i = Some j'"
      by (simp add: on_task_def split: option.splits)
    with set_state_lookup old show ?thesis by fastforce
  next
    case (JPrepares k)
    with j' have "fmlookup (tx_jobs (set_job_state k JPreparing s)) i = Some j' \<or> fmlookup (tx_jobs s) i = Some j'"
      by (simp add: on_task_def task_prepares_frame split: option.splits)
    with set_state_lookup old show ?thesis by fastforce
  next
    case (JStreams k)
    with j' set_state_lookup old show ?thesis by fastforce
  next
    case (JProgress k n)
    with j' upd_job_lookup [of k _ s i j'] old show ?thesis by (fastforce simp: progress_def split: if_splits)
  next
    case (JUnconfirmed k)
    with j' upd_job_lookup [of k _ s i j'] old show ?thesis by (fastforce simp: mark_unconfirmed_def split: if_splits)
  next
    case (JReports k r)
    then obtain t where "fmlookup (tx_jobs (report_outcome k r (unmap_destination t s))) i = Some j' \<or> fmlookup (tx_jobs s) i = Some j'"
      using j' by (auto simp: on_task_def task_reports_def split: option.splits)
    with report_lookup [of k r "unmap_destination t s" i j'] old show ?thesis by auto
  next
    case (JAborts k owned)
    with j' old show ?thesis by (auto simp: on_task_def task_aborts_frame split: option.splits)
  next
    case (JEntersFinalizing k)
    with j' old out show ?thesis
      by (auto simp: enter_finalizing_def keeps_out_def split: if_splits option.splits)
  next
    case (JCleanupEnds k removed)
    let ?s1 = "if removed then s else mark_unconfirmed k s"
    obtain e' where "fmlookup (tx_jobs (finish_error k e' ?s1)) i = Some j'"
      using j' JCleanupEnds by (auto simp: cleanup_ends_def Let_def split: if_splits)
    then obtain j1 where j1: "fmlookup (tx_jobs ?s1) i = Some j1" "j' = j1 \<or> job_state j' = JFailed"
      using finish_lookup [of k JFailed e' ?s1 i j'] by (auto simp: finish_error_def split: if_splits)
    then have "job_state j1 \<noteq> JFinalizing"
      using old upd_job_lookup [of k _ s i j1] by (fastforce simp: mark_unconfirmed_def split: if_splits)
    with j1(2) show ?thesis by auto
  next
    case (JCancel k key)
    with j' old show ?thesis by (auto simp: cancel_def split: if_splits option.splits)
  qed (use j' old in \<open>auto simp: disconnect_def shutdown_transfers_def cancel_where_lookup task_defs unlock_def
      split: if_splits option.splits\<close>)
  moreover have "i |\<in>| tx_cancelled (transfer_step e s)"
    using out flags_step [of s e] by (auto simp: keeps_out_def flags_grow_def)
  moreover have "fmlookup (tx_tasks (transfer_step e s)) i \<noteq> None"
    using out step_keeps_tasks [OF en] by (simp add: keeps_out_def)
  ultimately show ?thesis by (simp add: keeps_out_def)
qed

interpretation cancelled_job: guarded_machine transfer_enabled transfer_step "keeps_out i" for i
  by unfold_locales (rule keeps_out_step)

text \<open>A session that is disconnecting and has nothing unfinished.\<close>

definition session_quiet :: "host_id \<Rightarrow> host_session_id \<Rightarrow> transfers \<Rightarrow> bool" where
  "session_quiet h hs s \<longleftrightarrow> (h, hs) |\<in>| tx_disconnecting s
     \<and> (\<forall>i j. fmlookup (tx_jobs s) i = Some j \<longrightarrow> of_session h hs j \<longrightarrow> terminal (job_state j))"

lemma of_session_key: "job_key j' = job_key j \<Longrightarrow> of_session h hs j' = of_session h hs j"
  by (simp add: job_key_def of_session_def)

lemma quiet_step:
  assumes "transfers_inv s \<and> session_quiet h hs s" and en: "transfer_enabled e s"
  shows "transfers_inv (transfer_step e s) \<and> session_quiet h hs (transfer_step e s)"
proof -
  have inv: "transfers_inv s" and quiet: "session_quiet h hs s" using assms(1) by simp_all
  have "terminal (job_state j')" if j': "fmlookup (tx_jobs (transfer_step e s)) i = Some j'" "of_session h hs j'" for i j'
  proof -
    have "jobs_inv {} s" using inv by (simp add: transfers_inv_def)
    from step_records [OF this en j'(1)] quiet j'(2) show ?thesis
      by (auto simp: job_moves_def session_quiet_def fresh_record_def of_session_def job_key_def)
  qed
  moreover have "(h, hs) |\<in>| tx_disconnecting (transfer_step e s)"
    using quiet flags_step [of s e] by (auto simp: session_quiet_def flags_grow_def)
  ultimately show ?thesis using transfers_inv_step [OF inv en] by (simp add: session_quiet_def)
qed

interpretation quiet_session: guarded_machine transfer_enabled transfer_step "\<lambda>s. transfers_inv s \<and> session_quiet h hs s" for h hs
  by unfold_locales (rule quiet_step)

lemma quiet_busy:
  assumes "transfers_inv s" "session_quiet h hs s" "busy s i"
  shows "\<exists>j. fmlookup (tx_jobs s) i = Some j \<and> \<not> terminal (job_state j) \<and> \<not> of_session h hs j"
  using jobs_invD(5) [of "{}" s i] assms by (auto simp: transfers_inv_def session_quiet_def)

lemma fm_count_0D: "fm_count P m = 0 \<Longrightarrow> fmlookup m k = Some v \<Longrightarrow> \<not> P v"
  using fm_count_drop [of P m k] by auto

text \<open>What quiescing does to the state is a run of the queue's events that starts with the disconnection.\<close>

lemma quiesce_state:
  assumes "waits_enabled h hs w s"
  obtains es where "snd (quiesce_session h hs w s) = fold transfer_step es (disconnect h hs s)"
    "enabled_run transfer_enabled transfer_step es (disconnect h hs s)"
proof -
  let ?es = "[qw_before w, qw_before w @ qw_jobs w, qw_before w @ qw_jobs w @ qw_cleanup w]"
  have "snd (quiesce_session h hs w s) \<in> (\<lambda>es. fold transfer_step es (disconnect h hs s)) ` set ?es"
    by (simp add: quiesce_session_def Let_def)
  moreover have "enabled_run transfer_enabled transfer_step es (disconnect h hs s)" if "es \<in> set ?es" for es
    using assms that by (auto simp: waits_enabled_def enabled_run_append)
  ultimately show thesis using that by blast
qed

lemma quiesce_inv:
  assumes "transfers_inv s" "waits_enabled h hs w s"
  shows "transfers_inv (snd (quiesce_session h hs w s))"
proof -
  have "transfers_inv (disconnect h hs s)" using transfers_inv_step [OF assms(1), of "JDisconnect h hs"] by simp
  with quiesce_state [OF assms(2)] transfer_queue.invar_run show ?thesis by metis
qed

lemma quiesce_quiet:
  assumes "quiesce_session h hs w s = (Ok (), s')"
  shows "session_quiet h hs s'" "fm_count (\<lambda>j. of_session h hs j \<and> jr_cleanup_unconfirmed j) (tx_jobs s') = 0"
proof -
  let ?run = "fold transfer_step (qw_before w @ qw_jobs w @ qw_cleanup w) (disconnect h hs s)"
  have ok: "s' = ?run" "\<not> tx_poisoned ?run"
    "fm_count (\<lambda>j. of_session h hs j \<and> \<not> terminal (job_state j)) (tx_jobs ?run) = 0"
    "fm_count (\<lambda>j. of_session h hs j \<and> jr_cleanup_unconfirmed j) (tx_jobs ?run) = 0"
    using assms by (simp_all add: quiesce_session_def Let_def split: if_splits)
  then show "fm_count (\<lambda>j. of_session h hs j \<and> jr_cleanup_unconfirmed j) (tx_jobs s') = 0" by simp
  have "tx_poisoned ?run = tx_poisoned s"
    using flags_run [of "disconnect h hs s" "qw_before w @ qw_jobs w @ qw_cleanup w"] flags_step [of s "JDisconnect h hs"]
    by (simp add: flags_grow_def)
  with ok(2) have "(h, hs) |\<in>| tx_disconnecting (disconnect h hs s)"
    by (simp add: disconnect_def cancel_where_def)
  then have "(h, hs) |\<in>| tx_disconnecting ?run"
    using flags_run [of "disconnect h hs s" "qw_before w @ qw_jobs w @ qw_cleanup w"] by (auto simp: flags_grow_def)
  then show "session_quiet h hs s'"
    using fm_count_0D [OF ok(3)] by (auto simp: session_quiet_def ok(1))
qed

lemma jobs_from_run:
  assumes "transfers_inv s" "tx_shutting_down s" "enabled_run transfer_enabled transfer_step es s"
  shows "jobs_from s (fold transfer_step es s)"
  using assms
proof (induction es arbitrary: s)
  case (Cons e es)
  then have en: "transfer_enabled e s" and inv: "jobs_inv {} s" by (simp_all add: transfers_inv_def)
  have "jobs_from s (transfer_step e s)"
    using step_records [OF inv en] Cons.prems(2) by (fastforce simp: jobs_from_def fresh_record_def)
  moreover have "tx_shutting_down (transfer_step e s)" using flags_step [of s e] Cons.prems(2) by (simp add: flags_grow_def)
  ultimately show ?case
    using Cons.IH [OF transfers_inv_step [OF Cons.prems(1) en]] Cons.prems(3) jobs_from_trans by fastforce
qed simp

lemma quiesce_session_run:
  assumes inv: "transfers_inv s" and w: "waits_enabled h hs w s"
  obtains es where "snd (quiesce_session h hs w s) = fold transfer_step es s" "enabled_run transfer_enabled transfer_step es s"
proof -
  from quiesce_state [OF w] obtain es where
    "snd (quiesce_session h hs w s) = fold transfer_step es (disconnect h hs s)"
    "enabled_run transfer_enabled transfer_step es (disconnect h hs s)" .
  with that [of "JDisconnect h hs # es"] show thesis by simp
qed

lemma quiesce_each_run:
  assumes "transfers_inv s" "all_waits_enabled sessions s" "quiesce_each sessions s = (Ok (), s')"
  shows "\<exists>es. s' = fold transfer_step es s \<and> enabled_run transfer_enabled transfer_step es s"
    and "\<forall>(h, hs) \<in> fst ` set sessions. session_quiet h hs s'"
proof -
  have "(\<exists>es. s' = fold transfer_step es s \<and> enabled_run transfer_enabled transfer_step es s)
      \<and> (\<forall>(h, hs) \<in> fst ` set sessions. session_quiet h hs s')"
    using assms
  proof (induction sessions arbitrary: s)
    case (Cons x rest)
    obtain h hs w where x: "x = ((h, hs), w)" by (cases x) auto
    obtain s1 where s1: "quiesce_session h hs w s = (Ok (), s1)" "quiesce_each rest s1 = (Ok (), s')"
      using Cons.prems(3) by (auto simp: x split: prod.splits result.splits)
    have w: "waits_enabled h hs w s" "all_waits_enabled rest s1" using Cons.prems(2) s1(1) by (simp_all add: x)
    have inv1: "transfers_inv s1" using quiesce_inv [OF Cons.prems(1) w(1)] s1(1) by simp
    from Cons.IH [OF inv1 w(2) s1(2)] obtain es where
      es: "s' = fold transfer_step es s1" "enabled_run transfer_enabled transfer_step es s1"
      "\<forall>(h, hs) \<in> fst ` set rest. session_quiet h hs s'" by blast
    have "session_quiet h hs s'"
      using quiet_session.invar_run [OF _ es(2), of h hs] inv1 quiesce_quiet(1) [OF s1(1)] es(1) by simp
    moreover from quiesce_session_run [OF Cons.prems(1) w(1)] s1(1) obtain es0 where
      "s1 = fold transfer_step es0 s" "enabled_run transfer_enabled transfer_step es0 s" by auto
    ultimately show ?case
      using es by (auto simp: x enabled_run_append intro!: exI [of _ "es0 @ es"])
  qed (auto intro: exI [of _ "[]"])
  then show "\<exists>es. s' = fold transfer_step es s \<and> enabled_run transfer_enabled transfer_step es s"
    and "\<forall>(h, hs) \<in> fst ` set sessions. session_quiet h hs s'" by blast+
qed

section \<open>An example\<close>

text \<open>Two saves of the same file, queued for one session.\<close>

definition ex_client :: sftp_session_info where
  "ex_client = \<lparr>si_id = SftpSessionId 3, si_host_id = HostId 1, si_host_session_id = HostSessionId 2, si_protocol_version = 3,
     si_extensions = [], si_limits = \<lparr>lim_max_packet_bytes = None, lim_max_read_bytes = None, lim_max_write_bytes = None,
       lim_max_open_handles = None, lim_client_chunk_bytes = ''32768'', lim_listing_entry_cap = 1000\<rparr>, si_root_path = ''/''\<rparr>"

definition ex_save :: job_spec where
  "ex_save = editor_spec ex_client ''/srv/a'' \<lparr>rev_identity = \<lparr>ei_kind = KFile, ei_size = None, ei_modified = None\<rparr>,
     rev_raw_mode = 0, rev_uid = 0, rev_gid = 0\<rparr> ''digest'' ''text''"

definition ex_formats :: text_formats where
  "ex_formats = \<lparr>fmt_uuid = (\<lambda>_. ''3''), fmt_lower = id\<rparr>"

definition ex_queue :: "transfer_event list" where
  "ex_queue = [JEnqueue ex_formats [TransferJobId 7, TransferJobId 8] [ex_save, ex_save],
     JTakesHost (TransferJobId 7), JTakesGlobal (TransferJobId 7), JPrepares (TransferJobId 7), JLocks (TransferJobId 7)]"

lemma trim_short: "fm_count (\<lambda>j. terminal (job_state j)) (tx_jobs s) \<le> HISTORY_CAP \<Longrightarrow> trim_history s = s"
  by (subst trim_history_unfold) simp

lemma ex_enqueue:
  "snd (enqueue_batch ex_formats [TransferJobId 7, TransferJobId 8] [ex_save, ex_save] transfers_new)
     = insert_job ex_formats (TransferJobId 8, ex_save) (insert_job ex_formats (TransferJobId 7, ex_save) transfers_new)"
proof -
  have "trim_history transfers_new = transfers_new" by (rule trim_short) (simp add: transfers_new_def)
  then show ?thesis by (simp add: enqueue_batch_def Let_def transfers_new_def unfinished_count_def JOB_CAP_def)
qed

lemma ex_save_facts [simp]:
  "si_host_id (js_client ex_save) = HostId 1" "si_host_session_id (js_client ex_save) = HostSessionId 2"
  "destination_key ex_formats ex_save = ''r:3:/srv/a''"
  by (simp_all add: ex_save_def editor_spec_def ex_client_def destination_key_def ex_formats_def)

lemmas transfer_eval = task_defs Let_def set_phase_def end_task_def set_job_state_def insert_job_def transfers_new_def
  host_permits_def task_phase_of_def GLOBAL_ACTIVE_def HOST_ACTIVE_def

lemma ex_queue_enabled: "enabled_run transfer_enabled transfer_step ex_queue transfers_new"
  unfolding ex_queue_def enabled_run.simps transfer_step.simps ex_enqueue by (simp add: transfer_eval)

lemma ex_queue_tasks:
  "fmlookup (tx_tasks (fold transfer_step ex_queue transfers_new)) (TransferJobId 7) =
     Some \<lparr>tk_phase = PRun, tk_host = HostId 1, tk_key = ''r:3:/srv/a'', tk_lock = Some 0\<rparr>"
  unfolding ex_queue_def fold.simps transfer_step.simps o_apply id_apply ex_enqueue by (simp add: transfer_eval)

lemma ex_queue_inv: "transfers_inv (fold transfer_step ex_queue transfers_new)"
  using transfers_inv_new ex_queue_enabled by (rule transfer_queue.invar_run)

lemma fm_count_upd_le: "fm_count P (fmupd k v m) \<le> Suc (fm_count P m)"
  using fm_count_drop_le [of P k m] by (simp add: fm_count_upd)

lemma trim_small:
  assumes "tx_jobs s = fmupd a x (fmupd b y (fmupd c z fmempty))"
  shows "trim_history s = s"
proof (rule trim_short)
  let ?P = "\<lambda>j. terminal (job_state j)"
  show "fm_count ?P (tx_jobs s) \<le> HISTORY_CAP"
    using fm_count_upd_le [of ?P a x "fmupd b y (fmupd c z fmempty)"] fm_count_upd_le [of ?P b y "fmupd c z fmempty"]
      fm_count_upd_le [of ?P c z fmempty]
    unfolding assms by (simp add: HISTORY_CAP_def)
qed

text \<open>One of the saves alone, and the cancellation of its task.\<close>

definition ex_one :: transfers where
  "ex_one = insert_job ex_formats (TransferJobId 7, ex_save) transfers_new"

lemma ex_one_fields [simp]:
  "tx_jobs ex_one = fmupd (TransferJobId 7) \<lparr>jr_view = new_job (TransferJobId 7) ex_save, jr_active_spec = Some ex_save,
     jr_cleanup_unconfirmed = False\<rparr> fmempty"
  "tx_tasks ex_one = fmupd (TransferJobId 7) \<lparr>tk_phase = PWaitHost, tk_host = HostId 1, tk_key = ''r:3:/srv/a'', tk_lock = None\<rparr> fmempty"
  "tx_poisoned ex_one = False" "tx_cancelled ex_one = {||}" "tx_cleanup_tasks ex_one = {||}" "tx_disconnecting ex_one = {||}"
  by (simp_all add: ex_one_def insert_job_def transfers_new_def)

lemma ex_one_inv: "transfers_inv ex_one"
proof -
  have "trim_history transfers_new = transfers_new" by (rule trim_short) (simp add: transfers_new_def)
  then have "ex_one = transfer_step (JEnqueue ex_formats [TransferJobId 7] [ex_save]) transfers_new"
    by (simp add: ex_one_def enqueue_batch_def Let_def transfers_new_def unfinished_count_def JOB_CAP_def)
  also have "transfers_inv \<dots>" by (rule transfers_inv_step [OF transfers_inv_new]) (simp add: transfers_new_def)
  finally show ?thesis .
qed

definition ex_waits :: quiesce_waits where
  "ex_waits = \<lparr>qw_before = [], qw_jobs = [JTaskCancelled (TransferJobId 7)], qw_cleanup = []\<rparr>"

abbreviation ex_record :: job_record where
  "ex_record \<equiv> \<lparr>jr_view = new_job (TransferJobId 7) ex_save, jr_active_spec = Some ex_save, jr_cleanup_unconfirmed = False\<rparr>"

abbreviation ex_job_key :: "host_id \<times> host_session_id \<times> sftp_session_id" where
  "ex_job_key \<equiv> job_key ex_record"

lemma fmupd_twice [simp]: "fmupd k v (fmupd k w m) = fmupd k v m"
  by (intro fmap_ext) simp

lemma trim_one: "tx_jobs s = fmupd a x fmempty \<Longrightarrow> trim_history s = s"
  by (rule trim_small [of s a x a x a x]) simp

definition ex_cancelled :: transfers where
  "ex_cancelled = snd (cancel (TransferJobId 7) ex_job_key ex_one)"

lemma ex_cancelled_eq: "cancel (TransferJobId 7) ex_job_key ex_one = (Ok (), ex_cancelled)"
  by (simp add: ex_cancelled_def cancel_def cancellable_def)

lemma ex_cancelled_fields [simp]:
  "tx_jobs ex_cancelled = fmupd (TransferJobId 7) (with_state JCancelRequested ex_record) fmempty"
  "tx_tasks ex_cancelled = tx_tasks ex_one" "tx_poisoned ex_cancelled = False" "tx_cancelled ex_cancelled = {|TransferJobId 7|}"
  by (simp_all add: ex_cancelled_def cancel_def cancellable_def)

lemma ex_cancelled_inv: "transfers_inv ex_cancelled"
  using transfers_inv_step [OF ex_one_inv, of "JCancel (TransferJobId 7) ex_job_key"] by (simp add: ex_cancelled_def)

definition ex_ended :: transfers where
  "ex_ended = transfer_step (JTaskCancelled (TransferJobId 7)) ex_cancelled"

lemma ex_ended_fields [simp]:
  "tx_jobs ex_ended = fmupd (TransferJobId 7) (with_state JCancelled (with_state JCancelRequested ex_record)) fmempty"
  "tx_tasks ex_ended = fmupd (TransferJobId 7) \<lparr>tk_phase = PEnded, tk_host = HostId 1, tk_key = ''r:3:/srv/a'', tk_lock = None\<rparr> fmempty"
  "tx_poisoned ex_ended = False"
  by (simp_all add: ex_ended_def task_defs Let_def set_job_state_def end_task_def trim_one)

lemma ex_ended_inv: "transfers_inv ex_ended"
  unfolding ex_ended_def by (rule transfers_inv_step [OF ex_cancelled_inv]) (simp add: task_phase_of_def)

lemma fm_keys_empty [simp]: "fm_keys P fmempty = {||}"
  by (rule fset_eqI) simp

lemma ex_disconnect:
  assumes "of_session h hs ex_record"
  shows "tx_jobs (disconnect h hs ex_one) = fmupd (TransferJobId 7) (with_state JCancelRequested ex_record) fmempty"
    "tx_tasks (disconnect h hs ex_one) = tx_tasks ex_one" "tx_cancelled (disconnect h hs ex_one) = {|TransferJobId 7|}"
    "tx_poisoned (disconnect h hs ex_one) = False" "tx_cleanup_tasks (disconnect h hs ex_one) = {||}"
  using assms by (simp_all add: disconnect_def cancel_where_def cancellable_def fm_keys_upd fmmap_fmupd)

lemma ex_session: "of_session (HostId 1) (HostSessionId 2) ex_record"
  by (simp add: of_session_def)

lemma ex_waits_enabled: "waits_enabled (HostId 1) (HostSessionId 2) ex_waits ex_one"
  by (simp add: waits_enabled_def ex_waits_def ex_disconnect [OF ex_session] task_phase_of_def)

lemma ex_quiesce:
  "quiesce_session (HostId 1) (HostSessionId 2) ex_waits ex_one
     = (Ok (), transfer_step (JTaskCancelled (TransferJobId 7)) (disconnect (HostId 1) (HostSessionId 2) ex_one))"
proof -
  let ?s = "disconnect (HostId 1) (HostSessionId 2) ex_one"
  let ?t = "transfer_step (JTaskCancelled (TransferJobId 7)) ?s"
  have "tx_jobs ?t = fmupd (TransferJobId 7) (with_state JCancelled (with_state JCancelRequested ex_record)) fmempty"
    "tx_tasks ?t = fmupd (TransferJobId 7) \<lparr>tk_phase = PEnded, tk_host = HostId 1, tk_key = ''r:3:/srv/a'', tk_lock = None\<rparr> fmempty"
    "tx_cleanup_tasks ?t = {||}" "tx_poisoned ?t = False"
    by (simp_all add: ex_disconnect [OF ex_session] task_defs Let_def set_job_state_def end_task_def trim_one)
  then show ?thesis
    by (simp add: quiesce_session_def Let_def ex_waits_def ex_disconnect [OF ex_session] fm_keys_upd job_done_def alive_def
        fm_count_upd fmdrop_absent with_state_def)
qed

definition ex_down :: transfers where
  "ex_down = shutdown_transfers ex_one"

lemma ex_down_fields [simp]:
  "tx_jobs ex_down = fmupd (TransferJobId 7) (with_state JCancelRequested ex_record) fmempty" "tx_tasks ex_down = tx_tasks ex_one"
  "tx_cancelled ex_down = {|TransferJobId 7|}" "tx_poisoned ex_down = False" "tx_cleanup_tasks ex_down = {||}" "tx_shutting_down ex_down"
  by (simp_all add: ex_down_def shutdown_transfers_def cancel_where_def cancellable_def fm_keys_upd fmmap_fmupd)

lemma ex_down_inv: "transfers_inv ex_down"
  using transfers_inv_step [OF ex_one_inv, of JShutdown] by (simp add: ex_down_def)

lemma ex_down_disconnect:
  "tx_jobs (disconnect h hs ex_down) = tx_jobs ex_down" "tx_tasks (disconnect h hs ex_down) = tx_tasks ex_one"
  "tx_cancelled (disconnect h hs ex_down) = {|TransferJobId 7|}" "tx_poisoned (disconnect h hs ex_down) = False"
  "tx_cleanup_tasks (disconnect h hs ex_down) = {||}"
  by (auto simp: disconnect_def cancel_where_def cancellable_def fm_keys_upd fmmap_fmupd)

abbreviation ex_sessions :: "((host_id \<times> host_session_id) \<times> quiesce_waits) list" where
  "ex_sessions \<equiv> [((HostId 1, HostSessionId 2), ex_waits)]"

lemma ex_down_targets: "fst ` set ex_sessions = fset (quiesce_targets ex_down)"
  by (simp add: quiesce_targets_def fm_keys_upd session_of_def with_state_def)

lemma ex_down_enabled: "all_waits_enabled ex_sessions ex_down"
  by (simp add: waits_enabled_def ex_waits_def ex_down_disconnect task_phase_of_def)

lemma ex_down_quiesce:
  "quiesce_all ex_sessions ex_down
     = (Ok (), transfer_step (JTaskCancelled (TransferJobId 7)) (disconnect (HostId 1) (HostSessionId 2) ex_down))"
proof -
  let ?t = "transfer_step (JTaskCancelled (TransferJobId 7)) (disconnect (HostId 1) (HostSessionId 2) ex_down)"
  have "tx_jobs ?t = fmupd (TransferJobId 7) (with_state JCancelled (with_state JCancelRequested ex_record)) fmempty"
    "tx_tasks ?t = fmupd (TransferJobId 7) \<lparr>tk_phase = PEnded, tk_host = HostId 1, tk_key = ''r:3:/srv/a'', tk_lock = None\<rparr> fmempty"
    "tx_cleanup_tasks ?t = {||}" "tx_poisoned ?t = False"
    by (simp_all add: ex_down_disconnect task_defs Let_def set_job_state_def end_task_def trim_one)
  then show ?thesis
    by (simp add: quiesce_all_def quiesce_session_def Let_def ex_waits_def ex_down_disconnect fm_keys_upd job_done_def alive_def
        fm_count_upd fmdrop_absent with_state_def)
qed

section \<open>What the queue promises\<close>

text \<open>
  C28: However requests and tasks interleave, at most four transfers run at a time, at most two of them with the
  same host, and at most a hundred jobs are unfinished.
\<close>

theorem transfers_bounded:
  assumes "enabled_run transfer_enabled transfer_step es transfers_new"
  shows "fm_count running (tx_tasks (fold transfer_step es transfers_new)) \<le> 4
    \<and> fm_count (\<lambda>t. tk_host t = h \<and> running t) (tx_tasks (fold transfer_step es transfers_new)) \<le> 2
    \<and> unfinished_count (fold transfer_step es transfers_new) \<le> 100"
proof -
  have inv: "transfers_inv (fold transfer_step es transfers_new)"
    using transfers_inv_new assms by (rule transfer_queue.invar_run)
  then show ?thesis
    using running_bounds(1) running_bounds(2) [of "fold transfer_step es transfers_new" h]
      unfinished_jobs.run_bounded [OF transfers_inv_new assms]
    by (simp add: transfers_inv_def GLOBAL_ACTIVE_def HOST_ACTIVE_def JOB_CAP_def)
qed

theorem transfers_bounded_witness:
  "fm_count running (tx_tasks (fold transfer_step ex_queue transfers_new)) \<le> 4
   \<and> fm_count (\<lambda>t. tk_host t = HostId 1 \<and> running t) (tx_tasks (fold transfer_step ex_queue transfers_new)) \<le> 2
   \<and> unfinished_count (fold transfer_step ex_queue transfers_new) \<le> 100"
  by (rule transfers_bounded [OF ex_queue_enabled])



text \<open>
  C29: A finished transfer stays as it finished. Whatever happens later, its record is unchanged for as long as it is kept
  in the history, and it holds no specification: no local handle and no client.
\<close>

theorem finished_job_final:
  assumes "transfers_inv s" "fmlookup (tx_jobs s) i = Some j" "terminal (job_state j)"
    and "enabled_run transfer_enabled transfer_step es s"
    and "fmlookup (tx_jobs (fold transfer_step es s)) i = Some j'"
  shows "j' = j \<and> jr_active_spec j = None"
proof -
  have task: "fmlookup (tx_tasks s) i \<noteq> None"
    using assms(1,2) jobs_invD(3) [of "{}" s i] by (simp add: transfers_inv_def)
  have "j' = j"
    using assms(1) task assms(2-5)
  proof (induction es arbitrary: s)
    case (Cons e es)
    then have inv: "jobs_inv {} s" and en: "transfer_enabled e s" by (simp_all add: transfers_inv_def)
    have task': "fmlookup (tx_tasks (transfer_step e s)) i \<noteq> None" using step_keeps_tasks [OF en Cons.prems(2)] .
    have inv': "transfers_inv (transfer_step e s)" using Cons.prems(1) en by (rule transfers_inv_step)
    show ?case
    proof (cases "fmlookup (tx_jobs (transfer_step e s)) i")
      case None
      have "fmlookup (tx_jobs (fold transfer_step es (transfer_step e s))) i = None"
        using forgotten_run [OF inv' _ task' None] Cons.prems(5) by simp
      with Cons.prems(6) show ?thesis by simp
    next
      case (Some j1)
      from step_records [OF inv en Some] Cons.prems(2,3,4) have "j1 = j"
        by (auto simp: job_moves_def fresh_record_def)
      with Cons.IH [OF inv' task' Some [unfolded \<open>j1 = j\<close>] Cons.prems(4)] Cons.prems(5,6) show ?thesis by simp
    qed
  qed simp
  with assms(1-3) show ?thesis using jobs_invD(4) [of "{}" s i j] by (simp add: transfers_inv_def)
qed

theorem finished_job_final_witness:
  "fmlookup (tx_jobs (fold transfer_step [JShutdown] ex_ended)) (TransferJobId 7) = fmlookup (tx_jobs ex_ended) (TransferJobId 7)"
proof -
  obtain j' where j': "fmlookup (tx_jobs (fold transfer_step [JShutdown] ex_ended)) (TransferJobId 7) = Some j'"
    by (simp add: shutdown_transfers_def cancel_where_lookup)
  with finished_job_final [OF ex_ended_inv _ _ _ j'] show ?thesis by simp
qed

text \<open>
  C19: The queue never gets stuck. From every state that requests and tasks can reach, the tasks can run to their ends with
  no further request: no wait for a host permit, the global permit or a destination lock is circular.
\<close>

theorem transfers_can_drain:
  assumes "transfers_inv s"
  shows "\<exists>es. enabled_run transfer_enabled transfer_step es s
    \<and> (\<forall>i t. fmlookup (tx_tasks (fold transfer_step es s)) i = Some t \<longrightarrow> \<not> alive t)"
  using assms
proof (induction "tasks_left s" arbitrary: s rule: less_induct)
  case less
  show ?case
  proof (cases "\<exists>i t. fmlookup (tx_tasks s) i = Some t \<and> alive t")
    case True
    with some_task_advances [OF less.prems] obtain e where
      e: "transfer_enabled e s" "tasks_left (transfer_step e s) < tasks_left s" by blast
    from less.hyps [OF e(2) transfers_inv_step [OF less.prems e(1)]] obtain es where
      "enabled_run transfer_enabled transfer_step es (transfer_step e s)"
      "\<forall>i t. fmlookup (tx_tasks (fold transfer_step es (transfer_step e s))) i = Some t \<longrightarrow> \<not> alive t" by blast
    with e(1) show ?thesis by (intro exI [of _ "e # es"]) simp
  next
    case False
    then show ?thesis by (intro exI [of _ "[]"]) auto
  qed
qed

theorem transfers_can_drain_witness:
  "\<exists>es. \<not> (\<exists>i t. fmlookup (tx_tasks (fold transfer_step es (fold transfer_step ex_queue transfers_new))) i = Some t \<and> alive t)"
  using transfers_can_drain [OF ex_queue_inv] by blast

text \<open>
  C18: Cancellation is binding. Once \<open>cancel\<close> has been granted for a job that was queued, preparing or transferring, the job
  is never finalized: whatever happens later it is not \<open>Finalizing\<close>, and \<open>enter_finalizing\<close>, which every worker calls before it
  commits, refuses it.
\<close>

theorem cancelled_never_finalizes:
  assumes "transfers_inv s" "fmlookup (tx_jobs s) i = Some j" "cancellable (job_state j)" "cancel i key s = (Ok (), s')"
    and "enabled_run transfer_enabled transfer_step es s'"
    and "fmlookup (tx_jobs (fold transfer_step es s')) i = Some j'"
  shows "job_state j' \<noteq> JFinalizing \<and> \<not> is_ok (fst (enter_finalizing i (fold transfer_step es s')))"
proof -
  have "fmlookup (tx_tasks s) i \<noteq> None" using assms(1,2) jobs_invD(3) [of "{}" s i] by (simp add: transfers_inv_def)
  then have "keeps_out i s'"
    using assms(2-4) by (auto simp: cancel_def keeps_out_def split: if_splits)
  then have "keeps_out i (fold transfer_step es s')" using assms(5) by (rule cancelled_job.invar_run)
  with assms(6) show ?thesis by (simp add: keeps_out_def enter_refuses)
qed

theorem cancelled_never_finalizes_witness:
  "\<not> is_ok (fst (enter_finalizing (TransferJobId 7) (fold transfer_step [JTakesHost (TransferJobId 7)] ex_cancelled)))"
proof -
  obtain j' where j': "fmlookup (tx_jobs (fold transfer_step [JTakesHost (TransferJobId 7)] ex_cancelled)) (TransferJobId 7) = Some j'"
    by (simp add: task_defs)
  have "enabled_run transfer_enabled transfer_step [JTakesHost (TransferJobId 7)] ex_cancelled"
    by (simp add: host_permits_def ex_cancelled_def cancel_def cancellable_def ex_one_def insert_job_def transfers_new_def HOST_ACTIVE_def)
  with cancelled_never_finalizes [OF ex_one_inv _ _ ex_cancelled_eq _ j'] show ?thesis by (simp add: cancellable_def)
qed

text \<open>
  C16: When quiescing a session succeeds, the session is over. At that moment and ever after, no task and no staging cleanup
  belongs to the session, none of its jobs is unfinished, and nothing new is queued for it: its client can be closed.
\<close>

theorem quiesce_session_safe:
  assumes "transfers_inv s" "waits_enabled h hs w s" "quiesce_session h hs w s = (Ok (), s')"
    and "enabled_run transfer_enabled transfer_step es s'"
  shows "fm_count (\<lambda>j. of_session h hs j \<and> \<not> terminal (job_state j)) (tx_jobs (fold transfer_step es s')) = 0
    \<and> (\<forall>i. busy (fold transfer_step es s') i \<longrightarrow>
         (\<exists>j. fmlookup (tx_jobs (fold transfer_step es s')) i = Some j \<and> \<not> of_session h hs j))"
proof -
  have "transfers_inv s'" using quiesce_inv [OF assms(1,2)] assms(3) by simp
  with quiesce_quiet(1) [OF assms(3)] quiet_session.invar_run [OF _ assms(4), of h hs]
  have quiet: "transfers_inv (fold transfer_step es s')" "session_quiet h hs (fold transfer_step es s')" by simp_all
  then have "fm_count (\<lambda>j. of_session h hs j \<and> \<not> terminal (job_state j)) (tx_jobs (fold transfer_step es s')) = 0"
    by (intro fm_count_0I) (auto simp: session_quiet_def)
  with quiet_busy [OF quiet] show ?thesis by blast
qed

theorem quiesce_session_safe_witness:
  "fm_count (\<lambda>j. of_session (HostId 1) (HostSessionId 2) j \<and> \<not> terminal (job_state j))
     (tx_jobs (fold transfer_step [JShutdown]
       (snd (quiesce_session (HostId 1) (HostSessionId 2) ex_waits ex_one)))) = 0"
  using quiesce_session_safe [OF ex_one_inv ex_waits_enabled ex_quiesce, of "[JShutdown]"] by (simp add: ex_quiesce)

text \<open>
  Shutting down leaves nothing behind. Once the queue refuses new work, a successful \<open>quiesce_all\<close> over the sessions it
  found means that no transfer task and no staging cleanup runs, then or at any later time.
\<close>

theorem shutdown_quiesces_all:
  assumes "transfers_inv s" "tx_shutting_down s" "fst ` set sessions = fset (quiesce_targets s)"
    and "all_waits_enabled sessions s" "quiesce_all sessions s = (Ok (), s')"
    and "enabled_run transfer_enabled transfer_step es s'"
  shows "\<not> busy (fold transfer_step es s') i"
proof
  assume busy: "busy (fold transfer_step es s') i"
  have each: "quiesce_each sessions s = (Ok (), s')" using assms(5) by (simp add: quiesce_all_def split: if_splits)
  from quiesce_each_run(1) [OF assms(1,4) each] obtain es0 where
    es0: "s' = fold transfer_step es0 s" "enabled_run transfer_enabled transfer_step es0 s" by blast
  have run: "enabled_run transfer_enabled transfer_step (es0 @ es) s"
    using es0 assms(6) by (simp add: enabled_run_append)
  let ?s = "fold transfer_step (es0 @ es) s"
  have inv: "transfers_inv ?s" using assms(1) run by (rule transfer_queue.invar_run)
  have busy': "busy ?s i" using busy by (simp add: es0(1))
  then obtain j' where j': "fmlookup (tx_jobs ?s) i = Some j'" "\<not> terminal (job_state j')"
    using inv jobs_invD(5) [of "{}" ?s i] by (auto simp: transfers_inv_def)
  from jobs_from_run [OF assms(1,2) run] j' obtain j where
    j: "fmlookup (tx_jobs s) i = Some j" "\<not> terminal (job_state j)" "job_key j = job_key j'"
    by (fastforce simp: jobs_from_def job_moves_def)
  define h hs where "h = tj_host_id (jr_view j)" and "hs = tj_host_session_id (jr_view j)"
  have "i |\<in>| fm_keys (\<lambda>j. \<not> terminal (job_state j) \<or> jr_cleanup_unconfirmed j) (tx_jobs s)" using j by simp
  then have "session_of s i |\<in>| quiesce_targets s" by (auto simp: quiesce_targets_def)
  with j(1) have "(h, hs) |\<in>| quiesce_targets s" by (simp add: session_of_def h_def hs_def)
  then have "session_quiet h hs s'" using quiesce_each_run(2) [OF assms(1,4) each] assms(3) by blast
  moreover have "transfers_inv s'" using transfer_queue.invar_run [OF assms(1) es0(2)] es0(1) by simp
  ultimately have "session_quiet h hs ?s"
    using quiet_session.invar_run [OF _ assms(6), of h hs] by (simp add: es0(1))
  with j' j(3) show False by (auto simp: session_quiet_def of_session_def h_def hs_def job_key_def)
qed

theorem shutdown_quiesces_all_witness:
  "\<not> busy (fold transfer_step [JDisconnect (HostId 4) (HostSessionId 4)] (snd (quiesce_all ex_sessions ex_down))) (TransferJobId 7)"
  using shutdown_quiesces_all [OF ex_down_inv _ ex_down_targets ex_down_enabled ex_down_quiesce,
      of "[JDisconnect (HostId 4) (HostSessionId 4)]"]
  by (simp add: ex_down_quiesce)


end
