(* ===== verification/Sftp_Client.thy ===== *)
theory Sftp_Client
  imports Sftp_Model Interfaces "HOL-Library.List_Lexorder" "HOL-Library.Char_ord"
begin

unbundle bit_operations_syntax

text \<open>
  \<^verbatim>\<open>crates/nexus-sftp/src/client.rs\<close>: the SFTP client over a raw session. The session of the library and the
  server behind it are a parameter: every reply is a function of the requests sent so far, so a
  server may answer the same request differently each time. An operation returns its result and the requests
  sent; the callback that reports progress leaves an entry among them.
\<close>

section \<open>The raw session\<close>

definition CLIENT_CHUNK_BYTES :: nat where "CLIENT_CHUNK_BYTES = 64 * 1024"
definition LISTING_ENTRY_CAP :: nat where "LISTING_ENTRY_CAP = 5000"

datatype status_code =
    StOk | StEof | StNoSuchFile | StPermissionDenied | StFailure | StBadMessage | StNoConnection
  | StConnectionLost | StOpUnsupported

datatype sftp_error = SStatus status_code | STimeout | SLimited | SOther

datatype file_type = TFile | TDir | TSymlink | TOther

record file_attributes =
  fa_size :: "u64 option"
  fa_uid :: "u32 option"
  fa_gid :: "u32 option"
  fa_permissions :: "u32 option"
  fa_mtime :: "u32 option"

datatype raw_request =
    QLstat string
  | QFstat string
  | QOpenRead string
  | QCreate string u32
  | QRead string u64 u32
  | QWrite string u64 string
  | QFsync string
  | QClose string
  | QOpendir string
  | QReaddir string
  | QSetOwner string u32 u32
  | QSetMode string u32
  | QMkdir string u32
  | QRemove string
  | QRmdir string
  | QHardlink string string
  | QExtended string string
  | QProgress u64
  | QCloseSession

datatype extended_reply = PacketStatus status_code | PacketOther

text \<open>
  What the library answers to the last request of the list. \<open>rs_cancelled\<close> is the caller's cancellation
  token as it is seen at that moment; the last three fields are functions of the libraries on attributes and times.
\<close>

record raw_session =
  rs_attrs :: "raw_request list \<Rightarrow> (file_attributes, sftp_error) result"
  rs_handle :: "raw_request list \<Rightarrow> (string, sftp_error) result"
  rs_data :: "raw_request list \<Rightarrow> (string, sftp_error) result"
  rs_names :: "raw_request list \<Rightarrow> ((string \<times> file_attributes) list, sftp_error) result"
  rs_status :: "raw_request list \<Rightarrow> (status_code, sftp_error) result"
  rs_extended :: "raw_request list \<Rightarrow> (extended_reply, sftp_error) result"
  rs_cancelled :: "raw_request list \<Rightarrow> bool"
  rs_file_type :: "file_attributes \<Rightarrow> file_type"
  rs_permissions_text :: "u32 \<Rightarrow> string"
  rs_rfc3339 :: "u32 \<Rightarrow> string"

record raw_client =
  rc_raw :: raw_session
  rc_info :: sftp_session_info
  rc_extension_map :: "(string, string) fmap"
  rc_read_chunk :: u32
  rc_write_chunk :: nat

type_synonym 'a client_io = "raw_request list \<Rightarrow> 'a app_result \<times> raw_request list"

section \<open>Errors\<close>

definition not_found :: app_error where
  "not_found = AppError_new NotFound ''The remote entry no longer exists.''"

definition conflict :: app_error where
  "conflict = AppError_new Conflict ''The destination already exists.''"

definition local_io :: app_error where
  "local_io = AppError_new LocalAccess ''The selected local file could not be read or written.''"

definition map_status :: "status_code \<Rightarrow> app_error" where
  "map_status st =
     (case st of
        StNoSuchFile \<Rightarrow> not_found
      | StPermissionDenied \<Rightarrow> AppError_new SftpDenied ''The remote account denied this file operation.''
      | StOpUnsupported \<Rightarrow> AppError_new SftpUnavailable ''The SFTP server does not support this operation.''
      | StNoConnection \<Rightarrow> AppError_new Connection ''The SFTP connection was lost.''
      | StConnectionLost \<Rightarrow> AppError_new Connection ''The SFTP connection was lost.''
      | _ \<Rightarrow> AppError_new SftpProtocol ''The SFTP server rejected the operation.'')"

definition map_error :: "sftp_error \<Rightarrow> app_error" where
  "map_error e =
     (case e of
        SStatus st \<Rightarrow> map_status st
      | STimeout \<Rightarrow> AppError_new Timeout ''The SFTP server did not respond in time.''
      | SLimited \<Rightarrow> AppError_new SftpProtocol ''The SFTP request exceeded a negotiated limit.''
      | SOther \<Rightarrow> AppError_new SftpProtocol ''The SFTP request failed.'')"

definition initialization_error :: "sftp_error \<Rightarrow> app_error" where
  "initialization_error e =
     (if e = SStatus StPermissionDenied
      then AppError_new SftpDenied ''The SSH server denied the SFTP subsystem.''
      else AppError_new SftpUnavailable ''The SSH server did not provide a usable SFTP subsystem.'')"

fun map_err :: "('e \<Rightarrow> 'f) \<Rightarrow> ('a, 'e) result \<Rightarrow> ('a, 'f) result" where
  "map_err f (Ok x) = Ok x"
| "map_err f (Err e) = Err (f e)"

text \<open>A request and its reply.\<close>

definition ask_ok :: "(raw_session \<Rightarrow> raw_request list \<Rightarrow> ('a, sftp_error) result) \<Rightarrow> raw_client \<Rightarrow> raw_request \<Rightarrow> 'a client_io" where
  "ask_ok reply c q tr = (map_err map_error (reply (rc_raw c) (tr @ [q])), tr @ [q])"

definition status_ok :: "(status_code, sftp_error) result \<Rightarrow> unit app_result" where
  "status_ok r =
     (case r of Err e \<Rightarrow> Err (map_error e) | Ok st \<Rightarrow> if st = StOk then Ok () else Err (map_status st))"

definition mutation_status :: "string \<Rightarrow> (status_code, sftp_error) result \<Rightarrow> unit app_result" where
  "mutation_status unknown_message r =
     (case r of
        Ok st \<Rightarrow> if st = StOk then Ok () else Err (map_status st)
      | Err (SStatus st) \<Rightarrow> Err (map_status st)
      | Err _ \<Rightarrow> Err (AppError_new OutcomeUnknownCode unknown_message))"

definition send_ok :: "raw_client \<Rightarrow> raw_request \<Rightarrow> unit client_io" where
  "send_ok c q tr = (status_ok (rs_status (rc_raw c) (tr @ [q])), tr @ [q])"

definition send_mutation :: "raw_client \<Rightarrow> string \<Rightarrow> raw_request \<Rightarrow> unit client_io" where
  "send_mutation c unknown q tr = (mutation_status unknown (rs_status (rc_raw c) (tr @ [q])), tr @ [q])"

definition close_handle :: "raw_client \<Rightarrow> string \<Rightarrow> unit client_io" where
  "close_handle c h = send_ok c (QClose h)"

section \<open>Connecting\<close>

record server_limits =
  sl_max_packet_len :: u64
  sl_max_read_len :: u64
  sl_max_write_len :: u64
  sl_max_open_handles :: u64

definition then_some :: "u64 \<Rightarrow> u64 option" where
  "then_some n = (if n > 0 then Some n else None)"

definition chunk_len :: "u64 option \<Rightarrow> u64" where
  "chunk_len n = max 1 (min (case n of None \<Rightarrow> of_nat CLIENT_CHUNK_BYTES | Some v \<Rightarrow> v) (of_nat CLIENT_CHUNK_BYTES))"

definition extension_list :: "(string, string) fmap \<Rightarrow> sftp_extension list" where
  "extension_list m =
     map (\<lambda>n. \<lparr>ext_name = n, ext_version = (case fmlookup m n of None \<Rightarrow> [] | Some v \<Rightarrow> v)\<rparr>) (sorted_list_of_fset (fmdom m))"

text \<open>
  \<open>RawSftpClient::connect\<close>; the replies to the version exchange, to the limits request (sent only when the
  extension is announced) and to the start-directory request are arguments.
\<close>

definition limits_text :: "(server_limits \<Rightarrow> u64) \<Rightarrow> server_limits option \<Rightarrow> string option" where
  "limits_text sel l = map_option (\<lambda>n. fmt_dec (unat n)) (Option.bind l (\<lambda>v. then_some (sel v)))"

definition connect ::
  "raw_session \<Rightarrow> (u32 \<times> (string, string) fmap, sftp_error) result \<Rightarrow> (server_limits, sftp_error) result
    \<Rightarrow> (string list, sftp_error) result \<Rightarrow> sftp_session_id \<Rightarrow> host_id \<Rightarrow> host_session_id \<Rightarrow> raw_client app_result" where
  "connect raw init limits realpath new_id h hs =
     and_then (map_err initialization_error init) (\<lambda>(version, extension_map).
       if version \<noteq> 3
       then Err (AppError_new SftpUnavailable ''The server negotiated an unsupported SFTP protocol version.'')
       else
         and_then (if fmlookup extension_map ''limits@openssh.com'' = Some ''1''
                   then (case limits of Ok v \<Rightarrow> Ok (Some v) | Err e \<Rightarrow> Err (initialization_error e)) else Ok None) (\<lambda>negotiated.
         and_then (map_err map_error realpath) (\<lambda>names.
         and_then (ok_or (case names of [] \<Rightarrow> None | n # _ \<Rightarrow> Some n)
             (AppError_new SftpProtocol ''The SFTP server returned no start directory.'')) (\<lambda>root.
         and_then (validate_remote_path root) (\<lambda>_.
           Ok \<lparr>rc_raw = raw,
               rc_info = \<lparr>si_id = new_id, si_host_id = h, si_host_session_id = hs, si_protocol_version = 3,
                 si_extensions = extension_list extension_map,
                 si_limits = \<lparr>lim_max_packet_bytes = limits_text sl_max_packet_len negotiated,
                   lim_max_read_bytes = limits_text sl_max_read_len negotiated,
                   lim_max_write_bytes = limits_text sl_max_write_len negotiated,
                   lim_max_open_handles = limits_text sl_max_open_handles negotiated,
                   lim_client_chunk_bytes = fmt_dec CLIENT_CHUNK_BYTES, lim_listing_entry_cap = of_nat LISTING_ENTRY_CAP\<rparr>,
                 si_root_path = root\<rparr>,
               rc_extension_map = extension_map,
               rc_read_chunk = ucast (chunk_len (Option.bind negotiated (\<lambda>v. then_some (sl_max_read_len v)))),
               rc_write_chunk = unat (chunk_len (Option.bind negotiated (\<lambda>v. then_some (sl_max_write_len v))))\<rparr>)))))"

definition rc_supports :: "raw_client \<Rightarrow> string \<Rightarrow> string \<Rightarrow> bool" where
  "rc_supports c name version = (fmlookup (rc_extension_map c) name = Some version)"

section \<open>Reading\<close>

definition attrs_identity :: "raw_client \<Rightarrow> file_attributes \<Rightarrow> entry_identity" where
  "attrs_identity c a =
     \<lparr>ei_kind = (case fa_permissions a of
          None \<Rightarrow> KUnknown
        | Some _ \<Rightarrow> (case rs_file_type (rc_raw c) a of
              TFile \<Rightarrow> KFile | TDir \<Rightarrow> KDirectory | TSymlink \<Rightarrow> KSymlink | TOther \<Rightarrow> KOther)),
      ei_size = fa_size a, ei_modified = fa_mtime a\<rparr>"

definition remote_entry_of :: "raw_client \<Rightarrow> string \<Rightarrow> string \<Rightarrow> file_attributes \<Rightarrow> remote_entry app_result" where
  "remote_entry_of c parent name a =
     and_then (validate_child_name name) (\<lambda>_.
     and_then (if parent = [] then Ok name else join_remote parent name) (\<lambda>path.
       Ok \<lparr>re_name = name, re_display_name = display_name name, re_path = path, re_kind = ei_kind (attrs_identity c a),
           re_size_bytes = map_option (\<lambda>n. fmt_dec (unat n)) (fa_size a),
           re_modified_at = map_option (rs_rfc3339 (rc_raw c)) (fa_mtime a),
           re_permissions = map_option (rs_permissions_text (rc_raw c)) (fa_permissions a),
           re_uid = fa_uid a, re_gid = fa_gid a\<rparr>))"

definition client_stat :: "raw_client \<Rightarrow> string \<Rightarrow> remote_entry client_io" where
  "client_stat c path =
     io_bind (io_lift (validate_remote_path path)) (\<lambda>_.
     io_bind (ask_ok rs_attrs c (QLstat path)) (\<lambda>a.
       io_lift (remote_entry_of c (case rsplit_once (CHR ''/'') path of None \<Rightarrow> [] | Some v \<Rightarrow> fst v)
         (last (split_char (CHR ''/'') (trim_end_matches (\<lambda>ch. ch = CHR ''/'') path))) a)))"

definition client_identity :: "raw_client \<Rightarrow> string \<Rightarrow> entry_identity option client_io" where
  "client_identity c path =
     io_bind (io_lift (validate_remote_path path)) (\<lambda>_ tr.
       (case rs_attrs (rc_raw c) (tr @ [QLstat path]) of
          Ok a \<Rightarrow> Ok (Some (attrs_identity c a))
        | Err (SStatus StNoSuchFile) \<Rightarrow> Ok None
        | Err e \<Rightarrow> Err (map_error e), tr @ [QLstat path]))"

definition client_editor_revision :: "raw_client \<Rightarrow> string \<Rightarrow> editor_revision client_io" where
  "client_editor_revision c path =
     io_bind (io_lift (validate_remote_path path)) (\<lambda>_.
     io_bind (ask_ok rs_attrs c (QLstat path)) (\<lambda>a. io_lift (
       if rs_file_type (rc_raw c) a \<noteq> TFile
       then Err (AppError_new FilePolicy ''Only regular non-symlink files can be edited.'')
       else case (fa_permissions a, fa_uid a, fa_gid a, fa_size a, fa_mtime a) of
          (Some raw_mode, Some uid, Some gid, Some _, Some _) \<Rightarrow>
            Ok \<lparr>rev_identity = attrs_identity c a, rev_raw_mode = raw_mode, rev_uid = uid, rev_gid = gid\<rparr>
        | _ \<Rightarrow> Err (AppError_new FilePolicy ''Required remote revision or ownership metadata is unavailable.''))))"

definition same_revision :: "raw_client \<Rightarrow> editor_revision \<Rightarrow> file_attributes \<Rightarrow> bool" where
  "same_revision c before a =
     (attrs_identity c a = rev_identity before \<and> fa_permissions a = Some (rev_raw_mode before)
      \<and> fa_uid a = Some (rev_uid before) \<and> fa_gid a = Some (rev_gid before))"

function editor_read_loop :: "raw_client \<Rightarrow> string \<Rightarrow> string \<Rightarrow> string client_io" where
  "editor_read_loop c h bytes tr =
     (if length bytes \<le> MAX_REMOTE_EDITOR_BYTES
      then
        let remaining = MAX_REMOTE_EDITOR_BYTES + 1 - length bytes;
            tr' = tr @ [QRead h (of_nat (length bytes)) (min (rc_read_chunk c) (of_nat remaining))]
        in (case rs_data (rc_raw c) tr' of
              Ok data \<Rightarrow>
                if data = [] then (Ok bytes, tr')
                else if length data > remaining
                then (Err (AppError_new FilePolicy ''The SFTP server exceeded the bounded editor read.''), tr')
                else editor_read_loop c h (bytes @ data) tr'
            | Err e \<Rightarrow> if e = SStatus StEof then (Ok bytes, tr') else (Err (map_error e), tr'))
      else (Ok bytes, tr))"
  by auto
termination
  by (relation "measure (\<lambda>(c, h, bytes, tr). MAX_REMOTE_EDITOR_BYTES + 1 - length bytes)")
    (auto simp: neq_Nil_conv)

declare editor_read_loop.simps [simp del]

definition editor_read :: "raw_client \<Rightarrow> string \<Rightarrow> editor_revision \<Rightarrow> string client_io" where
  "editor_read c h before =
     io_bind (ask_ok rs_attrs c (QFstat h)) (\<lambda>opened.
       if \<not> same_revision c before opened
       then io_lift (Err (AppError_new Conflict ''The remote text file changed while opening.''))
       else
         io_bind (editor_read_loop c h []) (\<lambda>bytes.
           if length bytes > MAX_REMOTE_EDITOR_BYTES
           then io_lift (Err (AppError_new FilePolicy ''The remote text file exceeds the 1 MiB editor limit.''))
           else
             io_bind (ask_ok rs_attrs c (QFstat h)) (\<lambda>finished.
               if \<not> same_revision c before finished
               then io_lift (Err (AppError_new Conflict ''The remote text file changed while reading.''))
               else io_lift (Ok bytes))))"

text \<open>The body runs, then the handle is closed in any case; the body's error comes first.\<close>

definition with_handle :: "raw_client \<Rightarrow> string \<Rightarrow> 'a client_io \<Rightarrow> 'a client_io" where
  "with_handle c h body tr =
     (case body tr of (r, tr1) \<Rightarrow>
        (case close_handle c h tr1 of (closed, tr2) \<Rightarrow> (and_then r (\<lambda>x. and_then closed (\<lambda>_. Ok x)), tr2)))"

definition client_read_editor_bytes :: "raw_client \<Rightarrow> string \<Rightarrow> string client_io" where
  "client_read_editor_bytes c path =
     io_bind (io_lift (validate_remote_path path)) (\<lambda>_.
     io_bind (client_editor_revision c path) (\<lambda>before.
       if (case ei_size (rev_identity before) of None \<Rightarrow> False | Some n \<Rightarrow> n > of_nat MAX_REMOTE_EDITOR_BYTES)
       then io_lift (Err (AppError_new FilePolicy ''The remote text file exceeds the 1 MiB editor limit.''))
       else io_bind (ask_ok rs_handle c (QOpenRead path)) (\<lambda>h. with_handle c h (editor_read c h before))))"

section \<open>Listing\<close>

record directory_listing =
  dl_host_id :: host_id
  dl_host_session_id :: host_session_id
  dl_sftp_session_id :: sftp_session_id
  dl_path :: string
  dl_entries :: "remote_entry list"
  dl_partial :: bool
  dl_entry_cap :: u32

definition listing_cancelled :: app_error where
  "listing_cancelled = AppError_new Cancelled ''Directory loading was cancelled.''"

text \<open>The entries of one batch, and whether the cap was reached.\<close>

fun list_batch :: "raw_client \<Rightarrow> string \<Rightarrow> (string \<times> file_attributes) list \<Rightarrow> remote_entry list \<Rightarrow> (remote_entry list \<times> bool) app_result" where
  "list_batch c path [] entries = Ok (entries, False)"
| "list_batch c path ((name, a) # files) entries =
     (if name = ''.'' \<or> name = ''..'' then list_batch c path files entries
      else case validate_child_name name of
        Err e \<Rightarrow> Err e
      | Ok _ \<Rightarrow>
          if length entries = LISTING_ENTRY_CAP then Ok (entries, True)
          else case remote_entry_of c path name a of
            Err e \<Rightarrow> Err e
          | Ok entry \<Rightarrow> list_batch c path files (entries @ [entry]))"

text \<open>
  The loop over the batches. It ends only when the server ends the listing, fails or fills the cap, so not
  returning is the value \<open>None\<close>.
\<close>

partial_function (option) list_loop ::
  "raw_client \<Rightarrow> string \<Rightarrow> string \<Rightarrow> remote_entry list \<Rightarrow> raw_request list
    \<Rightarrow> ((remote_entry list \<times> bool) app_result \<times> raw_request list) option" where
  [code]: "list_loop c path h entries tr =
     (if rs_cancelled (rc_raw c) tr then Some (Err listing_cancelled, tr)
      else if rs_cancelled (rc_raw c) (tr @ [QReaddir h]) then Some (Err listing_cancelled, tr @ [QReaddir h])
      else case rs_names (rc_raw c) (tr @ [QReaddir h]) of
        Ok files \<Rightarrow>
          (case list_batch c path files entries of
             Err e \<Rightarrow> Some (Err e, tr @ [QReaddir h])
           | Ok (entries', partial) \<Rightarrow>
               if partial then Some (Ok (entries', True), tr @ [QReaddir h])
               else list_loop c path h entries' (tr @ [QReaddir h]))
      | Err e \<Rightarrow>
          if e = SStatus StEof then Some (Ok (entries, False), tr @ [QReaddir h])
          else Some (Err (map_error e), tr @ [QReaddir h]))"

definition client_list ::
  "raw_client \<Rightarrow> string \<Rightarrow> raw_request list \<Rightarrow> (directory_listing app_result \<times> raw_request list) option" where
  "client_list c path tr =
     (case validate_remote_path path of
        Err e \<Rightarrow> Some (Err e, tr)
      | Ok _ \<Rightarrow>
        (case ask_ok rs_handle c (QOpendir path) tr of
           (Err e, tr1) \<Rightarrow> Some (Err e, tr1)
         | (Ok h, tr1) \<Rightarrow>
           (case list_loop c path h [] tr1 of
              None \<Rightarrow> None
            | Some (r, tr2) \<Rightarrow>
              (case close_handle c h tr2 of (closed, tr3) \<Rightarrow>
                 Some (and_then r (\<lambda>(entries, partial). and_then closed (\<lambda>_.
                   Ok \<lparr>dl_host_id = si_host_id (rc_info c), dl_host_session_id = si_host_session_id (rc_info c),
                       dl_sftp_session_id = si_id (rc_info c), dl_path = path, dl_entries = entries,
                       dl_partial = partial, dl_entry_cap = of_nat LISTING_ENTRY_CAP\<rparr>)), tr3)))))"

section \<open>Changing the server\<close>

definition PERMISSION_MASK :: u32 where "PERMISSION_MASK = 0xFFF"

definition client_preserve_editor_metadata :: "raw_client \<Rightarrow> string \<Rightarrow> editor_revision \<Rightarrow> unit client_io" where
  "client_preserve_editor_metadata c staging expected =
     io_bind (io_lift (validate_remote_path staging)) (\<lambda>_.
     io_bind (ask_ok rs_attrs c (QLstat staging)) (\<lambda>current.
       if rs_file_type (rc_raw c) current \<noteq> TFile
       then io_lift (Err (AppError_new FilePolicy ''The owned editor staging file is no longer regular.''))
       else
         io_bind (if fa_uid current \<noteq> Some (rev_uid expected) \<or> fa_gid current \<noteq> Some (rev_gid expected)
                  then send_ok c (QSetOwner staging (rev_uid expected) (rev_gid expected)) else io_lift (Ok ())) (\<lambda>_.
         io_bind (send_ok c (QSetMode staging (rev_raw_mode expected AND PERMISSION_MASK))) (\<lambda>_.
         io_bind (ask_ok rs_attrs c (QLstat staging)) (\<lambda>final_attrs. io_lift (
           if rs_file_type (rc_raw c) final_attrs \<noteq> TFile
             \<or> fa_uid final_attrs \<noteq> Some (rev_uid expected) \<or> fa_gid final_attrs \<noteq> Some (rev_gid expected)
             \<or> map_option (\<lambda>mode. mode AND PERMISSION_MASK) (fa_permissions final_attrs)
                 \<noteq> Some (rev_raw_mode expected AND PERMISSION_MASK)
           then Err (AppError_new FilePolicy ''Remote mode or ownership preservation could not be confirmed.'')
           else Ok ()))))))"

definition client_create_dir :: "raw_client \<Rightarrow> string \<Rightarrow> unit client_io" where
  "client_create_dir c path =
     io_bind (io_lift (validate_remote_path path)) (\<lambda>_.
     io_bind (client_identity c path) (\<lambda>found.
       if found \<noteq> None then io_lift (Err conflict)
       else send_mutation c ''The create-directory reply was lost; refresh before taking another action.'' (QMkdir path 0x41C0)))"

definition client_remove_file :: "raw_client \<Rightarrow> string \<Rightarrow> unit client_io" where
  "client_remove_file c path =
     io_bind (io_lift (validate_remote_path path)) (\<lambda>_.
     io_bind (client_stat c path) (\<lambda>entry.
       if \<not> (re_kind entry = KFile \<or> re_kind entry = KSymlink)
       then io_lift (Err (AppError_new FilePolicy ''Only regular files and symbolic links can be deleted as files.''))
       else send_mutation c ''The delete reply was lost; refresh before taking another action.'' (QRemove path)))"

definition client_remove_dir :: "raw_client \<Rightarrow> string \<Rightarrow> unit client_io" where
  "client_remove_dir c path =
     io_bind (io_lift (validate_remote_path path)) (\<lambda>_.
     io_bind (client_stat c path) (\<lambda>entry.
       if re_kind entry \<noteq> KDirectory
       then io_lift (Err (AppError_new FilePolicy ''Only a directory can be removed with this action.''))
       else send_mutation c ''The remove-directory reply was lost; refresh before taking another action.'' (QRmdir path)))"

text \<open>The second half of a rename and of a commit: the new name exists, the old one is removed.\<close>

definition remove_old_name :: "raw_client \<Rightarrow> string \<Rightarrow> string \<Rightarrow> unit client_io" where
  "remove_old_name c path message tr =
     (case send_mutation c message (QRemove path) tr of
        (Ok _, tr') \<Rightarrow> (Ok (), tr')
      | (Err _, tr') \<Rightarrow> (Err (AppError_new OutcomeUnknownCode message), tr'))"

definition client_rename_noclobber :: "raw_client \<Rightarrow> string \<Rightarrow> string \<Rightarrow> unit client_io" where
  "client_rename_noclobber c src dst =
     io_bind (io_lift (validate_remote_path src)) (\<lambda>_.
     io_bind (io_lift (validate_remote_path dst)) (\<lambda>_.
     io_bind (io_lift (parent_remote src)) (\<lambda>from_dir.
     io_bind (io_lift (parent_remote dst)) (\<lambda>to_dir.
       if from_dir \<noteq> to_dir
       then io_lift (Err (AppError_new FilePolicy ''Rename is limited to the same remote directory.''))
       else
         io_bind (client_identity c src) (\<lambda>found.
         io_bind (io_lift (ok_or found not_found)) (\<lambda>source_identity.
           if ei_kind source_identity \<noteq> KFile \<or> \<not> rc_supports c ''hardlink@openssh.com'' ''1''
           then io_lift (Err (AppError_new SftpUnavailable ''Safe no-clobber rename is available only for regular files when hardlink@openssh.com v1 is negotiated.''))
           else
             io_bind (client_identity c dst) (\<lambda>taken.
               if taken \<noteq> None then io_lift (Err conflict)
               else
                 io_bind (send_mutation c ''The rename reply was lost; refresh before taking another action.'' (QHardlink src dst)) (\<lambda>_.
                   remove_old_name c src ''The new name was created, but removal of the old name could not be confirmed.''))))))))"

definition client_commit_new :: "raw_client \<Rightarrow> string \<Rightarrow> string \<Rightarrow> unit client_io" where
  "client_commit_new c staging dst =
     (if \<not> rc_supports c ''hardlink@openssh.com'' ''1''
      then io_lift (Err (AppError_new SftpUnavailable ''Safe no-clobber finalization requires hardlink@openssh.com v1.''))
      else
        io_bind (client_identity c dst) (\<lambda>taken.
          if taken \<noteq> None then io_lift (Err conflict)
          else
            io_bind (send_mutation c ''The new-file commit reply was lost; refresh before taking another action.'' (QHardlink staging dst)) (\<lambda>_.
              remove_old_name c staging ''The final file exists, but staging cleanup could not be confirmed.'')))"

definition be_bytes :: "u32 \<Rightarrow> string" where
  "be_bytes n = map (\<lambda>k. char_of (unat (drop_bit k n) mod 256)) [24, 16, 8, 0]"

definition encode_string :: "string \<Rightarrow> string \<Rightarrow> string app_result" where
  "encode_string output value =
     (if length value < 2 ^ 32 then Ok (output @ be_bytes (of_nat (length value)) @ value)
      else Err (AppError_new FilePolicy ''The remote path is too long.''))"

definition client_commit_replace :: "raw_client \<Rightarrow> string \<Rightarrow> string \<Rightarrow> unit client_io" where
  "client_commit_replace c staging dst =
     (if \<not> rc_supports c ''posix-rename@openssh.com'' ''1''
      then io_lift (Err (AppError_new SftpUnavailable ''Safe Replace requires posix-rename@openssh.com v1.''))
      else
        io_bind (io_lift (encode_string [] staging)) (\<lambda>half.
        io_bind (io_lift (encode_string half dst)) (\<lambda>data tr.
          (case rs_extended (rc_raw c) (tr @ [QExtended ''posix-rename@openssh.com'' data]) of
             Ok (PacketStatus st) \<Rightarrow> if st = StOk then Ok () else Err (map_status st)
           | _ \<Rightarrow> Err (AppError_new OutcomeUnknownCode
               ''The Replace reply could not confirm the final destination; refresh before taking another action.''),
           tr @ [QExtended ''posix-rename@openssh.com'' data]))))"

datatype staging_cleanup = Removed | AlreadyAbsent

definition client_remove_owned_staging :: "raw_client \<Rightarrow> string \<Rightarrow> staging_cleanup client_io" where
  "client_remove_owned_staging c staging tr =
     (case rs_status (rc_raw c) (tr @ [QRemove staging]) of
        Ok st \<Rightarrow>
          if st = StOk then Ok Removed else if st = StNoSuchFile then Ok AlreadyAbsent else Err (map_status st)
      | Err (SStatus st) \<Rightarrow> if st = StNoSuchFile then Ok AlreadyAbsent else Err (map_status st)
      | Err _ \<Rightarrow> Err (AppError_new SftpProtocol ''Owned staging cleanup could not be confirmed; inspect the remote directory.''),
      tr @ [QRemove staging])"

definition client_close :: "raw_client \<Rightarrow> raw_request list \<Rightarrow> raw_request list" where
  "client_close c tr = tr @ [QCloseSession]"

section \<open>Streaming\<close>

definition checked_add :: "u64 \<Rightarrow> nat \<Rightarrow> u64 option" where
  "checked_add n k = (if unat n + k < 2 ^ 64 then Some (n + of_nat k) else None)"

definition offset_overflow :: app_error where
  "offset_overflow = AppError_new Transfer ''The transfer offset overflowed.''"

definition transfer_cancelled :: app_error where
  "transfer_cancelled = AppError_new Cancelled ''The transfer was cancelled.''"

datatype staged_upload =
    Uploaded u64
  | NotCreated app_error
  | OwnedFailure app_error
  | CreationOutcomeUnknown app_error

text \<open>
  The reader is the list of what each read gives: bytes, or nothing when the local read fails. An empty
  read is the end of the file, as is the end of the list.
\<close>

fun upload_loop :: "raw_client \<Rightarrow> string \<Rightarrow> string option list \<Rightarrow> u64 \<Rightarrow> u64 client_io" where
  "upload_loop c h reads confirmed tr =
     (if rs_cancelled (rc_raw c) tr then (Err transfer_cancelled, tr)
      else case reads of
        [] \<Rightarrow> (Ok confirmed, tr)
      | None # _ \<Rightarrow> (Err local_io, tr)
      | Some bytes # rest \<Rightarrow>
          if bytes = [] then (Ok confirmed, tr)
          else case send_ok c (QWrite h confirmed bytes) tr of
            (Err e, tr') \<Rightarrow> (Err e, tr')
          | (Ok _, tr') \<Rightarrow>
              (case checked_add confirmed (length bytes) of
                 None \<Rightarrow> (Err offset_overflow, tr')
               | Some n \<Rightarrow> upload_loop c h rest n (tr' @ [QProgress n])))"

declare upload_loop.simps [simp del]

definition client_upload_staged :: "raw_client \<Rightarrow> string option list \<Rightarrow> string \<Rightarrow> raw_request list \<Rightarrow> staged_upload \<times> raw_request list" where
  "client_upload_staged c reads staging tr =
     (case validate_remote_path staging of
        Err e \<Rightarrow> (NotCreated e, tr)
      | Ok _ \<Rightarrow>
        (case rs_handle (rc_raw c) (tr @ [QCreate staging 0x8180]) of
           Err (SStatus st) \<Rightarrow> (NotCreated (map_status st), tr @ [QCreate staging 0x8180])
         | Err _ \<Rightarrow> (CreationOutcomeUnknown (AppError_new OutcomeUnknownCode
             ''The staging-file create reply was lost; ownership cannot be established.''), tr @ [QCreate staging 0x8180])
         | Ok h \<Rightarrow>
           (case with_handle c h (io_bind (upload_loop c h reads 0) (\<lambda>confirmed.
                   if rc_supports c ''fsync@openssh.com'' ''1''
                   then io_bind (send_ok c (QFsync h)) (\<lambda>_. io_lift (Ok confirmed))
                   else io_lift (Ok confirmed))) (tr @ [QCreate staging 0x8180]) of
              (Ok confirmed, tr') \<Rightarrow> (Uploaded confirmed, tr')
            | (Err e, tr') \<Rightarrow> (OwnedFailure e, tr'))))"

text \<open>\<open>StagingOwnership::is_owned\<close> after the call: \<open>mark_owned\<close> runs when exclusive creation was confirmed.\<close>

fun staging_owned :: "staged_upload \<Rightarrow> bool" where
  "staging_owned (Uploaded _) = True"
| "staging_owned (OwnedFailure _) = True"
| "staging_owned _ = False"

text \<open>
  The writer of a download: whether a chunk is written after the bytes already there, and whether
  the final flush succeeds.
\<close>

record local_writer =
  lw_write :: "string \<Rightarrow> string \<Rightarrow> bool"
  lw_flush :: "string \<Rightarrow> bool"

function download_loop ::
  "raw_client \<Rightarrow> local_writer \<Rightarrow> string \<Rightarrow> string \<Rightarrow> u64 \<Rightarrow> raw_request list
    \<Rightarrow> (u64 app_result \<times> string) \<times> raw_request list" where
  "download_loop c w h out confirmed tr =
     (let tr' = tr @ [QRead h confirmed (rc_read_chunk c)]
      in if rs_cancelled (rc_raw c) tr then ((Err transfer_cancelled, out), tr)
      else if rs_cancelled (rc_raw c) tr' then ((Err transfer_cancelled, out), tr')
      else case rs_data (rc_raw c) tr' of
        Ok data \<Rightarrow>
          if data = [] then ((Ok confirmed, out), tr')
          else if \<not> lw_write w out data then ((Err local_io, out), tr')
          else (case checked_add confirmed (length data) of
                  None \<Rightarrow> ((Err offset_overflow, out @ data), tr')
                | Some n \<Rightarrow> download_loop c w h (out @ data) n (tr' @ [QProgress n]))
      | Err e \<Rightarrow> if e = SStatus StEof then ((Ok confirmed, out), tr') else ((Err (map_error e), out), tr'))"
  by auto
termination
proof (relation "measure (\<lambda>(c, w, h, out, confirmed, tr). 2 ^ 64 - unat confirmed)")
  fix c :: raw_client and w :: local_writer and h out data :: string and confirmed n :: u64 and tr x :: "raw_request list"
  assume "data \<noteq> []" "checked_add confirmed (length data) = Some n"
  then have n: "unat confirmed + length data < 2 ^ 64" "n = confirmed + of_nat (length data)" "0 < length data"
    by (auto simp: checked_add_def split: if_splits)
  then have "unat n = unat confirmed + length data"
    by (simp add: unat_word_ariths take_bit_eq_mod unat_of_nat)
  with n have "(2::nat) ^ 64 - unat n < 2 ^ 64 - unat confirmed" by linarith
  then show "((c, w, h, out @ data, n, x @ [QProgress n]), c, w, h, out, confirmed, tr)
      \<in> measure (\<lambda>(c, w, h, out, confirmed, tr). 2 ^ 64 - unat confirmed)"
    by simp
qed simp

declare download_loop.simps [simp del]

definition client_download ::
  "raw_client \<Rightarrow> local_writer \<Rightarrow> string \<Rightarrow> raw_request list \<Rightarrow> (u64 app_result \<times> string) \<times> raw_request list" where
  "client_download c w remote tr =
     (case io_bind (io_lift (validate_remote_path remote)) (\<lambda>_.
             io_bind (client_stat c remote) (\<lambda>entry.
               if re_kind entry \<noteq> KFile
               then io_lift (Err (AppError_new FilePolicy ''Only regular files can be downloaded.''))
               else ask_ok rs_handle c (QOpenRead remote))) tr of
        (Err e, tr1) \<Rightarrow> ((Err e, []), tr1)
      | (Ok h, tr1) \<Rightarrow>
        (case download_loop c w h [] 0 tr1 of ((r, out), tr2) \<Rightarrow>
           (case close_handle c h tr2 of (closed, tr3) \<Rightarrow>
              ((and_then r (\<lambda>n. and_then closed (\<lambda>_. if lw_flush w out then Ok n else Err local_io)), out), tr3))))"

end
