(* ===== verification/Sftp_Requests.thy ===== *)
theory Sftp_Requests
  imports Sftp_Client
begin

text \<open>
  What the operations of \<open>Sftp_Client\<close> send, against any server: uploads and downloads carry the bytes exactly,
  handles are closed, nothing is overwritten or removed before the server confirmed what must come first, and
  an unconfirmed mutation is reported as unknown.
\<close>

section \<open>What the operations send\<close>

lemma with_handle_OkE:
  assumes "with_handle c h body tr = (Ok x, tr')"
  obtains tr1 where "body tr = (Ok x, tr1)" "close_handle c h tr1 = (Ok (), tr')"
proof -
  obtain r tr1 where b: "body tr = (r, tr1)" by (cases "body tr")
  obtain closed tr2 where cl: "close_handle c h tr1 = (closed, tr2)" by (cases "close_handle c h tr1")
  have "and_then r (\<lambda>x. and_then closed (\<lambda>_. Ok x)) = Ok x" "tr2 = tr'"
    using assms b cl by (simp_all add: with_handle_def)
  then have "r = Ok x" "closed = Ok ()" by (auto simp: and_then_Ok_iff)
  with that b cl \<open>tr2 = tr'\<close> show thesis by blast
qed

lemma send_ok_Ok: "send_ok c q tr = (Ok u, tr') \<longleftrightarrow> tr' = tr @ [q] \<and> rs_status (rc_raw c) (tr @ [q]) = Ok StOk"
  by (auto simp: send_ok_def status_ok_def split: result.splits if_splits)

lemma ask_ok_Ok: "ask_ok reply c q tr = (Ok x, tr') \<longleftrightarrow> tr' = tr @ [q] \<and> reply (rc_raw c) (tr @ [q]) = Ok x"
  by (cases "reply (rc_raw c) (tr @ [q])") (auto simp: ask_ok_def)

lemma send_mutation_Ok:
  "send_mutation c m q tr = (Ok u, tr') \<longleftrightarrow> tr' = tr @ [q] \<and> rs_status (rc_raw c) (tr @ [q]) = Ok StOk"
  by (auto simp: send_mutation_def mutation_status_def split: result.splits if_splits sftp_error.splits)

lemma send_mutation_trace [simp]: "snd (send_mutation c m q tr) = tr @ [q]"
  by (simp add: send_mutation_def)

lemma send_ok_trace [simp]: "snd (send_ok c q tr) = tr @ [q]"
  by (simp add: send_ok_def)

lemma client_identity_Ok:
  assumes "client_identity c path tr = (Ok x, tr')"
  shows "tr' = tr @ [QLstat path]"
    and "x = None \<longleftrightarrow> rs_attrs (rc_raw c) (tr @ [QLstat path]) = Err (SStatus StNoSuchFile)"
    and "x = Some i \<Longrightarrow> \<exists>a. rs_attrs (rc_raw c) (tr @ [QLstat path]) = Ok a \<and> i = attrs_identity c a"
  using assms
  by (auto simp: client_identity_def io_bind_def io_lift_def split: result.splits sftp_error.splits status_code.splits)

lemma client_identity_trace: "snd (client_identity c path tr) \<in> {tr, tr @ [QLstat path]}"
  by (auto simp: client_identity_def io_bind_def io_lift_def split: result.splits)

lemma checked_add_Some:
  assumes "checked_add n k = Some r"
  shows "unat r = unat n + k"
proof -
  have r: "unat n + k < 2 ^ 64" "r = n + of_nat k" using assms by (auto simp: checked_add_def split: if_splits)
  then show ?thesis by (simp add: unat_word_ariths take_bit_eq_mod unat_of_nat)
qed

text \<open>The file that writes at the given offsets build from an empty one, when they leave no gap and overwrite nothing.\<close>

fun apply_writes :: "string \<Rightarrow> raw_request list \<Rightarrow> string option" where
  "apply_writes img [] = Some img"
| "apply_writes img (QWrite h off data # qs) =
     (if unat off = length img then apply_writes (img @ data) qs else None)"
| "apply_writes img (_ # qs) = apply_writes img qs"

fun contents :: "string option list \<Rightarrow> string" where
  "contents [] = []"
| "contents (None # _) = []"
| "contents (Some bytes # rest) = (if bytes = [] then [] else bytes @ contents rest)"

fun is_write :: "raw_request \<Rightarrow> bool" where
  "is_write (QWrite _ _ _) = True"
| "is_write _ = False"

definition writes_confirmed :: "raw_client \<Rightarrow> raw_request list \<Rightarrow> raw_request list \<Rightarrow> bool" where
  "writes_confirmed c tr qs \<longleftrightarrow>
     (\<forall>p q r. qs = p @ q # r \<longrightarrow> is_write q \<longrightarrow> rs_status (rc_raw c) (tr @ p @ [q]) = Ok StOk)"

lemma apply_writes_append:
  "apply_writes f (ps @ qs) = Option.bind (apply_writes f ps) (\<lambda>g. apply_writes g qs)"
  by (induction f ps rule: apply_writes.induct) auto

lemma writes_confirmed_Nil [simp]: "writes_confirmed c tr []"
  by (simp add: writes_confirmed_def)

lemma writes_confirmed_Cons:
  "writes_confirmed c tr (q # qs) \<longleftrightarrow>
     (is_write q \<longrightarrow> rs_status (rc_raw c) (tr @ [q]) = Ok StOk) \<and> writes_confirmed c (tr @ [q]) qs"
proof
  assume w: "writes_confirmed c tr (q # qs)"
  have "writes_confirmed c (tr @ [q]) qs"
    unfolding writes_confirmed_def
  proof (intro allI impI)
    fix p x r assume "qs = p @ x # r" "is_write x"
    with w [unfolded writes_confirmed_def, rule_format, of "q # p" x r]
    show "rs_status (rc_raw c) ((tr @ [q]) @ p @ [x]) = Ok StOk" by simp
  qed
  moreover have "is_write q \<longrightarrow> rs_status (rc_raw c) (tr @ [q]) = Ok StOk"
    using w [unfolded writes_confirmed_def, rule_format, of "[]" q qs] by simp
  ultimately show "(is_write q \<longrightarrow> rs_status (rc_raw c) (tr @ [q]) = Ok StOk) \<and> writes_confirmed c (tr @ [q]) qs" by blast
next
  assume w: "(is_write q \<longrightarrow> rs_status (rc_raw c) (tr @ [q]) = Ok StOk) \<and> writes_confirmed c (tr @ [q]) qs"
  show "writes_confirmed c tr (q # qs)"
    unfolding writes_confirmed_def
  proof (intro allI impI)
    fix p x r assume "q # qs = p @ x # r" "is_write x"
    then show "rs_status (rc_raw c) (tr @ p @ [x]) = Ok StOk"
      using w by (cases p) (auto simp: writes_confirmed_def)
  qed
qed

lemma upload_loop_Ok:
  assumes "upload_loop c h reads confirmed tr = (Ok n, tr')" "unat confirmed = length img"
  shows "\<exists>qs. tr' = tr @ qs \<and> apply_writes img qs = Some (img @ contents reads)
    \<and> unat n = length img + length (contents reads) \<and> writes_confirmed c tr qs"
  using assms
proof (induction c h reads confirmed tr arbitrary: img rule: upload_loop.induct)
  case (1 c h reads confirmed tr)
  show ?case
  proof (cases reads)
    case Nil
    with 1 show ?thesis by (subst (asm) (2) upload_loop.simps) (auto split: if_splits)
  next
    case (Cons x rest)
    show ?thesis
    proof (cases "\<exists>bytes. x = Some bytes \<and> bytes \<noteq> []")
      case False
      with 1 Cons show ?thesis by (subst (asm) (2) upload_loop.simps) (auto split: if_splits option.splits)
    next
      case True
      then obtain bytes where x: "x = Some bytes" "bytes \<noteq> []" by blast
      let ?q = "QWrite h confirmed bytes"
      from 1(2) Cons x obtain m where m: "\<not> rs_cancelled (rc_raw c) tr" "send_ok c ?q tr = (Ok (), tr @ [?q])"
        "checked_add confirmed (length bytes) = Some m"
        "upload_loop c h rest m (tr @ [?q, QProgress m]) = (Ok n, tr')"
        by (subst (asm) upload_loop.simps)
          (auto simp: send_ok_def split: if_splits prod.splits result.splits option.splits)
      have "unat m = length (img @ bytes)" using checked_add_Some [OF m(3)] 1(3) by simp
      from 1(1) [OF m(1) Cons x(1) x(2) m(2) [symmetric] refl m(3), of "img @ bytes"] m(4) this
      obtain qs where "tr' = (tr @ [?q, QProgress m]) @ qs" "apply_writes (img @ bytes) qs = Some ((img @ bytes) @ contents rest)"
        "unat n = length (img @ bytes) + length (contents rest)" "writes_confirmed c (tr @ [?q, QProgress m]) qs"
        by auto
      with m(2) 1(3) Cons x show ?thesis
        by (intro exI [of _ "?q # QProgress m # qs"]) (simp add: writes_confirmed_Cons send_ok_Ok)
    qed
  qed
qed

section \<open>What requests can change\<close>

text \<open>The inverse of \<open>encode_string\<close>, as the server reads it.\<close>

definition be_value :: "string \<Rightarrow> nat" where
  "be_value bs = foldl (\<lambda>n b. n * 256 + of_char b) 0 bs"

definition decode_string :: "string \<Rightarrow> (string \<times> string) option" where
  "decode_string s =
     (let n = be_value (take 4 s); rest = drop 4 s
      in if 4 \<le> length s \<and> n \<le> length rest then Some (take n rest, drop n rest) else None)"

lemma be_value_be_bytes: "be_value (be_bytes n) = unat n"
proof -
  have digit: "of_char (char_of (k mod 256) :: char) = k mod (256::nat)" for k by simp
  define m where "m = unat n"
  have shifted: "unat (drop_bit k n) = m div 2 ^ k" for k
    unfolding m_def unat_drop_bit_eq by (simp add: drop_bit_eq_div)
  have m: "m < 4294967296" using unsigned_less [of n] by (simp add: m_def)
  have "m div 16777216 < 256" using m by linarith
  then have top: "m div 16777216 mod 256 = m div 16777216" by simp
  have "be_value (be_bytes n) = ((m div 16777216 mod 256 * 256 + m div 65536 mod 256) * 256 + m div 256 mod 256) * 256 + m mod 256"
    unfolding be_value_def be_bytes_def list.map shifted digit foldl.simps by simp
  also have "\<dots> = m"
  proof -
    have "m div 256 div 256 div 256 = m div 16777216" "m div 256 div 256 = m div 65536" by (simp_all add: div_mult2_eq [symmetric])
    then have "m div 16777216 * 256 + m div 65536 mod 256 = m div 65536" "m div 65536 * 256 + m div 256 mod 256 = m div 256"
      by (metis div_mult_mod_eq)+
    then show ?thesis by (simp only: top div_mult_mod_eq)
  qed
  finally show ?thesis by (simp add: m_def)
qed

lemma be_bytes_length [simp]: "length (be_bytes n) = 4"
  by (simp add: be_bytes_def)

text \<open>The server reads back the string the client encoded, whatever follows it.\<close>

lemma decode_encode_string:
  assumes "encode_string out v = Ok s"
  shows "\<exists>e. s = out @ e \<and> decode_string (e @ rest) = Some (v, rest)"
proof -
  have v: "length v < 2 ^ 32" "s = out @ be_bytes (of_nat (length v)) @ v"
    using assms by (auto simp: encode_string_def split: if_splits)
  have "unat (of_nat (length v) :: u32) = length v" using v(1) by (simp add: unat_of_nat)
  with v show ?thesis
    by (intro exI [of _ "be_bytes (of_nat (length v)) @ v"])
      (simp add: decode_string_def Let_def be_value_be_bytes)
qed

text \<open>The paths whose name or contents a request can change on the server. Writes go to a handle.\<close>

definition renamed_paths :: "string \<Rightarrow> string set" where
  "renamed_paths data =
     (case decode_string data of
        None \<Rightarrow> {}
      | Some (a, rest) \<Rightarrow> (case decode_string rest of None \<Rightarrow> {a} | Some (b, _) \<Rightarrow> {a, b}))"

fun changes :: "raw_request \<Rightarrow> string set" where
  "changes (QCreate p _) = {p}"
| "changes (QSetOwner p _ _) = {p}"
| "changes (QSetMode p _) = {p}"
| "changes (QMkdir p _) = {p}"
| "changes (QRemove p) = {p}"
| "changes (QRmdir p) = {p}"
| "changes (QHardlink _ p) = {p}"
| "changes (QExtended _ data) = renamed_paths data"
| "changes _ = {}"

lemma renamed_paths_encoded:
  assumes "encode_string [] a = Ok half" "encode_string half b = Ok data"
  shows "renamed_paths data = {a, b}"
proof -
  obtain e where e: "data = half @ e" "decode_string (e @ []) = Some (b, [])"
    using decode_encode_string [OF assms(2), of "[]"] by blast
  obtain d where "half = [] @ d" "decode_string (d @ e) = Some (a, e)"
    using decode_encode_string [OF assms(1), of e] by blast
  with e show ?thesis by (simp add: renamed_paths_def)
qed

lemma sends_ask_ok [sends_intros]: "P q \<Longrightarrow> sends P (ask_ok reply c q)"
  by (simp add: sends_def ask_ok_def)

lemma sends_send_ok [sends_intros]: "P q \<Longrightarrow> sends P (send_ok c q)"
  by (simp add: sends_def)

lemma sends_send_mutation [sends_intros]: "P q \<Longrightarrow> sends P (send_mutation c m q)"
  by (simp add: sends_def)

lemma sends_with_handle [sends_intros]:
  assumes "sends P body" "P (QClose h)"
  shows "sends P (with_handle c h body)"
  unfolding sends_def
proof
  fix tr
  obtain r tr1 where b: "body tr = (r, tr1)" by (cases "body tr")
  from sendsD [OF assms(1) b] obtain qs where "tr1 = tr @ qs" "list_all P qs" by blast
  with b assms(2) show "\<exists>qs. snd (with_handle c h body tr) = tr @ qs \<and> list_all P qs"
    by (intro exI [of _ "qs @ [QClose h]"]) (simp add: with_handle_def close_handle_def send_ok_def)
qed

lemma sends_identity [sends_intros]: "P (QLstat path) \<Longrightarrow> sends P (client_identity c path)"
  unfolding client_identity_def by (intro sends_intros) (simp add: sends_def)

lemma sends_stat [sends_intros]: "P (QLstat path) \<Longrightarrow> sends P (client_stat c path)"
  unfolding client_stat_def by (intro sends_intros) simp_all

lemma sends_editor_revision [sends_intros]: "P (QLstat path) \<Longrightarrow> sends P (client_editor_revision c path)"
  unfolding client_editor_revision_def by (intro sends_intros) simp_all

lemma editor_read_loop_sends:
  assumes "\<And>off n. P (QRead h off n)"
  shows "sends P (editor_read_loop c h bytes)"
proof -
  have "\<exists>qs. snd (editor_read_loop c h bytes tr) = tr @ qs \<and> list_all P qs" for tr
    using assms
  proof (induction c h bytes tr rule: editor_read_loop.induct)
    case (1 c h bytes tr)
    let ?remaining = "MAX_REMOTE_EDITOR_BYTES + 1 - length bytes"
    let ?q = "QRead h (of_nat (length bytes)) (min (rc_read_chunk c) (of_nat ?remaining))"
    show ?case
    proof (cases "\<exists>data. length bytes \<le> MAX_REMOTE_EDITOR_BYTES \<and> rs_data (rc_raw c) (tr @ [?q]) = Ok data
        \<and> data \<noteq> [] \<and> length data \<le> ?remaining")
      case True
      then obtain data where d: "length bytes \<le> MAX_REMOTE_EDITOR_BYTES" "rs_data (rc_raw c) (tr @ [?q]) = Ok data"
        "data \<noteq> []" "\<not> ?remaining < length data" by auto
      have eq: "editor_read_loop c h bytes tr = editor_read_loop c h (bytes @ data) (tr @ [?q])"
        using d by (subst editor_read_loop.simps) simp
      from 1(1) [OF d(1) refl refl d(2,3,4) 1(2)] obtain qs where
        "snd (editor_read_loop c h (bytes @ data) (tr @ [?q])) = (tr @ [?q]) @ qs" "list_all P qs" by blast
      then show ?thesis using 1(2) by (intro exI [of _ "?q # qs"]) (simp add: eq)
    next
      case False
      then have "snd (editor_read_loop c h bytes tr) = tr \<or> snd (editor_read_loop c h bytes tr) = tr @ [?q]"
        by (subst (1 2) editor_read_loop.simps) (auto simp: Let_def split: result.split)
      then show ?thesis using 1(2) by auto
    qed
  qed
  then show ?thesis by (simp add: sends_def)
qed

lemma sends_editor_read [sends_intros]:
  "(\<And>off n. P (QRead h off n)) \<Longrightarrow> P (QFstat h) \<Longrightarrow> sends P (editor_read c h before)"
  unfolding editor_read_def by (intro sends_intros editor_read_loop_sends) simp_all

lemma sends_read_editor_bytes [sends_intros]:
  assumes "P (QLstat path)" "P (QOpenRead path)" "\<And>h. P (QFstat h) \<and> P (QClose h)" "\<And>h off n. P (QRead h off n)"
  shows "sends P (client_read_editor_bytes c path)"
  unfolding client_read_editor_bytes_def by (intro sends_intros) (use assms in auto)

lemma sends_preserve [sends_intros]:
  assumes "P (QLstat staging)" "\<And>u g. P (QSetOwner staging u g)" "\<And>m. P (QSetMode staging m)"
  shows "sends P (client_preserve_editor_metadata c staging expected)"
  unfolding client_preserve_editor_metadata_def by (intro sends_intros) (use assms in auto)

lemma sends_remove_old_name [sends_intros]: "P (QRemove path) \<Longrightarrow> sends P (remove_old_name c path m)"
  by (simp add: sends_def remove_old_name_def send_mutation_def split: result.split prod.split)

lemma sends_commit_new [sends_intros]:
  "P (QLstat dst) \<Longrightarrow> P (QHardlink staging dst) \<Longrightarrow> P (QRemove staging) \<Longrightarrow> sends P (client_commit_new c staging dst)"
  unfolding client_commit_new_def by (intro sends_intros) simp_all

lemma sends_remove_owned_staging [sends_intros]: "P (QRemove staging) \<Longrightarrow> sends P (client_remove_owned_staging c staging)"
  by (simp add: sends_def client_remove_owned_staging_def)

lemma sends_commit_replace [sends_intros]:
  assumes "\<And>half data. encode_string [] staging = Ok half \<Longrightarrow> encode_string half dst = Ok data \<Longrightarrow>
    P (QExtended ''posix-rename@openssh.com'' data)"
  shows "sends P (client_commit_replace c staging dst)"
proof (cases "encode_string [] staging")
  case (Ok half)
  show ?thesis
  proof (cases "encode_string half dst")
    case (Ok data)
    with \<open>encode_string [] staging = Ok half\<close> assms show ?thesis by (simp add: client_commit_replace_def sends_def)
  qed (use Ok in \<open>simp add: client_commit_replace_def sends_def\<close>)
qed (simp add: client_commit_replace_def sends_def)

lemma sends_upload_loop [sends_intros]:
  assumes "\<And>off data. P (QWrite h off data)" "\<And>n. P (QProgress n)"
  shows "sends P (upload_loop c h reads confirmed)"
proof -
  have "\<exists>qs. snd (upload_loop c h reads confirmed tr) = tr @ qs \<and> list_all P qs" for tr
    using assms
  proof (induction c h reads confirmed tr rule: upload_loop.induct)
    case (1 c h reads confirmed tr)
    show ?case
    proof (cases "rs_cancelled (rc_raw c) tr \<or> reads = [] \<or> hd reads = None \<or> hd reads = Some []")
      case True
      then have "snd (upload_loop c h reads confirmed tr) = tr"
        by (subst upload_loop.simps) (auto split: list.splits option.splits)
      then show ?thesis by simp
    next
      case False
      then obtain bytes rest where r: "reads = Some bytes # rest" "bytes \<noteq> []" "\<not> rs_cancelled (rc_raw c) tr"
        by (cases reads) auto
      let ?q = "QWrite h confirmed bytes"
      obtain x where x: "send_ok c ?q tr = (x, tr @ [?q])" by (simp add: send_ok_def)
      show ?thesis
      proof (cases "is_ok x \<and> checked_add confirmed (length bytes) \<noteq> None")
        case True
        then obtain u m where um: "x = Ok u" "checked_add confirmed (length bytes) = Some m" by (auto simp: is_ok_iff)
        from 1(1) [OF r(3,1) refl r(2) x [symmetric] um 1(2,3)] obtain qs where
          "snd (upload_loop c h rest m ((tr @ [?q]) @ [QProgress m])) = ((tr @ [?q]) @ [QProgress m]) @ qs" "list_all P qs"
          by blast
        with r x um 1(2,3) show ?thesis by (subst upload_loop.simps) simp
      next
        case False
        with r x have "snd (upload_loop c h reads confirmed tr) = tr @ [?q]"
          by (subst upload_loop.simps) (auto simp: is_ok_iff split: result.split)
        with 1(2) show ?thesis by simp
      qed
    qed
  qed
  then show ?thesis by (simp add: sends_def)
qed

definition upload_body :: "raw_client \<Rightarrow> string option list \<Rightarrow> string \<Rightarrow> u64 client_io" where
  "upload_body c reads h =
     io_bind (upload_loop c h reads 0) (\<lambda>confirmed.
       if rc_supports c ''fsync@openssh.com'' ''1''
       then io_bind (send_ok c (QFsync h)) (\<lambda>_. io_lift (Ok confirmed)) else io_lift (Ok confirmed))"

lemma upload_staged_cases:
  obtains (refused) r where "client_upload_staged c reads staging tr = (r, tr)" "\<not> staging_owned r"
  | (not_created) r where "client_upload_staged c reads staging tr = (r, tr @ [QCreate staging 0x8180])" "\<not> staging_owned r"
  | (created) h where "rs_handle (rc_raw c) (tr @ [QCreate staging 0x8180]) = Ok h"
      "client_upload_staged c reads staging tr =
         (case with_handle c h (upload_body c reads h) (tr @ [QCreate staging 0x8180]) of
            (Ok n, tr') \<Rightarrow> (Uploaded n, tr') | (Err e, tr') \<Rightarrow> (OwnedFailure e, tr'))"
proof (cases "validate_remote_path staging")
  case (Err e)
  have "client_upload_staged c reads staging tr = (NotCreated e, tr)"
    unfolding client_upload_staged_def Err by simp
  then show thesis using refused by force
next
  case (Ok u)
  show thesis
  proof (cases "rs_handle (rc_raw c) (tr @ [QCreate staging 0x8180])")
    case (Ok h)
    have "client_upload_staged c reads staging tr =
         (case with_handle c h (upload_body c reads h) (tr @ [QCreate staging 0x8180]) of
            (Ok n, tr') \<Rightarrow> (Uploaded n, tr') | (Err e, tr') \<Rightarrow> (OwnedFailure e, tr'))"
      unfolding client_upload_staged_def \<open>validate_remote_path staging = Ok u\<close> Ok upload_body_def by simp
    with Ok created show thesis by blast
  next
    case (Err e)
    have "\<exists>r. client_upload_staged c reads staging tr = (r, tr @ [QCreate staging 0x8180]) \<and> \<not> staging_owned r"
      unfolding client_upload_staged_def \<open>validate_remote_path staging = Ok u\<close> Err by (cases e) simp_all
    with not_created show thesis by blast
  qed
qed

lemma sends_upload_staged [sends_intros]:
  assumes "P (QCreate staging 0x8180)" "\<And>h off data. P (QWrite h off data)" "\<And>n. P (QProgress n)" "\<And>h. P (QFsync h) \<and> P (QClose h)"
  shows "sends P (client_upload_staged c reads staging)"
  unfolding sends_def
proof
  fix tr
  let ?q = "QCreate staging 0x8180"
  show "\<exists>qs. snd (client_upload_staged c reads staging tr) = tr @ qs \<and> list_all P qs"
  proof (cases rule: upload_staged_cases [of c reads staging tr])
    case (created h)
    have "sends P (with_handle c h (upload_body c reads h))"
      unfolding upload_body_def by (intro sends_intros) (use assms in auto)
    then obtain qs where "snd (with_handle c h (upload_body c reads h) (tr @ [?q])) = (tr @ [?q]) @ qs" "list_all P qs"
      unfolding sends_def by blast
    with created(2) assms(1) show ?thesis
      by (intro exI [of _ "?q # qs"]) (auto split: prod.splits result.splits)
  qed (use assms(1) in auto)
qed

text \<open>The data that the server returned to the reads among the requests \<open>qs\<close>, sent after \<open>tr\<close>.\<close>

fun gathered :: "raw_client \<Rightarrow> raw_request list \<Rightarrow> raw_request list \<Rightarrow> string" where
  "gathered c tr [] = []"
| "gathered c tr (QRead h off n # qs) =
     (case rs_data (rc_raw c) (tr @ [QRead h off n]) of Ok data \<Rightarrow> data | Err _ \<Rightarrow> []) @ gathered c (tr @ [QRead h off n]) qs"
| "gathered c tr (q # qs) = gathered c (tr @ [q]) qs"

lemma gathered_append: "gathered c tr (ps @ qs) = gathered c tr ps @ gathered c (tr @ ps) qs"
proof (induction ps arbitrary: tr)
  case (Cons p ps)
  then show ?case by (cases p) simp_all
qed simp

lemma editor_read_loop_gathers:
  assumes "editor_read_loop c h bytes tr = (Ok result, tr')" "length bytes \<le> MAX_REMOTE_EDITOR_BYTES + 1"
  shows "\<exists>qs. tr' = tr @ qs \<and> result = bytes @ gathered c tr qs \<and> length result \<le> MAX_REMOTE_EDITOR_BYTES + 1"
  using assms
proof (induction c h bytes tr rule: editor_read_loop.induct)
  case (1 c h bytes tr)
  let ?remaining = "MAX_REMOTE_EDITOR_BYTES + 1 - length bytes"
  let ?n = "min (rc_read_chunk c) (of_nat ?remaining)"
  define q where "q = QRead h (of_nat (length bytes)) ?n"
  show ?case
  proof (cases "\<exists>data. length bytes \<le> MAX_REMOTE_EDITOR_BYTES \<and> rs_data (rc_raw c) (tr @ [q]) = Ok data
      \<and> data \<noteq> [] \<and> length data \<le> ?remaining")
    case True
    then obtain data where d: "length bytes \<le> MAX_REMOTE_EDITOR_BYTES" "rs_data (rc_raw c) (tr @ [q]) = Ok data"
      "data \<noteq> []" "\<not> ?remaining < length data" by auto
    have eq: "editor_read_loop c h bytes tr = editor_read_loop c h (bytes @ data) (tr @ [q])"
      using d unfolding q_def by (subst editor_read_loop.simps) simp
    have g: "gathered c tr (q # qs) = data @ gathered c (tr @ [q]) qs" for qs
      using d(2) unfolding q_def by (simp only: gathered.simps result.case)
    have "length (bytes @ data) \<le> MAX_REMOTE_EDITOR_BYTES + 1" using d by simp
    from 1(1) [OF d(1) refl refl, folded q_def, OF d(2,3,4) 1(2) [unfolded eq] this] obtain qs where
      "tr' = (tr @ [q]) @ qs" "result = (bytes @ data) @ gathered c (tr @ [q]) qs" "length result \<le> MAX_REMOTE_EDITOR_BYTES + 1"
      by blast
    then show ?thesis by (intro exI [of _ "q # qs"]) (simp add: g)
  next
    case False
    have "result = bytes \<and> (tr' = tr \<or> tr' = tr @ [q] \<and> gathered c tr [q] = [])"
      using 1(2) False unfolding q_def
      by (subst (asm) editor_read_loop.simps) (auto simp: Let_def simp del: of_nat_diff split: result.splits if_splits)
    with 1(3) show ?thesis by (auto intro: exI [of _ "[]"] exI [of _ "[q]"])
  qed
qed

lemma download_loop_gathers:
  assumes "download_loop c w h out confirmed tr = ((Ok n, out'), tr')" "unat confirmed = length out"
  shows "\<exists>qs. tr' = tr @ qs \<and> out' = out @ gathered c tr qs \<and> unat n = length out'"
  using assms
proof (induction c w h out confirmed tr rule: download_loop.induct)
  case (1 c w h out confirmed tr)
  let ?q = "QRead h confirmed (rc_read_chunk c)"
  show ?case
  proof (cases "\<exists>data m. \<not> rs_cancelled (rc_raw c) tr \<and> \<not> rs_cancelled (rc_raw c) (tr @ [?q]) \<and> rs_data (rc_raw c) (tr @ [?q]) = Ok data
      \<and> data \<noteq> [] \<and> lw_write w out data \<and> checked_add confirmed (length data) = Some m")
    case True
    then obtain data m where d: "\<not> rs_cancelled (rc_raw c) tr" "\<not> rs_cancelled (rc_raw c) (tr @ [?q])"
      "rs_data (rc_raw c) (tr @ [?q]) = Ok data" "data \<noteq> []" "\<not> \<not> lw_write w out data" "checked_add confirmed (length data) = Some m"
      by auto
    have eq: "download_loop c w h out confirmed tr = download_loop c w h (out @ data) m ((tr @ [?q]) @ [QProgress m])"
      using d by (subst download_loop.simps) simp
    have "unat m = length (out @ data)" using checked_add_Some [OF d(6)] 1(3) by simp
    from 1(1) [OF refl d(1,2,3,4,5,6) 1(2) [unfolded eq] this] obtain qs where
      "tr' = ((tr @ [?q]) @ [QProgress m]) @ qs" "out' = (out @ data) @ gathered c ((tr @ [?q]) @ [QProgress m]) qs"
      "unat n = length out'" by blast
    with d(3) show ?thesis by (intro exI [of _ "?q # QProgress m # qs"]) simp
  next
    case False
    have "n = confirmed \<and> out' = out \<and> tr' = tr @ [?q] \<and> gathered c tr [?q] = []"
      using 1(2) False by (subst (asm) download_loop.simps) (auto simp: Let_def split: result.splits if_splits option.splits)
    with 1(3) show ?thesis by (auto intro: exI [of _ "[?q]"])
  qed
qed

lemma download_loop_sends:
  assumes "\<And>off n. P (QRead h off n)" "\<And>n. P (QProgress n)"
  shows "sends P (download_loop c w h out confirmed)"
proof -
  have "\<exists>qs. snd (download_loop c w h out confirmed tr) = tr @ qs \<and> list_all P qs" for tr
    using assms
  proof (induction c w h out confirmed tr rule: download_loop.induct)
    case (1 c w h out confirmed tr)
    let ?q = "QRead h confirmed (rc_read_chunk c)"
    show ?case
    proof (cases "\<exists>data m. \<not> rs_cancelled (rc_raw c) tr \<and> \<not> rs_cancelled (rc_raw c) (tr @ [?q])
        \<and> rs_data (rc_raw c) (tr @ [?q]) = Ok data \<and> data \<noteq> [] \<and> lw_write w out data \<and> checked_add confirmed (length data) = Some m")
      case True
      then obtain data m where d: "\<not> rs_cancelled (rc_raw c) tr" "\<not> rs_cancelled (rc_raw c) (tr @ [?q])"
        "rs_data (rc_raw c) (tr @ [?q]) = Ok data" "data \<noteq> []" "\<not> \<not> lw_write w out data" "checked_add confirmed (length data) = Some m"
        by auto
      have eq: "download_loop c w h out confirmed tr = download_loop c w h (out @ data) m ((tr @ [?q]) @ [QProgress m])"
        using d by (subst download_loop.simps) simp
      from 1(1) [OF refl d 1(2,3)] obtain qs where
        "snd (download_loop c w h (out @ data) m ((tr @ [?q]) @ [QProgress m])) = ((tr @ [?q]) @ [QProgress m]) @ qs" "list_all P qs"
        by blast
      with 1(2,3) show ?thesis by (intro exI [of _ "?q # QProgress m # qs"]) (simp add: eq)
    next
      case False
      then have "snd (download_loop c w h out confirmed tr) \<in> {tr, tr @ [?q]}"
        by (subst download_loop.simps) (auto simp: Let_def split: result.split option.split)
      with 1(2) show ?thesis by auto
    qed
  qed
  then show ?thesis by (simp add: sends_def)
qed

lemma sends_download [sends_intros]:
  assumes "P (QLstat remote)" "P (QOpenRead remote)" "\<And>h off n. P (QRead h off n)" "\<And>n. P (QProgress n)" "\<And>h. P (QClose h)"
  shows "sends P (client_download c w remote)"
  unfolding sends_def
proof
  fix tr
  let ?open = "io_bind (io_lift (validate_remote_path remote)) (\<lambda>_. io_bind (client_stat c remote) (\<lambda>entry.
      if re_kind entry \<noteq> KFile then io_lift (Err (AppError_new FilePolicy ''Only regular files can be downloaded.''))
      else ask_ok rs_handle c (QOpenRead remote)))"
  have "sends P ?open" by (intro sends_intros) (use assms in auto)
  obtain x tr1 where op: "?open tr = (x, tr1)" by (cases "?open tr")
  from sendsD [OF \<open>sends P ?open\<close> op] obtain qs where qs: "tr1 = tr @ qs" "list_all P qs" by blast
  show "\<exists>qs. snd (client_download c w remote tr) = tr @ qs \<and> list_all P qs"
  proof (cases x)
    case (Ok h)
    obtain r tr2 where loop: "download_loop c w h [] 0 tr1 = (r, tr2)" by (cases "download_loop c w h [] 0 tr1")
    from sendsD [OF download_loop_sends loop] assms obtain qs' where "tr2 = tr1 @ qs'" "list_all P qs'" by blast
    with Ok op loop qs assms(5) show ?thesis
      by (intro exI [of _ "qs @ qs' @ [QClose h]"])
        (simp add: client_download_def close_handle_def send_ok_def split: prod.split)
  next
    case (Err e)
    with op qs show ?thesis by (simp add: client_download_def)
  qed
qed

section \<open>What callers can rely on\<close>

definition ex_raw :: raw_session where
  "ex_raw = \<lparr>rs_attrs = (\<lambda>_. Err (SStatus StNoSuchFile)), rs_handle = (\<lambda>_. Ok ''h''),
     rs_data = (\<lambda>tr. if QProgress 5 \<in> set tr then Ok [] else Ok ''bytes''), rs_names = (\<lambda>_. Ok []),
     rs_status = (\<lambda>_. Ok StOk), rs_extended = (\<lambda>_. Ok (PacketStatus StOk)), rs_cancelled = (\<lambda>_. False),
     rs_file_type = (\<lambda>_. TFile), rs_permissions_text = (\<lambda>_. ''rw''), rs_rfc3339 = (\<lambda>_. ''now'')\<rparr>"

definition ex_raw_client :: raw_client where
  "ex_raw_client = \<lparr>rc_raw = ex_raw,
     rc_info = \<lparr>si_id = SftpSessionId 3, si_host_id = HostId 1, si_host_session_id = HostSessionId 2, si_protocol_version = 3,
       si_extensions = [], si_limits = \<lparr>lim_max_packet_bytes = None, lim_max_read_bytes = None, lim_max_write_bytes = None,
         lim_max_open_handles = None, lim_client_chunk_bytes = ''65536'', lim_listing_entry_cap = 5000\<rparr>, si_root_path = ''/''\<rparr>,
     rc_extension_map = fmap_of_list [(''hardlink@openssh.com'', ''1''), (''posix-rename@openssh.com'', ''1'')],
     rc_read_chunk = 65536, rc_write_chunk = 65536\<rparr>"

lemma upload_staged_Ok:
  assumes "client_upload_staged c reads staging tr = (Uploaded n, tr')"
  shows "\<exists>h qs. tr' = tr @ QCreate staging 0x8180 # qs @ [QClose h] \<and> rs_handle (rc_raw c) (tr @ [QCreate staging 0x8180]) = Ok h
    \<and> apply_writes [] qs = Some (contents reads) \<and> unat n = length (contents reads)
    \<and> writes_confirmed c (tr @ [QCreate staging 0x8180]) qs \<and> rs_status (rc_raw c) tr' = Ok StOk"
proof (cases rule: upload_staged_cases [of c reads staging tr])
  case (created h)
  let ?tr = "tr @ [QCreate staging 0x8180]"
  obtain tr1 where body: "upload_body c reads h ?tr = (Ok n, tr1)" "close_handle c h tr1 = (Ok (), tr')"
    using created(2) assms by (auto split: prod.splits result.splits elim!: with_handle_OkE)
  obtain tr2 m where up: "upload_loop c h reads 0 ?tr = (Ok m, tr2)"
    "m = n \<and> (tr1 = tr2 \<or> tr1 = tr2 @ [QFsync h])"
    using body(1) unfolding upload_body_def by (auto elim!: io_bind_OkE simp: send_ok_Ok split: if_splits)
  from upload_loop_Ok [OF up(1), of "[]"] obtain qs where
    qs: "tr2 = ?tr @ qs" "apply_writes [] qs = Some (contents reads)" "unat m = length (contents reads)" "writes_confirmed c ?tr qs"
    by auto
  have fsync: "apply_writes [] (qs @ [QFsync h]) = Some (contents reads)" using qs(2) by (simp add: apply_writes_append)
  have conf: "writes_confirmed c ?tr (qs @ [QFsync h])"
    using qs(4) by (auto simp: writes_confirmed_def append_eq_append_conv2 append_eq_Cons_conv Cons_eq_append_conv)
  have close: "tr' = tr1 @ [QClose h]" "rs_status (rc_raw c) tr' = Ok StOk"
    using body(2) by (auto simp: close_handle_def send_ok_Ok)
  show ?thesis
  proof (cases "tr1 = tr2")
    case True
    with qs up(2) close created(1) show ?thesis by (intro exI [of _ h] exI [of _ qs]) simp
  next
    case False
    with qs up(2) close created(1) fsync conf show ?thesis by (intro exI [of _ h] exI [of _ "qs @ [QFsync h]"]) simp
  qed
qed (use assms in auto)

text \<open>
  A staged upload that succeeds has put the whole source on the server. The staging file was created exclusively, the
  confirmed writes build exactly the bytes that were read, without gap or overlap, their number is the result, and
  the handle was closed with the server's confirmation.
\<close>

theorem upload_staged_exact:
  assumes "client_upload_staged c reads staging tr = (Uploaded n, tr')"
  shows "\<exists>h qs. tr' = tr @ QCreate staging 0x8180 # qs @ [QClose h] \<and> rs_handle (rc_raw c) (tr @ [QCreate staging 0x8180]) = Ok h
    \<and> apply_writes [] qs = Some (contents reads) \<and> unat n = length (contents reads)
    \<and> writes_confirmed c (tr @ [QCreate staging 0x8180]) qs \<and> rs_status (rc_raw c) tr' = Ok StOk"
  using assms by (rule upload_staged_Ok)

lemma ex_upload:
  "\<exists>tr'. client_upload_staged ex_raw_client [Some ''hello''] ''/srv/.part'' [] = (Uploaded 5, tr')"
  by (simp add: client_upload_staged_def ex_raw_client_def ex_raw_def with_handle_def upload_loop.simps send_ok_def status_ok_def
      checked_add_def rc_supports_def close_handle_def validate_remote_path_def MAX_REMOTE_PATH_BYTES_def)

theorem upload_staged_exact_witness:
  "unat (5 :: u64) = length (contents [Some ''hello''])"
proof -
  obtain tr' where "client_upload_staged ex_raw_client [Some ''hello''] ''/srv/.part'' [] = (Uploaded 5, tr')"
    using ex_upload by blast
  from upload_staged_exact [OF this] show ?thesis by blast
qed

lemma commit_new_result:
  assumes "client_commit_new c staging dst tr = (r, tr')"
  shows "\<exists>qs. tr' = tr @ qs \<and> qs \<in> {[], [QLstat dst], [QLstat dst, QHardlink staging dst], [QLstat dst, QHardlink staging dst, QRemove staging]}
    \<and> (QHardlink staging dst \<in> set qs \<longrightarrow> rs_attrs (rc_raw c) (tr @ [QLstat dst]) = Err (SStatus StNoSuchFile))
    \<and> (QRemove staging \<in> set qs \<longrightarrow> rs_status (rc_raw c) (tr @ [QLstat dst, QHardlink staging dst]) = Ok StOk)
    \<and> (r = Ok () \<longleftrightarrow> QRemove staging \<in> set qs \<and> rs_status (rc_raw c) tr' = Ok StOk)
    \<and> (QRemove staging \<in> set qs \<longrightarrow> r = Ok () \<or> (\<exists>m. r = Err (AppError_new OutcomeUnknownCode m)))"
proof (cases "rc_supports c ''hardlink@openssh.com'' ''1'' \<and> client_identity c dst tr = (Ok None, tr @ [QLstat dst])")
  case True
  then have absent: "rs_attrs (rc_raw c) (tr @ [QLstat dst]) = Err (SStatus StNoSuchFile)"
    using client_identity_Ok(2) by blast
  show ?thesis
  proof (cases "rs_status (rc_raw c) (tr @ [QLstat dst, QHardlink staging dst]) = Ok StOk")
    case linked: True
    show ?thesis
      using assms True absent linked
      by (intro exI [of _ "[QLstat dst, QHardlink staging dst, QRemove staging]"])
        (auto simp: client_commit_new_def send_mutation_def mutation_status_def remove_old_name_def io_bind_def
          split: result.splits if_splits sftp_error.splits)
  next
    case False
    then have "r \<noteq> Ok () \<and> tr' = tr @ [QLstat dst, QHardlink staging dst]"
      using assms True
      by (auto simp: client_commit_new_def send_mutation_def mutation_status_def io_bind_def
          split: result.splits if_splits sftp_error.splits)
    with absent show ?thesis by (intro exI [of _ "[QLstat dst, QHardlink staging dst]"]) auto
  qed
next
  case False
  obtain x tr1 where x: "client_identity c dst tr = (x, tr1)" "tr1 \<in> {tr, tr @ [QLstat dst]}"
    using client_identity_trace [of c dst tr] by (cases "client_identity c dst tr") auto
  have "x \<noteq> Ok None \<or> \<not> rc_supports c ''hardlink@openssh.com'' ''1''" using False x(1) client_identity_Ok(1) by blast
  then have "r \<noteq> Ok () \<and> (tr' = tr \<or> tr' = tr @ [QLstat dst])"
    using assms x by (auto simp: client_commit_new_def io_bind_def split: result.splits if_splits)
  then show ?thesis by auto
qed

text \<open>
  Committing a new file never overwrites. The link to the final name is requested only after the server said that the name
  does not exist, the staging name is removed only after the link was confirmed, success means that both were confirmed, and
  once the link exists any doubt is reported as an unknown outcome.
\<close>

theorem commit_new_never_clobbers:
  assumes "client_commit_new c staging dst tr = (r, tr')"
  shows "\<exists>qs. tr' = tr @ qs \<and> qs \<in> {[], [QLstat dst], [QLstat dst, QHardlink staging dst], [QLstat dst, QHardlink staging dst, QRemove staging]}
    \<and> (QHardlink staging dst \<in> set qs \<longrightarrow> rs_attrs (rc_raw c) (tr @ [QLstat dst]) = Err (SStatus StNoSuchFile))
    \<and> (QRemove staging \<in> set qs \<longrightarrow> rs_status (rc_raw c) (tr @ [QLstat dst, QHardlink staging dst]) = Ok StOk)
    \<and> (r = Ok () \<longleftrightarrow> QRemove staging \<in> set qs \<and> rs_status (rc_raw c) tr' = Ok StOk)
    \<and> (QRemove staging \<in> set qs \<longrightarrow> r = Ok () \<or> (\<exists>m. r = Err (AppError_new OutcomeUnknownCode m)))"
  using assms by (rule commit_new_result)

theorem commit_new_never_clobbers_witness:
  "fst (client_commit_new ex_raw_client ''/srv/.part'' ''/srv/a'' []) = Ok ()
    \<and> QRemove ''/srv/.part'' \<in> set (snd (client_commit_new ex_raw_client ''/srv/.part'' ''/srv/a'' []))"
proof -
  have ok: "fst (client_commit_new ex_raw_client ''/srv/.part'' ''/srv/a'' []) = Ok ()"
    by (simp add: client_commit_new_def client_identity_def ex_raw_client_def ex_raw_def rc_supports_def io_bind_def io_lift_def
        send_mutation_def mutation_status_def remove_old_name_def validate_remote_path_def MAX_REMOTE_PATH_BYTES_def)
  with commit_new_never_clobbers [OF surjective_pairing, of ex_raw_client "''/srv/.part''" "''/srv/a''" "[]"]
  show ?thesis by auto
qed

lemma client_download_result:
  assumes "client_download c w remote tr = ((r, out), tr')"
  shows "(\<forall>h. QOpenRead remote \<in> set (drop (length tr) tr') \<and> rs_handle (rc_raw c) (tr @ [QLstat remote, QOpenRead remote]) = Ok h
        \<longrightarrow> last tr' = QClose h)
    \<and> (\<forall>n. r = Ok n \<longrightarrow> unat n = length out \<and> lw_flush w out
        \<and> (\<exists>h qs. tr' = tr @ QLstat remote # QOpenRead remote # qs @ [QClose h]
             \<and> out = gathered c (tr @ [QLstat remote, QOpenRead remote]) qs \<and> rs_status (rc_raw c) tr' = Ok StOk))"
proof -
  let ?open = "io_bind (io_lift (validate_remote_path remote)) (\<lambda>_. io_bind (client_stat c remote) (\<lambda>entry.
      if re_kind entry \<noteq> KFile then io_lift (Err (AppError_new FilePolicy ''Only regular files can be downloaded.''))
      else ask_ok rs_handle c (QOpenRead remote)))"
  obtain x tr1 where op: "?open tr = (x, tr1)" by (cases "?open tr")
  show ?thesis
  proof (cases x)
    case (Ok h)
    obtain r1 out1 tr2 where loop: "download_loop c w h [] 0 tr1 = ((r1, out1), tr2)" by (metis prod.collapse)
    have tr1: "tr1 = tr @ [QLstat remote, QOpenRead remote]" "rs_handle (rc_raw c) tr1 = Ok h"
      using op [unfolded Ok]
      by (auto simp: client_stat_def ask_ok_Ok io_lift_def elim!: io_bind_OkE split: if_splits)
    have fin: "tr' = tr2 @ [QClose h]" "out = out1"
      "r = and_then r1 (\<lambda>n. and_then (fst (close_handle c h tr2)) (\<lambda>_. if lw_flush w out then Ok n else Err local_io))"
      using assms op Ok loop by (auto simp: client_download_def close_handle_def send_ok_def)
    have "unat n = length out \<and> lw_flush w out
        \<and> (\<exists>h qs. tr' = tr @ QLstat remote # QOpenRead remote # qs @ [QClose h]
             \<and> out = gathered c (tr @ [QLstat remote, QOpenRead remote]) qs \<and> rs_status (rc_raw c) tr' = Ok StOk)" if "r = Ok n" for n
    proof -
      have ok: "r1 = Ok n" "lw_flush w out" "fst (close_handle c h tr2) = Ok ()"
        using that fin(3) by (auto simp: and_then_Ok_iff split: if_splits)
      from download_loop_gathers [OF loop [unfolded ok(1)]] obtain qs where
        "tr2 = tr1 @ qs" "out1 = gathered c tr1 qs" "unat n = length out1" by auto
      moreover have "rs_status (rc_raw c) tr' = Ok StOk"
        using ok(3) fin(1) by (auto simp: close_handle_def send_ok_def status_ok_def split: result.splits if_splits)
      ultimately show ?thesis
        using ok(2) fin(1,2) tr1(1) by (auto intro!: exI [of _ h] exI [of _ qs])
    qed
    moreover have "last tr' = QClose h'" if "rs_handle (rc_raw c) (tr @ [QLstat remote, QOpenRead remote]) = Ok h'" for h'
      using that tr1 fin(1) by simp
    ultimately show ?thesis by blast
  next
    case (Err e)
    then have r: "r = Err e" "tr' = tr1" using assms op by (auto simp: client_download_def)
    have "\<nexists>h. QOpenRead remote \<in> set (drop (length tr) tr') \<and> rs_handle (rc_raw c) (tr @ [QLstat remote, QOpenRead remote]) = Ok h"
      using op Err
      by (auto simp: r(2) client_stat_def ask_ok_def io_bind_def io_lift_def split: result.splits if_splits)
    with r(1) show ?thesis by blast
  qed
qed

text \<open>
  A download that succeeds wrote exactly what the server sent: the local file holds the data of the reads, in order, the result
  is its length, and the remote handle was closed with confirmation. A handle that was opened is closed on every path.
\<close>

theorem download_exact:
  assumes "client_download c w remote tr = ((r, out), tr')"
  shows "(\<forall>h. QOpenRead remote \<in> set (drop (length tr) tr') \<and> rs_handle (rc_raw c) (tr @ [QLstat remote, QOpenRead remote]) = Ok h
        \<longrightarrow> last tr' = QClose h)
    \<and> (\<forall>n. r = Ok n \<longrightarrow> unat n = length out \<and> lw_flush w out
        \<and> (\<exists>h qs. tr' = tr @ QLstat remote # QOpenRead remote # qs @ [QClose h]
             \<and> out = gathered c (tr @ [QLstat remote, QOpenRead remote]) qs \<and> rs_status (rc_raw c) tr' = Ok StOk))"
  using assms by (rule client_download_result)

definition ex_attrs :: file_attributes where
  "ex_attrs = \<lparr>fa_size = Some 5, fa_uid = Some 0, fa_gid = Some 0, fa_permissions = Some 0x81A4, fa_mtime = Some 7\<rparr>"

definition ex_file_client :: raw_client where
  "ex_file_client = ex_raw_client\<lparr>rc_raw := ex_raw\<lparr>rs_attrs := (\<lambda>_. Ok ex_attrs),
     rs_data := (\<lambda>tr. case last tr of QRead _ off _ \<Rightarrow> if off = 0 then Ok ''bytes'' else Ok [] | _ \<Rightarrow> Ok [])\<rparr>\<rparr>"

lemma ex_file_client_fields:
  "rs_attrs (rc_raw ex_file_client) tr = Ok ex_attrs" "rs_handle (rc_raw ex_file_client) tr = Ok ''h''"
  "rs_status (rc_raw ex_file_client) tr = Ok StOk" "\<not> rs_cancelled (rc_raw ex_file_client) tr"
  "rs_data (rc_raw ex_file_client) (tr @ [QRead ''h'' off m]) = Ok (if off = 0 then ''bytes'' else [])"
  "rc_read_chunk ex_file_client = 65536" "rs_file_type (rc_raw ex_file_client) a = TFile"
  by (simp_all add: ex_file_client_def ex_raw_client_def ex_raw_def)

lemma ex_path_valid: "validate_remote_path ''/srv/a'' = Ok ()"
  by (simp add: validate_remote_path_def MAX_REMOTE_PATH_BYTES_def)

lemma ex_path_split: "rsplit_once (CHR ''/'') ''/srv/a'' = Some (''/srv'', ''a'')"
  by code_simp

lemma ex_path_last: "last (split_char (CHR ''/'') (trim_end_matches (\<lambda>ch. ch = CHR ''/'') ''/srv/a'')) = ''a''"
  by code_simp

lemma ex_child: "validate_child_name ''a'' = Ok ()" "is_ok (join_remote ''/srv'' ''a'')"
  by code_simp+

lemma ex_stat:
  obtains e where "client_stat ex_file_client ''/srv/a'' tr = (Ok e, tr @ [QLstat ''/srv/a''])" "re_kind e = KFile"
  using ex_child
  by (auto simp: client_stat_def ex_path_valid ex_path_split ex_path_last ask_ok_def io_bind_def io_lift_def remote_entry_of_def
      attrs_identity_def is_ok_iff ex_file_client_def ex_raw_client_def ex_raw_def ex_attrs_def)

lemma ex_download:
  "fst (client_download ex_file_client \<lparr>lw_write = \<lambda>_ _. True, lw_flush = \<lambda>_. True\<rparr> ''/srv/a'' []) = (Ok 5, ''bytes'')"
proof -
  obtain e where e: "client_stat ex_file_client ''/srv/a'' [] = (Ok e, [QLstat ''/srv/a''])" "re_kind e = KFile"
    using ex_stat [of "[]"] by auto
  show ?thesis
    by (simp add: client_download_def ex_path_valid e io_bind_def io_lift_def ask_ok_def download_loop.simps checked_add_def
        close_handle_def send_ok_def status_ok_def Let_def ex_file_client_fields ex_file_client_fields(5) [of "[_, _]", simplified] ex_file_client_fields(5) [of "[_, _, _, _]", simplified])
qed

theorem download_exact_witness:
  "\<exists>tr'. unat (5 :: u64) = length ''bytes'' \<and> rs_status (rc_raw ex_file_client) tr' = Ok StOk"
proof -
  let ?d = "client_download ex_file_client \<lparr>lw_write = \<lambda>_ _. True, lw_flush = \<lambda>_. True\<rparr> ''/srv/a'' []"
  have "?d = ((Ok 5, ''bytes''), snd ?d)" using ex_download by (metis prod.collapse)
  from download_exact [OF this] show ?thesis by blast
qed

lemma read_editor_bytes_Ok:
  assumes "client_read_editor_bytes c path tr = (Ok bytes, tr')"
  shows "\<exists>h qs before opened finished.
    tr' = tr @ QLstat path # QOpenRead path # QFstat h # qs @ [QFstat h, QClose h]
    \<and> length bytes \<le> 1024 * 1024 \<and> bytes = gathered c (tr @ [QLstat path, QOpenRead path, QFstat h]) qs
    \<and> client_editor_revision c path tr = (Ok before, tr @ [QLstat path])
    \<and> rs_attrs (rc_raw c) (tr @ [QLstat path, QOpenRead path, QFstat h]) = Ok opened \<and> same_revision c before opened
    \<and> rs_attrs (rc_raw c) (tr @ QLstat path # QOpenRead path # QFstat h # qs @ [QFstat h]) = Ok finished \<and> same_revision c before finished"
proof -
  obtain before tr1 h where *: "client_editor_revision c path tr = (Ok before, tr1)"
    "with_handle c h (editor_read c h before) (tr1 @ [QOpenRead path]) = (Ok bytes, tr')"
    using assms unfolding client_read_editor_bytes_def
    by (auto elim!: io_bind_OkE simp: ask_ok_Ok io_lift_def split: if_splits)
  have tr1: "tr1 = tr @ [QLstat path]"
    using *(1) by (auto simp: client_editor_revision_def ask_ok_Ok io_lift_def elim!: io_bind_OkE)
  obtain tr2 where body: "editor_read c h before (tr1 @ [QOpenRead path]) = (Ok bytes, tr2)" "tr' = tr2 @ [QClose h]"
    using *(2) by (auto elim!: with_handle_OkE simp: close_handle_def send_ok_Ok)
  obtain tr3 opened finished where loop: "editor_read_loop c h [] (tr1 @ [QOpenRead path, QFstat h]) = (Ok bytes, tr3)"
    "tr2 = tr3 @ [QFstat h]" "length bytes \<le> MAX_REMOTE_EDITOR_BYTES"
    "rs_attrs (rc_raw c) (tr1 @ [QOpenRead path, QFstat h]) = Ok opened" "same_revision c before opened"
    "rs_attrs (rc_raw c) tr2 = Ok finished" "same_revision c before finished"
    using body(1) unfolding editor_read_def
    by (auto elim!: io_bind_OkE simp: ask_ok_Ok io_lift_def split: if_splits)
  from editor_read_loop_gathers [OF loop(1)] obtain qs where
    "tr3 = tr1 @ [QOpenRead path, QFstat h] @ qs" "bytes = gathered c (tr1 @ [QOpenRead path, QFstat h]) qs" by auto
  with * tr1 body(2) loop(2-) show ?thesis
    by (intro exI [of _ h] exI [of _ qs] exI [of _ before] exI [of _ opened] exI [of _ finished])
      (simp add: MAX_REMOTE_EDITOR_BYTES_def)
qed

text \<open>
  Text read for editing is bounded and consistent: at most 1 MiB, exactly the data the server returned, in order, and the
  open file showed the type, size, time, mode and owner of the name that was looked up, before the first read and after the last.
\<close>

theorem editor_bytes_exact:
  assumes "client_read_editor_bytes c path tr = (Ok bytes, tr')"
  shows "\<exists>h qs before opened finished.
    tr' = tr @ QLstat path # QOpenRead path # QFstat h # qs @ [QFstat h, QClose h]
    \<and> length bytes \<le> 1024 * 1024 \<and> bytes = gathered c (tr @ [QLstat path, QOpenRead path, QFstat h]) qs
    \<and> client_editor_revision c path tr = (Ok before, tr @ [QLstat path])
    \<and> rs_attrs (rc_raw c) (tr @ [QLstat path, QOpenRead path, QFstat h]) = Ok opened \<and> same_revision c before opened
    \<and> rs_attrs (rc_raw c) (tr @ QLstat path # QOpenRead path # QFstat h # qs @ [QFstat h]) = Ok finished \<and> same_revision c before finished"
  using assms by (rule read_editor_bytes_Ok)

lemma ex_editor_bytes:
  "fst (client_read_editor_bytes ex_file_client ''/srv/a'' []) = Ok ''bytes''"
  by (simp add: client_read_editor_bytes_def client_editor_revision_def ex_file_client_def ex_raw_client_def ex_raw_def ex_attrs_def
      io_bind_def io_lift_def ex_path_valid ask_ok_def attrs_identity_def same_revision_def editor_read_def editor_read_loop.simps
      MAX_REMOTE_EDITOR_BYTES_def with_handle_def close_handle_def send_ok_def status_ok_def Let_def)

theorem editor_bytes_exact_witness:
  "\<exists>h before opened. client_editor_revision ex_file_client ''/srv/a'' [] = (Ok before, [QLstat ''/srv/a''])
    \<and> rs_attrs (rc_raw ex_file_client) [QLstat ''/srv/a'', QOpenRead ''/srv/a'', QFstat h] = Ok opened
    \<and> same_revision ex_file_client before opened"
proof -
  let ?d = "client_read_editor_bytes ex_file_client ''/srv/a'' []"
  have "?d = (Ok ''bytes'', snd ?d)" using ex_editor_bytes by (metis prod.collapse)
  from editor_bytes_exact [OF this] show ?thesis unfolding append_Nil by blast
qed

end
