(* ===== verification/Local_Files.thy ===== *)
theory Local_Files
  imports Remote_Paths Sftp_Model "HOL-Library.Sublist"
begin

text \<open>
  \<^verbatim>\<open>crates/nexus-sftp/src/policy.rs\<close>, the probes of local files: how a source or a directory picked by the
  user is opened and bound to its identity, and how that identity is checked again before each use. The
  operating system is an argument: a record of what it answers to the last of the calls made so far, so that the file
  system may change between any two calls.
\<close>

unbundle bit_operations_syntax

section \<open>The operating system\<close>

datatype os_call =
    OSymlinkMetadata string
  | OOpenDirectory string
  | OOpenSource string
  | OOpenIdentity string
  | OHandleMetadata nat
  | OFileId nat
  | OTryClone nat
  | OSeekStart nat
  | OCreateStaging string
  | OSyncAll
  | OPersist string string
  | OPersistNoclobber string string

record metadata =
  md_is_file :: bool
  md_is_dir :: bool
  md_is_symlink :: bool
  md_file_attributes :: u32
  md_len :: u64
  md_modified :: "nat option"
  md_dev :: u64
  md_ino :: u64

datatype io_error = IoNotFound | IoOther

text \<open>
  \<open>os_ancestors\<close>, \<open>os_parent\<close>, \<open>os_join\<close> and \<open>os_lossy\<close> are the path functions of the platform; \<open>os_file_id\<close> is
  \<open>fs_id::FileID\<close>; \<open>os_windows\<close> tells for which platform the code is compiled.
\<close>

record local_os =
  os_windows :: bool
  os_metadata :: "os_call list \<Rightarrow> (metadata, io_error) result"
  os_open :: "os_call list \<Rightarrow> nat option"
  os_file_id :: "os_call list \<Rightarrow> local_object_id option"
  os_done :: "os_call list \<Rightarrow> bool"
  os_ancestors :: "string \<Rightarrow> string list"
  os_parent :: "string \<Rightarrow> string option"
  os_join :: "string \<Rightarrow> string \<Rightarrow> string"
  os_lossy :: "string \<Rightarrow> string"

type_synonym 'a os_io = "(os_call list, 'a, app_error) io"

definition os_meta :: "local_os \<Rightarrow> app_error \<Rightarrow> os_call \<Rightarrow> metadata os_io" where
  "os_meta os err q tr = (case os_metadata os (tr @ [q]) of Ok m \<Rightarrow> Ok m | Err _ \<Rightarrow> Err err, tr @ [q])"

definition os_handle :: "local_os \<Rightarrow> app_error \<Rightarrow> os_call \<Rightarrow> nat os_io" where
  "os_handle os err q tr = (ok_or (os_open os (tr @ [q])) err, tr @ [q])"

definition os_try :: "local_os \<Rightarrow> app_error \<Rightarrow> os_call \<Rightarrow> unit os_io" where
  "os_try os err q tr = (if os_done os (tr @ [q]) then Ok () else Err err, tr @ [q])"

section \<open>Identities\<close>

definition is_reparse :: "local_os \<Rightarrow> metadata \<Rightarrow> bool" where
  "is_reparse os m = (if os_windows os then md_file_attributes m AND 0x400 \<noteq> 0 else md_is_symlink m)"

definition handle_identity :: "local_os \<Rightarrow> nat \<Rightarrow> metadata \<Rightarrow> local_identity os_io" where
  "handle_identity os h m =
     (if os_windows os
      then (\<lambda>tr. (and_then (ok_or (os_file_id os (tr @ [OFileId h]))
               (local_access_error ''Strong local filesystem identity is unavailable for this object.''))
             (\<lambda>oid. Ok \<lparr>li_size = md_len m, li_modified = md_modified m, li_object_id = oid\<rparr>), tr @ [OFileId h]))
      else io_lift (Ok \<lparr>li_size = md_len m, li_modified = md_modified m,
             li_object_id = \<lparr>lo_storage_id = md_dev m, lo_file_id = ucast (md_ino m)\<rparr>\<rparr>))"

definition open_directory_handle :: "local_os \<Rightarrow> string \<Rightarrow> nat os_io" where
  "open_directory_handle os path =
     os_handle os (local_access_error ''The selected directory could not be opened safely.'') (OOpenDirectory path)"

definition open_source_handle :: "local_os \<Rightarrow> string \<Rightarrow> nat os_io" where
  "open_source_handle os path =
     os_handle os (local_access_error (if os_windows os then ''The selected local file could not be locked for reading.''
       else ''The selected local file could not be opened.'')) (OOpenSource path)"

definition open_file_identity_handle :: "local_os \<Rightarrow> string \<Rightarrow> nat os_io" where
  "open_file_identity_handle os path =
     os_handle os (local_access_error ''The local filesystem object could not be identified.'') (OOpenIdentity path)"

section \<open>Probes\<close>

definition not_regular :: "local_os \<Rightarrow> metadata \<Rightarrow> bool" where
  "not_regular os m = (\<not> md_is_file m \<or> is_reparse os m)"

definition probe_identity :: "local_os \<Rightarrow> string \<Rightarrow> local_identity option os_io" where
  "probe_identity os path tr =
     (let tr1 = tr @ [OSymlinkMetadata path]
      in case os_metadata os tr1 of
           Ok m \<Rightarrow>
             if not_regular os m
             then (Err (policy_error ''The local destination is not a regular non-reparse file.''), tr1)
             else
               io_bind (open_file_identity_handle os path) (\<lambda>h.
               io_bind (os_meta os (local_access_error ''The local destination identity could not be read.'') (OHandleMetadata h)) (\<lambda>hm.
                 if not_regular os hm
                 then io_lift (Err (policy_error ''The local destination is not a regular non-reparse file.''))
                 else io_bind (handle_identity os h hm) (\<lambda>i. io_lift (Ok (Some i))))) tr1
         | Err IoNotFound \<Rightarrow> (Ok None, tr1)
         | Err IoOther \<Rightarrow> (Err (AppError_new LocalAccess ''The local destination metadata could not be read.''), tr1))"

fun check_ancestry :: "local_os \<Rightarrow> string list \<Rightarrow> unit os_io" where
  "check_ancestry os [] = io_lift (Ok ())"
| "check_ancestry os (p # ps) =
     (if p = [] then check_ancestry os ps
      else
        io_bind (os_meta os (AppError_new LocalAccess ''The selected local directory ancestry is unavailable.'') (OSymlinkMetadata p)) (\<lambda>m.
          if is_reparse os m
          then io_lift (Err (policy_error ''The selected local directory ancestry contains a symlink or reparse point.''))
          else check_ancestry os ps))"

definition validate_local_directory :: "local_os \<Rightarrow> string \<Rightarrow> unit os_io" where
  "validate_local_directory os path =
     io_bind (check_ancestry os (rev (os_ancestors os path))) (\<lambda>_.
     io_bind (os_meta os (local_access_error ''The selected local directory is unavailable.'') (OSymlinkMetadata path)) (\<lambda>m.
       if \<not> md_is_dir m
       then io_lift (Err (policy_error ''The selected local destination is not a directory.''))
       else io_lift (Ok ())))"

definition validate_parent :: "local_os \<Rightarrow> string \<Rightarrow> unit os_io" where
  "validate_parent os path =
     (case os_parent os path of None \<Rightarrow> io_lift (Ok ()) | Some parent \<Rightarrow> validate_local_directory os parent)"

definition open_local_source :: "local_os \<Rightarrow> string \<Rightarrow> string \<Rightarrow> local_item os_io" where
  "open_local_source os path shown =
     io_bind (validate_parent os path) (\<lambda>_.
     io_bind (os_meta os (local_access_error ''A selected local file is unavailable.'') (OSymlinkMetadata path)) (\<lambda>pm.
       if not_regular os pm
       then io_lift (Err (local_access_error ''Uploads accept only regular non-reparse files.''))
       else
         io_bind (open_source_handle os path) (\<lambda>h.
         io_bind (os_meta os (local_access_error ''A selected local file identity is unavailable.'') (OHandleMetadata h)) (\<lambda>hm.
           if not_regular os hm
           then io_lift (Err (local_access_error ''Uploads accept only regular non-reparse files.''))
           else
             io_bind (handle_identity os h hm) (\<lambda>i.
             io_bind (open_file_identity_handle os path) (\<lambda>ph.
             io_bind (os_meta os (local_access_error ''A selected local file identity is unavailable.'') (OHandleMetadata ph)) (\<lambda>phm.
             io_bind (handle_identity os ph phm) (\<lambda>pi.
               if i \<noteq> pi
               then io_lift (Err (local_access_error ''The selected local file changed while it was opened.''))
               else io_lift (Ok \<lparr>lc_path = path, lc_display_name = shown, lc_size = li_size i, lc_modified = li_modified i,
                      lc_identity = i, lc_handle = h\<rparr>)))))))))"

definition open_local_directory :: "local_os \<Rightarrow> string \<Rightarrow> local_directory os_io" where
  "open_local_directory os path =
     io_bind (validate_local_directory os path) (\<lambda>_.
     io_bind (open_directory_handle os path) (\<lambda>h.
     io_bind (os_meta os (local_access_error ''The selected directory identity is unavailable.'') (OHandleMetadata h)) (\<lambda>hm.
     io_bind (handle_identity os h hm) (\<lambda>i.
     io_bind (open_directory_handle os path) (\<lambda>ph.
     io_bind (os_meta os (local_access_error ''The selected directory identity is unavailable.'') (OHandleMetadata ph)) (\<lambda>phm.
     io_bind (handle_identity os ph phm) (\<lambda>pi.
       if i \<noteq> pi
       then io_lift (Err (local_access_error ''The selected directory changed while it was opened.''))
       else io_lift (Ok \<lparr>ld_path = path, ld_display_name = display_name (os_lossy os path), ld_identity = i, ld_handle = h\<rparr>))))))))"

text \<open>The conditions of the last test are evaluated from left to right; an identity is read only when the ones before it hold.\<close>

definition source_changed :: app_error where
  "source_changed = policy_error ''The selected local source changed after approval.''"

definition validate_local_source :: "local_os \<Rightarrow> local_item \<Rightarrow> unit os_io" where
  "validate_local_source os item =
     io_bind (validate_parent os (lc_path item)) (\<lambda>_.
     io_bind (os_meta os (AppError_new LocalAccess ''The selected local source is unavailable.'') (OSymlinkMetadata (lc_path item))) (\<lambda>pm.
     io_bind (open_file_identity_handle os (lc_path item)) (\<lambda>ph.
     io_bind (os_meta os (local_access_error ''The selected local source is unavailable.'') (OHandleMetadata ph)) (\<lambda>phm.
     io_bind (os_meta os (local_access_error ''The selected local source handle is unavailable.'') (OHandleMetadata (lc_handle item))) (\<lambda>hm.
       if not_regular os pm \<or> not_regular os phm then io_lift (Err source_changed)
       else
         io_bind (handle_identity os ph phm) (\<lambda>pi.
           if pi \<noteq> lc_identity item then io_lift (Err source_changed)
           else
             io_bind (handle_identity os (lc_handle item) hm) (\<lambda>i.
               if i \<noteq> lc_identity item then io_lift (Err source_changed) else io_lift (Ok ()))))))))"

definition validate_local_directory_handle :: "local_os \<Rightarrow> local_directory \<Rightarrow> unit os_io" where
  "validate_local_directory_handle os directory =
     io_bind (validate_local_directory os (ld_path directory)) (\<lambda>_.
     io_bind (open_directory_handle os (ld_path directory)) (\<lambda>ph.
     io_bind (os_meta os (local_access_error ''The selected local directory is unavailable.'') (OHandleMetadata ph)) (\<lambda>pm.
     io_bind (handle_identity os ph pm) (\<lambda>pi.
     io_bind (os_meta os (local_access_error ''The selected directory handle is unavailable.'') (OHandleMetadata (ld_handle directory))) (\<lambda>sm.
     io_bind (handle_identity os (ld_handle directory) sm) (\<lambda>si.
       if \<not> same_local_object pi (ld_identity directory) \<or> \<not> same_local_object si (ld_identity directory)
       then io_lift (Err (policy_error ''The selected local directory changed after selection.''))
       else io_lift (Ok ())))))))"

section \<open>What the probes establish\<close>

text \<open>
  A probe only adds calls. \<open>asked tr tr' q p\<close>: between \<open>tr\<close> and \<open>tr'\<close> the call \<open>q\<close> was made, \<open>p\<close> being the calls up to it.
\<close>

definition extends :: "(os_call list \<Rightarrow> 'a \<times> os_call list) \<Rightarrow> bool" where
  "extends m \<longleftrightarrow> (\<forall>tr. prefix tr (snd (m tr)))"

definition asked :: "os_call list \<Rightarrow> os_call list \<Rightarrow> os_call \<Rightarrow> os_call list \<Rightarrow> bool" where
  "asked tr tr' q p \<longleftrightarrow> (\<exists>p'. p = p' @ [q] \<and> prefix tr p') \<and> prefix p tr'"

definition identified :: "local_os \<Rightarrow> os_call list \<Rightarrow> os_call list \<Rightarrow> nat \<Rightarrow> local_identity \<Rightarrow> bool" where
  "identified os tr tr' h i \<longleftrightarrow>
     (\<exists>p m p1 p2. asked tr tr' (OHandleMetadata h) p \<and> os_metadata os p = Ok m
        \<and> handle_identity os h m p1 = (Ok i, p2) \<and> prefix p p1 \<and> prefix p2 tr')"

named_theorems extends_intros

lemma extendsD: "extends m \<Longrightarrow> m tr = (r, tr') \<Longrightarrow> prefix tr tr'"
  unfolding extends_def by (metis snd_conv)

lemma extends_bind [extends_intros]:
  assumes "extends m" "\<And>x. extends (f x)"
  shows "extends (io_bind m f)"
  unfolding extends_def
proof
  fix tr
  obtain r tr1 where m: "m tr = (r, tr1)" by (cases "m tr")
  then have "prefix tr tr1" by (rule extendsD [OF assms(1)])
  then show "prefix tr (snd (io_bind m f tr))"
    using m assms(2) by (cases r) (auto simp: extends_def intro: prefix_order.trans)
qed

lemma extends_basic [extends_intros]:
  "extends (io_lift r)" "extends (os_meta os err q)" "extends (os_handle os err q)" "extends (os_try os err q)"
  "extends (handle_identity os h m)"
  by (simp_all add: extends_def os_meta_def os_handle_def os_try_def handle_identity_def)

lemma extends_if [extends_intros]: "extends m \<Longrightarrow> extends n \<Longrightarrow> extends (if b then m else n)"
  by simp

lemma extends_open [extends_intros]:
  "extends (open_directory_handle os path)" "extends (open_source_handle os path)" "extends (open_file_identity_handle os path)"
  unfolding open_directory_handle_def open_source_handle_def open_file_identity_handle_def by (rule extends_intros)+

lemma extends_ancestry [extends_intros]: "extends (check_ancestry os ps)"
proof (induction ps)
  case Nil
  show ?case unfolding check_ancestry.simps by (rule extends_intros)
next
  case (Cons p ps)
  show ?case unfolding check_ancestry.simps by (intro extends_intros Cons)
qed

lemma extends_validate_directory [extends_intros]: "extends (validate_local_directory os path)"
  unfolding validate_local_directory_def by (intro extends_intros)

lemma extends_validate_parent [extends_intros]: "extends (validate_parent os path)"
  unfolding validate_parent_def by (auto intro: extends_intros split: option.split)

lemma extends_validate_source [extends_intros]: "extends (validate_local_source os item)"
  unfolding validate_local_source_def by (intro extends_intros)

lemma extends_validate_directory_handle [extends_intros]: "extends (validate_local_directory_handle os directory)"
  unfolding validate_local_directory_handle_def by (intro extends_intros)

lemma extends_probe_identity [extends_intros]: "extends (probe_identity os path)"
proof -
  have "extends (io_bind (open_file_identity_handle os path) (\<lambda>h.
          io_bind (os_meta os e1 (OHandleMetadata h)) (\<lambda>hm.
            if not_regular os hm then io_lift (Err e2) else io_bind (handle_identity os h hm) (\<lambda>i. io_lift (Ok (Some i))))))"
    for e1 e2 by (intro extends_intros)
  then show ?thesis
    unfolding extends_def
    by (auto simp: probe_identity_def Let_def split: result.split io_error.split
      intro: append_prefixD [of _ "[OSymlinkMetadata path]"])
qed

lemma os_meta_Ok: "os_meta os err q tr = (Ok m, tr') \<longleftrightarrow> tr' = tr @ [q] \<and> os_metadata os (tr @ [q]) = Ok m"
  by (auto simp: os_meta_def split: result.splits)

lemma os_handle_Ok: "os_handle os err q tr = (Ok h, tr') \<longleftrightarrow> tr' = tr @ [q] \<and> os_open os (tr @ [q]) = Some h"
  by (cases "os_open os (tr @ [q])") (auto simp: os_handle_def)

lemma os_try_Ok: "os_try os err q tr = (Ok u, tr') \<longleftrightarrow> tr' = tr @ [q] \<and> os_done os (tr @ [q])"
  by (auto simp: os_try_def)

lemma askedI: "prefix tr p \<Longrightarrow> prefix (p @ [q]) tr' \<Longrightarrow> asked tr tr' q (p @ [q])"
  by (auto simp: asked_def)

lemma asked_mono: "asked tr1 tr2 q p \<Longrightarrow> prefix tr tr1 \<Longrightarrow> prefix tr2 tr' \<Longrightarrow> asked tr tr' q p"
  by (auto simp: asked_def intro: prefix_order.trans)

lemma check_ancestry_Ok:
  "check_ancestry os ps tr = (Ok u, tr') \<Longrightarrow> d \<in> set ps \<Longrightarrow> d \<noteq> [] \<Longrightarrow>
   \<exists>p m. asked tr tr' (OSymlinkMetadata d) p \<and> os_metadata os p = Ok m \<and> \<not> is_reparse os m"
proof (induction ps arbitrary: tr)
  case (Cons c ps)
  show ?case
  proof (cases "c = []")
    case True
    with Cons show ?thesis by auto
  next
    case False
    obtain m where m: "os_metadata os (tr @ [OSymlinkMetadata c]) = Ok m" "\<not> is_reparse os m"
      "check_ancestry os ps (tr @ [OSymlinkMetadata c]) = (Ok u, tr')"
      using Cons.prems(1) False by (auto elim!: io_bind_OkE simp: os_meta_Ok split: if_splits)
    have pre: "prefix (tr @ [OSymlinkMetadata c]) tr'" using extendsD [OF extends_ancestry m(3)] .
    show ?thesis
    proof (cases "d = c")
      case True
      with m(1,2) pre show ?thesis by (blast intro: askedI prefix_order.refl)
    next
      case False
      with Cons.prems(2,3) have "d \<in> set ps" by simp
      from Cons.IH [OF m(3) this Cons.prems(3)] show ?thesis
        by (blast intro: asked_mono prefix_order.refl prefixI)
    qed
  qed
qed simp

text \<open>The ancestors of \<open>path\<close> were seen as plain directories, none of them a link.\<close>

definition plain_ancestry :: "local_os \<Rightarrow> os_call list \<Rightarrow> os_call list \<Rightarrow> string \<Rightarrow> bool" where
  "plain_ancestry os tr tr' path \<longleftrightarrow>
     (\<forall>d\<in>set (os_ancestors os path). d \<noteq> [] \<longrightarrow>
        (\<exists>p m. asked tr tr' (OSymlinkMetadata d) p \<and> os_metadata os p = Ok m \<and> \<not> is_reparse os m))
     \<and> (\<exists>p m. asked tr tr' (OSymlinkMetadata path) p \<and> os_metadata os p = Ok m \<and> md_is_dir m)"

lemma plain_ancestry_mono:
  "plain_ancestry os tr tr1 path \<Longrightarrow> prefix tr1 tr' \<Longrightarrow> plain_ancestry os tr tr' path"
  unfolding plain_ancestry_def by (blast intro: asked_mono prefix_order.refl)

lemma validate_local_directory_Ok:
  assumes "validate_local_directory os path tr = (Ok u, tr')"
  shows "plain_ancestry os tr tr' path"
proof -
  obtain tr1 m where *: "check_ancestry os (rev (os_ancestors os path)) tr = (Ok (), tr1)" "tr' = tr1 @ [OSymlinkMetadata path]"
    "os_metadata os tr' = Ok m" "md_is_dir m"
    using assms unfolding validate_local_directory_def by (auto elim!: io_bind_OkE simp: os_meta_Ok split: if_splits)
  have pre: "prefix tr tr1" "prefix tr1 tr'" using extendsD [OF extends_ancestry *(1)] *(2) by auto
  have "asked tr tr' (OSymlinkMetadata path) tr'" using pre(1) *(2) askedI by blast
  then show ?thesis
    unfolding plain_ancestry_def using check_ancestry_Ok [OF *(1)] *(3,4) pre(2)
    by (metis asked_mono prefix_order.refl set_rev)
qed

lemma identifiedI:
  assumes "os_meta os err (OHandleMetadata h) tr1 = (Ok m, tr2)" "prefix tr tr1" "prefix tr2 p1"
    and "handle_identity os h m p1 = (Ok i, p2)" "prefix p2 tr'"
  shows "identified os tr tr' h i"
proof -
  have "prefix p1 p2" using extendsD [OF extends_basic(5) assms(4)] .
  then have "asked tr tr' (OHandleMetadata h) tr2"
    using assms(1,2,3,5) by (auto simp: os_meta_Ok intro!: askedI intro: prefix_order.trans)
  then show ?thesis
    unfolding identified_def using assms by (auto simp: os_meta_Ok)
qed

text \<open>The probes only look: none of them publishes a file.\<close>

fun publishes :: "os_call \<Rightarrow> bool" where
  "publishes (OPersist _ _) = True"
| "publishes (OPersistNoclobber _ _) = True"
| "publishes _ = False"

lemma sends_os [sends_intros]:
  "P q \<Longrightarrow> sends P (os_meta os err q)" "P q \<Longrightarrow> sends P (os_handle os err q)" "P q \<Longrightarrow> sends P (os_try os err q)"
  "P (OFileId h) \<Longrightarrow> sends P (handle_identity os h m)"
  by (simp_all add: sends_def os_meta_def os_handle_def os_try_def handle_identity_def)

lemma sends_open [sends_intros]:
  "P (OOpenDirectory path) \<Longrightarrow> sends P (open_directory_handle os path)"
  "P (OOpenSource path) \<Longrightarrow> sends P (open_source_handle os path)"
  "P (OOpenIdentity path) \<Longrightarrow> sends P (open_file_identity_handle os path)"
  unfolding open_directory_handle_def open_source_handle_def open_file_identity_handle_def by (rule sends_intros; assumption)+

lemma sends_ancestry [sends_intros]:
  assumes "\<And>p. P (OSymlinkMetadata p)"
  shows "sends P (check_ancestry os ps)"
proof (induction ps)
  case Nil
  show ?case unfolding check_ancestry.simps by (rule sends_intros)
next
  case (Cons p ps)
  show ?case unfolding check_ancestry.simps by (intro sends_intros Cons assms)
qed

lemma sends_validate_directory [sends_intros]: "(\<And>p. P (OSymlinkMetadata p)) \<Longrightarrow> sends P (validate_local_directory os path)"
  unfolding validate_local_directory_def by (intro sends_intros)

lemma sends_validate_directory_handle [sends_intros]:
  "(\<And>q. \<not> publishes q \<Longrightarrow> P q) \<Longrightarrow> sends P (validate_local_directory_handle os directory)"
  unfolding validate_local_directory_handle_def by (intro sends_intros) simp_all

lemma sends_probe_identity [sends_intros]:
  assumes "\<And>q. \<not> publishes q \<Longrightarrow> P q"
  shows "sends P (probe_identity os path)"
proof -
  let ?rest = "io_bind (open_file_identity_handle os path) (\<lambda>h.
      io_bind (os_meta os (local_access_error ''The local destination identity could not be read.'') (OHandleMetadata h)) (\<lambda>hm.
        if not_regular os hm then io_lift (Err (policy_error ''The local destination is not a regular non-reparse file.''))
        else io_bind (handle_identity os h hm) (\<lambda>i. io_lift (Ok (Some i)))))"
  have rest: "sends P ?rest" by (intro sends_intros) (simp_all add: assms)
  show ?thesis unfolding sends_def
  proof
    fix tr
    obtain x tr' where x: "?rest (tr @ [OSymlinkMetadata path]) = (x, tr')" by (cases "?rest (tr @ [OSymlinkMetadata path])")
    from sendsD [OF rest x] obtain qs where qs: "tr' = (tr @ [OSymlinkMetadata path]) @ qs" "list_all P qs" by blast
    have p: "P (OSymlinkMetadata path)" by (rule assms) simp
    have "snd (probe_identity os path tr) = tr @ [OSymlinkMetadata path] \<or> snd (probe_identity os path tr) = tr'"
    proof (cases "\<exists>m. os_metadata os (tr @ [OSymlinkMetadata path]) = Ok m \<and> \<not> not_regular os m")
      case True
      with x show ?thesis by (auto simp: probe_identity_def)
    next
      case False
      then show ?thesis by (auto simp: probe_identity_def Let_def split: result.split io_error.split)
    qed
    with qs p show "\<exists>qs. snd (probe_identity os path tr) = tr @ qs \<and> list_all P qs"
      by (elim disjE) (force intro: exI [of _ "[OSymlinkMetadata path]"] exI [of _ "OSymlinkMetadata path # qs"])+
  qed
qed

section \<open>Checked selections\<close>

definition ex_meta :: "bool \<Rightarrow> metadata" where
  "ex_meta dir = \<lparr>md_is_file = \<not> dir, md_is_dir = dir, md_is_symlink = False, md_file_attributes = 0, md_len = 5,
     md_modified = Some 9, md_dev = 1, md_ino = (if dir then 1 else 2)\<rparr>"

definition ex_os :: local_os where
  "ex_os = \<lparr>os_windows = False,
     os_metadata = (\<lambda>tr. Ok (ex_meta (last tr \<in> {OSymlinkMetadata ''/'', OSymlinkMetadata ''/d'', OHandleMetadata 1}))),
     os_open = (\<lambda>tr. Some (if last tr = OOpenDirectory ''/d'' then 1 else 2)),
     os_file_id = (\<lambda>_. None),
     os_done = (\<lambda>_. True),
     os_ancestors = (\<lambda>p. if p = ''/d'' then [''/d'', ''/''] else [p, ''/d'', ''/'']),
     os_parent = (\<lambda>p. if p = ''/d/a'' then Some ''/d'' else None),
     os_join = (\<lambda>d n. d @ ''/'' @ n), os_lossy = id\<rparr>"

definition ex_id :: "bool \<Rightarrow> local_identity" where
  "ex_id dir = \<lparr>li_size = 5, li_modified = Some 9,
     li_object_id = \<lparr>lo_storage_id = 1, lo_file_id = (if dir then 1 else 2)\<rparr>\<rparr>"

definition ex_source :: local_item where
  "ex_source = \<lparr>lc_path = ''/d/a'', lc_display_name = ''a'', lc_size = 5, lc_modified = Some 9, lc_identity = ex_id False, lc_handle = 2\<rparr>"

definition ex_dir :: local_directory where
  "ex_dir = \<lparr>ld_path = ''/d'', ld_display_name = ''d'', ld_identity = ex_id True, ld_handle = 1\<rparr>"

lemmas ex_os_defs = ex_os_def ex_meta_def ex_id_def

lemma ex_directory_valid: "fst (validate_local_directory ex_os ''/d'' tr) = Ok ()"
  by (simp add: validate_local_directory_def ex_os_defs io_bind_def os_meta_def is_reparse_def)

lemma ex_source_valid: "fst (validate_local_source ex_os ex_source tr) = Ok ()"
proof -
  obtain tr1 where "validate_parent ex_os ''/d/a'' tr = (Ok (), tr1)"
    using ex_directory_valid [of tr] by (cases "validate_parent ex_os ''/d/a'' tr") (auto simp: validate_parent_def ex_os_def)
  then show ?thesis
    by (simp add: validate_local_source_def ex_source_def)
      (simp add: ex_os_defs io_bind_def os_meta_def open_file_identity_handle_def os_handle_def not_regular_def is_reparse_def
        handle_identity_def)
qed

lemma ex_dir_valid: "fst (validate_local_directory_handle ex_os ex_dir tr) = Ok ()"
proof -
  obtain tr1 where "validate_local_directory ex_os ''/d'' tr = (Ok (), tr1)"
    using ex_directory_valid [of tr] by (metis prod.collapse)
  then show ?thesis
    by (simp add: validate_local_directory_handle_def ex_dir_def)
      (simp add: ex_os_defs io_bind_def os_meta_def open_directory_handle_def os_handle_def same_local_object_def
        handle_identity_def)
qed

text \<open>
  C37: A local source that passes its check is the one that was selected: the object at the path and the object of the kept handle
  both show the approved identity, read after the check began, the path leads to a regular file and no directory above it
  is a link.
\<close>

theorem validated_source_is_selected:
  assumes "validate_local_source os item tr = (Ok u, tr')"
  shows "\<exists>h p. asked tr tr' (OOpenIdentity (lc_path item)) p \<and> os_open os p = Some h
    \<and> identified os tr tr' h (lc_identity item) \<and> identified os tr tr' (lc_handle item) (lc_identity item)
    \<and> (\<exists>p m. asked tr tr' (OSymlinkMetadata (lc_path item)) p \<and> os_metadata os p = Ok m \<and> \<not> not_regular os m)
    \<and> (case os_parent os (lc_path item) of None \<Rightarrow> True | Some d \<Rightarrow> plain_ancestry os tr tr' d)"
proof -
  obtain a pm h e phm b hm c d err1 err2 where *:
    "validate_parent os (lc_path item) tr = (Ok (), a)"
    "os_metadata os (a @ [OSymlinkMetadata (lc_path item)]) = Ok pm" "\<not> not_regular os pm"
    "open_file_identity_handle os (lc_path item) (a @ [OSymlinkMetadata (lc_path item)]) = (Ok h, e)"
    "os_meta os err1 (OHandleMetadata h) e = (Ok phm, b)"
    "os_meta os err2 (OHandleMetadata (lc_handle item)) b = (Ok hm, c)"
    "handle_identity os h phm c = (Ok (lc_identity item), d)"
    "handle_identity os (lc_handle item) hm d = (Ok (lc_identity item), tr')"
    using assms unfolding validate_local_source_def
    by (auto elim!: io_bind_OkE simp: os_meta_Ok [of _ _ "OSymlinkMetadata _"] split: if_splits)
  let ?s = "OSymlinkMetadata (lc_path item)" and ?o = "OOpenIdentity (lc_path item)"
  have e: "e = (a @ [?s]) @ [?o]" "os_open os e = Some h"
    using *(4) by (auto simp: open_file_identity_handle_def os_handle_Ok)
  have b: "b = e @ [OHandleMetadata h]" "c = b @ [OHandleMetadata (lc_handle item)]"
    using *(5,6) by (auto simp: os_meta_Ok)
  have pre: "prefix tr a" "prefix c d" "prefix d tr'"
    using extendsD [OF extends_validate_parent *(1)] extendsD [OF extends_basic(5) *(7)] extendsD [OF extends_basic(5) *(8)] .
  have up: "prefix (a @ [?s]) tr'" "prefix e tr'" "prefix c tr'" "prefix b d" "prefix tr e" "prefix tr b"
    using pre e(1) b by (auto simp: prefix_def)
  have "asked tr tr' ?o e" using askedI [of tr "a @ [?s]" ?o tr'] pre(1) up(2) e(1) by (auto intro: prefix_order.trans)
  moreover have "identified os tr tr' h (lc_identity item)"
    using identifiedI [OF *(5) up(5) _ *(7) pre(3)] b(2) by simp
  moreover have "identified os tr tr' (lc_handle item) (lc_identity item)"
    using identifiedI [OF *(6) up(6) pre(2) *(8)] by simp
  moreover have "asked tr tr' ?s (a @ [?s])" using askedI [OF pre(1) up(1)] .
  moreover have "case os_parent os (lc_path item) of None \<Rightarrow> True | Some d \<Rightarrow> plain_ancestry os tr tr' d"
  proof (cases "os_parent os (lc_path item)")
    case (Some d)
    with *(1) have "plain_ancestry os tr a d" by (auto simp: validate_parent_def validate_local_directory_Ok)
    then show ?thesis using Some up(1) plain_ancestry_mono append_prefixD by fastforce
  qed simp
  ultimately show ?thesis using e(2) *(2,3) by blast
qed

theorem validated_source_is_selected_witness:
  "\<exists>tr'. identified ex_os [] tr' (lc_handle ex_source) (ex_id False)"
proof -
  have "validate_local_source ex_os ex_source [] = (Ok (), snd (validate_local_source ex_os ex_source []))"
    using ex_source_valid by (metis prod.collapse)
  from validated_source_is_selected [OF this] show ?thesis by (auto simp: ex_source_def)
qed

text \<open>
  A local directory that passes its check is the one that was selected: the object at the path and the object of the kept handle
  are the selected one, read after the check began, and no directory above it is a link.
\<close>

theorem validated_directory_is_selected:
  assumes "validate_local_directory_handle os directory tr = (Ok u, tr')"
  shows "\<exists>h p i j. asked tr tr' (OOpenDirectory (ld_path directory)) p \<and> os_open os p = Some h
    \<and> identified os tr tr' h i \<and> li_object_id i = li_object_id (ld_identity directory)
    \<and> identified os tr tr' (ld_handle directory) j \<and> li_object_id j = li_object_id (ld_identity directory)
    \<and> plain_ancestry os tr tr' (ld_path directory)"
proof -
  obtain a h b pm c i d sm e j err1 err2 where *:
    "validate_local_directory os (ld_path directory) tr = (Ok (), a)"
    "open_directory_handle os (ld_path directory) a = (Ok h, b)"
    "os_meta os err1 (OHandleMetadata h) b = (Ok pm, c)"
    "handle_identity os h pm c = (Ok i, d)"
    "os_meta os err2 (OHandleMetadata (ld_handle directory)) d = (Ok sm, e)"
    "handle_identity os (ld_handle directory) sm e = (Ok j, tr')"
    "same_local_object i (ld_identity directory)" "same_local_object j (ld_identity directory)"
    using assms unfolding validate_local_directory_handle_def by (auto elim!: io_bind_OkE split: if_splits)
  have b: "b = a @ [OOpenDirectory (ld_path directory)]" "os_open os b = Some h"
    using *(2) by (auto simp: open_directory_handle_def os_handle_Ok)
  have c: "c = b @ [OHandleMetadata h]" "e = d @ [OHandleMetadata (ld_handle directory)]"
    using *(3,5) by (auto simp: os_meta_Ok)
  have pre: "prefix tr a" "prefix c d" "prefix e tr'"
    using extendsD [OF extends_validate_directory *(1)] extendsD [OF extends_basic(5) *(4)] extendsD [OF extends_basic(5) *(6)] .
  have d: "prefix d tr'" using pre(3) c(2) by (auto intro: append_prefixD)
  have bd: "prefix b d" using pre(2) c(1) by (auto intro: append_prefixD)
  have at: "prefix tr b" "prefix b tr'" "prefix a tr'"
    using pre(1) b(1) bd d by (auto intro: prefix_order.trans append_prefixD)
  have td: "prefix tr d" using at(1) bd by (rule prefix_order.trans)
  have "asked tr tr' (OOpenDirectory (ld_path directory)) b" using askedI [OF pre(1)] at(2) b(1) by simp
  moreover have "identified os tr tr' h i" using identifiedI [OF *(3) at(1) _ *(4) d] by simp
  moreover have "identified os tr tr' (ld_handle directory) j" using identifiedI [OF *(5) td _ *(6)] by simp
  moreover have "plain_ancestry os tr tr' (ld_path directory)"
    using plain_ancestry_mono [OF validate_local_directory_Ok [OF *(1)] at(3)] .
  ultimately show ?thesis using b(2) *(7,8) by (auto simp: same_local_object_def)
qed

theorem validated_directory_is_selected_witness:
  "\<exists>tr'. plain_ancestry ex_os [] tr' (ld_path ex_dir)"
proof -
  have "validate_local_directory_handle ex_os ex_dir [] = (Ok (), snd (validate_local_directory_handle ex_os ex_dir []))"
    using ex_dir_valid by (metis prod.collapse)
  from validated_directory_is_selected [OF this] show ?thesis by blast
qed

end
