(* ===== verification/Transfer_Run.thy ===== *)
theory Transfer_Run
  imports Transfer_Quiesce Sftp_Requests Local_Files
begin

text \<open>
  \<^verbatim>\<open>crates/nexus-sftp/src/transfer.rs\<close>, the work of a job between taking the lock of its destination and releasing it:
  uploads through an owned staging file, downloads through a local staging file, editor saves, and the
  direct mutations. A worker talks to three parties: the SFTP server (the requests sent so far), the
  operating system (the calls made so far) and the shared state of the transfer manager, which other tasks
  change while the worker waits.
\<close>

section \<open>The worker's surroundings\<close>

text \<open>\<open>RemoteStagingGuard\<close>: the staging path, whether the guard is armed, and whether exclusive creation was confirmed.\<close>

record staging_guard =
  sg_path :: string
  sg_armed :: bool
  sg_owned :: bool

record run =
  rn_trace :: "raw_request list"
  rn_os :: "os_call list"
  rn_tx :: transfers
  rn_guard :: "staging_guard option"

text \<open>
  \<open>ev_others\<close>: what other tasks do to the manager, from its present state, while the last request is under way. \<open>ev_reads\<close>: what reading the local source gives.
  \<open>ev_writer\<close>: the local staging file. \<open>ev_digest\<close> is SHA-256 and \<open>ev_simple\<close> the text of an identifier.
  The cancellation token is read through the client's record, at any request.
\<close>

record run_env =
  ev_client :: raw_client
  ev_os :: local_os
  ev_others :: "raw_request list \<Rightarrow> transfers \<Rightarrow> transfer_event list"
  ev_reads :: "string option list"
  ev_writer :: local_writer
  ev_digest :: "string \<Rightarrow> string"
  ev_simple :: "transfer_job_id \<Rightarrow> string"

type_synonym 'a run_io = "(run, 'a, app_error) io"

text \<open>
  The manager's state moves along with the requests: other tasks' events, and the worker's own progress
  reports where the client made them.
\<close>

fun advance :: "(raw_request list \<Rightarrow> transfers \<Rightarrow> transfer_event list) \<Rightarrow> transfer_job_id \<Rightarrow> raw_request list \<Rightarrow> raw_request list
    \<Rightarrow> transfers \<Rightarrow> transfers" where
  "advance others i p [] s = s"
| "advance others i p (q # qs) s =
     advance others i (p @ [q]) qs
       (let s1 = fold transfer_step (others (p @ [q]) s) s in case q of QProgress n \<Rightarrow> progress i n s1 | _ \<Rightarrow> s1)"

definition on_client :: "run_env \<Rightarrow> transfer_job_id \<Rightarrow> (raw_request list \<Rightarrow> 'b \<times> raw_request list) \<Rightarrow> run \<Rightarrow> 'b \<times> run" where
  "on_client e i m w =
     (case m (rn_trace w) of (r, tr') \<Rightarrow>
        (r, w\<lparr>rn_trace := tr',
              rn_tx := advance (ev_others e) i (rn_trace w) (drop (length (rn_trace w)) tr') (rn_tx w)\<rparr>))"

definition on_os :: "(os_call list \<Rightarrow> 'b \<times> os_call list) \<Rightarrow> run \<Rightarrow> 'b \<times> run" where
  "on_os m w = (case m (rn_os w) of (r, os') \<Rightarrow> (r, w\<lparr>rn_os := os'\<rparr>))"

definition on_tx :: "(transfers \<Rightarrow> 'b \<times> transfers) \<Rightarrow> run \<Rightarrow> 'b \<times> run" where
  "on_tx m w = (case m (rn_tx w) of (r, s') \<Rightarrow> (r, w\<lparr>rn_tx := s'\<rparr>))"

definition is_cancelled :: "run_env \<Rightarrow> run \<Rightarrow> bool" where
  "is_cancelled e w = rs_cancelled (rc_raw (ev_client e)) (rn_trace w)"

section \<open>The staging guard\<close>

definition guard_new :: "string \<Rightarrow> run \<Rightarrow> run" where
  "guard_new path w = w\<lparr>rn_guard := Some \<lparr>sg_path = path, sg_armed = True, sg_owned = False\<rparr>\<rparr>"

definition disarm :: "run \<Rightarrow> run" where
  "disarm w = w\<lparr>rn_guard := map_option (\<lambda>g. g\<lparr>sg_armed := False\<rparr>) (rn_guard w)\<rparr>"

definition cleanup :: "run_env \<Rightarrow> transfer_job_id \<Rightarrow> unit run_io" where
  "cleanup e i w =
     (case rn_guard w of
        None \<Rightarrow> (Ok (), w)
      | Some g \<Rightarrow>
          if sg_armed g \<and> sg_owned g
          then
            (case on_client e i (client_remove_owned_staging (ev_client e) (sg_path g)) w of
               (Ok _, w1) \<Rightarrow> (Ok (), disarm w1)
             | (Err err, w1) \<Rightarrow>
                 (Err (AppError_new (err_code err) ''Owned staging cleanup could not be confirmed; inspect the remote directory.''),
                  (disarm w1)\<lparr>rn_tx := mark_unconfirmed i (rn_tx w1)\<rparr>))
          else (Ok (), disarm w))"

text \<open>\<open>guard.cleanup().await?; return Err(error)\<close>, directly and after a step that failed.\<close>

definition clean_fail :: "run_env \<Rightarrow> transfer_job_id \<Rightarrow> app_error \<Rightarrow> 'a run_io" where
  "clean_fail e i err = io_bind (cleanup e i) (\<lambda>_. io_lift (Err err))"

definition or_clean :: "run_env \<Rightarrow> transfer_job_id \<Rightarrow> 'a run_io \<Rightarrow> 'a run_io" where
  "or_clean e i m w = (case m w of (Ok x, w1) \<Rightarrow> (Ok x, w1) | (Err err, w1) \<Rightarrow> clean_fail e i err w1)"

text \<open>What both workers do with the reply to the final request.\<close>

definition settle :: "run_env \<Rightarrow> transfer_job_id \<Rightarrow> string \<Rightarrow> unit run_io \<Rightarrow> unit run_io" where
  "settle e i unconfirmed m w =
     (case m w of
        (Ok _, w1) \<Rightarrow> (Ok (), disarm w1)
      | (Err err, w1) \<Rightarrow>
          (case cleanup e i w1 of
             (Ok _, w2) \<Rightarrow> (Err err, w2)
           | (Err cl, w2) \<Rightarrow>
               (Err (if err_code err = OutcomeUnknownCode then AppError_new OutcomeUnknownCode unconfirmed else cl), w2)))"

text \<open>The staged upload of both workers, from the new guard to the number of bytes streamed.\<close>

definition stage_upload :: "run_env \<Rightarrow> transfer_job_id \<Rightarrow> string option list \<Rightarrow> string \<Rightarrow> string \<Rightarrow> u64 run_io" where
  "stage_upload e i reads staging cancelled_text w =
     (let w1 = (guard_new staging w)\<lparr>rn_tx := set_job_state i JTransferring (rn_tx w)\<rparr>
      in case on_client e i (client_upload_staged (ev_client e) reads staging) w1 of (up, w2) \<Rightarrow>
        (let w3 = w2\<lparr>rn_guard := map_option (\<lambda>g. g\<lparr>sg_owned := staging_owned up\<rparr>) (rn_guard w2)\<rparr>
         in case up of
              Uploaded n \<Rightarrow> (Ok n, w3)
            | NotCreated err \<Rightarrow> (Err err, w3)
            | CreationOutcomeUnknown err \<Rightarrow> (Err err, w3)
            | OwnedFailure err \<Rightarrow>
                io_bind (cleanup e i) (\<lambda>_ w4.
                  (Err (if is_cancelled e w4 \<and> err_code err \<noteq> OutcomeUnknownCode
                        then AppError_new Cancelled cancelled_text else err), w4)) w3))"

section \<open>Uploads\<close>

definition cancelled_before_final :: app_error where
  "cancelled_before_final = AppError_new Cancelled ''The transfer was cancelled before finalization.''"

fun destination_matches :: "'i destination_action \<Rightarrow> 'i option \<Rightarrow> bool" where
  "destination_matches ACreateNew current = (current = None)"
| "destination_matches (AReplaceExisting expected) current = (current = Some expected)"
| "destination_matches ASkip current = True"

definition staging_path :: "string \<Rightarrow> string \<Rightarrow> string app_result" where
  "staging_path dst name = and_then (parent_remote dst) (\<lambda>parent. join_remote parent name)"

definition commit_upload :: "run_env \<Rightarrow> transfer_job_id \<Rightarrow> string \<Rightarrow> string \<Rightarrow> entry_identity destination_action \<Rightarrow> unit run_io" where
  "commit_upload e i staging dst action =
     (case action of
        AReplaceExisting _ \<Rightarrow> on_client e i (client_commit_replace (ev_client e) staging dst)
      | ACreateNew \<Rightarrow> on_client e i (client_commit_new (ev_client e) staging dst)
      | ASkip \<Rightarrow> io_lift (Ok ()))"

definition finish_upload ::
  "run_env \<Rightarrow> transfer_job_id \<Rightarrow> local_item \<Rightarrow> string \<Rightarrow> string \<Rightarrow> entry_identity destination_action \<Rightarrow> u64 \<Rightarrow> unit run_io" where
  "finish_upload e i src staging dst action streamed =
     (if streamed \<noteq> lc_size src
      then clean_fail e i (transfer_error ''The local source size changed during transfer.'')
      else
        io_bind (or_clean e i (on_os (validate_local_source (ev_os e) src))) (\<lambda>_ w.
          if is_cancelled e w then clean_fail e i cancelled_before_final w
          else
            io_bind (or_clean e i (on_tx (enter_finalizing i))) (\<lambda>_.
            io_bind (or_clean e i (on_client e i (client_identity (ev_client e) dst))) (\<lambda>current.
              if \<not> destination_matches action current
              then clean_fail e i (AppError_new Conflict ''The remote destination changed after approval.'')
              else settle e i ''The final mutation and owned staging cleanup could not be confirmed; refresh before taking another action.''
                     (commit_upload e i staging dst action))) w))"

definition run_upload :: "run_env \<Rightarrow> transfer_job_id \<Rightarrow> local_item \<Rightarrow> destination \<Rightarrow> unit run_io" where
  "run_upload e i src destination =
     (case destination of
        DestLocal _ _ _ \<Rightarrow> io_lift (Err (transfer_error ''Invalid upload destination.''))
      | DestRemote dst action \<Rightarrow>
          io_bind (on_os (validate_local_source (ev_os e) src)) (\<lambda>_.
          io_bind (on_os (os_try (ev_os e) (AppError_new LocalAccess ''The selected local source handle is unavailable.'')
              (OTryClone (lc_handle src)))) (\<lambda>_.
          io_bind (on_os (os_try (ev_os e) (AppError_new LocalAccess ''The selected local source could not be read from the beginning.'')
              (OSeekStart (lc_handle src)))) (\<lambda>_.
          io_bind (io_lift (staging_path dst (''.nexusops-'' @ ev_simple e i @ ''.part''))) (\<lambda>staging.
          io_bind (stage_upload e i (ev_reads e) staging ''The transfer was cancelled before finalization.'') (\<lambda>streamed.
            finish_upload e i src staging dst action streamed))))))"

section \<open>Editor saves\<close>

text \<open>Reading from a \<open>Cursor\<close> over the bytes, a chunk at a time.\<close>

fun cursor_reads :: "nat \<Rightarrow> string \<Rightarrow> string option list" where
  "cursor_reads n bytes = (if n = 0 \<or> bytes = [] then [] else Some (take n bytes) # cursor_reads n (drop n bytes))"

declare cursor_reads.simps [simp del]

definition same_text :: "run_env \<Rightarrow> string \<Rightarrow> string \<Rightarrow> bool" where
  "same_text e original bytes = (ev_digest e bytes = original)"

text \<open>One look at the remote file: its revision, then its contents; a difference is a conflict, reported with the stage's texts.\<close>

definition unchanged_check ::
  "run_env \<Rightarrow> transfer_job_id \<Rightarrow> string \<Rightarrow> editor_revision \<Rightarrow> string \<Rightarrow> string \<Rightarrow> string \<Rightarrow> unit run_io" where
  "unchanged_check e i dst expected original revision_text contents_text =
     io_bind (on_client e i (client_editor_revision (ev_client e) dst)) (\<lambda>current.
       if current \<noteq> expected then io_lift (Err (AppError_new Conflict revision_text))
       else
         io_bind (on_client e i (client_read_editor_bytes (ev_client e) dst)) (\<lambda>bytes.
           if \<not> same_text e original bytes then io_lift (Err (AppError_new Conflict contents_text))
           else io_lift (Ok ())))"

definition finish_editor_save ::
  "run_env \<Rightarrow> transfer_job_id \<Rightarrow> string \<Rightarrow> string \<Rightarrow> editor_revision \<Rightarrow> string \<Rightarrow> string \<Rightarrow> u64 \<Rightarrow> unit run_io" where
  "finish_editor_save e i staging dst expected original bytes streamed =
     (if streamed \<noteq> of_nat (length bytes)
      then clean_fail e i (transfer_error ''The editor staging byte count did not match.'')
      else
        io_bind (or_clean e i (on_client e i (client_preserve_editor_metadata (ev_client e) staging expected))) (\<lambda>_.
        io_bind (or_clean e i (unchanged_check e i dst expected original
            ''The remote file changed during editor staging.'' ''The remote file contents changed during editor staging.'')) (\<lambda>_.
        io_bind (or_clean e i (unchanged_check e i dst expected original
            ''The remote file changed before editor replacement.'' ''The remote file contents changed before editor replacement.'')) (\<lambda>_.
        io_bind (or_clean e i (on_tx (enter_finalizing i))) (\<lambda>_.
          settle e i ''Editor replacement and owned staging cleanup could not be confirmed.''
            (on_client e i (client_commit_replace (ev_client e) staging dst)))))))"

definition run_editor_save :: "run_env \<Rightarrow> transfer_job_id \<Rightarrow> string \<Rightarrow> source \<Rightarrow> unit run_io" where
  "run_editor_save e i dst src =
     (case src of
        SourceEditor bytes expected original \<Rightarrow>
          io_bind (unchanged_check e i dst expected original
            ''The remote file changed before editor save.'' ''The remote file contents changed before editor save.'') (\<lambda>_.
          io_bind (io_lift (staging_path dst (''.nexusops-'' @ ev_simple e i @ ''.edit.part''))) (\<lambda>staging.
          io_bind (stage_upload e i (cursor_reads (rc_write_chunk (ev_client e)) bytes) staging
              ''Editor save was cancelled before finalization.'') (\<lambda>streamed.
            finish_editor_save e i staging dst expected original bytes streamed)))
      | _ \<Rightarrow> io_lift (Err (transfer_error ''Invalid editor source.'')))"

section \<open>Downloads\<close>

definition source_unchanged :: "run_env \<Rightarrow> transfer_job_id \<Rightarrow> remote_source \<Rightarrow> string \<Rightarrow> unit run_io" where
  "source_unchanged e i src changed_text =
     io_bind (on_client e i (client_identity (ev_client e) (rs_path src))) (\<lambda>found.
       if found \<noteq> Some (rs_identity src) then io_lift (Err (AppError_new Conflict changed_text)) else io_lift (Ok ()))"

definition persist :: "run_env \<Rightarrow> string \<Rightarrow> string \<Rightarrow> local_identity destination_action \<Rightarrow> unit run_io" where
  "persist e path data action =
     (case action of
        AReplaceExisting _ \<Rightarrow>
          on_os (os_try (ev_os e) (AppError_new OutcomeUnknownCode ''The local Replace result could not be confirmed.'') (OPersist path data))
      | ACreateNew \<Rightarrow>
          on_os (os_try (ev_os e) (AppError_new Conflict ''The local destination appeared before finalization.'') (OPersistNoclobber path data))
      | ASkip \<Rightarrow> io_lift (Ok ()))"

definition finish_download ::
  "run_env \<Rightarrow> transfer_job_id \<Rightarrow> remote_source \<Rightarrow> local_directory \<Rightarrow> string \<Rightarrow> local_identity destination_action
    \<Rightarrow> u64 \<Rightarrow> string \<Rightarrow> unit run_io" where
  "finish_download e i src directory file_name action bytes out =
     (if rs_size src \<noteq> None \<and> rs_size src \<noteq> Some bytes
      then io_lift (Err (transfer_error ''The remote source size changed during transfer.''))
      else
        io_bind (source_unchanged e i src ''The remote source changed during transfer.'') (\<lambda>_.
        io_bind (on_os (os_try (ev_os e) (transfer_error ''The local staging file could not be synchronized.'') OSyncAll)) (\<lambda>_ w.
          if is_cancelled e w then (Err cancelled_before_final, w)
          else
            io_bind (on_tx (enter_finalizing i)) (\<lambda>_.
            io_bind (on_os (validate_local_directory_handle (ev_os e) directory)) (\<lambda>_.
            io_bind (on_os (probe_identity (ev_os e) (os_join (ev_os e) (ld_path directory) file_name))) (\<lambda>current.
              if \<not> destination_matches action current
              then io_lift (Err (AppError_new Conflict ''The local destination changed after approval.''))
              else persist e (os_join (ev_os e) (ld_path directory) file_name) out action))) w)))"

definition run_download :: "run_env \<Rightarrow> transfer_job_id \<Rightarrow> remote_source \<Rightarrow> destination \<Rightarrow> unit run_io" where
  "run_download e i src destination =
     (case destination of
        DestRemote _ _ \<Rightarrow> io_lift (Err (transfer_error ''Invalid download destination.''))
      | DestLocal directory file_name action \<Rightarrow>
          io_bind (source_unchanged e i src ''The remote source changed after approval.'') (\<lambda>_.
          io_bind (on_os (validate_local_directory_handle (ev_os e) directory)) (\<lambda>_.
          io_bind (on_os (os_try (ev_os e) (AppError_new LocalAccess ''A local staging file could not be created.'')
              (OCreateStaging (ld_path directory)))) (\<lambda>_ w.
            let w1 = w\<lparr>rn_tx := set_job_state i JTransferring (rn_tx w)\<rparr>
            in case on_client e i (client_download (ev_client e) (ev_writer e) (rs_path src)) w1 of ((r, out), w2) \<Rightarrow>
              (case r of
                 Ok bytes \<Rightarrow> finish_download e i src directory file_name action bytes out w2
               | Err err \<Rightarrow>
                   (Err (if is_cancelled e w2 \<and> err_code err \<noteq> OutcomeUnknownCode then cancelled_before_final else err), w2))))))"

section \<open>The job\<close>

fun skips :: "destination \<Rightarrow> bool" where
  "skips (DestRemote _ action) = (action = ASkip)"
| "skips (DestLocal _ _ action) = (action = ASkip)"

definition run_transfer :: "run_env \<Rightarrow> transfer_job_id \<Rightarrow> job_spec \<Rightarrow> unit run_io" where
  "run_transfer e i spec =
     (if skips (js_destination spec) then io_lift (Ok ())
      else case (js_source spec, js_destination spec) of
        (SourceEditor bytes expected original, DestRemote path _) \<Rightarrow>
          run_editor_save e i path (SourceEditor bytes expected original)
      | (SourceLocal item, DestRemote path action) \<Rightarrow> run_upload e i item (DestRemote path action)
      | (SourceRemote src, DestLocal directory file_name action) \<Rightarrow> run_download e i src (DestLocal directory file_name action)
      | _ \<Rightarrow> io_lift (Err (transfer_error ''Invalid transfer specification.'')))"

section \<open>Mutations and the entry point\<close>

definition execute_mutation :: "raw_client \<Rightarrow> mutation_spec \<Rightarrow> unit client_io" where
  "execute_mutation c spec =
     (case spec of
        MCreateDirectory path \<Rightarrow> client_create_dir c path
      | MRename src dst expected_source \<Rightarrow>
          io_bind (client_identity c src) (\<lambda>found.
            if found \<noteq> Some expected_source
            then io_lift (Err (AppError_new Conflict ''The remote source changed after approval.''))
            else client_rename_noclobber c src dst)
      | MDelete path kind expected \<Rightarrow>
          io_bind (client_identity c path) (\<lambda>found.
            if found \<noteq> Some expected
            then io_lift (Err (AppError_new Conflict ''The remote entry changed after approval.''))
            else case kind of
              KFile \<Rightarrow> client_remove_file c path
            | KSymlink \<Rightarrow> client_remove_file c path
            | KDirectory \<Rightarrow> client_remove_dir c path
            | _ \<Rightarrow> io_lift (Err (AppError_new FilePolicy ''Special files cannot be deleted.''))))"

text \<open>\<open>TransferManager::execute\<close>: mutations run at once, transfers are queued.\<close>

definition execute_plan ::
  "raw_client \<Rightarrow> text_formats \<Rightarrow> transfer_job_id list \<Rightarrow> internal_plan \<Rightarrow> raw_request list \<times> transfers
    \<Rightarrow> transfer_job list app_result \<times> raw_request list \<times> transfers" where
  "execute_plan c fmt ids plan st =
     (case st of (tr, s) \<Rightarrow>
        (case ip_payload plan of
           MutationPayload _ spec \<Rightarrow>
             (case execute_mutation c spec tr of (r, tr') \<Rightarrow> (and_then r (\<lambda>_. Ok []), tr', s))
         | EditorSave client path expected original bytes \<Rightarrow>
             (case enqueue_batch fmt ids [editor_spec client path expected original bytes] s of (r, s') \<Rightarrow> (r, tr, s'))
         | UploadPayload client _ items \<Rightarrow>
             (case enqueue_batch fmt ids (map (upload_spec client) items) s of (r, s') \<Rightarrow> (r, tr, s'))
         | DownloadPayload client _ items \<Rightarrow>
             (case enqueue_batch fmt ids (map (download_spec client) items) s of (r, s') \<Rightarrow> (r, tr, s'))))"

end
