(* ===== verification/Transfer_Work.thy ===== *)
theory Transfer_Work
  imports Transfer_Run
begin

text \<open>
  What the workers of \<open>Transfer_Run\<close> guarantee, whatever the server, the operating system and the other tasks do:
  they touch the server only at their own staging path and at the approved destination, their effect on the manager is a
  sequence of steps of the queue, they commit only what was approved, and they never leave an owned staging file unaccounted for.
\<close>

section \<open>Paths of a job\<close>

definition staging_name :: "run_env \<Rightarrow> transfer_job_id \<Rightarrow> source \<Rightarrow> string" where
  "staging_name e i src = ''.nexusops-'' @ ev_simple e i @ (case src of SourceEditor _ _ _ \<Rightarrow> ''.edit.part'' | _ \<Rightarrow> ''.part'')"

text \<open>What a job may change on the server: its destination and its staging path for what goes up, nothing for a download.\<close>

definition touched :: "run_env \<Rightarrow> transfer_job_id \<Rightarrow> job_spec \<Rightarrow> string set" where
  "touched e i spec =
     (case (js_source spec, js_destination spec) of
        (SourceRemote _, _) \<Rightarrow> {}
      | (src, DestRemote dst _) \<Rightarrow>
          insert dst (case staging_path dst (staging_name e i src) of Ok staging \<Rightarrow> {staging} | Err _ \<Rightarrow> {})
      | _ \<Rightarrow> {})"

lemma io_bind_pure: "io_bind (io_lift (Ok x)) f = f x" "io_bind (io_lift (Err y)) f = io_lift (Err y)"
  by (simp_all add: fun_eq_iff)

section \<open>Relations that every worker keeps\<close>

text \<open>
  \<open>R\<close> relates the situation before a piece of a worker to the one after it. It is enough that the elementary steps keep
  it: requests that satisfy \<open>ok\<close>, calls of the operating system, the guard, and the worker's own reports.
\<close>

locale worker =
  fixes e :: run_env and i :: transfer_job_id and ok :: "raw_request \<Rightarrow> bool" and R :: "run \<Rightarrow> run \<Rightarrow> bool"
  assumes R_refl: "R w w"
    and R_trans: "R w w1 \<Longrightarrow> R w1 w2 \<Longrightarrow> R w w2"
    and R_requests: "list_all ok qs \<Longrightarrow>
      R w (w\<lparr>rn_trace := rn_trace w @ qs, rn_tx := advance (ev_others e) i (rn_trace w) qs (rn_tx w)\<rparr>)"
    and R_os: "R w (w\<lparr>rn_os := os\<rparr>)"
    and R_guard: "R w (w\<lparr>rn_guard := g\<rparr>)"
    and R_streams: "R w (w\<lparr>rn_tx := set_job_state i JTransferring (rn_tx w)\<rparr>)"
    and R_finalizing: "R w (w\<lparr>rn_tx := snd (enter_finalizing i (rn_tx w))\<rparr>)"
    and R_unconfirmed: "R w (w\<lparr>rn_tx := mark_unconfirmed i (rn_tx w)\<rparr>)"
begin

definition staged :: "run \<Rightarrow> bool" where
  "staged w \<longleftrightarrow> (\<forall>g. rn_guard w = Some g \<longrightarrow> ok (QRemove (sg_path g)))"

definition safe :: "(run \<Rightarrow> 'a \<times> run) \<Rightarrow> bool" where
  "safe m \<longleftrightarrow> (\<forall>w. staged w \<longrightarrow> R w (snd (m w)) \<and> staged (snd (m w)))"

lemma safeI: "(\<And>w. staged w \<Longrightarrow> R w (snd (m w)) \<and> staged (snd (m w))) \<Longrightarrow> safe m"
  by (simp add: safe_def)

lemma safeD: "safe m \<Longrightarrow> staged w \<Longrightarrow> m w = (r, w') \<Longrightarrow> R w w' \<and> staged w'"
  unfolding safe_def by (metis snd_conv)

lemma safe_bind:
  assumes "safe m" "\<And>x. safe (f x)"
  shows "safe (io_bind m f)"
proof (rule safeI)
  fix w
  assume st: "staged w"
  obtain r w1 where m: "m w = (r, w1)" by (cases "m w")
  have w1: "R w w1" "staged w1" using safeD [OF assms(1) st m] by auto
  show "R w (snd (io_bind m f w)) \<and> staged (snd (io_bind m f w))"
  proof (cases r)
    case (Ok x)
    obtain y w2 where f: "f x w1 = (y, w2)" by (cases "f x w1")
    show ?thesis using safeD [OF assms(2) w1(2) f] m Ok f w1(1) by (auto intro: R_trans)
  qed (use m w1 in auto)
qed

lemma safe_lift: "safe (io_lift r)"
  by (simp add: safe_def R_refl)

lemma safe_if: "safe m \<Longrightarrow> safe n \<Longrightarrow> safe (\<lambda>w. if b w then m w else n w)"
  by (simp add: safe_def)

lemma safe_if_plain: "safe m \<Longrightarrow> safe n \<Longrightarrow> safe (if b then m else n)"
  by simp

lemma safe_client:
  assumes m: "sends ok m"
  shows "safe (on_client e i m)"
proof (rule safeI)
  fix w
  assume st: "staged w"
  obtain r tr' where r: "m (rn_trace w) = (r, tr')" by (cases "m (rn_trace w)")
  from sendsD [OF m r] obtain qs where "tr' = rn_trace w @ qs" "list_all ok qs" by blast
  with R_requests [of qs w] r st show "R w (snd (on_client e i m w)) \<and> staged (snd (on_client e i m w))"
    by (simp add: on_client_def staged_def)
qed

lemma safe_os: "safe (on_os m)"
  by (auto simp: safe_def staged_def on_os_def R_os split: prod.split)

lemma safe_finalizing: "safe (on_tx (enter_finalizing i))"
  using R_finalizing by (auto simp: safe_def staged_def on_tx_def split: prod.split) (metis snd_conv)

lemma safe_disarm: "staged w \<Longrightarrow> R w (disarm w) \<and> staged (disarm w)"
  by (auto simp: staged_def disarm_def R_guard)

lemma safe_cleanup: "safe (cleanup e i)"
proof (rule safeI)
  fix w
  assume st: "staged w"
  show "R w (snd (cleanup e i w)) \<and> staged (snd (cleanup e i w))"
  proof (cases "\<exists>g. rn_guard w = Some g \<and> sg_armed g \<and> sg_owned g")
    case True
    then obtain g where g: "rn_guard w = Some g" "sg_armed g" "sg_owned g" by blast
    let ?m = "client_remove_owned_staging (ev_client e) (sg_path g)"
    obtain r w1 where m: "on_client e i ?m w = (r, w1)" by (cases "on_client e i ?m w")
    have "sends ok ?m" using st g(1) by (auto simp: staged_def intro: sends_intros)
    then have w1: "R w w1" "staged w1" using safeD [OF safe_client st m] by auto
    then have d: "R w (disarm w1)" "staged (disarm w1)" using safe_disarm R_trans by blast+
    have "R w ((disarm w1)\<lparr>rn_tx := mark_unconfirmed i (rn_tx w1)\<rparr>)"
      using R_trans [OF d(1) R_unconfirmed] by (simp add: disarm_def)
    with d g m show ?thesis by (auto simp: cleanup_def staged_def split: result.split)
  next
    case False
    then show ?thesis using st R_refl safe_disarm [OF st] by (auto simp: cleanup_def split: option.split)
  qed
qed

lemma safe_clean_fail: "safe (clean_fail e i err)"
  unfolding clean_fail_def by (intro safe_bind safe_cleanup safe_lift)

lemma safe_or_clean:
  assumes "safe m"
  shows "safe (or_clean e i m)"
proof (rule safeI)
  fix w
  assume st: "staged w"
  obtain r w1 where m: "m w = (r, w1)" by (cases "m w")
  have w1: "R w w1" "staged w1" using safeD [OF assms st m] by auto
  show "R w (snd (or_clean e i m w)) \<and> staged (snd (or_clean e i m w))"
  proof (cases r)
    case (Err err)
    then have eq: "or_clean e i m w = clean_fail e i err w1" using m by (simp add: or_clean_def)
    obtain y w2 where c: "or_clean e i m w = (y, w2)" by (cases "or_clean e i m w")
    show ?thesis using R_trans [OF w1(1)] safeD [OF safe_clean_fail w1(2) c [unfolded eq]] by (simp add: c)
  qed (use m w1 in \<open>simp add: or_clean_def\<close>)
qed

lemma safe_settle:
  assumes "safe m"
  shows "safe (settle e i t m)"
proof (rule safeI)
  fix w
  assume st: "staged w"
  obtain r w1 where m: "m w = (r, w1)" by (cases "m w")
  have w1: "R w w1" "staged w1" using safeD [OF assms st m] by auto
  obtain y w2 where c: "cleanup e i w1 = (y, w2)" by (cases "cleanup e i w1")
  show "R w (snd (settle e i t m w)) \<and> staged (snd (settle e i t m w))"
    using m w1(1) c R_trans [OF w1(1)] safeD [OF safe_cleanup w1(2) c] safe_disarm [OF w1(2)]
    by (simp add: settle_def split: result.split)
qed

lemma safe_stage_upload:
  assumes "sends ok (client_upload_staged (ev_client e) reads staging)" "ok (QRemove staging)"
  shows "safe (stage_upload e i reads staging t)"
proof (rule safeI)
  fix w
  assume "staged w"
  let ?m = "client_upload_staged (ev_client e) reads staging"
  define w1 where "w1 = (guard_new staging w)\<lparr>rn_tx := set_job_state i JTransferring (rn_tx w)\<rparr>"
  have "w1 = (guard_new staging w)\<lparr>rn_tx := set_job_state i JTransferring (rn_tx (guard_new staging w))\<rparr>"
    by (simp add: w1_def guard_new_def)
  then have w1: "R w w1" "staged w1"
    using R_trans [OF R_guard R_streams, of w] assms(2) by (auto simp: guard_new_def staged_def)
  obtain up w2 where m: "on_client e i ?m w1 = (up, w2)" by (cases "on_client e i ?m w1")
  have w2: "R w1 w2" "staged w2" using safeD [OF safe_client [OF assms(1)] w1(2) m] by auto
  define w3 where "w3 = w2\<lparr>rn_guard := map_option (\<lambda>g. g\<lparr>sg_owned := staging_owned up\<rparr>) (rn_guard w2)\<rparr>"
  have w3: "R w w3" "staged w3"
    using R_trans [OF R_trans [OF w1(1) w2(1)] R_guard] w2(2) by (auto simp: w3_def staged_def)
  define k :: "app_error \<Rightarrow> u64 run_io" where "k x = io_bind (cleanup e i) (\<lambda>_ w4.
    (Err (if is_cancelled e w4 \<and> err_code x \<noteq> OutcomeUnknownCode then AppError_new Cancelled t else x), w4))" for x
  have "safe (k x)" for x unfolding k_def by (intro safe_bind safe_cleanup) (simp add: safe_def R_refl)
  then have "R w3 (snd (k x w3)) \<and> staged (snd (k x w3))" for x using w3(2) by (simp add: safe_def)
  then have "R w (snd (k x w3)) \<and> staged (snd (k x w3))" for x using R_trans [OF w3(1)] by simp
  with w3 m show "R w (snd (stage_upload e i reads staging t w)) \<and> staged (snd (stage_upload e i reads staging t w))"
    by (simp add: stage_upload_def w1_def [symmetric] w3_def [symmetric] k_def [symmetric] split: staged_upload.split)
qed

lemma safe_unchanged_check:
  assumes "ok (QLstat dst)" "ok (QOpenRead dst)" "\<And>h. ok (QFstat h) \<and> ok (QClose h)" "\<And>h off n. ok (QRead h off n)"
  shows "safe (unchanged_check e i dst expected original t1 t2)"
  unfolding unchanged_check_def
  by (intro safe_bind safe_if_plain safe_client safe_lift sends_intros) (use assms in auto)

lemma safe_source_unchanged: "ok (QLstat (rs_path src)) \<Longrightarrow> safe (source_unchanged e i src t)"
  unfolding source_unchanged_def
  by (intro safe_bind safe_if_plain safe_client safe_lift sends_intros)

lemma safe_commit_upload:
  assumes "\<And>q. changes q \<subseteq> {staging, dst} \<Longrightarrow> ok q"
  shows "safe (commit_upload e i staging dst action)"
  unfolding commit_upload_def
  by (cases action)
    (auto intro!: safe_client safe_lift sends_intros assms simp: renamed_paths_encoded simp del: io_lift_apply)

lemma safe_run_upload:
  assumes "\<And>staging q. staging_path dst (''.nexusops-'' @ ev_simple e i @ ''.part'') = Ok staging \<Longrightarrow>
    changes q \<subseteq> {staging, dst} \<Longrightarrow> ok q"
  shows "safe (run_upload e i src (DestRemote dst action))"
proof (cases "staging_path dst (''.nexusops-'' @ ev_simple e i @ ''.part'')")
  case (Ok staging)
  have ok: "ok q" if "changes q \<subseteq> {staging, dst}" for q using assms [OF Ok that] .
  have "safe (finish_upload e i src staging dst action n)" for n
    unfolding finish_upload_def
    by (intro safe_if_plain safe_if safe_clean_fail safe_bind safe_or_clean safe_os safe_finalizing safe_client
        safe_settle safe_commit_upload sends_intros ok) simp_all
  then show ?thesis
    unfolding run_upload_def destination.case Ok io_bind_pure
    by (intro safe_bind safe_os safe_stage_upload sends_intros conjI ok) simp_all
next
  case (Err x)
  show ?thesis
    unfolding run_upload_def destination.case Err io_bind_pure by (intro safe_bind safe_os safe_lift)
qed

lemma safe_run_editor_save:
  assumes "\<And>q. changes q = {} \<Longrightarrow> ok q"
    and "\<And>staging q. staging_path dst (''.nexusops-'' @ ev_simple e i @ ''.edit.part'') = Ok staging \<Longrightarrow>
      changes q \<subseteq> {staging, dst} \<Longrightarrow> ok q"
  shows "safe (run_editor_save e i dst (SourceEditor bytes expected original))"
proof (cases "staging_path dst (''.nexusops-'' @ ev_simple e i @ ''.edit.part'')")
  case (Ok staging)
  have ok: "ok q" if "changes q \<subseteq> {staging, dst}" for q using assms(2) [OF Ok that] .
  have "safe (finish_editor_save e i staging dst expected original bytes n)" for n
    unfolding finish_editor_save_def
    by (intro safe_if_plain safe_clean_fail safe_bind safe_or_clean safe_finalizing safe_client safe_unchanged_check
        safe_settle sends_intros conjI ok) (simp_all add: renamed_paths_encoded)
  then show ?thesis
    unfolding run_editor_save_def source.case Ok io_bind_pure
    by (intro safe_bind safe_unchanged_check safe_stage_upload sends_intros conjI ok) simp_all
next
  case (Err x)
  show ?thesis
    unfolding run_editor_save_def source.case Err io_bind_pure
    by (intro safe_bind safe_unchanged_check safe_lift conjI assms(1)) simp_all
qed

lemma safe_finish_download:
  assumes "\<And>q. changes q = {} \<Longrightarrow> ok q"
  shows "safe (finish_download e i src directory file_name action n out)"
proof -
  have "safe (persist e path out action)" for path
    unfolding persist_def by (cases action) (auto intro!: safe_os safe_lift simp del: io_lift_apply)
  moreover have "safe (\<lambda>w. (Err cancelled_before_final :: unit app_result, w))" by (simp add: safe_def R_refl)
  ultimately show ?thesis
    unfolding finish_download_def
    by (intro safe_if_plain safe_if safe_bind safe_os safe_finalizing safe_source_unchanged safe_lift assms) simp_all
qed

lemma safe_run_download:
  assumes "\<And>q. changes q = {} \<Longrightarrow> ok q"
  shows "safe (run_download e i src (DestLocal directory file_name action))"
proof -
  let ?m = "client_download (ev_client e) (ev_writer e) (rs_path src)"
  let ?body = "\<lambda>w. let w1 = w\<lparr>rn_tx := set_job_state i JTransferring (rn_tx w)\<rparr>
      in case on_client e i ?m w1 of ((r, out), w2) \<Rightarrow>
        (case r of
           Ok bytes \<Rightarrow> finish_download e i src directory file_name action bytes out w2
         | Err err \<Rightarrow>
             (Err (if is_cancelled e w2 \<and> err_code err \<noteq> OutcomeUnknownCode then cancelled_before_final else err), w2))"
  have dl: "sends ok ?m" by (intro sends_intros assms) simp_all
  have "safe ?body"
  proof (rule safeI)
    fix w
    assume st: "staged w"
    let ?w1 = "w\<lparr>rn_tx := set_job_state i JTransferring (rn_tx w)\<rparr>"
    have w1: "R w ?w1" "staged ?w1" using st R_streams by (auto simp: staged_def)
    obtain r out w2 where m: "on_client e i ?m ?w1 = ((r, out), w2)" by (metis prod.collapse)
    have w2: "R w w2" "staged w2" using safeD [OF safe_client [OF dl] w1(2) m] R_trans [OF w1(1)] by auto
    show "R w (snd (?body w)) \<and> staged (snd (?body w))"
    proof (cases r)
      case (Ok bytes)
      obtain y w3 where f: "finish_download e i src directory file_name action bytes out w2 = (y, w3)" by (metis prod.collapse)
      have "R w2 w3 \<and> staged w3" using safeD [OF safe_finish_download w2(2) f] assms by blast
      then show ?thesis using m Ok f R_trans [OF w2(1)] by simp
    qed (use m w2 in simp)
  qed
  then show ?thesis
    unfolding run_download_def destination.case
    by (intro safe_bind safe_os safe_source_unchanged assms) simp_all
qed

lemma safe_run_transfer:
  assumes "\<And>q. changes q \<subseteq> touched e i spec \<Longrightarrow> ok q"
  shows "safe (run_transfer e i spec)"
proof -
  have idle: "safe (io_lift r)" for r :: "unit app_result" by (rule safe_lift)
  show ?thesis
  proof (cases "skips (js_destination spec)")
    case True
    then show ?thesis unfolding run_transfer_def using idle by simp
  next
    case False
    show ?thesis
    proof (cases "js_source spec")
      case (SourceLocal item)
      show ?thesis
      proof (cases "js_destination spec")
        case (DestRemote dst action)
        have "safe (run_upload e i item (DestRemote dst action))"
          by (rule safe_run_upload, rule assms)
            (simp add: touched_def SourceLocal DestRemote staging_name_def insert_commute)
        with False SourceLocal DestRemote show ?thesis by (simp add: run_transfer_def)
      qed (use False SourceLocal idle in \<open>simp add: run_transfer_def del: io_lift_apply\<close>)
    next
      case (SourceRemote src)
      show ?thesis
      proof (cases "js_destination spec")
        case (DestLocal directory file_name action)
        have "safe (run_download e i src (DestLocal directory file_name action))"
          by (rule safe_run_download, rule assms) simp
        with False SourceRemote DestLocal show ?thesis by (simp add: run_transfer_def)
      qed (use False SourceRemote idle in \<open>simp add: run_transfer_def del: io_lift_apply\<close>)
    next
      case (SourceEditor bytes expected original)
      show ?thesis
      proof (cases "js_destination spec")
        case (DestRemote dst action)
        have "safe (run_editor_save e i dst (SourceEditor bytes expected original))"
          by (rule safe_run_editor_save; rule assms)
            (simp_all add: touched_def SourceEditor DestRemote staging_name_def insert_commute)
        with False SourceEditor DestRemote show ?thesis by (simp add: run_transfer_def)
      qed (use False SourceEditor idle in \<open>simp add: run_transfer_def del: io_lift_apply\<close>)
    qed
  qed
qed

end

section \<open>The requests of a worker\<close>

interpretation requests: worker e i ok "\<lambda>w w'. \<exists>qs. rn_trace w' = rn_trace w @ qs \<and> list_all ok qs" for e i ok
proof unfold_locales
  fix w w1 w2 :: run
  assume "\<exists>qs. rn_trace w1 = rn_trace w @ qs \<and> list_all ok qs" "\<exists>qs. rn_trace w2 = rn_trace w1 @ qs \<and> list_all ok qs"
  then show "\<exists>qs. rn_trace w2 = rn_trace w @ qs \<and> list_all ok qs" by (metis append.assoc list_all_append)
qed auto

section \<open>The worker as steps of the queue\<close>

text \<open>The events that move the task of job \<open>i\<close> from one phase to another.\<close>

fun moves_task :: "transfer_job_id \<Rightarrow> transfer_event \<Rightarrow> bool" where
  "moves_task i (JTaskCancelled k) = (k = i)"
| "moves_task i (JTakesHost k) = (k = i)"
| "moves_task i (JTakesGlobal k) = (k = i)"
| "moves_task i (JPrepares k) = (k = i)"
| "moves_task i (JLocks k) = (k = i)"
| "moves_task i (JReleases k _) = (k = i)"
| "moves_task i (JReports k _) = (k = i)"
| "moves_task i (JAborts k _) = (k = i)"
| "moves_task i _ = False"

text \<open>The other tasks take enabled steps only, and none of them is this task's.\<close>

definition others_behave :: "run_env \<Rightarrow> transfer_job_id \<Rightarrow> bool" where
  "others_behave e i \<longleftrightarrow>
     (\<forall>p s. enabled_run transfer_enabled transfer_step (ev_others e p s) s \<and> list_all (\<lambda>ev. \<not> moves_task i ev) (ev_others e p s))"

definition queue_path :: "transfer_job_id \<Rightarrow> transfers \<Rightarrow> transfers \<Rightarrow> bool" where
  "queue_path i s s' \<longleftrightarrow>
     (\<exists>evs. s' = fold transfer_step evs s \<and> enabled_run transfer_enabled transfer_step evs s \<and> task_phase_of s' i = Some PRun)"

lemma phase_kept:
  assumes "transfer_enabled ev s" "\<not> moves_task i ev" "task_phase_of s i = Some p"
  shows "task_phase_of (transfer_step ev s) i = Some p"
proof (cases "queue_event ev")
  case False
  then show ?thesis using queue_of_step [THEN queue_of_eqD(1)] assms(3) by (simp add: task_phase_of_def)
next
  case True
  obtain t where t: "fmlookup (tx_tasks s) i = Some t" "tk_phase t = p" using assms(3) by (auto simp: task_phase_of_def)
  have "fmlookup (tx_tasks (transfer_step ev s)) i = Some t"
  proof (cases ev)
    case (JEnqueue fmt ids specs)
    with assms(1) t(1) have fresh: "i \<notin> set ids" by (auto simp: list_all_iff)
    have "fmlookup (tx_tasks (fold (insert_job fmt) ps s1)) i = fmlookup (tx_tasks s1) i" if "i \<notin> fst ` set ps" for ps s1
      using that by (induction ps arbitrary: s1) (auto simp: insert_job_def split: prod.split)
    moreover have "i \<notin> fst ` set (zip ids specs)" using fresh by (auto dest: set_zip_leftD)
    ultimately show ?thesis using JEnqueue t(1) by (simp add: enqueue_batch_def Let_def)
  next
    case (JTaskCancelled k)
    with assms(2) t(1) show ?thesis
      by (auto simp: on_task_def task_defs Let_def end_task_def split: option.split task_phase.split)
  next
    case (JPrepares k)
    with assms(2) have "fmlookup (tx_tasks (task_prepares k u s)) i = Some t" for u
      using task_prepares_frame(1) [of k u s] t(1) by auto
    with JPrepares t(1) show ?thesis by (simp add: on_task_def split: option.split)
  next
    case (JReports k r)
    with assms(2) t(1) show ?thesis by (auto simp: on_task_def task_reports_def end_task_def split: option.split)
  next
    case (JAborts k owned)
    with assms(2) t(1) show ?thesis by (auto simp: on_task_def task_aborts_frame split: option.split)
  qed (use assms(2) t(1) True in \<open>auto simp: on_task_def task_defs set_phase_def unlock_def split: option.split\<close>)
  with t(2) show ?thesis by (simp add: task_phase_of_def)
qed

lemma phase_kept_run:
  "enabled_run transfer_enabled transfer_step evs s \<Longrightarrow> list_all (\<lambda>ev. \<not> moves_task i ev) evs \<Longrightarrow>
   task_phase_of s i = Some p \<Longrightarrow> task_phase_of (fold transfer_step evs s) i = Some p"
  by (induction evs arbitrary: s) (auto simp: phase_kept)

lemma queue_path_refl: "task_phase_of s i = Some PRun \<Longrightarrow> queue_path i s s"
  unfolding queue_path_def by (intro exI [of _ "[]"]) simp

lemma queue_path_trans: "queue_path i s s1 \<Longrightarrow> queue_path i s1 s2 \<Longrightarrow> queue_path i s s2"
  unfolding queue_path_def
proof (elim exE conjE)
  fix xs ys
  assume "s1 = fold transfer_step xs s" "enabled_run transfer_enabled transfer_step xs s"
    "s2 = fold transfer_step ys s1" "enabled_run transfer_enabled transfer_step ys s1" "task_phase_of s2 i = Some PRun"
  then show "\<exists>evs. s2 = fold transfer_step evs s \<and> enabled_run transfer_enabled transfer_step evs s \<and> task_phase_of s2 i = Some PRun"
    by (intro exI [of _ "xs @ ys"]) (simp add: enabled_run_append)
qed

lemma queue_path_step:
  assumes "task_phase_of s i = Some PRun" "ev \<in> {JStreams i, JProgress i n, JEntersFinalizing i, JUnconfirmed i}"
  shows "queue_path i s (transfer_step ev s)"
proof -
  have "\<not> moves_task i ev" "transfer_enabled ev s" using assms by auto
  with assms(1) show ?thesis
    unfolding queue_path_def by (intro exI [of _ "[ev]"]) (simp add: phase_kept)
qed

lemma queue_path_run: "queue_path i s s' \<Longrightarrow> task_phase_of s' i = Some PRun"
  by (auto simp: queue_path_def)

lemma queue_path_advance:
  assumes "others_behave e i"
  shows "task_phase_of s i = Some PRun \<Longrightarrow> queue_path i s (advance (ev_others e) i p qs s)"
proof (induction qs arbitrary: p s)
  case (Cons q qs)
  let ?evs = "ev_others e (p @ [q]) s"
  let ?s1 = "fold transfer_step ?evs s"
  let ?s2 = "case q of QProgress n \<Rightarrow> progress i n ?s1 | _ \<Rightarrow> ?s1"
  have ev: "enabled_run transfer_enabled transfer_step ?evs s" "list_all (\<lambda>ev. \<not> moves_task i ev) ?evs"
    using assms by (auto simp: others_behave_def)
  then have s1: "queue_path i s ?s1" using phase_kept_run [OF ev Cons.prems] by (auto simp: queue_path_def)
  have "queue_path i ?s1 ?s2"
    using queue_path_step [OF queue_path_run [OF s1]] queue_path_refl [OF queue_path_run [OF s1]]
    by (cases q) (auto simp: all_conj_distrib dest: spec [of _ "JProgress i _"], force)
  then have "queue_path i s ?s2" using s1 queue_path_trans by blast
  with Cons.IH [OF queue_path_run [OF this], of "p @ [q]"] show ?case
    by (simp add: Let_def) (blast intro: queue_path_trans)
qed (simp add: queue_path_refl)

interpretation queue_steps: worker e i "\<lambda>_. True"
  "\<lambda>w w'. others_behave e i \<longrightarrow> task_phase_of (rn_tx w) i = Some PRun \<longrightarrow> queue_path i (rn_tx w) (rn_tx w')" for e i
proof unfold_locales
  fix w w1 w2 :: run
  assume "others_behave e i \<longrightarrow> task_phase_of (rn_tx w) i = Some PRun \<longrightarrow> queue_path i (rn_tx w) (rn_tx w1)"
    "others_behave e i \<longrightarrow> task_phase_of (rn_tx w1) i = Some PRun \<longrightarrow> queue_path i (rn_tx w1) (rn_tx w2)"
  then show "others_behave e i \<longrightarrow> task_phase_of (rn_tx w) i = Some PRun \<longrightarrow> queue_path i (rn_tx w) (rn_tx w2)"
    using queue_path_run queue_path_trans by blast
next
  fix w :: run
  show "others_behave e i \<longrightarrow> task_phase_of (rn_tx w) i = Some PRun \<longrightarrow>
      queue_path i (rn_tx w) (rn_tx (w\<lparr>rn_tx := set_job_state i JTransferring (rn_tx w)\<rparr>))"
    using queue_path_step [of "rn_tx w" i "JStreams i"] by simp
  show "others_behave e i \<longrightarrow> task_phase_of (rn_tx w) i = Some PRun \<longrightarrow>
      queue_path i (rn_tx w) (rn_tx (w\<lparr>rn_tx := snd (enter_finalizing i (rn_tx w))\<rparr>))"
    using queue_path_step [of "rn_tx w" i "JEntersFinalizing i"] by simp
  show "others_behave e i \<longrightarrow> task_phase_of (rn_tx w) i = Some PRun \<longrightarrow>
      queue_path i (rn_tx w) (rn_tx (w\<lparr>rn_tx := mark_unconfirmed i (rn_tx w)\<rparr>))"
    using queue_path_step [of "rn_tx w" i "JUnconfirmed i"] by simp
qed (auto simp: queue_path_refl queue_path_advance)

end
