(* ===== verification/Transfer_Guarantees.thy ===== *)
theory Transfer_Guarantees
  imports Transfer_Work
begin

text \<open>
  The guarantees of a transfer job's run: where it writes, when it commits, what a success means, and what happens to the
  staging file when it fails.
\<close>

section \<open>The staging file\<close>

text \<open>The server confirmed that the staging path is gone.\<close>

definition removal_confirmed :: "raw_session \<Rightarrow> raw_request list \<Rightarrow> string \<Rightarrow> bool" where
  "removal_confirmed raw tr path \<longleftrightarrow>
     (\<exists>p rest. tr = p @ QRemove path # rest
        \<and> rs_status raw (p @ [QRemove path]) \<in> {Ok StOk, Ok StNoSuchFile, Err (SStatus StNoSuchFile)})"

text \<open>The job, if it is still listed, is marked: its staging file may be left behind.\<close>

definition flagged :: "transfer_job_id \<Rightarrow> transfers \<Rightarrow> bool" where
  "flagged i s \<longleftrightarrow> tx_poisoned s \<or> (\<forall>j. fmlookup (tx_jobs s) i = Some j \<longrightarrow> jr_cleanup_unconfirmed j)"

definition armed_at :: "string \<Rightarrow> run \<Rightarrow> bool" where
  "armed_at path w \<longleftrightarrow> rn_guard w = Some \<lparr>sg_path = path, sg_armed = True, sg_owned = True\<rparr>"

definition accounted :: "run_env \<Rightarrow> transfer_job_id \<Rightarrow> string \<Rightarrow> 'a app_result \<Rightarrow> run \<Rightarrow> bool" where
  "accounted e i path r w \<longleftrightarrow> rn_guard w = Some \<lparr>sg_path = path, sg_armed = False, sg_owned = True\<rparr>
     \<and> (is_ok r \<or> removal_confirmed (rc_raw (ev_client e)) (rn_trace w) path \<or> flagged i (rn_tx w))"

text \<open>A step that keeps the guard armed or fails with the staging file accounted for; and a worker's last step.\<close>

definition passes :: "run_env \<Rightarrow> transfer_job_id \<Rightarrow> string \<Rightarrow> 'a run_io \<Rightarrow> bool" where
  "passes e i path m \<longleftrightarrow> (\<forall>w r w'. armed_at path w \<longrightarrow> m w = (r, w') \<longrightarrow>
     (if is_ok r then armed_at path w' else accounted e i path r w'))"

definition finishes :: "run_env \<Rightarrow> transfer_job_id \<Rightarrow> string \<Rightarrow> 'a run_io \<Rightarrow> bool" where
  "finishes e i path m \<longleftrightarrow> (\<forall>w r w'. armed_at path w \<longrightarrow> m w = (r, w') \<longrightarrow> accounted e i path r w')"

lemma guard_kept [simp]:
  "rn_guard (snd (on_client e i m w)) = rn_guard w" "rn_guard (snd (on_os n w)) = rn_guard w" "rn_guard (snd (on_tx k w)) = rn_guard w"
  by (simp_all add: on_client_def on_os_def on_tx_def split: prod.split)

lemma flagged_mark: "flagged i (mark_unconfirmed i s)"
  by (auto simp: flagged_def mark_unconfirmed_def upd_job_def split: option.split)

lemma cleanup_accounts:
  assumes "armed_at path w" "cleanup e i w = (r, w')"
  shows "rn_guard w' = Some \<lparr>sg_path = path, sg_armed = False, sg_owned = True\<rparr>"
    and "if is_ok r then removal_confirmed (rc_raw (ev_client e)) (rn_trace w') path else flagged i (rn_tx w')"
proof -
  let ?m = "client_remove_owned_staging (ev_client e) path"
  obtain x w1 where m: "on_client e i ?m w = (x, w1)" by (cases "on_client e i ?m w")
  have g: "rn_guard w1 = Some \<lparr>sg_path = path, sg_armed = True, sg_owned = True\<rparr>"
    using guard_kept(1) [of e i ?m w, unfolded m snd_conv] assms(1) by (simp add: armed_at_def)
  have x: "?m (rn_trace w) = (x, rn_trace w1)" using m by (auto simp: on_client_def split: prod.splits)
  have rw: "is_ok r = is_ok x" "is_ok x \<Longrightarrow> w' = disarm w1"
    "\<not> is_ok x \<Longrightarrow> w' = (disarm w1)\<lparr>rn_tx := mark_unconfirmed i (rn_tx w1)\<rparr>"
    using assms m by (auto simp: cleanup_def armed_at_def split: result.splits)
  show "rn_guard w' = Some \<lparr>sg_path = path, sg_armed = False, sg_owned = True\<rparr>"
    using rw(2,3) g by (cases "is_ok x") (auto simp: disarm_def)
  have "removal_confirmed (rc_raw (ev_client e)) (rn_trace w1) path" if "is_ok x"
    unfolding removal_confirmed_def using x that
    by (intro exI [of _ "rn_trace w"] exI [of _ "[]"])
      (auto simp: client_remove_owned_staging_def is_ok_iff split: result.splits if_splits sftp_error.splits)
  then show "if is_ok r then removal_confirmed (rc_raw (ev_client e)) (rn_trace w') path else flagged i (rn_tx w')"
    using rw flagged_mark by (cases "is_ok x") (auto simp: disarm_def)
qed

lemma finishes_clean_fail: "finishes e i path (clean_fail e i err)"
  unfolding finishes_def
proof (intro allI impI)
  fix w w' :: run and r :: "'a app_result"
  assume arm: "armed_at path w" and c: "clean_fail e i err w = (r, w')"
  obtain x w1 where x: "cleanup e i w = (x, w1)" by (cases "cleanup e i w")
  have "w' = w1" "\<not> is_ok r" using c x by (cases x; auto simp: clean_fail_def)+
  then show "accounted e i path r w'"
    using cleanup_accounts [OF arm x] by (auto simp: accounted_def split: if_splits)
qed

lemma passes_clean_fail: "passes e i path (clean_fail e i err)"
  unfolding passes_def
proof (intro allI impI)
  fix w w' :: run and r :: "'a app_result"
  assume arm: "armed_at path w" and c: "clean_fail e i err w = (r, w')"
  have "\<not> is_ok r" using c by (cases "cleanup e i w"; cases "fst (cleanup e i w)") (auto simp: clean_fail_def)
  with finishes_clean_fail arm c show "if is_ok r then armed_at path w' else accounted e i path r w'"
    unfolding finishes_def by (metis (full_types))
qed

lemma passes_or_clean:
  assumes "\<And>w. rn_guard (snd (m w)) = rn_guard w"
  shows "passes e i path (or_clean e i m)"
  unfolding passes_def
proof (intro allI impI)
  fix w w' r
  assume arm: "armed_at path w" and m: "or_clean e i m w = (r, w')"
  obtain x w1 where x: "m w = (x, w1)" by (cases "m w")
  have arm1: "armed_at path w1" using arm assms [of w] x by (simp add: armed_at_def)
  show "if is_ok r then armed_at path w' else accounted e i path r w'"
  proof (cases x)
    case (Err err)
    then have "clean_fail e i err w1 = (r, w')" using m x by (simp add: or_clean_def)
    then show ?thesis using passes_clean_fail arm1 unfolding passes_def by blast
  next
    case (Ok v)
    then have "r = Ok v" "w' = w1" using m x by (auto simp: or_clean_def)
    with arm1 show ?thesis by simp
  qed
qed

lemma finishes_bind:
  assumes "passes e i path m" "\<And>x. finishes e i path (f x)"
  shows "finishes e i path (io_bind m f)"
  unfolding finishes_def
proof (intro allI impI)
  fix w w' r
  assume arm: "armed_at path w" and b: "io_bind m f w = (r, w')"
  obtain x w1 where x: "m w = (x, w1)" by (cases "m w")
  have p: "if is_ok x then armed_at path w1 else accounted e i path x w1" using assms(1) arm x by (simp add: passes_def)
  show "accounted e i path r w'"
  proof (cases x)
    case (Ok v)
    then have "f v w1 = (r, w')" "armed_at path w1" using b x p by auto
    with assms(2) show ?thesis by (auto simp: finishes_def)
  next
    case (Err err)
    then show ?thesis using b x p by (simp add: accounted_def)
  qed
qed

lemma finishes_if: "finishes e i path m \<Longrightarrow> finishes e i path n \<Longrightarrow> finishes e i path (\<lambda>w. if b w then m w else n w)"
  by (simp add: finishes_def)

lemma finishes_if_plain: "finishes e i path m \<Longrightarrow> finishes e i path n \<Longrightarrow> finishes e i path (if b then m else n)"
  by simp

lemma finishes_settle:
  assumes "\<And>w. rn_guard (snd (m w)) = rn_guard w"
  shows "finishes e i path (settle e i t m)"
  unfolding finishes_def
proof (intro allI impI)
  fix w w' r
  assume arm: "armed_at path w" and s: "settle e i t m w = (r, w')"
  obtain x w1 where x: "m w = (x, w1)" by (cases "m w")
  have arm1: "armed_at path w1" using arm assms [of w] x by (simp add: armed_at_def)
  show "accounted e i path r w'"
  proof (cases x)
    case (Ok u)
    then show ?thesis using s x arm1 by (auto simp: settle_def accounted_def armed_at_def disarm_def)
  next
    case (Err err)
    obtain y w2 where y: "cleanup e i w1 = (y, w2)" by (cases "cleanup e i w1")
    have "w' = w2" using s x Err y by (auto simp: settle_def split: result.splits)
    then show ?thesis using cleanup_accounts [OF arm1 y] by (auto simp: accounted_def split: if_splits)
  qed
qed

definition keeps_guard :: "(run \<Rightarrow> 'a \<times> run) \<Rightarrow> bool" where
  "keeps_guard m \<longleftrightarrow> (\<forall>w. rn_guard (snd (m w)) = rn_guard w)"

lemma keeps_guard_basic: "keeps_guard (on_client e i m)" "keeps_guard (on_os n)" "keeps_guard (on_tx k)" "keeps_guard (io_lift r)"
  by (simp_all add: keeps_guard_def)

lemma keeps_guard_bind:
  assumes "keeps_guard m" "\<And>x. keeps_guard (f x)"
  shows "keeps_guard (io_bind m f)"
  unfolding keeps_guard_def
proof
  fix w
  obtain r w1 where m: "m w = (r, w1)" by (cases "m w")
  have "rn_guard w1 = rn_guard w" using assms(1) m by (metis keeps_guard_def snd_conv)
  with m assms(2) show "rn_guard (snd (io_bind m f w)) = rn_guard w" by (cases r) (auto simp: keeps_guard_def)
qed

lemma keeps_guard_if: "keeps_guard m \<Longrightarrow> keeps_guard n \<Longrightarrow> keeps_guard (\<lambda>w. if b w then m w else n w)"
  by (simp add: keeps_guard_def)

lemma keeps_guard_if_plain: "keeps_guard m \<Longrightarrow> keeps_guard n \<Longrightarrow> keeps_guard (if b then m else n)"
  by simp

lemmas keeps_guard_intros = keeps_guard_basic keeps_guard_bind keeps_guard_if_plain keeps_guard_if

lemma keeps_guard_unchanged: "keeps_guard (unchanged_check e i dst expected original t1 t2)"
  unfolding unchanged_check_def by (intro keeps_guard_intros)

lemma finishes_upload: "finishes e i staging (finish_upload e i src staging dst action n)"
  unfolding finish_upload_def
  by (intro finishes_if_plain finishes_if finishes_clean_fail finishes_bind passes_or_clean finishes_settle)
    (auto simp: commit_upload_def split: destination_action.split)

lemma finishes_editor_save: "finishes e i staging (finish_editor_save e i staging dst expected original bytes n)"
  unfolding finish_editor_save_def
  by (intro finishes_if_plain finishes_clean_fail finishes_bind passes_or_clean finishes_settle)
    (use keeps_guard_unchanged in \<open>auto simp: keeps_guard_def\<close>)

text \<open>The end of a worker that was given no guard.\<close>

definition staging_settled :: "run_env \<Rightarrow> transfer_job_id \<Rightarrow> 'a app_result \<Rightarrow> run \<Rightarrow> bool" where
  "staging_settled e i r w \<longleftrightarrow>
     (\<forall>g. rn_guard w = Some g \<longrightarrow> sg_owned g \<longrightarrow> accounted e i (sg_path g) r w)"

lemma accounted_settled: "accounted e i path r w \<Longrightarrow> staging_settled e i r w"
  by (auto simp: staging_settled_def accounted_def)

lemma accounted_failed: "accounted e i path r w \<Longrightarrow> \<not> is_ok r \<Longrightarrow> accounted e i path r' w"
  by (auto simp: accounted_def)

lemma settled_failed: "staging_settled e i r w \<Longrightarrow> \<not> is_ok r \<Longrightarrow> staging_settled e i r' w"
  by (auto simp: staging_settled_def accounted_def)

lemma stage_upload_settles:
  assumes "stage_upload e i reads staging t w = (r, w')"
  shows "if is_ok r then armed_at staging w' else staging_settled e i r w'"
proof -
  let ?m = "client_upload_staged (ev_client e) reads staging"
  define w1 where "w1 = (guard_new staging w)\<lparr>rn_tx := set_job_state i JTransferring (rn_tx w)\<rparr>"
  obtain up w2 where m: "on_client e i ?m w1 = (up, w2)" by (cases "on_client e i ?m w1")
  have g2: "rn_guard w2 = Some \<lparr>sg_path = staging, sg_armed = True, sg_owned = False\<rparr>"
    using guard_kept(1) [of e i ?m w1, unfolded m snd_conv] by (simp add: w1_def guard_new_def)
  define w3 where "w3 = w2\<lparr>rn_guard := map_option (\<lambda>g. g\<lparr>sg_owned := staging_owned up\<rparr>) (rn_guard w2)\<rparr>"
  have g3: "rn_guard w3 = Some \<lparr>sg_path = staging, sg_armed = True, sg_owned = staging_owned up\<rparr>"
    by (simp add: w3_def g2)
  have eq: "stage_upload e i reads staging t w =
      (case up of Uploaded n \<Rightarrow> (Ok n, w3) | NotCreated err \<Rightarrow> (Err err, w3) | CreationOutcomeUnknown err \<Rightarrow> (Err err, w3)
       | OwnedFailure err \<Rightarrow> io_bind (cleanup e i) (\<lambda>_ w4.
           (Err (if is_cancelled e w4 \<and> err_code err \<noteq> OutcomeUnknownCode then AppError_new Cancelled t else err), w4)) w3)"
    by (simp add: stage_upload_def w1_def [symmetric] m w3_def [symmetric])
  show ?thesis
  proof (cases up)
    case (OwnedFailure err)
    then have arm: "armed_at staging w3" using g3 by (simp add: armed_at_def)
    obtain x w4 where x: "cleanup e i w3 = (x, w4)" by (cases "cleanup e i w3")
    have "w' = w4" "\<not> is_ok r" using assms eq OwnedFailure x by (cases x; auto)+
    with cleanup_accounts [OF arm x] have "accounted e i staging r w'" by (auto simp: accounted_def split: if_splits)
    with \<open>\<not> is_ok r\<close> accounted_settled show ?thesis by auto
  qed (use assms eq g3 in \<open>auto simp: armed_at_def staging_settled_def\<close>)
qed

definition settles :: "run_env \<Rightarrow> transfer_job_id \<Rightarrow> 'a run_io \<Rightarrow> bool" where
  "settles e i m \<longleftrightarrow> (\<forall>w r w'. rn_guard w = None \<longrightarrow> m w = (r, w') \<longrightarrow> staging_settled e i r w')"

lemma settles_quiet: "keeps_guard m \<Longrightarrow> settles e i m"
  unfolding settles_def staging_settled_def keeps_guard_def by (metis option.distinct(1) snd_conv)

lemma settles_bind:
  assumes "keeps_guard m" "\<And>x. settles e i (f x)"
  shows "settles e i (io_bind m f)"
  unfolding settles_def
proof (intro allI impI)
  fix w w' r
  assume none: "rn_guard w = None" and b: "io_bind m f w = (r, w')"
  obtain x w1 where m: "m w = (x, w1)" by (cases "m w")
  have none1: "rn_guard w1 = None" using assms(1) m none by (metis keeps_guard_def snd_conv)
  show "staging_settled e i r w'"
  proof (cases x)
    case (Ok v)
    then have "f v w1 = (r, w')" using b m by simp
    with assms(2) none1 show ?thesis by (simp add: settles_def)
  qed (use b m none1 in \<open>simp add: staging_settled_def\<close>)
qed

lemma settles_stage:
  assumes "\<And>n. finishes e i staging (f n)"
  shows "settles e i (io_bind (stage_upload e i reads staging t) f)"
  unfolding settles_def
proof (intro allI impI)
  fix w w' r
  assume b: "io_bind (stage_upload e i reads staging t) f w = (r, w')"
  obtain x w1 where m: "stage_upload e i reads staging t w = (x, w1)" by (cases "stage_upload e i reads staging t w")
  note s = stage_upload_settles [OF m]
  show "staging_settled e i r w'"
  proof (cases x)
    case (Ok n)
    then have "f n w1 = (r, w')" "armed_at staging w1" using b m s by auto
    with assms [of n] have "accounted e i staging r w'" by (simp add: finishes_def)
    then show ?thesis by (rule accounted_settled)
  next
    case (Err err)
    then have "w' = w1" "staging_settled e i x w1" "\<not> is_ok x" using b m s by auto
    then show ?thesis using settled_failed by blast
  qed
qed

lemma settles_run_transfer: "settles e i (run_transfer e i spec)"
proof -
  have up: "settles e i (run_upload e i src (DestRemote dst action))" for src dst action
  proof (cases "staging_path dst (''.nexusops-'' @ ev_simple e i @ ''.part'')")
    case (Ok staging)
    show ?thesis unfolding run_upload_def destination.case Ok io_bind_pure
      by (intro settles_bind settles_stage keeps_guard_intros finishes_upload)
  next
    case (Err x)
    show ?thesis unfolding run_upload_def destination.case Err io_bind_pure
      by (intro settles_quiet keeps_guard_intros)
  qed
  have ed: "settles e i (run_editor_save e i dst (SourceEditor bytes expected original))" for dst bytes expected original
  proof (cases "staging_path dst (''.nexusops-'' @ ev_simple e i @ ''.edit.part'')")
    case (Ok staging)
    show ?thesis unfolding run_editor_save_def source.case Ok io_bind_pure
      by (intro settles_bind settles_stage keeps_guard_unchanged finishes_editor_save)
  next
    case (Err x)
    show ?thesis unfolding run_editor_save_def source.case Err io_bind_pure
      by (intro settles_quiet keeps_guard_intros keeps_guard_unchanged)
  qed
  have fin: "keeps_guard (finish_download e i src directory file_name action n out)" for src directory file_name action n out
  proof -
    have "keeps_guard (persist e path out action)" for path
      unfolding persist_def by (cases action) (simp_all add: keeps_guard_basic del: io_lift_apply)
    moreover have "keeps_guard (\<lambda>w. (Err cancelled_before_final :: unit app_result, w))" by (simp add: keeps_guard_def)
    ultimately show ?thesis
      unfolding finish_download_def source_unchanged_def by (intro keeps_guard_intros)
  qed
  have dl: "settles e i (run_download e i src (DestLocal directory file_name action))" for src directory file_name action
  proof (rule settles_quiet)
    have "keeps_guard (\<lambda>w. let w1 = w\<lparr>rn_tx := set_job_state i JTransferring (rn_tx w)\<rparr>
        in case on_client e i (client_download (ev_client e) (ev_writer e) (rs_path src)) w1 of ((r, out), w2) \<Rightarrow>
          (case r of Ok bytes \<Rightarrow> finish_download e i src directory file_name action bytes out w2
           | Err err \<Rightarrow> (Err (if is_cancelled e w2 \<and> err_code err \<noteq> OutcomeUnknownCode then cancelled_before_final else err), w2)))"
      unfolding keeps_guard_def
    proof
      fix w :: run
      let ?w1 = "w\<lparr>rn_tx := set_job_state i JTransferring (rn_tx w)\<rparr>"
      let ?m = "client_download (ev_client e) (ev_writer e) (rs_path src)"
      obtain r out w2 where m: "on_client e i ?m ?w1 = ((r, out), w2)" by (metis prod.collapse)
      have "rn_guard w2 = rn_guard w" using guard_kept(1) [of e i ?m ?w1, unfolded m snd_conv] by simp
      with m fin show "rn_guard (snd (let w1 = ?w1 in case on_client e i ?m w1 of ((r, out), w2) \<Rightarrow>
          (case r of Ok bytes \<Rightarrow> finish_download e i src directory file_name action bytes out w2
           | Err err \<Rightarrow> (Err (if is_cancelled e w2 \<and> err_code err \<noteq> OutcomeUnknownCode then cancelled_before_final else err), w2)))) = rn_guard w"
        by (cases r) (simp_all add: keeps_guard_def)
    qed
    then show "keeps_guard (run_download e i src (DestLocal directory file_name action))"
      unfolding run_download_def destination.case source_unchanged_def by (intro keeps_guard_intros)
  qed
  have idle: "settles e i (io_lift r)" for r :: "unit app_result" by (intro settles_quiet keeps_guard_basic)
  show ?thesis
    unfolding run_transfer_def using up ed dl idle
    by (simp del: io_lift_apply split: source.split destination.split)
qed

section \<open>Commits\<close>

lemma on_client_apply:
  "on_client e i m w = (r, w') \<Longrightarrow> m (rn_trace w) = (r, rn_trace w') \<and> rn_os w' = rn_os w"
  by (auto simp: on_client_def split: prod.splits)

lemma on_os_apply:
  "on_os m w = (r, w') \<Longrightarrow> m (rn_os w) = (r, rn_os w') \<and> rn_trace w' = rn_trace w \<and> rn_tx w' = rn_tx w"
  by (auto simp: on_os_def split: prod.splits)

lemma on_tx_apply:
  "on_tx m w = (r, w') \<Longrightarrow> m (rn_tx w) = (r, rn_tx w') \<and> rn_trace w' = rn_trace w \<and> rn_os w' = rn_os w"
  by (auto simp: on_tx_def split: prod.splits)

lemma disarm_fields [simp]: "rn_trace (disarm w) = rn_trace w" "rn_os (disarm w) = rn_os w" "rn_tx (disarm w) = rn_tx w"
  by (simp_all add: disarm_def)

text \<open>A step followed by others: either it fails after cleaning up, or the rest runs.\<close>

lemma or_clean_bind_cases:
  assumes "io_bind (or_clean e i m) f w = (r, w')"
  obtains (failed) err w1 where "m w = (Err err, w1)" "clean_fail e i err w1 = (r, w')"
  | (goes_on) x w1 where "m w = (Ok x, w1)" "f x w1 = (r, w')"
proof -
  obtain y w1 where m: "m w = (y, w1)" by (cases "m w")
  show thesis
  proof (cases y)
    case (Ok x)
    with assms m goes_on show ?thesis by (simp add: or_clean_def io_bind_def)
  next
    case (Err err)
    have "clean_fail e i err w1 = (r, w')"
    proof -
      obtain z w2 where c: "cleanup e i w1 = (z, w2)" by (cases "cleanup e i w1")
      with assms m Err show ?thesis by (cases z) (simp_all add: or_clean_def io_bind_def clean_fail_def)
    qed
    with m Err failed show ?thesis by blast
  qed
qed

lemma commit_replace_Ok:
  assumes "client_commit_replace c staging dst tr = (Ok u, tr')"
  shows "\<exists>data. tr' = tr @ [QExtended ''posix-rename@openssh.com'' data] \<and> rs_extended (rc_raw c) tr' = Ok (PacketStatus StOk)
    \<and> (\<exists>rest. decode_string data = Some (staging, rest) \<and> decode_string rest = Some (dst, []))"
proof -
  obtain half data where d: "encode_string [] staging = Ok half" "encode_string half dst = Ok data"
    "tr' = tr @ [QExtended ''posix-rename@openssh.com'' data]" "rs_extended (rc_raw c) tr' = Ok (PacketStatus StOk)"
    using assms unfolding client_commit_replace_def
    by (auto elim!: io_bind_OkE split: if_splits result.splits extended_reply.splits)
  obtain y where y: "data = half @ y" "decode_string (y @ []) = Some (dst, [])"
    using decode_encode_string [OF d(2), of "[]"] by blast
  obtain x where "half = [] @ x" "decode_string (x @ y) = Some (staging, y)"
    using decode_encode_string [OF d(1), of y] by blast
  with d y show ?thesis by auto
qed

lemma commit_new_Ok:
  assumes "client_commit_new c staging dst tr = (Ok u, tr')"
  shows "tr' = tr @ [QLstat dst, QHardlink staging dst, QRemove staging]
    \<and> rs_attrs (rc_raw c) (tr @ [QLstat dst]) = Err (SStatus StNoSuchFile)
    \<and> rs_status (rc_raw c) (tr @ [QLstat dst, QHardlink staging dst]) = Ok StOk \<and> rs_status (rc_raw c) tr' = Ok StOk"
proof -
  from commit_new_result [OF assms] obtain qs where
    "tr' = tr @ qs" "qs \<in> {[], [QLstat dst], [QLstat dst, QHardlink staging dst], [QLstat dst, QHardlink staging dst, QRemove staging]}"
    "QRemove staging \<in> set qs" "rs_status (rc_raw c) tr' = Ok StOk"
    "QHardlink staging dst \<in> set qs \<longrightarrow> rs_attrs (rc_raw c) (tr @ [QLstat dst]) = Err (SStatus StNoSuchFile)"
    "QRemove staging \<in> set qs \<longrightarrow> rs_status (rc_raw c) (tr @ [QLstat dst, QHardlink staging dst]) = Ok StOk"
    by auto
  then show ?thesis by auto
qed

lemma stage_upload_Ok:
  assumes "stage_upload e i reads staging t w = (Ok n, w')"
  shows "rn_os w' = rn_os w \<and> (\<exists>h qs. rn_trace w' = rn_trace w @ QCreate staging 0x8180 # qs @ [QClose h]
    \<and> rs_handle (rc_raw (ev_client e)) (rn_trace w @ [QCreate staging 0x8180]) = Ok h
    \<and> apply_writes [] qs = Some (contents reads) \<and> unat n = length (contents reads)
    \<and> writes_confirmed (ev_client e) (rn_trace w @ [QCreate staging 0x8180]) qs)"
proof -
  let ?m = "client_upload_staged (ev_client e) reads staging"
  define w1 where "w1 = (guard_new staging w)\<lparr>rn_tx := set_job_state i JTransferring (rn_tx w)\<rparr>"
  have w1: "rn_trace w1 = rn_trace w" "rn_os w1 = rn_os w" by (simp_all add: w1_def guard_new_def)
  obtain up w2 where m: "on_client e i ?m w1 = (up, w2)" by (cases "on_client e i ?m w1")
  define w3 where "w3 = w2\<lparr>rn_guard := map_option (\<lambda>g. g\<lparr>sg_owned := staging_owned up\<rparr>) (rn_guard w2)\<rparr>"
  define k :: "app_error \<Rightarrow> u64 run_io" where "k x = io_bind (cleanup e i) (\<lambda>_ w4.
    (Err (if is_cancelled e w4 \<and> err_code x \<noteq> OutcomeUnknownCode then AppError_new Cancelled t else x), w4))" for x
  have fails: "k x w3 \<noteq> (Ok n, w')" for x
    unfolding k_def by (cases "cleanup e i w3"; cases "fst (cleanup e i w3)") auto
  have eq: "(case up of Uploaded n \<Rightarrow> (Ok n, w3) | NotCreated err \<Rightarrow> (Err err, w3)
      | CreationOutcomeUnknown err \<Rightarrow> (Err err, w3) | OwnedFailure err \<Rightarrow> k err w3) = (Ok n, w')"
    using assms by (cases up) (simp_all add: stage_upload_def w1_def [symmetric] m w3_def k_def)
  have "up = Uploaded n \<and> w' = w3"
  proof (cases up)
    case (OwnedFailure x)
    with eq fails [of x] show ?thesis by simp
  qed (use eq in auto)
  then have "up = Uploaded n" "rn_trace w' = rn_trace w2" "rn_os w' = rn_os w2" by (simp_all add: w3_def)
  moreover have "?m (rn_trace w) = (up, rn_trace w2)" "rn_os w2 = rn_os w"
    using on_client_apply [OF m] w1 by simp_all
  ultimately show ?thesis using upload_staged_Ok [of "ev_client e" reads staging "rn_trace w" n "rn_trace w'"] by auto
qed

text \<open>The requests of the steps that cannot reach the destination.\<close>

abbreviation away :: "string \<Rightarrow> raw_request \<Rightarrow> bool" where
  "away dst q \<equiv> dst \<notin> changes q"

abbreviation within :: "string \<Rightarrow> string \<Rightarrow> raw_request \<Rightarrow> bool" where
  "within staging dst q \<equiv> changes q \<subseteq> {staging, dst}"

definition adds :: "(raw_request \<Rightarrow> bool) \<Rightarrow> run \<Rightarrow> run \<Rightarrow> bool" where
  "adds P w w' \<longleftrightarrow> (\<exists>qs. rn_trace w' = rn_trace w @ qs \<and> list_all P qs)"

lemma adds_trans:
  assumes "adds P w w1" "adds P w1 w2"
  shows "adds P w w2"
proof -
  obtain xs ys where "rn_trace w1 = rn_trace w @ xs" "rn_trace w2 = rn_trace w1 @ ys" "list_all P xs" "list_all P ys"
    using assms by (auto simp: adds_def)
  then show ?thesis unfolding adds_def by (intro exI [of _ "xs @ ys"]) simp
qed

lemma adds_same: "rn_trace w' = rn_trace w \<Longrightarrow> adds P w w'"
  by (simp add: adds_def)

lemma adds_client: "sends P m \<Longrightarrow> on_client e i m w = (r, w') \<Longrightarrow> adds P w w'"
  unfolding adds_def by (rule sendsD [OF _ on_client_apply [THEN conjunct1]])

lemma clean_fail_adds:
  assumes "clean_fail e i err w = (r, w')" "\<And>g. rn_guard w = Some g \<Longrightarrow> P (QRemove (sg_path g))"
  shows "adds P w w'"
proof -
  have "requests.staged P w" using assms(2) by (simp add: requests.staged_def)
  from requests.safeD [OF requests.safe_clean_fail this assms(1)] show ?thesis by (simp add: adds_def)
qed

definition final_text :: string where
  "final_text = ''The final mutation and owned staging cleanup could not be confirmed; refresh before taking another action.''"

lemma finish_upload_cases:
  assumes "finish_upload e i src staging dst action n w = (r, w')" "armed_at staging w" "staging \<noteq> dst"
  obtains (untouched) "adds (away dst) w w'"
  | (committing) cur w4 where "n = lc_size src" "fst (validate_local_source (ev_os e) src (rn_os w)) = Ok ()"
      "\<not> is_cancelled e w" "fst (enter_finalizing i (rn_tx w)) = Ok ()"
      "client_identity (ev_client e) dst (rn_trace w) = (Ok cur, rn_trace w4)" "destination_matches action cur"
      "armed_at staging w4" "settle e i final_text (commit_upload e i staging dst action) w4 = (r, w')"
proof -
  have path: "away dst (QRemove staging)" using assms(3) by simp
  have fail: "adds (away dst) w1 w'" if "clean_fail e i err w1 = (r, w')" "rn_guard w1 = rn_guard w" for err w1
    using clean_fail_adds [OF that(1)] that(2) assms(2) path by (simp add: armed_at_def)
  show thesis
  proof (cases "n = lc_size src")
    case False
    then show ?thesis using untouched fail [of _ w] assms(1) by (simp add: finish_upload_def)
  next
    case True
    let ?k3 = "\<lambda>current. if \<not> destination_matches action current
        then clean_fail e i (AppError_new Conflict ''The remote destination changed after approval.'')
        else settle e i final_text (commit_upload e i staging dst action)"
    let ?k2 = "\<lambda>_ :: unit. io_bind (or_clean e i (on_client e i (client_identity (ev_client e) dst))) ?k3"
    let ?k1 = "\<lambda>(_ :: unit) w. if is_cancelled e w then clean_fail e i cancelled_before_final w
        else io_bind (or_clean e i (on_tx (enter_finalizing i))) ?k2 w"
    have "io_bind (or_clean e i (on_os (validate_local_source (ev_os e) src))) ?k1 w = (r, w')"
      using assms(1) True unfolding finish_upload_def final_text_def by simp
    then show ?thesis
    proof (cases rule: or_clean_bind_cases)
      case (failed err w1)
      then have "rn_guard w1 = rn_guard w" "rn_trace w1 = rn_trace w"
        using guard_kept(2) [of "validate_local_source (ev_os e) src" w, unfolded failed(1) snd_conv] on_os_apply [OF failed(1)] by auto
      then show ?thesis using untouched fail [OF failed(2)] adds_same adds_trans by blast
    next
      case (goes_on u w1)
      have w1: "rn_guard w1 = rn_guard w" "rn_trace w1 = rn_trace w" "rn_tx w1 = rn_tx w"
        "fst (validate_local_source (ev_os e) src (rn_os w)) = Ok ()"
        using guard_kept(2) [of "validate_local_source (ev_os e) src" w, unfolded goes_on(1) snd_conv] on_os_apply [OF goes_on(1)] by auto
      have to_w1: "adds (away dst) w w1" using w1(2) adds_same by blast
      show ?thesis
      proof (cases "is_cancelled e w1")
        case True
        then have "clean_fail e i cancelled_before_final w1 = (r, w')" using goes_on(2) by simp
        then show ?thesis using untouched fail w1(1) to_w1 adds_trans by blast
      next
        case False
        then have nc: "\<not> is_cancelled e w" using w1(2) by (simp add: is_cancelled_def)
        have "io_bind (or_clean e i (on_tx (enter_finalizing i))) ?k2 w1 = (r, w')" using goes_on(2) False by simp
        then show ?thesis
        proof (cases rule: or_clean_bind_cases)
          case (failed err w2)
          then have "rn_guard w2 = rn_guard w" "rn_trace w2 = rn_trace w1"
            using guard_kept(3) [of "enter_finalizing i" w1, unfolded failed(1) snd_conv] on_tx_apply [OF failed(1)] w1(1) by auto
          then show ?thesis using untouched fail [OF failed(2)] adds_same to_w1 adds_trans by blast
        next
          case (goes_on v w2)
          have w2: "rn_guard w2 = rn_guard w" "rn_trace w2 = rn_trace w" "fst (enter_finalizing i (rn_tx w)) = Ok ()"
            using guard_kept(3) [of "enter_finalizing i" w1, unfolded goes_on(1) snd_conv] on_tx_apply [OF goes_on(1)] w1 by auto
          have to_w2: "adds (away dst) w w2" using w2(2) adds_same by blast
          have id: "sends (away dst) (client_identity (ev_client e) dst)" by (intro sends_intros) simp
          from goes_on(2) show ?thesis
          proof (cases rule: or_clean_bind_cases)
            case (failed err w3)
            then have "rn_guard w3 = rn_guard w" "adds (away dst) w2 w3"
              using guard_kept(1) [of e i "client_identity (ev_client e) dst" w2, unfolded failed(1) snd_conv] adds_client [OF id failed(1)] w2(1) by auto
            then show ?thesis using untouched fail [OF failed(2)] to_w2 adds_trans by blast
          next
            case (goes_on cur w3)
            have w3: "rn_guard w3 = rn_guard w" "adds (away dst) w2 w3"
              "client_identity (ev_client e) dst (rn_trace w) = (Ok cur, rn_trace w3)"
              using guard_kept(1) [of e i "client_identity (ev_client e) dst" w2, unfolded goes_on(1) snd_conv] adds_client [OF id goes_on(1)]
                on_client_apply [OF goes_on(1)] w2(1,2) by auto
            show ?thesis
            proof (cases "destination_matches action cur")
              case True
              have "armed_at staging w3" using w3(1) assms(2) by (simp add: armed_at_def)
              with committing [OF \<open>n = lc_size src\<close> w1(4) nc w2(3) w3(3) True] goes_on(2) True show ?thesis by simp
            next
              case False
              then have "adds (away dst) w3 w'" using goes_on(2) by (intro fail [OF _ w3(1)]) simp
              then show ?thesis using untouched adds_trans [OF adds_trans [OF to_w2 w3(2)]] by blast
            qed
          qed
        qed
      qed
    qed
  qed
qed

lemma bind_cases:
  assumes "io_bind m f w = (r, w')"
  obtains (failed) err where "m w = (Err err, w')" "r = Err err"
  | (goes_on) x w1 where "m w = (Ok x, w1)" "f x w1 = (r, w')"
  using assms by (cases "m w"; cases "fst (m w)") auto

lemma stage_upload_adds:
  assumes "stage_upload e i reads staging t w = (r, w')" "staging \<noteq> dst" "rn_guard w = None"
  shows "adds (away dst) w w'"
proof -
  have "sends (away dst) (client_upload_staged (ev_client e) reads staging)"
    by (intro sends_intros conjI) (use assms(2) in auto)
  then have "requests.safe (away dst) (stage_upload e i reads staging t)"
    by (rule requests.safe_stage_upload) (use assms(2) in simp)
  from requests.safeD [OF this _ assms(1)] assms(3) show ?thesis by (simp add: adds_def requests.staged_def)
qed

lemma run_upload_cases:
  assumes "run_upload e i src (DestRemote dst action) w = (r, w')" "rn_guard w = None"
    and "staging_path dst (''.nexusops-'' @ ev_simple e i @ ''.part'') = Ok staging" "staging \<noteq> dst"
  obtains (early) "adds (away dst) w w'" "\<not> is_ok r"
  | (staged) w0 n w1 where "rn_trace w0 = rn_trace w" "rn_guard w0 = None"
      "stage_upload e i (ev_reads e) staging ''The transfer was cancelled before finalization.'' w0 = (Ok n, w1)"
      "finish_upload e i src staging dst action n w1 = (r, w')"
proof -
  have os: "rn_trace v' = rn_trace v \<and> rn_guard v' = rn_guard v" if "on_os m v = (x, v')" for m :: "'z os_io" and x v v'
    using that by (auto simp: on_os_def split: prod.splits)
  let ?k4 = "\<lambda>n. finish_upload e i src staging dst action n"
  let ?k3 = "io_bind (stage_upload e i (ev_reads e) staging ''The transfer was cancelled before finalization.'') ?k4"
  let ?seek = "on_os (os_try (ev_os e) (AppError_new LocalAccess ''The selected local source could not be read from the beginning.'')
      (OSeekStart (lc_handle src)))"
  let ?clone = "on_os (os_try (ev_os e) (AppError_new LocalAccess ''The selected local source handle is unavailable.'')
      (OTryClone (lc_handle src)))"
  have "io_bind (on_os (validate_local_source (ev_os e) src)) (\<lambda>_. io_bind ?clone (\<lambda>_. io_bind ?seek (\<lambda>_. ?k3))) w = (r, w')"
    using assms(1) unfolding run_upload_def destination.case assms(3) io_bind_pure .
  then show thesis
  proof (cases rule: bind_cases)
    case (failed err)
    then show ?thesis using early os adds_same by fastforce
  next
    case (goes_on x a)
    then have a: "rn_trace a = rn_trace w" "rn_guard a = None" using os [OF goes_on(1)] assms(2) by auto
    from goes_on(2) show ?thesis
    proof (cases rule: bind_cases)
      case (failed err)
      then show ?thesis using early os [OF failed(1)] a adds_same by fastforce
    next
      case (goes_on y b)
      then have b: "rn_trace b = rn_trace w" "rn_guard b = None" using os [OF goes_on(1)] a by auto
      from goes_on(2) show ?thesis
      proof (cases rule: bind_cases)
        case (failed err)
        then show ?thesis using early os [OF failed(1)] b adds_same by fastforce
      next
        case (goes_on z w0)
        then have w0: "rn_trace w0 = rn_trace w" "rn_guard w0 = None" using os [OF goes_on(1)] b by auto
        from goes_on(2) show ?thesis
        proof (cases rule: bind_cases)
          case (failed err)
          have "adds (away dst) w0 w'" using stage_upload_adds [OF failed(1) assms(4) w0(2)] .
          then show ?thesis using early failed(2) w0(1) by (simp add: adds_def)
        next
          case (goes_on n w1)
          show ?thesis using staged [OF w0 goes_on] .
        qed
      qed
    qed
  qed
qed

lemma settle_adds:
  assumes "settle e i t (commit_upload e i staging dst action) w = (r, w')" "armed_at staging w"
  shows "adds (within staging dst) w w'"
proof -
  have "requests.safe (within staging dst) (settle e i t (commit_upload e i staging dst action))"
    by (intro requests.safe_settle requests.safe_commit_upload)
  from requests.safeD [OF this _ assms(1)] assms(2) show ?thesis
    by (simp add: adds_def requests.staged_def armed_at_def)
qed

lemma settle_Ok: "settle e i t m w = (Ok u, w') \<Longrightarrow> \<exists>w1 v. m w = (Ok v, w1) \<and> w' = disarm w1"
  by (auto simp: settle_def split: prod.splits result.splits)

text \<open>The requests that stage a file: its exclusive creation, the confirmed writes, the confirmed close.\<close>

definition staged_exactly :: "raw_client \<Rightarrow> raw_request list \<Rightarrow> string \<Rightarrow> string \<Rightarrow> raw_request list \<Rightarrow> bool" where
  "staged_exactly c tr staging bytes tr' \<longleftrightarrow>
     (\<exists>h qs. tr' = tr @ QCreate staging 0x8180 # qs @ [QClose h] \<and> rs_handle (rc_raw c) (tr @ [QCreate staging 0x8180]) = Ok h
        \<and> apply_writes [] qs = Some bytes \<and> writes_confirmed c (tr @ [QCreate staging 0x8180]) qs)"

lemma run_upload_commits:
  assumes "run_upload e i src (DestRemote dst action) w = (r, w')" "rn_guard w = None"
    and "staging_path dst (''.nexusops-'' @ ev_simple e i @ ''.part'') = Ok staging" "staging \<noteq> dst"
  obtains (untouched) "adds (away dst) w w'"
  | (committed) w1 cur cs where
      "staged_exactly (ev_client e) (rn_trace w) staging (contents (ev_reads e)) (rn_trace w1)"
      "length (contents (ev_reads e)) = unat (lc_size src)"
      "fst (validate_local_source (ev_os e) src (rn_os w1)) = Ok ()" "\<not> is_cancelled e w1"
      "fst (enter_finalizing i (rn_tx w1)) = Ok ()"
      "client_identity (ev_client e) dst (rn_trace w1) = (Ok cur, rn_trace w1 @ [QLstat dst])" "destination_matches action cur"
      "rn_trace w' = rn_trace w1 @ QLstat dst # cs" "list_all (within staging dst) cs"
proof (cases rule: run_upload_cases [OF assms])
  case 1
  then show thesis using untouched by blast
next
  case (2 w0 n w1)
  have arm: "armed_at staging w1" using stage_upload_settles [OF 2(3)] by simp
  from stage_upload_Ok [OF 2(3)] have st: "staged_exactly (ev_client e) (rn_trace w) staging (contents (ev_reads e)) (rn_trace w1)"
    "unat n = length (contents (ev_reads e))"
    unfolding staged_exactly_def 2(1) by blast+
  from 2(4) arm assms(4) show thesis
  proof (cases rule: finish_upload_cases)
    case untouched: untouched
    have "adds (away dst) w0 w1" using stage_upload_adds [OF 2(3) assms(4) 2(2)] .
    then have "adds (away dst) w0 w'" using untouched adds_trans by blast
    then show ?thesis using that(1) 2(1) by (simp add: adds_def)
  next
    case (committing cur w4)
    have tr: "rn_trace w4 = rn_trace w1 @ [QLstat dst]" using client_identity_Ok(1) [OF committing(5)] .
    obtain cs where cs: "rn_trace w' = rn_trace w4 @ cs" "list_all (within staging dst) cs"
      using settle_adds [OF committing(8,7)] by (auto simp: adds_def)
    show ?thesis
    proof (rule committed)
      show "length (contents (ev_reads e)) = unat (lc_size src)" using st(2) committing(1) by simp
      show "client_identity (ev_client e) dst (rn_trace w1) = (Ok cur, rn_trace w1 @ [QLstat dst])" using committing(5) tr by simp
      show "rn_trace w' = rn_trace w1 @ QLstat dst # cs" using cs(1) tr by simp
    qed (use st(1) committing cs(2) in auto)
  qed
qed

lemma clean_fail_not_Ok: "clean_fail e i err w \<noteq> (Ok x, w')"
  by (cases "cleanup e i w"; cases "fst (cleanup e i w)") (auto simp: clean_fail_def)

lemma or_clean_Ok: "or_clean e i m w = (Ok x, w') \<longleftrightarrow> m w = (Ok x, w')"
  by (cases "m w"; cases "fst (m w)") (auto simp: or_clean_def clean_fail_not_Ok)

text \<open>
  The server confirmed that the staged file is at the destination now, by the requests that end the trace: it replaced the file there,
  or it was linked where no file was and the staging name was removed.
\<close>

definition replaced :: "raw_client \<Rightarrow> raw_request list \<Rightarrow> string \<Rightarrow> string \<Rightarrow> raw_request list \<Rightarrow> bool" where
  "replaced c tr staging dst tr' \<longleftrightarrow>
     (\<exists>data rest. tr' = tr @ [QExtended ''posix-rename@openssh.com'' data] \<and> decode_string data = Some (staging, rest)
        \<and> decode_string rest = Some (dst, []) \<and> rs_extended (rc_raw c) tr' = Ok (PacketStatus StOk))"

definition published :: "raw_client \<Rightarrow> raw_request list \<Rightarrow> string \<Rightarrow> string \<Rightarrow> entry_identity destination_action \<Rightarrow> raw_request list \<Rightarrow> bool" where
  "published c tr staging dst action tr' \<longleftrightarrow>
     (case action of
        ASkip \<Rightarrow> tr' = tr
      | ACreateNew \<Rightarrow> tr' = tr @ [QLstat dst, QHardlink staging dst, QRemove staging]
          \<and> rs_attrs (rc_raw c) (tr @ [QLstat dst]) = Err (SStatus StNoSuchFile)
          \<and> rs_status (rc_raw c) (tr @ [QLstat dst, QHardlink staging dst]) = Ok StOk \<and> rs_status (rc_raw c) tr' = Ok StOk
      | AReplaceExisting _ \<Rightarrow> replaced c tr staging dst tr')"

lemma commit_upload_Ok:
  assumes "commit_upload e i staging dst action w = (Ok u, w')"
  shows "published (ev_client e) (rn_trace w) staging dst action (rn_trace w')"
proof (cases action)
  case ACreateNew
  then show ?thesis
    using assms commit_new_Ok [of "ev_client e" staging dst "rn_trace w" u "rn_trace w'"]
    by (auto simp: commit_upload_def published_def dest: on_client_apply)
next
  case (AReplaceExisting expected)
  then have "client_commit_replace (ev_client e) staging dst (rn_trace w) = (Ok u, rn_trace w')"
    using assms by (auto simp: commit_upload_def dest: on_client_apply)
  from commit_replace_Ok [OF this] AReplaceExisting show ?thesis by (auto simp: published_def replaced_def)
next
  case ASkip
  then show ?thesis using assms by (auto simp: commit_upload_def published_def)
qed

lemma run_upload_Ok:
  assumes "run_upload e i src (DestRemote dst action) w = (Ok u, w')"
  shows "\<exists>staging (w1 :: run) cur. staging_path dst (''.nexusops-'' @ ev_simple e i @ ''.part'') = Ok staging
    \<and> staged_exactly (ev_client e) (rn_trace w) staging (contents (ev_reads e)) (rn_trace w1)
    \<and> length (contents (ev_reads e)) = unat (lc_size src)
    \<and> fst (validate_local_source (ev_os e) src (rn_os w1)) = Ok ()
    \<and> client_identity (ev_client e) dst (rn_trace w1) = (Ok cur, rn_trace w1 @ [QLstat dst]) \<and> destination_matches action cur
    \<and> published (ev_client e) (rn_trace w1 @ [QLstat dst]) staging dst action (rn_trace w')"
proof -
  obtain staging w0 n w1 where *: "rn_trace w0 = rn_trace w"
    "staging_path dst (''.nexusops-'' @ ev_simple e i @ ''.part'') = Ok staging"
    "stage_upload e i (ev_reads e) staging ''The transfer was cancelled before finalization.'' w0 = (Ok n, w1)"
    "finish_upload e i src staging dst action n w1 = (Ok u, w')"
    using assms unfolding run_upload_def destination.case
    by (auto elim!: io_bind_OkE dest!: on_os_apply)
  obtain w2 w3 :: run and cur w4 w5 v where f: "n = lc_size src" "validate_local_source (ev_os e) src (rn_os w1) = (Ok (), rn_os w2)"
    "rn_trace w2 = rn_trace w1" "rn_trace w3 = rn_trace w2"
    "client_identity (ev_client e) dst (rn_trace w3) = (Ok cur, rn_trace w4)" "destination_matches action cur"
    "commit_upload e i staging dst action w4 = (Ok v, w5)" "rn_trace w' = rn_trace w5"
    using *(4) unfolding finish_upload_def
    by (auto elim!: io_bind_OkE simp: or_clean_Ok clean_fail_not_Ok split: if_splits
        dest!: on_os_apply on_tx_apply on_client_apply settle_Ok)
  have "rn_trace w4 = rn_trace w1 @ [QLstat dst]" using client_identity_Ok(1) [OF f(5)] f(3,4) by simp
  with f(3-8) commit_upload_Ok [OF f(7)] have
    "client_identity (ev_client e) dst (rn_trace w1) = (Ok cur, rn_trace w1 @ [QLstat dst])"
    "published (ev_client e) (rn_trace w1 @ [QLstat dst]) staging dst action (rn_trace w')" by simp_all
  moreover have "staged_exactly (ev_client e) (rn_trace w) staging (contents (ev_reads e)) (rn_trace w1)"
    "length (contents (ev_reads e)) = unat (lc_size src)"
    using stage_upload_Ok [OF *(3)] *(1) f(1) unfolding staged_exactly_def by auto
  ultimately show ?thesis using *(2) f(2,6) by (intro exI [of _ staging] exI [of _ w1] exI [of _ cur]) simp
qed

section \<open>Editor saves\<close>

lemma contents_cursor: "0 < n \<Longrightarrow> contents (cursor_reads n bytes) = bytes"
  by (induction n bytes rule: cursor_reads.induct) (subst cursor_reads.simps, auto)

text \<open>A look at the destination that found the text that was opened: the same revision and the same digest.\<close>

definition still_the_same :: "run_env \<Rightarrow> string \<Rightarrow> editor_revision \<Rightarrow> string \<Rightarrow> raw_request list \<Rightarrow> raw_request list \<Rightarrow> bool" where
  "still_the_same e dst expected original tr tr' \<longleftrightarrow>
     (\<exists>tr1 text. client_editor_revision (ev_client e) dst tr = (Ok expected, tr1)
        \<and> client_read_editor_bytes (ev_client e) dst tr1 = (Ok text, tr') \<and> ev_digest e text = original)"

lemma unchanged_check_Ok:
  "unchanged_check e i dst expected original t1 t2 w = (Ok u, w') \<Longrightarrow>
   still_the_same e dst expected original (rn_trace w) (rn_trace w')"
  unfolding unchanged_check_def still_the_same_def same_text_def
  by (auto elim!: io_bind_OkE split: if_splits dest!: on_client_apply)

definition editor_final_text :: string where
  "editor_final_text = ''Editor replacement and owned staging cleanup could not be confirmed.''"

lemma unchanged_check_adds:
  assumes c: "unchanged_check e i dst expected original t1 t2 w = (r, w')"
    and g: "rn_guard w = rn_guard v" "requests.staged (away dst) v"
  shows "adds (away dst) w w' \<and> rn_guard w' = rn_guard v"
proof -
  have s: "requests.safe (away dst) (unchanged_check e i dst expected original t1 t2)"
    by (intro requests.safe_unchanged_check) auto
  have st: "requests.staged (away dst) w" using g by (simp add: requests.staged_def)
  have "adds (away dst) w w'" using requests.safeD [OF s st c] by (simp add: adds_def)
  moreover have "rn_guard (snd (unchanged_check e i dst expected original t1 t2 w)) = rn_guard w"
    using keeps_guard_unchanged by (simp add: keeps_guard_def)
  ultimately show ?thesis using g(1) c by simp
qed

lemma finish_editor_save_cases:
  assumes "finish_editor_save e i staging dst expected original bytes n w = (r, w')" "armed_at staging w" "staging \<noteq> dst"
  obtains (untouched) "adds (away dst) w w'" "\<not> is_ok r"
  | (committing) wa wb wc wd where "n = of_nat (length bytes)" "adds (away dst) w wa"
      "still_the_same e dst expected original (rn_trace wa) (rn_trace wb)" "adds (away dst) wa wb"
      "still_the_same e dst expected original (rn_trace wb) (rn_trace wc)" "adds (away dst) wb wc"
      "fst (enter_finalizing i (rn_tx wc)) = Ok ()" "rn_trace wd = rn_trace wc" "armed_at staging wd"
      "settle e i editor_final_text (on_client e i (client_commit_replace (ev_client e) staging dst)) wd = (r, w')"
proof -
  have path: "away dst (QRemove staging)" using assms(3) by simp
  have st: "requests.staged (away dst) w" using assms(2) path by (simp add: requests.staged_def armed_at_def)
  have fail: "adds (away dst) w1 w' \<and> \<not> is_ok r" if "clean_fail e i err w1 = (r, w')" "rn_guard w1 = rn_guard w" for err w1
    using clean_fail_adds [OF that(1)] that assms(2) path by (cases r) (auto simp: armed_at_def clean_fail_not_Ok)
  let ?keep = "on_client e i (client_preserve_editor_metadata (ev_client e) staging expected)"
  let ?check1 = "unchanged_check e i dst expected original
      ''The remote file changed during editor staging.'' ''The remote file contents changed during editor staging.''"
  let ?check2 = "unchanged_check e i dst expected original
      ''The remote file changed before editor replacement.'' ''The remote file contents changed before editor replacement.''"
  let ?k4 = "\<lambda>_ :: unit. settle e i editor_final_text (on_client e i (client_commit_replace (ev_client e) staging dst))"
  let ?k3 = "\<lambda>_ :: unit. io_bind (or_clean e i (on_tx (enter_finalizing i))) ?k4"
  let ?k2 = "\<lambda>_ :: unit. io_bind (or_clean e i ?check2) ?k3"
  let ?k1 = "\<lambda>_ :: unit. io_bind (or_clean e i ?check1) ?k2"
  show thesis
  proof (cases "n = of_nat (length bytes)")
    case False
    then have "clean_fail e i (transfer_error ''The editor staging byte count did not match.'') w = (r, w')"
      using assms(1) by (simp add: finish_editor_save_def)
    then show ?thesis using untouched fail by blast
  next
    case True
    have keeps: "sends (away dst) (client_preserve_editor_metadata (ev_client e) staging expected)"
      by (intro sends_intros) (use assms(3) in auto)
    have "io_bind (or_clean e i ?keep) ?k1 w = (r, w')"
      using assms(1) True unfolding finish_editor_save_def editor_final_text_def by simp
    then show ?thesis
    proof (cases rule: or_clean_bind_cases)
      case (failed err wa)
      have "rn_guard wa = rn_guard w" using guard_kept(1) [of e i "client_preserve_editor_metadata (ev_client e) staging expected" w, unfolded failed(1) snd_conv] .
      then show ?thesis using untouched fail [OF failed(2)] adds_trans [OF adds_client [OF keeps failed(1)]] by blast
    next
      case (goes_on u wa)
      have ga: "rn_guard wa = rn_guard w" using guard_kept(1) [of e i "client_preserve_editor_metadata (ev_client e) staging expected" w, unfolded goes_on(1) snd_conv] .
      have a: "adds (away dst) w wa" using adds_client [OF keeps goes_on(1)] .
      from goes_on(2) show ?thesis
      proof (cases rule: or_clean_bind_cases)
        case (failed err wb)
        have "adds (away dst) wa wb \<and> rn_guard wb = rn_guard w" using unchanged_check_adds [OF failed(1) ga st] .
        then show ?thesis using untouched fail [OF failed(2)] adds_trans [OF adds_trans [OF a]] by blast
      next
        case (goes_on u wb)
        have b: "adds (away dst) wa wb" "rn_guard wb = rn_guard w" using unchanged_check_adds [OF goes_on(1) ga st] by auto
        have sb: "still_the_same e dst expected original (rn_trace wa) (rn_trace wb)" using unchanged_check_Ok [OF goes_on(1)] .
        from goes_on(2) show ?thesis
        proof (cases rule: or_clean_bind_cases)
          case (failed err wc)
          have "adds (away dst) wb wc \<and> rn_guard wc = rn_guard w" using unchanged_check_adds [OF failed(1) b(2) st] .
          then show ?thesis using untouched fail [OF failed(2)] adds_trans [OF adds_trans [OF adds_trans [OF a b(1)]]] by blast
        next
          case (goes_on u wc)
          have c: "adds (away dst) wb wc" "rn_guard wc = rn_guard w" using unchanged_check_adds [OF goes_on(1) b(2) st] by auto
          have sc: "still_the_same e dst expected original (rn_trace wb) (rn_trace wc)" using unchanged_check_Ok [OF goes_on(1)] .
          from goes_on(2) show ?thesis
          proof (cases rule: or_clean_bind_cases)
            case (failed err wd)
            have d: "rn_trace wd = rn_trace wc" "rn_guard wd = rn_guard w"
              using on_tx_apply [OF failed(1)] guard_kept(3) [of "enter_finalizing i" wc, unfolded failed(1) snd_conv] c(2) by auto
            then show ?thesis
              using untouched fail [OF failed(2)] adds_trans [OF adds_trans [OF adds_trans [OF adds_trans [OF a b(1)] c(1)] adds_same]] by blast
          next
            case (goes_on u wd)
            have "rn_trace wd = rn_trace wc" "armed_at staging wd" "fst (enter_finalizing i (rn_tx wc)) = Ok ()"
              using on_tx_apply [OF goes_on(1)] guard_kept(3) [of "enter_finalizing i" wc, unfolded goes_on(1) snd_conv] c(2) assms(2)
              by (auto simp: armed_at_def)
            then show ?thesis using committing [OF True a sb b(1) sc c(1)] goes_on(2) by blast
          qed
        qed
      qed
    qed
  qed
qed

end
