(* ===== verification/Transfer_Outcomes.thy ===== *)
theory Transfer_Outcomes
  imports Transfer_Guarantees
begin

text \<open>
  The guarantees of the workers as statements about whole runs, with a worked example: an upload, an editor save and a download
  against concrete servers.
\<close>

section \<open>Runs of an editor save\<close>

lemma run_editor_save_commits:
  assumes "run_editor_save e i dst (SourceEditor bytes expected original) w = (r, w')" "rn_guard w = None"
    and "staging_path dst (''.nexusops-'' @ ev_simple e i @ ''.edit.part'') = Ok staging" "staging \<noteq> dst"
    and "0 < rc_write_chunk (ev_client e)"
  obtains (untouched) "adds (away dst) w w'" "\<not> is_ok r"
  | (committed) w0 w1 wa wb wc :: run and cs where
      "still_the_same e dst expected original (rn_trace w) (rn_trace w0)"
      "staged_exactly (ev_client e) (rn_trace w0) staging bytes (rn_trace w1)"
      "adds (away dst) w1 wa" "still_the_same e dst expected original (rn_trace wa) (rn_trace wb)"
      "still_the_same e dst expected original (rn_trace wb) (rn_trace wc)"
      "fst (enter_finalizing i (rn_tx wc)) = Ok ()"
      "rn_trace w' = rn_trace wc @ cs" "list_all (within staging dst) cs"
      "is_ok r \<longrightarrow> replaced (ev_client e) (rn_trace wc) staging dst (rn_trace w')"
proof -
  let ?check = "unchanged_check e i dst expected original
      ''The remote file changed before editor save.'' ''The remote file contents changed before editor save.''"
  let ?reads = "cursor_reads (rc_write_chunk (ev_client e)) bytes"
  let ?k = "finish_editor_save e i staging dst expected original bytes"
  have st: "requests.staged (away dst) w" using assms(2) by (simp add: requests.staged_def)
  have "io_bind ?check (\<lambda>_. io_bind (stage_upload e i ?reads staging ''Editor save was cancelled before finalization.'') ?k) w = (r, w')"
    using assms(1) unfolding run_editor_save_def source.case assms(3) io_bind_pure .
  then show thesis
  proof (cases rule: bind_cases)
    case (failed err)
    then show ?thesis using untouched unchanged_check_adds [OF failed(1) refl st] by simp
  next
    case (goes_on u w0)
    have w0: "adds (away dst) w w0" "rn_guard w0 = None" using unchanged_check_adds [OF goes_on(1) refl st] assms(2) by auto
    have same0: "still_the_same e dst expected original (rn_trace w) (rn_trace w0)" using unchanged_check_Ok [OF goes_on(1)] .
    from goes_on(2) show ?thesis
    proof (cases rule: bind_cases)
      case (failed err)
      then show ?thesis using untouched adds_trans [OF w0(1) stage_upload_adds [OF failed(1) assms(4) w0(2)]] by simp
    next
      case (goes_on n w1)
      have arm: "armed_at staging w1" using stage_upload_settles [OF goes_on(1)] by simp
      have up: "staged_exactly (ev_client e) (rn_trace w0) staging bytes (rn_trace w1)"
        using stage_upload_Ok [OF goes_on(1)] contents_cursor [OF assms(5)] unfolding staged_exactly_def by auto
      from goes_on(2) arm assms(4) show ?thesis
      proof (cases rule: finish_editor_save_cases)
        case untouched: untouched
        have "adds (away dst) w w'"
          using adds_trans [OF adds_trans [OF w0(1) stage_upload_adds [OF goes_on(1) assms(4) w0(2)]] untouched(1)] .
        then show ?thesis using that(1) untouched(2) by blast
      next
        case (committing wa wb wc wd)
        let ?commit = "on_client e i (client_commit_replace (ev_client e) staging dst)"
        have "sends (within staging dst) (client_commit_replace (ev_client e) staging dst)"
          by (intro sends_intros) (simp add: renamed_paths_encoded)
        then have "requests.safe (within staging dst) (settle e i editor_final_text ?commit)"
          by (intro requests.safe_settle requests.safe_client)
        from requests.safeD [OF this _ committing(10)] committing(9) obtain cs where
          cs: "rn_trace w' = rn_trace wd @ cs" "list_all (within staging dst) cs"
          by (auto simp: requests.staged_def armed_at_def)
        have "replaced (ev_client e) (rn_trace wc) staging dst (rn_trace w')" if ok: "is_ok r"
        proof -
          obtain w2 v where w2: "?commit wd = (Ok v, w2)" "w' = disarm w2"
            using settle_Ok committing(10) ok by (metis is_ok_iff)
          then have "client_commit_replace (ev_client e) staging dst (rn_trace wc) = (Ok v, rn_trace w')"
            using on_client_apply [OF w2(1)] committing(8) by simp
          from commit_replace_Ok [OF this] show ?thesis by (auto simp: replaced_def)
        qed
        with committing(2-8) cs show ?thesis using committed [OF same0 up] by simp
      qed
    qed
  qed
qed

section \<open>Runs of a download\<close>

text \<open>What a run did to the local file system: calls that publish nothing, then at most one that does.\<close>

definition only_looks :: "run \<Rightarrow> run \<Rightarrow> bool" where
  "only_looks w w' \<longleftrightarrow> (\<exists>qs. rn_os w' = rn_os w @ qs \<and> list_all (\<lambda>q. \<not> publishes q) qs)"

lemma only_looks_trans:
  assumes "only_looks w w1" "only_looks w1 w2"
  shows "only_looks w w2"
proof -
  obtain xs ys where "rn_os w1 = rn_os w @ xs" "rn_os w2 = rn_os w1 @ ys" "list_all (\<lambda>q. \<not> publishes q) xs" "list_all (\<lambda>q. \<not> publishes q) ys"
    using assms by (auto simp: only_looks_def)
  then show ?thesis unfolding only_looks_def by (intro exI [of _ "xs @ ys"]) simp
qed

lemma only_looks_same: "rn_os w' = rn_os w \<Longrightarrow> only_looks w w'"
  by (simp add: only_looks_def)

lemma only_looks_os:
  assumes "sends (\<lambda>q. \<not> publishes q) m" "on_os m w = (r, w')"
  shows "only_looks w w'"
  unfolding only_looks_def by (rule sendsD [OF assms(1)]) (use on_os_apply [OF assms(2)] in blast)

lemma source_unchanged_result:
  assumes "source_unchanged e i src t w = (r, w')"
  shows "rn_os w' = rn_os w"
    and "is_ok r \<Longrightarrow> client_identity (ev_client e) (rs_path src) (rn_trace w) = (Ok (Some (rs_identity src)), rn_trace w')"
proof -
  show "rn_os w' = rn_os w" using assms unfolding source_unchanged_def
    by (cases rule: bind_cases) (auto dest!: on_client_apply split: if_splits)
  show "client_identity (ev_client e) (rs_path src) (rn_trace w) = (Ok (Some (rs_identity src)), rn_trace w')" if "is_ok r"
    using assms that unfolding source_unchanged_def
    by (cases rule: bind_cases) (auto dest!: on_client_apply split: if_splits)
qed

text \<open>The call that publishes the downloaded bytes, by the approved action.\<close>

fun publication :: "'i destination_action \<Rightarrow> string \<Rightarrow> string \<Rightarrow> os_call option" where
  "publication ASkip _ _ = None"
| "publication ACreateNew path data = Some (OPersistNoclobber path data)"
| "publication (AReplaceExisting _) path data = Some (OPersist path data)"

lemma finish_download_cases:
  assumes "finish_download e i src directory file_name action n out w = (r, w')" "action \<noteq> ASkip"
  obtains (unpublished) "only_looks w w'" "\<not> is_ok r"
  | (publishing) w1 w2 w3 :: run and cur q where "rs_size src \<in> {None, Some n}"
      "client_identity (ev_client e) (rs_path src) (rn_trace w) = (Ok (Some (rs_identity src)), rn_trace w')"
      "fst (enter_finalizing i (rn_tx w1)) = Ok ()" "rn_trace w1 = rn_trace w'" "only_looks w w1"
      "validate_local_directory_handle (ev_os e) directory (rn_os w1) = (Ok (), rn_os w2)"
      "probe_identity (ev_os e) (os_join (ev_os e) (ld_path directory) file_name) (rn_os w2) = (Ok cur, rn_os w3)"
      "destination_matches action cur" "only_looks w w3"
      "publication action (os_join (ev_os e) (ld_path directory) file_name) out = Some q"
      "rn_os w' = rn_os w3 @ [q]" "is_ok r \<longleftrightarrow> os_done (ev_os e) (rn_os w')"
proof -
  let ?path = "os_join (ev_os e) (ld_path directory) file_name"
  let ?k5 = "\<lambda>current. if \<not> destination_matches action current
      then io_lift (Err (AppError_new Conflict ''The local destination changed after approval.''))
      else persist e ?path out action"
  let ?k4 = "\<lambda>_ :: unit. io_bind (on_os (probe_identity (ev_os e) ?path)) ?k5"
  let ?k3 = "\<lambda>_ :: unit. io_bind (on_os (validate_local_directory_handle (ev_os e) directory)) ?k4"
  let ?k2 = "\<lambda>(_ :: unit) w. if is_cancelled e w then (Err cancelled_before_final, w)
      else io_bind (on_tx (enter_finalizing i)) ?k3 w"
  let ?sync = "on_os (os_try (ev_os e) (transfer_error ''The local staging file could not be synchronized.'') OSyncAll)"
  let ?k1 = "\<lambda>_ :: unit. io_bind ?sync ?k2"
  show thesis
  proof (cases "rs_size src \<in> {None, Some n}")
    case False
    then have "w' = w" "\<not> is_ok r" using assms(1) by (auto simp: finish_download_def)
    then show ?thesis using unpublished only_looks_same by blast
  next
    case True
    then have "io_bind (source_unchanged e i src ''The remote source changed during transfer.'') ?k1 w = (r, w')"
      using assms(1) unfolding finish_download_def by (auto split: if_splits)
    then show ?thesis
    proof (cases rule: bind_cases)
      case (failed err)
      then show ?thesis using unpublished only_looks_same source_unchanged_result(1) [OF failed(1)] by simp
    next
      case (goes_on u wa)
      have a: "rn_os wa = rn_os w"
        "client_identity (ev_client e) (rs_path src) (rn_trace w) = (Ok (Some (rs_identity src)), rn_trace wa)"
        using source_unchanged_result [OF goes_on(1)] by simp_all
      have la: "only_looks w wa" using a(1) only_looks_same by blast
      from goes_on(2) show ?thesis
      proof (cases rule: bind_cases)
        case (failed err)
        have "only_looks wa w'" by (rule only_looks_os [OF _ failed(1)]) (intro sends_intros, simp)
        then show ?thesis using unpublished failed(2) only_looks_trans [OF la] by simp
      next
        case (goes_on u wb)
        have lb: "only_looks w wb"
          by (rule only_looks_trans [OF la], rule only_looks_os [OF _ goes_on(1)]) (intro sends_intros, simp)
        have tb: "rn_trace wb = rn_trace wa" using on_os_apply [OF goes_on(1)] by simp
        show ?thesis
        proof (cases "is_cancelled e wb")
          case True
          then show ?thesis using unpublished goes_on(2) lb by auto
        next
          case False
          then have "io_bind (on_tx (enter_finalizing i)) ?k3 wb = (r, w')" using goes_on(2) by simp
          then show ?thesis
          proof (cases rule: bind_cases)
            case (failed err)
            have "only_looks wb w'" using on_tx_apply [OF failed(1)] only_looks_same by blast
            then show ?thesis using unpublished failed(2) only_looks_trans [OF lb] by simp
          next
            case (goes_on u wc)
            have c: "fst (enter_finalizing i (rn_tx wb)) = Ok ()" "rn_trace wc = rn_trace wb" "rn_os wc = rn_os wb"
              using on_tx_apply [OF goes_on(1)] by auto
            have lc: "only_looks w wc" using only_looks_trans [OF lb only_looks_same] c(3) by blast
            from goes_on(2) show ?thesis
            proof (cases rule: bind_cases)
              case (failed err)
              have "only_looks wc w'" by (rule only_looks_os [OF _ failed(1)]) (intro sends_intros)
              then show ?thesis using unpublished failed(2) only_looks_trans [OF lc] by simp
            next
              case (goes_on u w2)
              have d: "validate_local_directory_handle (ev_os e) directory (rn_os wb) = (Ok (), rn_os w2)" "rn_trace w2 = rn_trace wc"
                using on_os_apply [OF goes_on(1)] c(3) by auto
              have l2: "only_looks w w2"
                by (rule only_looks_trans [OF lc], rule only_looks_os [OF _ goes_on(1)]) (intro sends_intros)
              from goes_on(2) show ?thesis
              proof (cases rule: bind_cases)
                case (failed err)
                have "only_looks w2 w'" by (rule only_looks_os [OF _ failed(1)]) (intro sends_intros)
                then show ?thesis using unpublished failed(2) only_looks_trans [OF l2] by simp
              next
                case (goes_on cur w3)
                have p: "probe_identity (ev_os e) ?path (rn_os w2) = (Ok cur, rn_os w3)" "rn_trace w3 = rn_trace w2"
                  using on_os_apply [OF goes_on(1)] by auto
                have l3: "only_looks w w3"
                  by (rule only_looks_trans [OF l2], rule only_looks_os [OF _ goes_on(1)]) (intro sends_intros)
                show ?thesis
                proof (cases "destination_matches action cur")
                  case False
                  then show ?thesis using unpublished goes_on(2) l3 by auto
                next
                  case True
                  then have per: "persist e ?path out action w3 = (r, w')" using goes_on(2) by simp
                  obtain q where q: "publication action ?path out = Some q" using assms(2) by (cases action) auto
                  have w': "rn_os w' = rn_os w3 @ [q]" "rn_trace w' = rn_trace w3" "is_ok r \<longleftrightarrow> os_done (ev_os e) (rn_os w')"
                    using per q by (cases action; auto simp: persist_def on_os_def os_try_def split: if_splits)+
                  have "rn_trace w' = rn_trace wa" using w'(2) p(2) d(2) c(2) tb by simp
                  then show ?thesis
                    using publishing [OF \<open>rs_size src \<in> {None, Some n}\<close> _ c(1) _ lb d(1) p(1) True l3 q w'(1,3)] a(2) tb by simp
                qed
              qed
            qed
          qed
        qed
      qed
    qed
  qed
qed

lemma run_download_publishes:
  assumes "run_download e i src (DestLocal directory file_name action) w = (r, w')" "action \<noteq> ASkip"
  obtains (unpublished) "only_looks w w'" "\<not> is_ok r"
  | (published) tr1 tr2 and n out h qs and w1 w2 w3 :: run and cur q where
      "client_identity (ev_client e) (rs_path src) (rn_trace w) = (Ok (Some (rs_identity src)), tr1)"
      "tr2 = tr1 @ QLstat (rs_path src) # QOpenRead (rs_path src) # qs @ [QClose h]"
      "out = gathered (ev_client e) (tr1 @ [QLstat (rs_path src), QOpenRead (rs_path src)]) qs"
      "unat n = length out" "rs_size src \<in> {None, Some n}"
      "client_identity (ev_client e) (rs_path src) tr2 = (Ok (Some (rs_identity src)), rn_trace w')"
      "fst (enter_finalizing i (rn_tx w1)) = Ok ()" "rn_trace w1 = rn_trace w'"
      "validate_local_directory_handle (ev_os e) directory (rn_os w1) = (Ok (), rn_os w2)"
      "probe_identity (ev_os e) (os_join (ev_os e) (ld_path directory) file_name) (rn_os w2) = (Ok cur, rn_os w3)"
      "destination_matches action cur" "only_looks w w3"
      "publication action (os_join (ev_os e) (ld_path directory) file_name) out = Some q"
      "rn_os w' = rn_os w3 @ [q]" "is_ok r \<longleftrightarrow> os_done (ev_os e) (rn_os w')"
proof -
  let ?m = "client_download (ev_client e) (ev_writer e) (rs_path src)"
  let ?body = "\<lambda>(_ :: unit) w. let w1 = w\<lparr>rn_tx := set_job_state i JTransferring (rn_tx w)\<rparr>
      in case on_client e i ?m w1 of ((r, out), w2) \<Rightarrow>
        (case r of
           Ok bytes \<Rightarrow> finish_download e i src directory file_name action bytes out w2
         | Err err \<Rightarrow>
             (Err (if is_cancelled e w2 \<and> err_code err \<noteq> OutcomeUnknownCode then cancelled_before_final else err), w2))"
  let ?create = "on_os (os_try (ev_os e) (AppError_new LocalAccess ''A local staging file could not be created.'')
      (OCreateStaging (ld_path directory)))"
  have "io_bind (source_unchanged e i src ''The remote source changed after approval.'') (\<lambda>_.
      io_bind (on_os (validate_local_directory_handle (ev_os e) directory)) (\<lambda>_. io_bind ?create ?body)) w = (r, w')"
    using assms(1) unfolding run_download_def destination.case .
  then show thesis
  proof (cases rule: bind_cases)
    case (failed err)
    then show ?thesis using unpublished only_looks_same source_unchanged_result(1) [OF failed(1)] by simp
  next
    case (goes_on u wa)
    have a: "rn_os wa = rn_os w"
      "client_identity (ev_client e) (rs_path src) (rn_trace w) = (Ok (Some (rs_identity src)), rn_trace wa)"
      using source_unchanged_result [OF goes_on(1)] by simp_all
    have la: "only_looks w wa" using a(1) only_looks_same by blast
    from goes_on(2) show ?thesis
    proof (cases rule: bind_cases)
      case (failed err)
      have "only_looks wa w'" by (rule only_looks_os [OF _ failed(1)]) (intro sends_intros)
      then show ?thesis using unpublished failed(2) only_looks_trans [OF la] by simp
    next
      case (goes_on u wb)
      have lb: "only_looks w wb" by (rule only_looks_trans [OF la], rule only_looks_os [OF _ goes_on(1)]) (intro sends_intros)
      have tb: "rn_trace wb = rn_trace wa" using on_os_apply [OF goes_on(1)] by simp
      from goes_on(2) show ?thesis
      proof (cases rule: bind_cases)
        case (failed err)
        have "only_looks wb w'" by (rule only_looks_os [OF _ failed(1)]) (intro sends_intros, simp)
        then show ?thesis using unpublished failed(2) only_looks_trans [OF lb] by simp
      next
        case (goes_on u wc)
        have lc: "only_looks w wc" by (rule only_looks_trans [OF lb], rule only_looks_os [OF _ goes_on(1)]) (intro sends_intros, simp)
        have tc: "rn_trace wc = rn_trace wa" using on_os_apply [OF goes_on(1)] tb by simp
        let ?wd = "wc\<lparr>rn_tx := set_job_state i JTransferring (rn_tx wc)\<rparr>"
        obtain x out we where m: "on_client e i ?m ?wd = ((x, out), we)" by (metis prod.collapse)
        have dl: "?m (rn_trace wa) = ((x, out), rn_trace we)" "rn_os we = rn_os wc"
          using on_client_apply [OF m] tc by simp_all
        have le: "only_looks w we" using only_looks_trans [OF lc only_looks_same] dl(2) by blast
        show ?thesis
        proof (cases x)
          case (Err err)
          then show ?thesis using unpublished goes_on(2) m le by auto
        next
          case (Ok n)
          from client_download_result [OF dl(1)] Ok obtain h qs where
            tr: "rn_trace we = rn_trace wa @ QLstat (rs_path src) # QOpenRead (rs_path src) # qs @ [QClose h]"
            "out = gathered (ev_client e) (rn_trace wa @ [QLstat (rs_path src), QOpenRead (rs_path src)]) qs" "unat n = length out"
            by auto
          have "finish_download e i src directory file_name action n out we = (r, w')" using goes_on(2) m Ok by simp
          then show ?thesis using assms(2)
          proof (cases rule: finish_download_cases)
            case unpub: unpublished
            then show ?thesis using unpublished only_looks_trans [OF le] by blast
          next
            case (publishing w1 w2 w3 cur q)
            show ?thesis
              using published [OF a(2) tr publishing(1,2,3,4,6,7,8) only_looks_trans [OF le publishing(9)] publishing(10-12)] .
          qed
        qed
      qed
    qed
  qed
qed

section \<open>An example\<close>

definition ex_job :: transfer_job_id where "ex_job = TransferJobId 7"

definition ex_env :: "raw_client \<Rightarrow> run_env" where
  "ex_env c = \<lparr>ev_client = c, ev_os = ex_os, ev_others = (\<lambda>_ _. []), ev_reads = [Some ''hello''],
     ev_writer = \<lparr>lw_write = \<lambda>_ _. True, lw_flush = \<lambda>_. True\<rparr>, ev_digest = (\<lambda>b. b), ev_simple = (\<lambda>_. ''7'')\<rparr>"

definition ex_running :: transfers where
  "ex_running = fold transfer_step ex_queue transfers_new"

definition ex_run :: run where
  "ex_run = \<lparr>rn_trace = [], rn_os = [], rn_tx = ex_one, rn_guard = None\<rparr>"

lemma ex_env_fields [simp]:
  "ev_client (ex_env c) = c" "ev_os (ex_env c) = ex_os" "ev_others (ex_env c) = (\<lambda>_ _. [])" "ev_reads (ex_env c) = [Some ''hello'']"
  "ev_digest (ex_env c) b = b" "ev_simple (ex_env c) i = ''7''"
  by (simp_all add: ex_env_def)

lemma ex_run_fields [simp]: "rn_trace ex_run = []" "rn_os ex_run = []" "rn_tx ex_run = ex_one" "rn_guard ex_run = None"
  by (simp_all add: ex_run_def)

lemma ex_staging: "staging_path ''/srv/a'' ''.nexusops-7.part'' = Ok ''/srv/.nexusops-7.part''"
  by code_simp

lemma ex_edit_staging: "staging_path ''/srv/a'' ''.nexusops-7.edit.part'' = Ok ''/srv/.nexusops-7.edit.part''"
  by code_simp

lemma ex_source_fields: "lc_handle ex_source = 2" "lc_size ex_source = 5"
  by (simp_all add: ex_source_def)

lemma ex_source_checked:
  obtains os where "on_os (validate_local_source ex_os ex_source) w = (Ok (), w\<lparr>rn_os := os\<rparr>)"
  using ex_source_valid [of "rn_os w"] by (cases "validate_local_source ex_os ex_source (rn_os w)") (auto simp: on_os_def)

lemma ex_staged:
  "client_upload_staged ex_raw_client [Some ''hello''] ''/srv/.nexusops-7.part'' [] =
     (Uploaded 5, [QCreate ''/srv/.nexusops-7.part'' 0x8180, QWrite ''h'' 0 ''hello'', QProgress 5, QClose ''h''])"
  by (simp add: client_upload_staged_def ex_raw_client_def ex_raw_def with_handle_def upload_loop.simps send_ok_def status_ok_def
      checked_add_def rc_supports_def close_handle_def validate_remote_path_def MAX_REMOTE_PATH_BYTES_def)

lemma ex_commits:
  "client_identity ex_raw_client ''/srv/a'' tr = (Ok None, tr @ [QLstat ''/srv/a''])"
  "client_commit_new ex_raw_client p ''/srv/a'' tr = (Ok (), tr @ [QLstat ''/srv/a'', QHardlink p ''/srv/a'', QRemove p])"
  by (simp_all add: client_commit_new_def client_identity_def ex_raw_client_def ex_raw_def rc_supports_def io_bind_def io_lift_def
        send_mutation_def mutation_status_def remove_old_name_def validate_remote_path_def MAX_REMOTE_PATH_BYTES_def)

lemma ex_finalizes: "fst (enter_finalizing ex_job (progress ex_job n (set_job_state ex_job JTransferring ex_one))) = Ok ()"
  by (simp add: enter_finalizing_def progress_def set_job_state_def upd_job_def with_state_def ex_job_def new_job_def)

lemma ex_upload_run:
  "fst (run_upload (ex_env ex_raw_client) ex_job ex_source (DestRemote ''/srv/a'' ACreateNew) ex_run) = Ok ()
   \<and> rn_guard (snd (run_upload (ex_env ex_raw_client) ex_job ex_source (DestRemote ''/srv/a'' ACreateNew) ex_run))
       = Some \<lparr>sg_path = ''/srv/.nexusops-7.part'', sg_armed = False, sg_owned = True\<rparr>"
proof -
  let ?e = "ex_env ex_raw_client" and ?p = "''/srv/.nexusops-7.part''"
  obtain os where v: "on_os (validate_local_source ex_os ex_source) ex_run = (Ok (), ex_run\<lparr>rn_os := os\<rparr>)"
    by (rule ex_source_checked)
  have calls: "on_os (os_try ex_os err q) w = (Ok (), w\<lparr>rn_os := rn_os w @ [q]\<rparr>)" for err q w
    by (simp add: on_os_def os_try_def ex_os_def)
  define w0 where "w0 = ex_run\<lparr>rn_os := os @ [OTryClone 2, OSeekStart 2]\<rparr>"
  define w1 where "w1 = w0\<lparr>rn_trace := [QCreate ?p 0x8180, QWrite ''h'' 0 ''hello'', QProgress 5, QClose ''h''],
    rn_tx := progress ex_job 5 (set_job_state ex_job JTransferring ex_one),
    rn_guard := Some \<lparr>sg_path = ?p, sg_armed = True, sg_owned = True\<rparr>\<rparr>"
  have st: "stage_upload ?e ex_job [Some ''hello''] ?p t w0 = (Ok 5, w1)" for t
    by (simp add: stage_upload_def on_client_def guard_new_def ex_staged w0_def w1_def)
  have up: "run_upload ?e ex_job ex_source (DestRemote ''/srv/a'' ACreateNew) ex_run
      = finish_upload ?e ex_job ex_source ?p ''/srv/a'' ACreateNew 5 w1"
    using st by (simp add: run_upload_def v calls ex_staging ex_source_fields w0_def)
  obtain os' where v': "on_os (validate_local_source ex_os ex_source) w1 = (Ok (), w1\<lparr>rn_os := os'\<rparr>)" by (rule ex_source_checked)
  obtain s where f: "on_tx (enter_finalizing ex_job) (w1\<lparr>rn_os := os'\<rparr>) = (Ok (), w1\<lparr>rn_os := os', rn_tx := s\<rparr>)"
    using ex_finalizes [of 5]
    by (cases "enter_finalizing ex_job (rn_tx w1)") (auto simp: on_tx_def w1_def)
  have "\<not> is_cancelled ?e w" for w by (simp add: is_cancelled_def ex_raw_client_def ex_raw_def)
  then show ?thesis
    unfolding up
    by (simp add: finish_upload_def or_clean_def v' f io_bind_def on_client_def ex_commits settle_def commit_upload_def
        ex_source_fields disarm_def) (simp add: w1_def)
qed

section \<open>What a run guarantees\<close>

text \<open>
  C12: A transfer changes nothing on the server but its destination and its own staging path; a download changes nothing there,
  and a job that skips its destination does nothing at all.
\<close>

theorem worker_confined:
  assumes "run_transfer e i spec w = (r, w')" "rn_guard w = None"
  shows "(\<exists>qs. rn_trace w' = rn_trace w @ qs \<and> list_all (\<lambda>q. changes q \<subseteq> touched e i spec) qs)
    \<and> (skips (js_destination spec) \<longrightarrow> r = Ok () \<and> w' = w)"
proof
  have "requests.safe (\<lambda>q. changes q \<subseteq> touched e i spec) (run_transfer e i spec)"
    by (rule requests.safe_run_transfer)
  from requests.safeD [OF this _ assms(1)] assms(2)
  show "\<exists>qs. rn_trace w' = rn_trace w @ qs \<and> list_all (\<lambda>q. changes q \<subseteq> touched e i spec) qs"
    by (simp add: requests.staged_def)
  show "skips (js_destination spec) \<longrightarrow> r = Ok () \<and> w' = w"
    using assms(1) by (auto simp: run_transfer_def)
qed

theorem worker_confined_witness:
  "\<exists>qs. rn_trace (snd (run_transfer (ex_env ex_raw_client) ex_job ex_save ex_run)) = qs
    \<and> list_all (\<lambda>q. changes q \<subseteq> touched (ex_env ex_raw_client) ex_job ex_save) qs"
  using worker_confined [of "ex_env ex_raw_client" ex_job ex_save ex_run, OF surjective_pairing] by simp

text \<open>
  C13: Seen from the queue a worker is a sequence of its steps. While the other tasks take enabled steps of their own, a run that
  starts in a reachable state with its task running ends in a reachable state with its task still running, so that the
  invariants of the queue hold and the task can release its permits and its lock.
\<close>

theorem worker_refines_queue:
  assumes "run_transfer e i spec w = (r, w')" "rn_guard w = None" "others_behave e i"
    and "task_phase_of (rn_tx w) i = Some PRun" "transfers_inv (rn_tx w)"
  shows "\<exists>evs. enabled_run transfer_enabled transfer_step evs (rn_tx w) \<and> rn_tx w' = fold transfer_step evs (rn_tx w)
    \<and> transfers_inv (rn_tx w') \<and> transfer_enabled (JReleases i r) (rn_tx w')"
proof -
  have "queue_steps.safe (e) (i) (run_transfer e i spec)"
    by (rule queue_steps.safe_run_transfer) simp
  from queue_steps.safeD [OF this _ assms(1)] assms(2-4) have "queue_path i (rn_tx w) (rn_tx w')"
    by (simp add: queue_steps.staged_def)
  then obtain evs where "rn_tx w' = fold transfer_step evs (rn_tx w)" "enabled_run transfer_enabled transfer_step evs (rn_tx w)"
    "task_phase_of (rn_tx w') i = Some PRun"
    by (auto simp: queue_path_def)
  with transfer_queue.invar_run [OF assms(5)] show ?thesis by auto
qed

theorem worker_refines_queue_witness:
  "\<exists>evs. enabled_run transfer_enabled transfer_step evs ex_running
    \<and> rn_tx (snd (run_transfer (ex_env ex_raw_client) ex_job ex_save (ex_run\<lparr>rn_tx := ex_running\<rparr>))) = fold transfer_step evs ex_running"
proof -
  let ?w = "ex_run\<lparr>rn_tx := ex_running\<rparr>"
  have "others_behave (ex_env ex_raw_client) ex_job" by (simp add: others_behave_def)
  moreover have "task_phase_of (rn_tx ?w) ex_job = Some PRun"
    by (simp add: ex_running_def task_phase_of_def ex_job_def ex_queue_tasks)
  moreover have "transfers_inv (rn_tx ?w)" by (simp add: ex_running_def ex_queue_inv)
  ultimately show ?thesis
    using worker_refines_queue [of "ex_env ex_raw_client" ex_job ex_save ?w, OF surjective_pairing] by auto
qed



text \<open>
  C14: An upload that reports success is complete: the server confirmed every write of exactly the bytes read, in order, and then
  confirmed the publication, as a link where no file was or as a replacement of the file that was approved.
\<close>

theorem upload_completes_exactly:
  assumes "run_upload e i src (DestRemote dst action) w = (Ok u, w')"
  shows "\<exists>staging (w1 :: run) cur. staging_path dst (''.nexusops-'' @ ev_simple e i @ ''.part'') = Ok staging
    \<and> staged_exactly (ev_client e) (rn_trace w) staging (contents (ev_reads e)) (rn_trace w1)
    \<and> length (contents (ev_reads e)) = unat (lc_size src)
    \<and> fst (validate_local_source (ev_os e) src (rn_os w1)) = Ok ()
    \<and> client_identity (ev_client e) dst (rn_trace w1) = (Ok cur, rn_trace w1 @ [QLstat dst]) \<and> destination_matches action cur
    \<and> published (ev_client e) (rn_trace w1 @ [QLstat dst]) staging dst action (rn_trace w')"
  using assms by (rule run_upload_Ok)

theorem upload_completes_exactly_witness:
  "\<exists>staging tr. staged_exactly ex_raw_client [] staging ''hello'' tr"
proof -
  let ?run = "run_upload (ex_env ex_raw_client) ex_job ex_source (DestRemote ''/srv/a'' ACreateNew) ex_run"
  have "?run = (Ok (), snd ?run)" using ex_upload_run by (metis prod.collapse)
  from upload_completes_exactly [OF this] show ?thesis by auto
qed







end
