(* ===== verification/File_Mutations.thy ===== *)
theory File_Mutations
  imports Transfer_Run
begin

text \<open>
  What an approved creation, rename or deletion asks of the server, and what its result says: a change is requested
  only of what was approved, and a result is a success, a refusal or a doubt exactly as the server's reply is.
\<close>

section \<open>Requests and results\<close>

definition lookups :: "raw_request list \<Rightarrow> bool" where
  "lookups qs \<longleftrightarrow> (\<forall>q \<in> set qs. \<exists>p. q = QLstat p)"

text \<open>Nothing was changed: only lookups were sent, and the result is an error.\<close>

definition refused :: "raw_request list \<Rightarrow> unit app_result \<times> raw_request list \<Rightarrow> bool" where
  "refused tr res \<longleftrightarrow> (\<exists>e looks. res = (Err e, tr @ looks) \<and> lookups looks)"

text \<open>The result that a reply to the changing request justifies.\<close>

definition reported :: "(status_code, sftp_error) result \<Rightarrow> unit app_result \<Rightarrow> bool" where
  "reported reply r \<longleftrightarrow>
     (case reply of
        Ok st \<Rightarrow> r = (if st = StOk then Ok () else Err (map_status st))
      | Err (SStatus st) \<Rightarrow> r = Err (map_status st)
      | Err _ \<Rightarrow> (\<exists>m. r = Err (AppError_new OutcomeUnknownCode m)))"

lemma lookups_simps [simp]: "lookups []" "lookups (q # qs) \<longleftrightarrow> (\<exists>p. q = QLstat p) \<and> lookups qs" "lookups (ps @ qs) \<longleftrightarrow> lookups ps \<and> lookups qs"
  by (auto simp: lookups_def)

lemma refused_later: "refused (tr @ looks) res \<Longrightarrow> lookups looks \<Longrightarrow> refused tr res"
  unfolding refused_def by (metis append.assoc lookups_simps(3))

lemma reported_Ok: "reported reply (Ok ()) \<longleftrightarrow> reply = Ok StOk"
  by (auto simp: reported_def split: result.splits sftp_error.splits if_splits)

section \<open>A calculus of endings\<close>

text \<open>An operation ends in \<open>G\<close> when it was refused or its result satisfies \<open>G\<close>.\<close>

definition ends :: "(unit app_result \<times> raw_request list \<Rightarrow> bool) \<Rightarrow> raw_request list \<Rightarrow> unit app_result \<times> raw_request list \<Rightarrow> bool" where
  "ends G tr res \<longleftrightarrow> refused tr res \<or> G res"

named_theorems ends_intros \<open>rules for the endings of composed operations\<close>

lemma ends_error [ends_intros]: "ends G tr (Err e, tr)"
  unfolding ends_def refused_def by (metis append_Nil2 lookups_simps(1))

lemma ends_lift_error [ends_intros]: "ends G tr (io_lift (Err e) tr)"
  unfolding io_lift_apply by (rule ends_error)

lemma ends_lift [ends_intros]: "(\<And>x. r = Ok x \<Longrightarrow> ends G tr (f x tr)) \<Longrightarrow> ends G tr (io_bind (io_lift r) f tr)"
  by (cases r) (simp_all add: ends_error)

lemma ends_if [ends_intros]:
  "(b \<Longrightarrow> ends G tr (m tr)) \<Longrightarrow> (\<not> b \<Longrightarrow> ends G tr (m' tr)) \<Longrightarrow> ends G tr ((if b then m else m') tr)"
  by simp

lemma ends_looked:
  assumes "ends G (tr @ [QLstat path]) res"
  shows "ends G tr res"
  using assms refused_later [of tr "[QLstat path]" res] unfolding ends_def by auto

lemma ends_identity [ends_intros]:
  assumes "rs_attrs (rc_raw c) (tr @ [QLstat path]) = Err (SStatus StNoSuchFile) \<Longrightarrow>
      ends G (tr @ [QLstat path]) (f None (tr @ [QLstat path]))"
    and "\<And>a. rs_attrs (rc_raw c) (tr @ [QLstat path]) = Ok a \<Longrightarrow>
      ends G (tr @ [QLstat path]) (f (Some (attrs_identity c a)) (tr @ [QLstat path]))"
  shows "ends G tr (io_bind (client_identity c path) f tr)"
proof -
  obtain x t where x: "client_identity c path tr = (x, t)" "t \<in> {tr, tr @ [QLstat path]}"
    using client_identity_trace [of c path tr] by (cases "client_identity c path tr") auto
  show ?thesis
  proof (cases x)
    case (Err e)
    then show ?thesis using x ends_error [of G] ends_looked [of G tr path] by auto
  next
    case (Ok i)
    note id = client_identity_Ok [OF x(1) [unfolded Ok]]
    have "ends G (tr @ [QLstat path]) (f i (tr @ [QLstat path]))" using assms id by (cases i) auto
    with ends_looked show ?thesis using x(1) Ok id(1) by simp
  qed
qed

lemma ends_stat [ends_intros]:
  assumes "\<And>e. ends G (tr @ [QLstat path]) (f e (tr @ [QLstat path]))"
  shows "ends G tr (io_bind (client_stat c path) f tr)"
proof -
  obtain x t where x: "client_stat c path tr = (x, t)" by (cases "client_stat c path tr") auto
  then have "t = tr \<and> \<not> is_ok x \<or> t = tr @ [QLstat path]"
    by (auto simp: client_stat_def io_bind_def io_lift_def ask_ok_def split: result.splits)
  then show ?thesis
    using x assms ends_error [of G] ends_looked [of G tr path] by (cases x) auto
qed

lemma send_mutation_reported:
  "send_mutation c m q tr = (r, tr') \<Longrightarrow> tr' = tr @ [q] \<and> reported (rs_status (rc_raw c) tr') r"
  by (auto simp: send_mutation_def mutation_status_def reported_def split: result.split sftp_error.split)

lemma ends_mutation [ends_intros]:
  assumes "\<And>r. reported (rs_status (rc_raw c) (tr @ [q])) r \<Longrightarrow> G (r, tr @ [q])"
  shows "ends G tr (send_mutation c m q tr)"
  using assms send_mutation_reported [of c m q tr] by (cases "send_mutation c m q tr") (auto simp: ends_def)

text \<open>The end of a rename: the link, and once it is confirmed the removal of the old name.\<close>

definition link_ended :: "raw_client \<Rightarrow> string \<Rightarrow> string \<Rightarrow> raw_request list \<Rightarrow> unit app_result \<times> raw_request list \<Rightarrow> bool" where
  "link_ended c src dst tr res \<longleftrightarrow>
     (case res of (r, tr') \<Rightarrow>
        tr' = tr @ [QHardlink src dst] \<and> r \<noteq> Ok () \<and> reported (rs_status (rc_raw c) tr') r
      \<or> rs_status (rc_raw c) (tr @ [QHardlink src dst]) = Ok StOk \<and> tr' = tr @ [QHardlink src dst, QRemove src]
        \<and> (if rs_status (rc_raw c) tr' = Ok StOk then r = Ok () else \<exists>m. r = Err (AppError_new OutcomeUnknownCode m)))"

lemma link_end:
  "link_ended c src dst tr (io_bind (send_mutation c m (QHardlink src dst)) (\<lambda>_. remove_old_name c src m') tr)"
proof (cases "rs_status (rc_raw c) (tr @ [QHardlink src dst]) = Ok StOk")
  case True
  then show ?thesis
    by (auto simp: link_ended_def send_mutation_def mutation_status_def remove_old_name_def io_bind_def split: result.split sftp_error.split)
next
  case False
  then have "\<exists>e. send_mutation c m (QHardlink src dst) tr = (Err e, tr @ [QHardlink src dst])"
    by (auto simp: send_mutation_def mutation_status_def split: result.split sftp_error.split)
  then obtain e where "send_mutation c m (QHardlink src dst) tr = (Err e, tr @ [QHardlink src dst])" ..
  with send_mutation_reported [OF this] show ?thesis by (simp add: link_ended_def)
qed

lemma ends_link [ends_intros]:
  "(\<And>res. link_ended c src dst tr res \<Longrightarrow> G res) \<Longrightarrow>
    ends G tr (io_bind (send_mutation c m (QHardlink src dst)) (\<lambda>_. remove_old_name c src m') tr)"
  using link_end unfolding ends_def by blast

section \<open>Approved changes\<close>

text \<open>What was approved still holds, by what the server answered at this point.\<close>

definition still_approved :: "raw_client \<Rightarrow> string \<Rightarrow> entry_identity \<Rightarrow> raw_request list \<Rightarrow> bool" where
  "still_approved c path expected tr \<longleftrightarrow>
     (\<exists>a. rs_attrs (rc_raw c) (tr @ [QLstat path]) = Ok a \<and> attrs_identity c a = expected)"

definition absent_at :: "raw_client \<Rightarrow> raw_request list \<Rightarrow> bool" where
  "absent_at c tr \<longleftrightarrow> rs_attrs (rc_raw c) tr = Err (SStatus StNoSuchFile)"

fun carried_out :: "raw_client \<Rightarrow> mutation_spec \<Rightarrow> raw_request list \<Rightarrow> unit app_result \<times> raw_request list \<Rightarrow> bool" where
  "carried_out c (MCreateDirectory path) tr (r, tr') \<longleftrightarrow>
     absent_at c (tr @ [QLstat path]) \<and> tr' = tr @ [QLstat path, QMkdir path 0x41C0] \<and> reported (rs_status (rc_raw c) tr') r"
| "carried_out c (MRename src dst expected) tr res \<longleftrightarrow>
     still_approved c src expected tr \<and> absent_at c (tr @ [QLstat src, QLstat src, QLstat dst])
     \<and> link_ended c src dst (tr @ [QLstat src, QLstat src, QLstat dst]) res"
| "carried_out c (MDelete path kind expected) tr (r, tr') \<longleftrightarrow>
     still_approved c path expected tr \<and> kind \<in> {KFile, KSymlink, KDirectory}
     \<and> tr' = tr @ [QLstat path, QLstat path, if kind = KDirectory then QRmdir path else QRemove path]
     \<and> reported (rs_status (rc_raw c) tr') r"

lemma create_ends: "ends (carried_out c (MCreateDirectory path) tr) tr (client_create_dir c path tr)"
  unfolding client_create_dir_def
  by (intro ends_intros) (auto simp: absent_at_def)

lemma mutation_ends: "ends (carried_out c spec tr) tr (execute_mutation c spec tr)"
proof (cases spec)
  case (MCreateDirectory path)
  then show ?thesis by (simp add: execute_mutation_def create_ends)
next
  case (MRename src dst expected)
  then show ?thesis
    unfolding execute_mutation_def client_rename_noclobber_def MRename mutation_spec.case
    by (intro ends_intros) (auto simp: still_approved_def absent_at_def)
next
  case (MDelete path kind expected)
  then show ?thesis
    unfolding execute_mutation_def client_remove_file_def client_remove_dir_def MDelete mutation_spec.case
    by (cases kind; simp only: remote_entry_kind.case; intro ends_intros) (auto simp: still_approved_def)
qed

text \<open>
  C11: An approved creation, rename or deletion either changes nothing and says so, or asks for exactly the approved
  change after the server confirmed what was approved: a creation and a rename only at a name the server says is
  absent, a rename and a deletion only of the very entry that was approved. Its result is honest: a success only for a
  confirmed change, the server's refusal as it is, a lost reply as an unknown outcome, and a rename whose new name exists
  while the removal of the old one is not confirmed as an unknown outcome too.
\<close>

theorem mutation_honest:
  "\<exists>r tr'. execute_mutation c spec tr = (r, tr') \<and> (r = Ok () \<longrightarrow> rs_status (rc_raw c) tr' = Ok StOk)
    \<and> (refused tr (r, tr') \<or> carried_out c spec tr (r, tr'))"
proof -
  obtain r tr' where res: "execute_mutation c spec tr = (r, tr')" by (cases "execute_mutation c spec tr")
  have "refused tr (r, tr') \<or> carried_out c spec tr (r, tr')"
    using mutation_ends [of c spec tr] unfolding res ends_def .
  moreover from this have "r = Ok () \<Longrightarrow> rs_status (rc_raw c) tr' = Ok StOk"
    by (cases spec) (auto simp: refused_def reported_Ok link_ended_def split: if_splits)
  ultimately show ?thesis using res by blast
qed

theorem mutation_honest_witness:
  "carried_out ex_raw_client (MCreateDirectory ''/srv/a'') [] (Ok (), [QLstat ''/srv/a'', QMkdir ''/srv/a'' 0x41C0])"
proof -
  have "execute_mutation ex_raw_client (MCreateDirectory ''/srv/a'') [] = (Ok (), [QLstat ''/srv/a'', QMkdir ''/srv/a'' 0x41C0])"
    by (simp add: execute_mutation_def client_create_dir_def client_identity_def ex_path_valid ex_raw_client_def ex_raw_def
        io_bind_def io_lift_def send_mutation_def mutation_status_def)
  with mutation_honest [of ex_raw_client "MCreateDirectory ''/srv/a''" "[]"] show ?thesis
    by (auto simp: refused_def)
qed

end
