(* ===== verification/Sftp_Session.thy ===== *)
theory Sftp_Session
  imports Sftp_Requests
begin

text \<open>
  What a connected client is (its chunk sizes, its start directory, the extensions it reports) and what a directory listing contains: exactly
  the first entries of everything the server named, up to the cap.
\<close>

section \<open>Connecting\<close>

text \<open>The shape of a client that the rest of the code relies on.\<close>

definition client_wf :: "raw_client \<Rightarrow> bool" where
  "client_wf c \<longleftrightarrow> 1 \<le> unat (rc_read_chunk c) \<and> unat (rc_read_chunk c) \<le> CLIENT_CHUNK_BYTES
     \<and> 1 \<le> rc_write_chunk c \<and> rc_write_chunk c \<le> CLIENT_CHUNK_BYTES
     \<and> si_protocol_version (rc_info c) = 3 \<and> validate_remote_path (si_root_path (rc_info c)) = Ok ()
     \<and> sorted (map ext_name (si_extensions (rc_info c))) \<and> distinct (map ext_name (si_extensions (rc_info c)))
     \<and> (\<forall>n v. \<lparr>ext_name = n, ext_version = v\<rparr> \<in> set (si_extensions (rc_info c)) \<longleftrightarrow> fmlookup (rc_extension_map c) n = Some v)"

lemma chunk_len_bounds: "1 \<le> unat (chunk_len n)" "unat (chunk_len n) \<le> CLIENT_CHUNK_BYTES"
proof -
  have "(1 :: u64) \<le> chunk_len n" by (simp add: chunk_len_def)
  then show "1 \<le> unat (chunk_len n)" by (metis unat_1 word_le_nat_alt)
  have "chunk_len n \<le> 65536" by (auto simp: chunk_len_def CLIENT_CHUNK_BYTES_def)
  then have "unat (chunk_len n) \<le> unat (65536 :: u64)" by (simp add: word_le_nat_alt)
  then show "unat (chunk_len n) \<le> CLIENT_CHUNK_BYTES" by (simp add: CLIENT_CHUNK_BYTES_def)
qed

lemma extension_list_names: "map ext_name (extension_list m) = sorted_list_of_fset (fmdom m)"
  by (simp add: extension_list_def comp_def)

lemma extension_list_entries:
  "\<lparr>ext_name = n, ext_version = v\<rparr> \<in> set (extension_list m) \<longleftrightarrow> fmlookup m n = Some v"
  by (auto simp: extension_list_def image_iff fmlookup_dom_iff split: option.split)

text \<open>
  C36: A client that \<open>connect\<close> returns is well formed: both chunk sizes are between one byte and 64 KiB whatever limits the server announced, the
  start directory is a valid remote path, and the reported extensions are those of the server, sorted, each once.
\<close>

theorem connect_wf:
  assumes "connect raw init limits realpath new_id h hs = Ok c"
  shows "client_wf c"
proof -
  obtain ext x y root where c: "rc_read_chunk c = ucast (chunk_len x)" "rc_write_chunk c = unat (chunk_len y)"
    "si_protocol_version (rc_info c) = 3" "si_root_path (rc_info c) = root" "validate_remote_path root = Ok ()"
    "si_extensions (rc_info c) = extension_list ext" "rc_extension_map c = ext"
    using assms unfolding connect_def
    by (auto simp: and_then_Ok_iff simp del: validate_remote_path_Ok split: if_splits prod.splits)
  have small: "unat (chunk_len x) < 2 ^ 32" for x using chunk_len_bounds(2) [of x] by (simp add: CLIENT_CHUNK_BYTES_def)
  have "unat (ucast (chunk_len x) :: u32) = unat (chunk_len x)" for x
    using small [of x] by (simp add: unsigned_ucast_eq take_bit_nat_eq_self)
  then show ?thesis
    unfolding client_wf_def c using chunk_len_bounds c(5) by (simp add: extension_list_names extension_list_entries sorted_list_of_fset.rep_eq)
qed

definition ex_limits :: server_limits where
  "ex_limits = \<lparr>sl_max_packet_len = 0, sl_max_read_len = 1, sl_max_write_len = 261120, sl_max_open_handles = 0\<rparr>"

theorem connect_wf_witness:
  "\<exists>c. connect ex_raw (Ok (3, fmap_of_list [(''limits@openssh.com'', ''1'')])) (Ok ex_limits) (Ok [''/home/me'']) (SftpSessionId 3)
     (HostId 1) (HostSessionId 2) = Ok c \<and> client_wf c"
proof -
  let ?c = "connect ex_raw (Ok (3, fmap_of_list [(''limits@openssh.com'', ''1'')])) (Ok ex_limits) (Ok [''/home/me'']) (SftpSessionId 3)
     (HostId 1) (HostSessionId 2)"
  have "is_ok ?c" by (simp add: connect_def MAX_REMOTE_PATH_BYTES_def validate_remote_path_def)
  then obtain c where "?c = Ok c" by (auto simp: is_ok_iff)
  with connect_wf [OF this] show ?thesis by blast
qed

section \<open>Listing\<close>

text \<open>The reference: every name the server sent with the first \<open>n\<close> replies, without the two dot names.\<close>

primrec names_read :: "raw_client \<Rightarrow> string \<Rightarrow> raw_request list \<Rightarrow> nat \<Rightarrow> (string \<times> file_attributes) list" where
  "names_read c h tr 0 = []"
| "names_read c h tr (Suc n) =
     (case rs_names (rc_raw c) (tr @ [QReaddir h]) of Ok files \<Rightarrow> files | Err _ \<Rightarrow> []) @ names_read c h (tr @ [QReaddir h]) n"

definition visible :: "(string \<times> file_attributes) list \<Rightarrow> (string \<times> file_attributes) list" where
  "visible files = filter (\<lambda>(name, _). name \<noteq> ''.'' \<and> name \<noteq> ''..'') files"

definition entry_of :: "raw_client \<Rightarrow> string \<Rightarrow> string \<times> file_attributes \<Rightarrow> remote_entry app_result" where
  "entry_of c path f = (case f of (name, a) \<Rightarrow> remote_entry_of c path name a)"

lemma visible_simps [simp]:
  "visible [] = []" "visible (xs @ ys) = visible xs @ visible ys"
  "visible ((name, a) # xs) = (if name = ''.'' \<or> name = ''..'' then visible xs else (name, a) # visible xs)"
  by (auto simp: visible_def)

lemma entry_of_pair [simp]: "entry_of c path (name, a) = remote_entry_of c path name a"
  by (simp add: entry_of_def)

lemma try_map_append: "try_map f xs = Ok as \<Longrightarrow> try_map f ys = Ok bs \<Longrightarrow> try_map f (xs @ ys) = Ok (as @ bs)"
  by (simp add: try_map_Ok_iff list_all2_appendI)

lemma list_batch_Ok:
  assumes "list_batch c path files entries = Ok (entries', p)" "length entries \<le> LISTING_ENTRY_CAP"
  shows "\<exists>new. entries' = entries @ new
    \<and> try_map (entry_of c path) (take (LISTING_ENTRY_CAP - length entries) (visible files)) = Ok new
    \<and> p = (LISTING_ENTRY_CAP < length entries + length (visible files)) \<and> length entries' \<le> LISTING_ENTRY_CAP"
  using assms
proof (induction c path files entries rule: list_batch.induct)
  case (2 c path name a files entries)
  show ?case
  proof (cases "name = ''.'' \<or> name = ''..''")
    case True
    with 2(1,3,4) show ?thesis by auto
  next
    case dots: False
    obtain u where u: "validate_child_name name = Ok u"
      using 2(3) dots by (auto split: result.splits simp del: validate_child_name_Ok)
    show ?thesis
    proof (cases "length entries = LISTING_ENTRY_CAP")
      case True
      then show ?thesis using 2(3) dots unfolding list_batch.simps u by auto
    next
      case False
      obtain e where e: "remote_entry_of c path name a = Ok e"
        using 2(3) dots False unfolding list_batch.simps u by (auto split: result.splits)
      have rest: "list_batch c path files (entries @ [e]) = Ok (entries', p)"
        using 2(3) dots False e unfolding list_batch.simps u by auto
      have "length (entries @ [e]) \<le> LISTING_ENTRY_CAP" using 2(4) False by simp
      from 2(2) [OF dots u False e rest this] obtain new where new: "entries' = (entries @ [e]) @ new"
        "try_map (entry_of c path) (take (LISTING_ENTRY_CAP - length (entries @ [e])) (visible files)) = Ok new"
        "p = (LISTING_ENTRY_CAP < length (entries @ [e]) + length (visible files))" "length entries' \<le> LISTING_ENTRY_CAP"
        by blast
      have k: "LISTING_ENTRY_CAP - length entries = Suc (LISTING_ENTRY_CAP - length (entries @ [e]))" using 2(4) False by simp
      show ?thesis
        using new dots e by (intro exI [of _ "e # new"]) (simp add: k)
    qed
  qed
qed simp

text \<open>What a loop that ends with a listing has read, added and decided.\<close>

definition listed :: "raw_client \<Rightarrow> string \<Rightarrow> string \<Rightarrow> remote_entry list \<Rightarrow> raw_request list \<Rightarrow> nat
    \<Rightarrow> remote_entry list \<times> bool \<Rightarrow> raw_request list \<Rightarrow> bool" where
  "listed c path h entries tr n res tr' \<longleftrightarrow>
     tr' = tr @ replicate n (QReaddir h)
     \<and> (\<exists>new. fst res = entries @ new
         \<and> try_map (entry_of c path) (take (LISTING_ENTRY_CAP - length entries) (visible (names_read c h tr n))) = Ok new)
     \<and> snd res = (LISTING_ENTRY_CAP < length entries + length (visible (names_read c h tr n)))
     \<and> (snd res \<or> rs_names (rc_raw c) tr' = Err (SStatus StEof))"

lemma listed_more:
  assumes "listed c path h entries1 (tr @ [QReaddir h]) n res tr'"
    and "rs_names (rc_raw c) (tr @ [QReaddir h]) = Ok files"
    and "list_batch c path files entries = Ok (entries1, False)" "length entries \<le> LISTING_ENTRY_CAP"
  shows "listed c path h entries tr (Suc n) res tr'"
proof -
  from list_batch_Ok [OF assms(3,4)] obtain new1 where new1: "entries1 = entries @ new1"
    "try_map (entry_of c path) (take (LISTING_ENTRY_CAP - length entries) (visible files)) = Ok new1"
    "length entries + length (visible files) \<le> LISTING_ENTRY_CAP"
    by auto
  have all: "take (LISTING_ENTRY_CAP - length entries) (visible files) = visible files" using new1(3) by simp
  have len: "length new1 = length (visible files)"
    using new1(2) unfolding all by (simp add: try_map_Ok_iff list_all2_lengthD)
  obtain new2 where new2: "fst res = entries1 @ new2"
    "try_map (entry_of c path) (take (LISTING_ENTRY_CAP - length entries1) (visible (names_read c h (tr @ [QReaddir h]) n))) = Ok new2"
    using assms(1) unfolding listed_def by blast
  have cut: "LISTING_ENTRY_CAP - length entries1 = LISTING_ENTRY_CAP - length entries - length (visible files)"
    using new1(1) len by simp
  have "try_map (entry_of c path) (take (LISTING_ENTRY_CAP - length entries)
      (visible files @ visible (names_read c h (tr @ [QReaddir h]) n))) = Ok (new1 @ new2)"
    using try_map_append [OF new1(2) new2(2)] unfolding take_append cut .
  then show ?thesis using assms(1,2) new1(1) new2(1) len unfolding listed_def by (auto simp: add.assoc)
qed

lemma list_loop_Ok:
  assumes "list_loop c path h entries tr = Some (Ok res, tr')" "length entries \<le> LISTING_ENTRY_CAP"
  shows "\<exists>n. listed c path h entries tr n res tr'"
proof -
  let ?P = "\<lambda>c path h entries tr (y :: (remote_entry list \<times> bool) app_result \<times> raw_request list). length entries \<le> LISTING_ENTRY_CAP
    \<longrightarrow> (\<forall>res tr'. y = (Ok res, tr') \<longrightarrow> (\<exists>n. listed c path h entries tr n res tr'))"
  have "?P c path h entries tr (Ok res, tr')"
  proof (rule list_loop.raw_induct [of ?P, OF _ assms(1)], intro impI allI)
    fix loop :: "raw_client \<Rightarrow> string \<Rightarrow> string \<Rightarrow> remote_entry list \<Rightarrow> raw_request list
      \<Rightarrow> ((remote_entry list \<times> bool) app_result \<times> raw_request list) option"
    fix c path h entries tr y res tr'
    assume ih: "\<And>c path h entries tr y. loop c path h entries tr = Some y \<Longrightarrow> ?P c path h entries tr y"
      and len: "length entries \<le> LISTING_ENTRY_CAP" and y: "y = (Ok res, tr')"
      and run: "(if rs_cancelled (rc_raw c) tr then Some (Err listing_cancelled, tr)
      else if rs_cancelled (rc_raw c) (tr @ [QReaddir h]) then Some (Err listing_cancelled, tr @ [QReaddir h])
      else case rs_names (rc_raw c) (tr @ [QReaddir h]) of
        Ok files \<Rightarrow>
          (case list_batch c path files entries of
             Err e \<Rightarrow> Some (Err e, tr @ [QReaddir h])
           | Ok (entries', partial) \<Rightarrow>
               if partial then Some (Ok (entries', True), tr @ [QReaddir h])
               else loop c path h entries' (tr @ [QReaddir h]))
      | Err e \<Rightarrow>
          if e = SStatus StEof then Some (Ok (entries, False), tr @ [QReaddir h])
          else Some (Err (map_error e), tr @ [QReaddir h])) = Some y"
    show "\<exists>n. listed c path h entries tr n res tr'"
    proof (cases "rs_names (rc_raw c) (tr @ [QReaddir h])")
      case (Ok files)
      obtain entries1 p where b: "list_batch c path files entries = Ok (entries1, p)"
        using run y Ok by (auto split: if_splits result.splits)
      show ?thesis
      proof (cases p)
        case True
        have "res = (entries1, True)" "tr' = tr @ [QReaddir h]" using run y Ok b True by (auto split: if_splits)
        then have "listed c path h entries tr 1 res tr'"
          using list_batch_Ok [OF b len] Ok True by (auto simp: listed_def)
        then show ?thesis by blast
      next
        case False
        then have "loop c path h entries1 (tr @ [QReaddir h]) = Some (Ok res, tr')"
          using run y Ok b by (auto split: if_splits)
        moreover have "length entries1 \<le> LISTING_ENTRY_CAP" using list_batch_Ok [OF b len] by blast
        ultimately obtain n where "listed c path h entries1 (tr @ [QReaddir h]) n res tr'" using ih by blast
        from listed_more [OF this Ok _ len] b False show ?thesis by auto
      qed
    next
      case (Err e)
      then have "listed c path h entries tr 1 res tr'" using run y len by (auto simp: listed_def split: if_splits)
      then show ?thesis by blast
    qed
  qed
  with assms(2) show ?thesis by blast
qed

lemma list_loop_returns:
  "rs_names (rc_raw c) (tr @ replicate (Suc k) (QReaddir h)) = Err e \<Longrightarrow> list_loop c path h entries tr \<noteq> None"
proof (induction k arbitrary: tr entries)
  case 0
  then show ?case by (subst list_loop.simps) simp
next
  case (Suc k)
  then have "list_loop c path h entries' (tr @ [QReaddir h]) \<noteq> None" for entries' by simp
  then show ?case by (subst list_loop.simps) (auto split: result.split)
qed

lemma client_list_opened:
  assumes "validate_remote_path path = Ok u" "rs_handle (rc_raw c) (tr @ [QOpendir path]) = Ok h"
  shows "client_list c path tr = (case list_loop c path h [] (tr @ [QOpendir path]) of
      None \<Rightarrow> None
    | Some (r, tr2) \<Rightarrow>
        Some (and_then r (\<lambda>(entries, partial). and_then (fst (close_handle c h tr2)) (\<lambda>_.
          Ok \<lparr>dl_host_id = si_host_id (rc_info c), dl_host_session_id = si_host_session_id (rc_info c),
              dl_sftp_session_id = si_id (rc_info c), dl_path = path, dl_entries = entries,
              dl_partial = partial, dl_entry_cap = of_nat LISTING_ENTRY_CAP\<rparr>)), tr2 @ [QClose h]))"
  unfolding client_list_def assms ask_ok_def close_handle_def send_ok_def by (auto split: option.split)

lemma client_list_OkE:
  assumes "client_list c path tr = Some (Ok l, tr')"
  obtains h tr2 where "rs_handle (rc_raw c) (tr @ [QOpendir path]) = Ok h" "tr' = tr2 @ [QClose h]"
    "list_loop c path h [] (tr @ [QOpendir path]) = Some (Ok (dl_entries l, dl_partial l), tr2)"
    "dl_path l = path" "dl_sftp_session_id l = si_id (rc_info c)"
proof -
  obtain u where u: "validate_remote_path path = Ok u"
    using assms unfolding client_list_def by (cases "validate_remote_path path") auto
  obtain h where h: "rs_handle (rc_raw c) (tr @ [QOpendir path]) = Ok h"
    using assms unfolding client_list_def u by (cases "rs_handle (rc_raw c) (tr @ [QOpendir path])") (auto simp: ask_ok_def)
  show thesis
    using assms h that unfolding client_list_opened [OF u h] by (auto simp: and_then_Ok_iff split: option.splits)
qed

lemma client_list_returns:
  assumes "\<And>h. rs_handle (rc_raw c) (tr @ [QOpendir path]) = Ok h \<Longrightarrow>
      \<exists>k e. rs_names (rc_raw c) (tr @ QOpendir path # replicate (Suc k) (QReaddir h)) = Err e"
  shows "client_list c path tr \<noteq> None"
proof (cases "validate_remote_path path")
  case (Ok u)
  show ?thesis
  proof (cases "rs_handle (rc_raw c) (tr @ [QOpendir path])")
    case h: (Ok h)
    with assms list_loop_returns [of c "tr @ [QOpendir path]" _ h _ path "[]"]
    have "list_loop c path h [] (tr @ [QOpendir path]) \<noteq> None" by fastforce
    then show ?thesis unfolding client_list_opened [OF Ok h] by auto
  next
    case (Err e)
    then show ?thesis unfolding client_list_def Ok by (simp add: ask_ok_def)
  qed
qed (simp add: client_list_def)

text \<open>
  C35: Listing a directory agrees with the reference. It returns whenever the server, having given a handle, ends or
  fails one of the reads of that handle. A listing it returns holds, in the server's order, the entries of the first
  visible names of the replies (the names \<open>.\<close> and \<open>..\<close> left out), at most the cap of them; it is marked partial
  exactly when the replies held more visible names than the cap; and a listing not so marked was ended by the server's
  own end-of-file status. Its requests are the opening, the reads and the closing of one handle.
\<close>

theorem listing_exact:
  "((\<forall>h. rs_handle (rc_raw c) (tr @ [QOpendir path]) = Ok h \<longrightarrow>
        (\<exists>k e. rs_names (rc_raw c) (tr @ QOpendir path # replicate (Suc k) (QReaddir h)) = Err e))
      \<longrightarrow> client_list c path tr \<noteq> None)
   \<and> (\<forall>l tr'. client_list c path tr = Some (Ok l, tr') \<longrightarrow>
        (\<exists>h n. let reads = tr @ QOpendir path # replicate n (QReaddir h);
                 found = visible (names_read c h (tr @ [QOpendir path]) n) in
           rs_handle (rc_raw c) (tr @ [QOpendir path]) = Ok h \<and> tr' = reads @ [QClose h]
           \<and> try_map (entry_of c path) (take LISTING_ENTRY_CAP found) = Ok (dl_entries l)
           \<and> dl_partial l = (LISTING_ENTRY_CAP < length found)
           \<and> (dl_partial l \<or> rs_names (rc_raw c) reads = Err (SStatus StEof))
           \<and> dl_path l = path \<and> dl_sftp_session_id l = si_id (rc_info c)))"
proof (intro conjI impI allI)
  assume "\<forall>h. rs_handle (rc_raw c) (tr @ [QOpendir path]) = Ok h \<longrightarrow>
        (\<exists>k e. rs_names (rc_raw c) (tr @ QOpendir path # replicate (Suc k) (QReaddir h)) = Err e)"
  then show "client_list c path tr \<noteq> None" by (intro client_list_returns) blast
next
  fix l tr'
  assume "client_list c path tr = Some (Ok l, tr')"
  then obtain h tr2 where h: "rs_handle (rc_raw c) (tr @ [QOpendir path]) = Ok h" "tr' = tr2 @ [QClose h]"
    and loop: "list_loop c path h [] (tr @ [QOpendir path]) = Some (Ok (dl_entries l, dl_partial l), tr2)"
    and l: "dl_path l = path" "dl_sftp_session_id l = si_id (rc_info c)"
    by (rule client_list_OkE)
  from list_loop_Ok [OF loop] obtain n
    where "listed c path h [] (tr @ [QOpendir path]) n (dl_entries l, dl_partial l) tr2" by auto
  then show "\<exists>h n. let reads = tr @ QOpendir path # replicate n (QReaddir h);
                 found = visible (names_read c h (tr @ [QOpendir path]) n) in
           rs_handle (rc_raw c) (tr @ [QOpendir path]) = Ok h \<and> tr' = reads @ [QClose h]
           \<and> try_map (entry_of c path) (take LISTING_ENTRY_CAP found) = Ok (dl_entries l)
           \<and> dl_partial l = (LISTING_ENTRY_CAP < length found)
           \<and> (dl_partial l \<or> rs_names (rc_raw c) reads = Err (SStatus StEof))
           \<and> dl_path l = path \<and> dl_sftp_session_id l = si_id (rc_info c)"
    using h l unfolding listed_def Let_def by (intro exI [of _ h] exI [of _ n]) auto
qed

text \<open>A server with a directory of one file, sent in one reply after the dot names.\<close>

definition ex_list_client :: raw_client where
  "ex_list_client = ex_raw_client\<lparr>rc_raw := ex_raw\<lparr>rs_names := (\<lambda>tr.
     if length (filter (\<lambda>q. q = QReaddir ''h'') tr) = 1 then Ok [(''.'', ex_attrs), (''..'', ex_attrs), (''a'', ex_attrs)]
     else Err (SStatus StEof))\<rparr>\<rparr>"

lemma ex_list_fields:
  "rs_handle (rc_raw ex_list_client) tr = Ok ''h''" "rs_status (rc_raw ex_list_client) tr = Ok StOk"
  "\<not> rs_cancelled (rc_raw ex_list_client) tr"
  "rs_names (rc_raw ex_list_client) [QOpendir ''/srv'', QReaddir ''h''] = Ok [(''.'', ex_attrs), (''..'', ex_attrs), (''a'', ex_attrs)]"
  "rs_names (rc_raw ex_list_client) [QOpendir ''/srv'', QReaddir ''h'', QReaddir ''h''] = Err (SStatus StEof)"
  by (simp_all add: ex_list_client_def ex_raw_client_def ex_raw_def)

lemma ex_entry: "\<exists>e. remote_entry_of ex_list_client ''/srv'' ''a'' ex_attrs = Ok e"
  by (simp add: remote_entry_of_def join_remote_def validate_remote_path_def validate_child_name_def MAX_REMOTE_PATH_BYTES_def trim_end_matches_def)

lemma ex_listing: "\<exists>l tr'. client_list ex_list_client ''/srv'' [] = Some (Ok l, tr')"
proof -
  obtain e where e: "remote_entry_of ex_list_client ''/srv'' ''a'' ex_attrs = Ok e" using ex_entry by blast
  have v: "validate_remote_path ''/srv'' = Ok ()" "validate_child_name ''a'' = Ok ()"
    by (simp_all add: validate_remote_path_def MAX_REMOTE_PATH_BYTES_def validate_child_name_def)
  have "list_loop ex_list_client ''/srv'' ''h'' [] [QOpendir ''/srv''] =
      Some (Ok ([e], False), [QOpendir ''/srv'', QReaddir ''h'', QReaddir ''h''])"
    by (subst list_loop.simps, subst list_loop.simps) (simp add: ex_list_fields e v LISTING_ENTRY_CAP_def)
  then show ?thesis
    by (simp add: client_list_opened [OF v(1), of ex_list_client "[]" "''h''"] ex_list_fields close_handle_def send_ok_def status_ok_def)
qed

theorem listing_exact_witness:
  "client_list ex_list_client ''/srv'' [] \<noteq> None
   \<and> (\<exists>(l :: directory_listing) n. try_map (entry_of ex_list_client ''/srv'') (take LISTING_ENTRY_CAP
              (visible (names_read ex_list_client ''h'' [QOpendir ''/srv''] n))) = Ok (dl_entries l) \<and> dl_path l = ''/srv'')"
proof (rule conjI)
  have "\<exists>k e. rs_names (rc_raw ex_list_client) ([] @ QOpendir ''/srv'' # replicate (Suc k) (QReaddir ''h'')) = Err e"
    by (rule exI [of _ 1]) (simp add: ex_list_fields)
  then show "client_list ex_list_client ''/srv'' [] \<noteq> None"
    by (intro listing_exact [of ex_list_client "[]" "''/srv''", THEN conjunct1, THEN mp]) (simp add: ex_list_fields)
  obtain l tr' where "client_list ex_list_client ''/srv'' [] = Some (Ok l, tr')" using ex_listing by blast
  from listing_exact [of ex_list_client "[]" "''/srv''", THEN conjunct2, rule_format, OF this]
  obtain n where "try_map (entry_of ex_list_client ''/srv'') (take LISTING_ENTRY_CAP
              (visible (names_read ex_list_client ''h'' [QOpendir ''/srv''] n))) = Ok (dl_entries l)" "dl_path l = ''/srv''"
    unfolding Let_def ex_list_fields append_Nil result.inject by blast
  then show "\<exists>(l :: directory_listing) n. try_map (entry_of ex_list_client ''/srv'') (take LISTING_ENTRY_CAP
              (visible (names_read ex_list_client ''h'' [QOpendir ''/srv''] n))) = Ok (dl_entries l) \<and> dl_path l = ''/srv''"
    by blast
qed

end
