(* ===== verification/Rust_Text.thy ===== *)
theory Rust_Text
  imports Utf8
begin

text \<open>
  More of the standard library's string functions, used by the updater and the host keys.
  Strings are UTF-8 byte strings.
\<close>

section \<open>Prefixes\<close>

definition strip_prefix :: "string \<Rightarrow> string \<Rightarrow> string option" where
  "strip_prefix s p = (if starts_with s p then Some (drop (length p) s) else None)"

lemma strip_prefix_Some: "strip_prefix s p = Some r \<longleftrightarrow> s = p @ r"
  by (auto simp: strip_prefix_def starts_with_decomp)

lemma strip_prefix_None: "strip_prefix s p = None \<longleftrightarrow> (\<forall>r. s \<noteq> p @ r)"
  by (auto simp: strip_prefix_def starts_with_decomp)

text \<open>\<open>s.chars().any(char::is_control)\<close>.\<close>

definition has_control :: "string \<Rightarrow> bool" where
  "has_control s = (case utf8_chars s of None \<Rightarrow> False | Some vs \<Rightarrow> list_ex is_control vs)"

end
