(* ===== verification/Update_Download.thy ===== *)
theory Update_Download
  imports Rust_Text Nexus_Model
begin

text \<open>
  \<^verbatim>\<open>apps/desktop/src-tauri/src/update_download.rs\<close>: the checks on an announced update, its bounded download and the
  verification of the downloaded bytes. URLs, Base64, minisign, semantic versions and HTTP are libraries: a URL is the
  values of its accessors, the others are arguments.
\<close>

section \<open>Libraries\<close>

record url =
  u_scheme :: string
  u_username :: string
  u_password :: "string option"
  u_fragment :: "string option"
  u_port_or_known_default :: "u16 option"
  u_host_str :: "string option"
  u_path :: string
  u_path_segments :: "string list option"

text \<open>
  \<open>vl_verify_stream\<close>: whether a streaming verifier can be made for a key and a signature; \<open>vl_finalize\<close>: whether it
  accepts the bytes it was fed.
\<close>

record ('pk, 'sig, 'ver) verify_lib =
  vl_base64 :: "string \<Rightarrow> string option"
  vl_public_key :: "string \<Rightarrow> 'pk option"
  vl_signature :: "string \<Rightarrow> 'sig option"
  vl_verify_stream :: "'pk \<Rightarrow> 'sig \<Rightarrow> bool"
  vl_finalize :: "'pk \<Rightarrow> 'sig \<Rightarrow> string \<Rightarrow> bool"
  vl_trusted_comment :: "'sig \<Rightarrow> string"
  vl_semver :: "string \<Rightarrow> 'ver option"

datatype reqwest_error = ReqTimeout | ReqOther

text \<open>
  One HTTP exchange: whether the client is built, the status and the content length of the final response (or the error
  of the request), the results of the successive reads of the body, and whether memory of a given size can be reserved.
\<close>

record http_exchange =
  hx_build :: "(unit, reqwest_error) result"
  hx_send :: "(u16 \<times> u64 option, reqwest_error) result"
  hx_chunks :: "(string, reqwest_error) result list"
  hx_reserve :: "nat \<Rightarrow> bool"

section \<open>Checks\<close>

definition MAX_ARTIFACT_BYTES :: nat where "MAX_ARTIFACT_BYTES = 134217728"
definition MAX_REDIRECTS :: nat where "MAX_REDIRECTS = 3"
definition MAX_SIGNATURE_TEXT_BYTES :: nat where "MAX_SIGNATURE_TEXT_BYTES = 4096"
definition MAX_VERSION_BYTES :: nat where "MAX_VERSION_BYTES = 128"
definition INITIAL_HOST :: string where "INITIAL_HOST = ''github.com''"
definition INITIAL_PATH_PREFIX :: string where "INITIAL_PATH_PREFIX = ''/unrealbg/NexusOps/releases/download/''"
definition REDIRECT_HOSTS :: "string list" where
  "REDIRECT_HOSTS = [''github.com'', ''release-assets.githubusercontent.com'', ''objects.githubusercontent.com'']"

definition PHASE_DOWNLOADING :: "8 word" where "PHASE_DOWNLOADING = 0"
definition PHASE_VERIFYING :: "8 word" where "PHASE_VERIFYING = 1"

datatype download_failure = DownloadFailed | VerificationFailed | ResourceLimited | DownloadTimeout | DownloadCancelled

record pending_announcement =
  pa_version :: string
  pa_url :: url
  pa_signature :: string

definition map_reqwest :: "reqwest_error \<Rightarrow> download_failure" where
  "map_reqwest e = (if e = ReqTimeout then DownloadTimeout else DownloadFailed)"

definition validate_status :: "u16 \<Rightarrow> (unit, download_failure) result" where
  "validate_status status = (if 200 \<le> status \<and> status < 300 then Ok () else Err DownloadFailed)"

definition validate_common_url :: "url \<Rightarrow> (string, download_failure) result" where
  "validate_common_url u =
     (if u_scheme u \<noteq> ''https'' \<or> u_username u \<noteq> [] \<or> u_password u \<noteq> None \<or> u_fragment u \<noteq> None
        \<or> u_port_or_known_default u \<noteq> Some 443
      then Err DownloadFailed else ok_or (u_host_str u) DownloadFailed)"

definition validate_initial_url :: "url \<Rightarrow> (unit, download_failure) result" where
  "validate_initial_url u =
     and_then (validate_common_url u) (\<lambda>host.
       if host \<noteq> INITIAL_HOST \<or> \<not> starts_with (u_path u) INITIAL_PATH_PREFIX
         \<or> length (u_path u) \<le> length INITIAL_PATH_PREFIX
       then Err DownloadFailed else Ok ())"

definition validate_redirect_url :: "url \<Rightarrow> (unit, download_failure) result" where
  "validate_redirect_url u =
     and_then (validate_common_url u) (\<lambda>host. if host \<in> set REDIRECT_HOSTS then Ok () else Err DownloadFailed)"

definition validate_redirect_attempt :: "nat \<Rightarrow> url \<Rightarrow> (unit, download_failure) result" where
  "validate_redirect_attempt previous u = (if previous > MAX_REDIRECTS then Err DownloadFailed else validate_redirect_url u)"

definition validate_version :: "string \<Rightarrow> (unit, download_failure) result" where
  "validate_version version =
     (if version = [] \<or> length version > MAX_VERSION_BYTES \<or> has_control version then Err VerificationFailed else Ok ())"

definition from_utf8 :: "string \<Rightarrow> string option" where
  "from_utf8 bytes = (if valid_utf8 bytes then Some bytes else None)"

definition decode_public_key :: "('pk, 'sig, 'ver) verify_lib \<Rightarrow> string \<Rightarrow> ('pk, download_failure) result" where
  "decode_public_key lib encoded =
     (if encoded = [] \<or> length encoded > MAX_SIGNATURE_TEXT_BYTES then Err VerificationFailed
      else and_then (ok_or (vl_base64 lib encoded) VerificationFailed) (\<lambda>decoded.
           and_then (ok_or (from_utf8 decoded) VerificationFailed) (\<lambda>txt.
           ok_or (vl_public_key lib txt) VerificationFailed)))"

definition decode_signature :: "('pk, 'sig, 'ver) verify_lib \<Rightarrow> string \<Rightarrow> ('sig, download_failure) result" where
  "decode_signature lib encoded =
     (if encoded = [] \<or> length encoded > MAX_SIGNATURE_TEXT_BYTES then Err VerificationFailed
      else and_then (ok_or (vl_base64 lib encoded) VerificationFailed) (\<lambda>decoded.
           if length decoded > MAX_SIGNATURE_TEXT_BYTES then Err VerificationFailed
           else
             and_then (ok_or (from_utf8 decoded) VerificationFailed) (\<lambda>txt.
             ok_or (vl_signature lib txt) VerificationFailed)))"

definition announcement_new ::
  "('pk, 'sig, 'ver) verify_lib \<Rightarrow> string \<Rightarrow> url \<Rightarrow> string \<Rightarrow> (pending_announcement, download_failure) result" where
  "announcement_new lib version u signature =
     and_then (validate_version version) (\<lambda>_.
     and_then (validate_initial_url u) (\<lambda>_.
     and_then (decode_signature lib signature) (\<lambda>_.
       Ok \<lparr>pa_version = version, pa_url = u, pa_signature = signature\<rparr>)))"

text \<open>The loop over the tab-separated fields of the trusted comment.\<close>

fun signed_version_loop :: "string list \<Rightarrow> string option \<Rightarrow> (string option, download_failure) result" where
  "signed_version_loop [] seen = Ok seen"
| "signed_version_loop (field # rest) seen =
     (case strip_prefix field ''version:'' of
        Some val \<Rightarrow> if val = [] \<or> seen \<noteq> None then Err VerificationFailed else signed_version_loop rest (Some val)
      | None \<Rightarrow> signed_version_loop rest seen)"

definition unprefixed :: "string \<Rightarrow> string" where
  "unprefixed s = (case strip_prefix s ''v'' of None \<Rightarrow> s | Some r \<Rightarrow> r)"

definition same_version :: "('pk, 'sig, 'ver) verify_lib \<Rightarrow> string \<Rightarrow> string \<Rightarrow> bool" where
  "same_version lib stated announced =
     (case (vl_semver lib (unprefixed stated), vl_semver lib (unprefixed announced)) of
        (Some a, Some b) \<Rightarrow> a = b
      | _ \<Rightarrow> stated = announced)"

definition verify_signed_version ::
  "('pk, 'sig, 'ver) verify_lib \<Rightarrow> string \<Rightarrow> string \<Rightarrow> (unit, download_failure) result" where
  "verify_signed_version lib trusted_comment announced =
     and_then (signed_version_loop (split_char (CHR 0x09) trusted_comment) None) (\<lambda>seen.
     and_then (ok_or seen VerificationFailed) (\<lambda>stated.
       if same_version lib stated announced then Ok () else Err VerificationFailed))"

section \<open>The bounded download\<close>

text \<open>A \<open>usize\<close> has 64 bits.\<close>

definition checked_next_size :: "nat \<Rightarrow> nat \<Rightarrow> nat \<Rightarrow> (nat, download_failure) result" where
  "checked_next_size current chunk limit =
     (if current + chunk \<ge> 2 ^ 64 then Err ResourceLimited
      else if current + chunk > limit then Err ResourceLimited
      else Ok (current + chunk))"

text \<open>The collector: what its verifier was fed, and the bytes it keeps.\<close>

record bounded_collector =
  bc_fed :: string
  bc_bytes :: string
  bc_limit :: nat

definition collector_new :: "(nat \<Rightarrow> bool) \<Rightarrow> u64 option \<Rightarrow> nat \<Rightarrow> (bounded_collector, download_failure) result" where
  "collector_new reserve content_length limit =
     and_then (case content_length of
         Some n \<Rightarrow> if unat n > limit then Err ResourceLimited else Ok (unat n)
       | None \<Rightarrow> Ok 0) (\<lambda>capacity.
       if reserve capacity then Ok \<lparr>bc_fed = [], bc_bytes = [], bc_limit = limit\<rparr> else Err ResourceLimited)"

definition collector_accept :: "(nat \<Rightarrow> bool) \<Rightarrow> string \<Rightarrow> bounded_collector \<Rightarrow> (bounded_collector, download_failure) result" where
  "collector_accept reserve chunk c =
     and_then (checked_next_size (length (bc_bytes c)) (length chunk) (bc_limit c)) (\<lambda>next_size.
       if reserve next_size then Ok (c\<lparr>bc_fed := bc_fed c @ chunk, bc_bytes := bc_bytes c @ chunk\<rparr>) else Err ResourceLimited)"

definition collector_finish ::
  "('pk, 'sig, 'ver) verify_lib \<Rightarrow> 'pk \<Rightarrow> 'sig \<Rightarrow> bounded_collector \<Rightarrow> (string \<times> string, download_failure) result" where
  "collector_finish lib pk sig c =
     (if vl_finalize lib pk sig (bc_fed c) then Ok (bc_bytes c, vl_trusted_comment lib sig) else Err VerificationFailed)"

fun collect :: "(nat \<Rightarrow> bool) \<Rightarrow> (string, reqwest_error) result list \<Rightarrow> bounded_collector \<Rightarrow> (bounded_collector, download_failure) result" where
  "collect reserve [] c = Ok c"
| "collect reserve (Err e # rest) c = Err (map_reqwest e)"
| "collect reserve (Ok chunk # rest) c = and_then (collector_accept reserve chunk c) (collect reserve rest)"

text \<open>The result, and the phase the snapshot shows.\<close>

definition download_and_verify ::
  "('pk, 'sig, 'ver) verify_lib \<Rightarrow> http_exchange \<Rightarrow> pending_announcement \<Rightarrow> string \<Rightarrow> 8 word
    \<Rightarrow> (string, download_failure) result \<times> 8 word" where
  "download_and_verify lib hx a encoded_public_key phase =
     (case and_then (validate_initial_url (pa_url a)) (\<lambda>_.
           and_then (decode_public_key lib encoded_public_key) (\<lambda>pk.
           and_then (decode_signature lib (pa_signature a)) (\<lambda>sig.
           and_then (if vl_verify_stream lib pk sig then Ok () else Err VerificationFailed) (\<lambda>_.
           and_then (case hx_build hx of Ok u \<Rightarrow> Ok u | Err e \<Rightarrow> Err (map_reqwest e)) (\<lambda>_.
           and_then (case hx_send hx of Ok r \<Rightarrow> Ok r | Err e \<Rightarrow> Err (map_reqwest e)) (\<lambda>(status, content_length).
           and_then (validate_status status) (\<lambda>_.
           and_then (collector_new (hx_reserve hx) content_length MAX_ARTIFACT_BYTES) (\<lambda>c.
           and_then (collect (hx_reserve hx) (hx_chunks hx) c) (\<lambda>c'. Ok (pk, sig, c')))))))))) of
        Err e \<Rightarrow> (Err e, phase)
      | Ok (pk, sig, c) \<Rightarrow>
          (and_then (collector_finish lib pk sig c) (\<lambda>(bytes, trusted_comment).
           and_then (verify_signed_version lib trusted_comment (pa_version a)) (\<lambda>_. Ok bytes)), PHASE_VERIFYING))"

text \<open>
  \<open>BoundedArtifactDownloader::download\<close>: the total time limit. \<open>elapsed\<close> is the phase reached when the limit is hit
  before the download ends.
\<close>

definition bounded_download ::
  "('pk, 'sig, 'ver) verify_lib \<Rightarrow> http_exchange \<Rightarrow> string \<Rightarrow> 8 word option \<Rightarrow> pending_announcement \<Rightarrow> 8 word
    \<Rightarrow> (string, download_failure) result \<times> 8 word" where
  "bounded_download lib hx production_key elapsed a phase =
     (case elapsed of Some p \<Rightarrow> (Err DownloadTimeout, p) | None \<Rightarrow> download_and_verify lib hx a production_key phase)"

section \<open>Facts\<close>

lemma collect_Ok:
  assumes "collect reserve rs c = Ok c'" "bc_fed c = bc_bytes c" "length (bc_bytes c) \<le> bc_limit c"
  shows "\<exists>chunks. rs = map Ok chunks \<and> bc_bytes c' = bc_bytes c @ concat chunks \<and> bc_fed c' = bc_bytes c'
    \<and> length (bc_bytes c') \<le> bc_limit c"
  using assms
proof (induction reserve rs c rule: collect.induct)
  case (3 reserve chunk rest c)
  then obtain d where d: "collector_accept reserve chunk c = Ok d" "collect reserve rest d = Ok c'"
    by (auto simp: and_then_Ok_iff)
  then have eq: "bc_bytes d = bc_bytes c @ chunk" "bc_fed d = bc_bytes d" "length (bc_bytes d) \<le> bc_limit d" "bc_limit d = bc_limit c"
    using 3(3) by (auto simp: collector_accept_def checked_next_size_def and_then_Ok_iff split: if_splits)
  from 3(1) [OF d(2) eq(2,3)] obtain chunks where "rest = map Ok chunks" "bc_bytes c' = bc_bytes d @ concat chunks"
    "bc_fed c' = bc_bytes c'" "length (bc_bytes c') \<le> bc_limit d" by blast
  then show ?case using eq by (intro exI [of _ "chunk # chunks"]) simp
qed auto

text \<open>The version fields of a trusted comment.\<close>

definition version_fields :: "string \<Rightarrow> string list" where
  "version_fields comment = List.map_filter (\<lambda>field. strip_prefix field ''version:'') (split_char (CHR 0x09) comment)"

lemma signed_version_loop_Ok:
  "signed_version_loop rest seen = Ok r \<Longrightarrow>
    (case seen of None \<Rightarrow> [] | Some s \<Rightarrow> [s]) @ List.map_filter (\<lambda>field. strip_prefix field ''version:'') rest
      = (case r of None \<Rightarrow> [] | Some s \<Rightarrow> [s])"
  by (induction rest seen rule: signed_version_loop.induct) (auto simp: map_filter_simps split: option.splits if_splits)

lemma verify_signed_version_Ok:
  assumes "verify_signed_version lib comment announced = Ok u"
  shows "\<exists>stated. version_fields comment = [stated] \<and> same_version lib stated announced"
  using assms signed_version_loop_Ok [of "split_char (CHR 0x09) comment" None]
  by (fastforce simp: verify_signed_version_def version_fields_def and_then_Ok_iff ok_or_def split: if_splits option.splits)

lemma validate_common_url_Ok:
  "validate_common_url u = Ok host \<longleftrightarrow> u_scheme u = ''https'' \<and> u_username u = [] \<and> u_password u = None
     \<and> u_fragment u = None \<and> u_port_or_known_default u = Some 443 \<and> u_host_str u = Some host"
  by (auto simp: validate_common_url_def ok_or_def split: option.splits)

lemma download_and_verify_Ok:
  assumes "download_and_verify lib hx a key phase = (Ok bytes, phase')"
  shows "\<exists>pk sig stated chunks. validate_initial_url (pa_url a) = Ok ()
    \<and> decode_public_key lib key = Ok pk \<and> decode_signature lib (pa_signature a) = Ok sig
    \<and> hx_chunks hx = map Ok chunks \<and> concat chunks = bytes \<and> length bytes \<le> MAX_ARTIFACT_BYTES
    \<and> vl_finalize lib pk sig bytes
    \<and> version_fields (vl_trusted_comment lib sig) = [stated] \<and> same_version lib stated (pa_version a)"
proof -
  obtain pk sig c0 c where steps: "validate_initial_url (pa_url a) = Ok ()" "decode_public_key lib key = Ok pk"
    "decode_signature lib (pa_signature a) = Ok sig" "\<exists>n. collector_new (hx_reserve hx) n MAX_ARTIFACT_BYTES = Ok c0"
    "collect (hx_reserve hx) (hx_chunks hx) c0 = Ok c"
    "and_then (collector_finish lib pk sig c) (\<lambda>(bytes, trusted_comment).
           and_then (verify_signed_version lib trusted_comment (pa_version a)) (\<lambda>_. Ok bytes)) = Ok bytes"
    using assms unfolding download_and_verify_def by (auto simp: and_then_Ok_iff split: result.splits prod.splits) blast
  from steps(4) have c0: "bc_fed c0 = bc_bytes c0" "bc_bytes c0 = []" "bc_limit c0 = MAX_ARTIFACT_BYTES"
    by (auto simp: collector_new_def and_then_Ok_iff split: if_splits)
  have "length (bc_bytes c0) \<le> bc_limit c0" using c0 by simp
  from collect_Ok [OF steps(5) c0(1) this] obtain chunks where chunks: "hx_chunks hx = map Ok chunks"
    "bc_bytes c = concat chunks" "bc_fed c = bc_bytes c" "length (bc_bytes c) \<le> MAX_ARTIFACT_BYTES"
    using c0 by auto
  from steps(6) have fin: "bytes = bc_bytes c" "vl_finalize lib pk sig (bc_fed c)"
    "is_ok (verify_signed_version lib (vl_trusted_comment lib sig) (pa_version a))"
    by (auto simp: and_then_Ok_iff collector_finish_def is_ok_iff split: if_splits)
  with verify_signed_version_Ok [of lib "vl_trusted_comment lib sig" "pa_version a"] steps(1-3) chunks show ?thesis
    by (auto simp: is_ok_iff)
qed

text \<open>
  What the HTTP library promises of a redirect policy: it requests a redirect target only if the policy accepts it,
  telling the policy how many URLs were requested before.
\<close>

definition followed :: "url list \<Rightarrow> bool" where
  "followed trail = (\<forall>i < length trail. is_ok (validate_redirect_attempt (Suc i) (trail ! i)))"

lemma followed_confined:
  assumes "followed trail"
  shows "length trail \<le> MAX_REDIRECTS
    \<and> list_all (\<lambda>u. u_scheme u = ''https'' \<and> u_port_or_known_default u = Some 443 \<and> (\<exists>h \<in> set REDIRECT_HOSTS. u_host_str u = Some h)) trail"
proof -
  have ok: "Suc i \<le> MAX_REDIRECTS \<and> is_ok (validate_redirect_url (trail ! i))" if "i < length trail" for i
    using assms that unfolding followed_def validate_redirect_attempt_def by (fastforce split: if_splits)
  have "length trail \<le> MAX_REDIRECTS" using ok [of "length trail - 1"] by (cases trail) auto
  moreover have "u_scheme u = ''https'' \<and> u_port_or_known_default u = Some 443 \<and> (\<exists>h \<in> set REDIRECT_HOSTS. u_host_str u = Some h)"
    if u: "u \<in> set trail" for u
  proof -
    obtain i where "i < length trail" "u = trail ! i" using u by (auto simp: in_set_conv_nth)
    with ok [of i] show ?thesis
      by (auto simp: validate_redirect_url_def is_ok_iff and_then_Ok_iff validate_common_url_Ok split: if_splits)
  qed
  ultimately show ?thesis by (simp add: list_all_iff)
qed

section \<open>Authenticity\<close>

text \<open>
  A download succeeds only with authentic bytes of bounded size. The bytes are the whole body of the response, at
  most 128 MiB, accepted by the signature verifier under the built-in key and the announced signature, and the signed
  comment names exactly one version, which agrees with the announced one. The request goes to the project's releases on
  GitHub over HTTPS, and every redirect that is followed, at most three, to one of the allowed hosts over HTTPS.
\<close>

theorem artifact_authentic:
  assumes "bounded_download lib hx key elapsed a phase = (Ok bytes, phase')" "followed trail"
  shows "(\<exists>pk sig stated chunks. decode_public_key lib key = Ok pk \<and> decode_signature lib (pa_signature a) = Ok sig
        \<and> hx_chunks hx = map Ok chunks \<and> concat chunks = bytes \<and> length bytes \<le> 134217728
        \<and> vl_finalize lib pk sig bytes
        \<and> version_fields (vl_trusted_comment lib sig) = [stated] \<and> same_version lib stated (pa_version a))
    \<and> u_scheme (pa_url a) = ''https'' \<and> u_host_str (pa_url a) = Some ''github.com''
    \<and> starts_with (u_path (pa_url a)) ''/unrealbg/NexusOps/releases/download/''
    \<and> length trail \<le> 3 \<and> list_all (\<lambda>u. u_scheme u = ''https'' \<and> (\<exists>h \<in> set REDIRECT_HOSTS. u_host_str u = Some h)) trail"
proof -
  have dl: "download_and_verify lib hx a key phase = (Ok bytes, phase')"
    using assms(1) unfolding bounded_download_def by (cases elapsed) auto
  from download_and_verify_Ok [OF dl] have "validate_initial_url (pa_url a) = Ok ()" by blast
  then have "u_scheme (pa_url a) = ''https''" "u_host_str (pa_url a) = Some ''github.com''"
    "starts_with (u_path (pa_url a)) ''/unrealbg/NexusOps/releases/download/''"
    by (auto simp: validate_initial_url_def and_then_Ok_iff validate_common_url_Ok INITIAL_HOST_def INITIAL_PATH_PREFIX_def split: if_splits)
  moreover from followed_confined [OF assms(2)]
  have "length trail \<le> 3" "list_all (\<lambda>u. u_scheme u = ''https'' \<and> (\<exists>h \<in> set REDIRECT_HOSTS. u_host_str u = Some h)) trail"
    by (auto simp: MAX_REDIRECTS_def list_all_iff)
  ultimately show ?thesis
    using download_and_verify_Ok [OF dl] unfolding MAX_ARTIFACT_BYTES_def by blast
qed

definition ex_lib :: "(string, string, string) verify_lib" where
  "ex_lib = \<lparr>vl_base64 = Some, vl_public_key = Some, vl_signature = Some, vl_verify_stream = (\<lambda>_ _. True),
     vl_finalize = (\<lambda>pk sig bytes. pk = ''key'' \<and> sig = ''sig'' \<and> bytes = ''installer''),
     vl_trusted_comment = (\<lambda>_. ''file:x'' @ [CHR 0x09] @ ''version:v1.2.0''), vl_semver = Some\<rparr>"

definition ex_url :: url where
  "ex_url = \<lparr>u_scheme = ''https'', u_username = [], u_password = None, u_fragment = None, u_port_or_known_default = Some 443,
     u_host_str = Some ''github.com'', u_path = ''/unrealbg/NexusOps/releases/download/v1.2.0/NexusOps_1.2.0_x64-setup.exe'',
     u_path_segments = Some [''unrealbg'', ''NexusOps'', ''releases'', ''download'', ''v1.2.0'', ''NexusOps_1.2.0_x64-setup.exe'']\<rparr>"

definition ex_announcement :: pending_announcement where
  "ex_announcement = \<lparr>pa_version = ''1.2.0'', pa_url = ex_url, pa_signature = ''sig''\<rparr>"

definition ex_http :: http_exchange where
  "ex_http = \<lparr>hx_build = Ok (), hx_send = Ok (200, Some 9), hx_chunks = [Ok ''inst'', Ok ''aller''], hx_reserve = (\<lambda>_. True)\<rparr>"

lemma ex_download_ok: "fst (bounded_download ex_lib ex_http ''key'' None ex_announcement 0) = Ok ''installer''"
  by (simp add: bounded_download_def download_and_verify_def ex_announcement_def ex_url_def ex_lib_def ex_http_def validate_initial_url_def
      validate_common_url_def INITIAL_HOST_def INITIAL_PATH_PREFIX_def starts_with_def decode_public_key_def decode_signature_def
      MAX_SIGNATURE_TEXT_BYTES_def from_utf8_def valid_utf8_def utf8_chars.simps utf8_next_def validate_status_def collector_new_def
      MAX_ARTIFACT_BYTES_def collector_accept_def checked_next_size_def collector_finish_def verify_signed_version_def strip_prefix_def
      same_version_def unprefixed_def)

theorem artifact_authentic_witness:
  "\<exists>phase'. bounded_download ex_lib ex_http ''key'' None ex_announcement 0 = (Ok ''installer'', phase')
     \<and> length ''installer'' \<le> 134217728 \<and> (\<exists>pk. decode_public_key ex_lib ''key'' = Ok pk \<and> vl_finalize ex_lib pk ''sig'' ''installer'')"
proof -
  have sig: "decode_signature ex_lib (pa_signature ex_announcement) = Ok ''sig''"
    by (simp add: ex_lib_def ex_announcement_def decode_signature_def MAX_SIGNATURE_TEXT_BYTES_def from_utf8_def valid_utf8_def
        utf8_chars.simps utf8_next_def)
  obtain phase' where run: "bounded_download ex_lib ex_http ''key'' None ex_announcement 0 = (Ok ''installer'', phase')"
    using ex_download_ok by (metis prod.collapse)
  have "followed []" by (simp add: followed_def)
  from artifact_authentic [OF run this] run sig show ?thesis by auto
qed

end
