(* ===== verification/Update_Service.thy ===== *)
theory Update_Service
  imports Update_Download Interfaces
begin

text \<open>
  \<^verbatim>\<open>updates.rs\<close> and \<^verbatim>\<open>update_install.rs\<close> of the desktop application: the state of the updater from the check to the
  installation. Every critical section is one definition; the check and the download are cut at their awaits. The
  download task is an explicit record of the service, keyed by the announcement it was started for.
\<close>

section \<open>State\<close>

text \<open>
  The update retained from the check: the accessors of the library value. The platform is fixed when the program is
  built: whether installation is supported, and the name of the architecture.
\<close>

record installer_context =
  ic_version :: string
  ic_target :: string
  ic_download_url :: url

record platform =
  pf_supported :: bool
  pf_architecture :: string

record installer_identity =
  id_version :: string
  id_target :: string
  id_artifact_basename :: "string option"

datatype update_state =
    UIdle
  | UChecking u64
  | UAnnounced u64 update_announcement_id pending_announcement installer_context
  | UDownloading u64 update_announcement_id string installer_context
  | UVerified u64 "verified_artifact_id option" string installer_context string
  | UInstalling u64 string

datatype join_error = JoinCancelled | JoinPanicked

text \<open>
  The download task: the announcement it downloads, the phase it shows, whether it was told to abort, and, once its
  completion guard is dropped, how it ended.
\<close>

record update_task =
  ut_announcement :: pending_announcement
  ut_phase :: "8 word"
  ut_aborted :: bool
  ut_outcome :: "((string, download_failure) result, join_error) result option"

record update_service =
  us_generation :: u64
  us_shutting_down :: bool
  us_state :: update_state
  us_tasks :: "(update_announcement_id, update_task) fmap"
  us_poisoned :: bool

definition update_service_default :: update_service where
  "update_service_default =
     \<lparr>us_generation = 0, us_shutting_down = False, us_state = UIdle, us_tasks = fmempty, us_poisoned = False\<rparr>"

section \<open>Errors\<close>

definition check_unavailable :: app_error where
  "check_unavailable = AppError_new UpdateCheck ''The update service could not be checked right now.''"

definition update_conflict :: app_error where
  "update_conflict = AppError_new UpdateConflict ''The update state changed. Check for updates again.''"

definition install_conflict :: app_error where
  "install_conflict = AppError_new UpdateConflict ''The verified update authority changed. Close and restart NexusOps before continuing.''"

definition update_cancelled :: app_error where
  "update_cancelled = AppError_new Cancelled ''The update operation was cancelled.''"

definition update_timeout :: app_error where
  "update_timeout = AppError_new UpdateTimeout ''The update operation timed out.''"

definition install_unavailable :: app_error where
  "install_unavailable = AppError_new UpdateInstall ''In-app update installation is not available on this platform.''"

definition INSTALL_FAILED :: string where
  "INSTALL_FAILED = ''The verified installer could not be launched. Close and restart NexusOps before continuing.''"

fun download_error :: "download_failure \<Rightarrow> app_error" where
  "download_error DownloadFailed = AppError_new UpdateDownload ''The update could not be downloaded.''"
| "download_error VerificationFailed =
     AppError_new UpdateVerification ''The downloaded update could not be verified and was discarded.''"
| "download_error ResourceLimited = AppError_new UpdateResourceLimit ''The announced update exceeds the supported download size.''"
| "download_error DownloadTimeout = update_timeout"
| "download_error DownloadCancelled = update_cancelled"

section \<open>The installer's identity\<close>

definition context_identity :: "installer_context \<Rightarrow> installer_identity" where
  "context_identity c =
     \<lparr>id_version = ic_version c, id_target = ic_target c,
      id_artifact_basename =
        (case u_path_segments (ic_download_url c) of
           None \<Rightarrow> None
         | Some segs \<Rightarrow> if segs = [] \<or> last segs = [] then None else Some (last segs))\<rparr>"

definition validate_installer_identity :: "platform \<Rightarrow> installer_identity \<Rightarrow> unit app_result" where
  "validate_installer_identity pf i =
     (if \<not> pf_supported pf then Err install_unavailable
      else if id_target i \<noteq> ''windows'' then Err (AppError_new UpdateVerification INSTALL_FAILED)
      else if id_artifact_basename i \<noteq> Some (''NexusOps_'' @ id_version i @ ''_'' @ pf_architecture pf @ ''-setup.exe'')
      then Err (AppError_new UpdateVerification INSTALL_FAILED)
      else Ok ())"

section \<open>What the renderer sees\<close>

datatype update_phase =
  PhIdle | PhChecking | PhUpToDate | PhAnnounced | PhDownloading | PhVerifying | PhVerified | PhInstalling

record update_snapshot =
  sn_current_version :: string
  sn_phase :: update_phase
  sn_available_version :: "string option"
  sn_announcement_id :: "update_announcement_id option"
  sn_verified_artifact_id :: "verified_artifact_id option"
  sn_installation_supported :: bool

definition shown_phase :: "update_service \<Rightarrow> update_announcement_id \<Rightarrow> update_phase" where
  "shown_phase s i =
     (case fmlookup (us_tasks s) i of
        Some t \<Rightarrow> if ut_phase t = PHASE_VERIFYING then PhVerifying else PhDownloading
      | None \<Rightarrow> PhDownloading)"

definition snapshot_for :: "platform \<Rightarrow> update_service \<Rightarrow> string \<Rightarrow> update_snapshot" where
  "snapshot_for pf s current_version =
     (case (case us_state s of
              UIdle \<Rightarrow> (PhIdle, None, None, None)
            | UChecking _ \<Rightarrow> (PhChecking, None, None, None)
            | UAnnounced _ i a _ \<Rightarrow> (PhAnnounced, Some (pa_version a), Some i, None)
            | UDownloading _ i v _ \<Rightarrow> (shown_phase s i, Some v, None, None)
            | UVerified _ vid v _ _ \<Rightarrow> (PhVerified, Some v, None, vid)
            | UInstalling _ v \<Rightarrow> (PhInstalling, Some v, None, None)) of
        (phase, available, aid, vid) \<Rightarrow>
          \<lparr>sn_current_version = current_version, sn_phase = phase, sn_available_version = available,
           sn_announcement_id = aid, sn_verified_artifact_id = vid,
           sn_installation_supported = (pf_supported pf \<and> vid \<noteq> None)\<rparr>)"

definition update_snapshot_of :: "platform \<Rightarrow> string \<Rightarrow> update_service \<Rightarrow> update_snapshot app_result" where
  "update_snapshot_of pf current_version s =
     (if us_poisoned s then Err update_conflict else Ok (snapshot_for pf s current_version))"

section \<open>Checking\<close>

definition begin_check :: "update_service \<Rightarrow> u64 app_result \<times> update_service" where
  "begin_check s =
     (if us_poisoned s then (Err update_conflict, s)
      else if us_shutting_down s then (Err update_cancelled, s)
      else case us_state s of
        UChecking _ \<Rightarrow> (Err update_conflict, s)
      | UDownloading _ _ _ _ \<Rightarrow> (Err update_conflict, s)
      | UInstalling _ _ \<Rightarrow> (Err update_conflict, s)
      | _ \<Rightarrow>
          (case checked_succ (us_generation s) of
             None \<Rightarrow> (Err update_conflict, s)
           | Some g \<Rightarrow> (Ok g, s\<lparr>us_generation := g, us_state := UChecking g\<rparr>)))"

definition finish_announced ::
  "platform \<Rightarrow> u64 \<Rightarrow> string \<Rightarrow> pending_announcement \<Rightarrow> installer_context \<Rightarrow> update_announcement_id \<Rightarrow> update_service
    \<Rightarrow> update_snapshot app_result \<times> update_service" where
  "finish_announced pf g current a ctx new_id s =
     (if us_poisoned s then (Err update_conflict, s)
      else if us_shutting_down s \<or> us_state s \<noteq> UChecking g then (Err update_cancelled, s)
      else let s' = s\<lparr>us_state := UAnnounced g new_id a ctx\<rparr> in (Ok (snapshot_for pf s' current), s'))"

definition finish_up_to_date :: "u64 \<Rightarrow> string \<Rightarrow> update_service \<Rightarrow> update_snapshot app_result \<times> update_service" where
  "finish_up_to_date g current s =
     (if us_poisoned s then (Err update_conflict, s)
      else if us_shutting_down s \<or> us_state s \<noteq> UChecking g then (Err update_cancelled, s)
      else (Ok \<lparr>sn_current_version = current, sn_phase = PhUpToDate, sn_available_version = None, sn_announcement_id = None,
                sn_verified_artifact_id = None, sn_installation_supported = False\<rparr>, s\<lparr>us_state := UIdle\<rparr>))"

definition fail_active :: "u64 \<Rightarrow> update_service \<Rightarrow> unit app_result \<times> update_service" where
  "fail_active g s =
     (if us_poisoned s then (Err update_conflict, s)
      else (Ok (), if us_state s = UChecking g then s\<lparr>us_state := UIdle\<rparr> else s))"

text \<open>
  The end of \<open>check\<close>, once the library answered: \<open>None\<close> that it failed, otherwise the update it found with its signature,
  if any.
\<close>

definition check_ends ::
  "('pk, 'sig, 'ver) verify_lib \<Rightarrow> platform \<Rightarrow> u64 \<Rightarrow> string \<Rightarrow> (installer_context \<times> string) option option
    \<Rightarrow> update_announcement_id \<Rightarrow> update_service \<Rightarrow> update_snapshot app_result \<times> update_service" where
  "check_ends lib pf g current found new_id s =
     (case (case found of
              None \<Rightarrow> Err check_unavailable
            | Some None \<Rightarrow> Ok None
            | Some (Some (ctx, signature)) \<Rightarrow>
                (case announcement_new lib (ic_version ctx) (ic_download_url ctx) signature of
                   Ok a \<Rightarrow> Ok (Some (a, ctx))
                 | Err _ \<Rightarrow> Err check_unavailable)) of
        Ok (Some (a, ctx)) \<Rightarrow> finish_announced pf g current a ctx new_id s
      | Ok None \<Rightarrow> finish_up_to_date g current s
      | Err e \<Rightarrow> (case fail_active g s of (r, s') \<Rightarrow> (and_then r (\<lambda>_. Err e), s')))"

section \<open>Downloading\<close>

definition begin_download :: "update_announcement_id \<Rightarrow> update_service \<Rightarrow> (u64 \<times> string) app_result \<times> update_service" where
  "begin_download aid s =
     (if us_poisoned s then (Err update_conflict, s)
      else if us_shutting_down s then (Err update_cancelled, s)
      else case us_state s of
        UAnnounced g i a ctx \<Rightarrow>
          if i = aid
          then (Ok (g, pa_version a),
                s\<lparr>us_tasks := fmupd i \<lparr>ut_announcement = a, ut_phase = PHASE_DOWNLOADING, ut_aborted = False, ut_outcome = None\<rparr> (us_tasks s),
                  us_state := UDownloading g i (pa_version a) ctx\<rparr>)
          else (Err update_conflict, s)
      | _ \<Rightarrow> (Err update_conflict, s))"

text \<open>The task runs to its end, panics, or is dropped where it stands after an abort.\<close>

definition upd_task :: "update_announcement_id \<Rightarrow> (update_task \<Rightarrow> update_task) \<Rightarrow> update_service \<Rightarrow> update_service" where
  "upd_task i f s = (case fmlookup (us_tasks s) i of None \<Rightarrow> s | Some t \<Rightarrow> s\<lparr>us_tasks := fmupd i (f t) (us_tasks s)\<rparr>)"

definition task_downloads ::
  "('pk, 'sig, 'ver) verify_lib \<Rightarrow> string \<Rightarrow> http_exchange \<Rightarrow> 8 word option \<Rightarrow> update_announcement_id \<Rightarrow> update_service \<Rightarrow> update_service" where
  "task_downloads lib key hx elapsed i =
     upd_task i (\<lambda>t. case bounded_download lib hx key elapsed (ut_announcement t) (ut_phase t) of
       (r, phase) \<Rightarrow> t\<lparr>ut_phase := phase, ut_outcome := Some (Ok r)\<rparr>)"

definition task_panics :: "update_announcement_id \<Rightarrow> update_service \<Rightarrow> update_service" where
  "task_panics i = upd_task i (\<lambda>t. t\<lparr>ut_outcome := Some (Err JoinPanicked)\<rparr>)"

definition task_dropped :: "update_announcement_id \<Rightarrow> update_service \<Rightarrow> update_service" where
  "task_dropped i = upd_task i (\<lambda>t. t\<lparr>ut_outcome := Some (Err JoinCancelled)\<rparr>)"

fun joined :: "((string, download_failure) result, join_error) result \<Rightarrow> (string, download_failure) result" where
  "joined (Ok r) = r"
| "joined (Err JoinCancelled) = Err DownloadCancelled"
| "joined (Err JoinPanicked) = Err DownloadFailed"

text \<open>The rest of \<open>download\<close>, once the task of this announcement ended.\<close>

definition download_ends ::
  "platform \<Rightarrow> u64 \<Rightarrow> string \<Rightarrow> string \<Rightarrow> update_announcement_id \<Rightarrow> (string, download_failure) result \<Rightarrow> verified_artifact_id
    \<Rightarrow> update_service \<Rightarrow> update_snapshot app_result \<times> update_service" where
  "download_ends pf g version current aid result new_id s =
     (if us_poisoned s then (Err update_conflict, s)
      else if us_shutting_down s then (Err update_cancelled, s)
      else case us_state s of
        UDownloading g' i _ ctx \<Rightarrow>
          if g' = g \<and> i = aid
          then (case result of
                  Ok bytes \<Rightarrow>
                    if pf_supported pf \<and> is_err (validate_installer_identity pf (context_identity ctx))
                    then (Err (download_error VerificationFailed), s\<lparr>us_state := UIdle\<rparr>)
                    else
                      let s' = s\<lparr>us_state := UVerified g (if pf_supported pf then Some new_id else None) version ctx bytes\<rparr>
                      in (Ok (snapshot_for pf s' current), s')
                | Err e \<Rightarrow> (Err (download_error e), s\<lparr>us_state := UIdle\<rparr>))
          else (Err update_cancelled, s)
      | _ \<Rightarrow> (Err update_cancelled, s))"

section \<open>Shutting down\<close>

text \<open>
  The first critical section gives the announcement whose download must still end; the last one runs once the task
  ended in time.
\<close>

definition shutdown_begins :: "update_service \<Rightarrow> update_announcement_id option app_result \<times> update_service" where
  "shutdown_begins s =
     (if us_poisoned s then (Err update_conflict, s)
      else case us_state s of
        UDownloading _ i _ _ \<Rightarrow> (Ok (Some i), upd_task i (\<lambda>t. t\<lparr>ut_aborted := True\<rparr>) (s\<lparr>us_shutting_down := True\<rparr>))
      | _ \<Rightarrow> (Ok None, s\<lparr>us_shutting_down := True, us_state := UIdle\<rparr>))"

definition shutdown_ends :: "bool \<Rightarrow> update_service \<Rightarrow> unit app_result \<times> update_service" where
  "shutdown_ends timed_out s =
     (if timed_out then (Err update_timeout, s)
      else if us_poisoned s then (Err update_conflict, s)
      else (Ok (), s\<lparr>us_state := UIdle\<rparr>))"

section \<open>Installing\<close>

definition validate_install :: "platform \<Rightarrow> verified_artifact_id \<Rightarrow> update_service \<Rightarrow> unit app_result" where
  "validate_install pf vid s =
     (if \<not> pf_supported pf then Err install_unavailable
      else if us_poisoned s then Err update_conflict
      else case us_state s of
        UVerified _ (Some active) _ ctx _ \<Rightarrow>
          if active = vid then validate_installer_identity pf (context_identity ctx) else Err update_conflict
      | _ \<Rightarrow> Err update_conflict)"

text \<open>The authority to install: the exact update that was checked and the exact bytes that were verified.\<close>

record install_authority =
  ia_context :: installer_context
  ia_bytes :: string

definition consume_install ::
  "platform \<Rightarrow> verified_artifact_id \<Rightarrow> update_service \<Rightarrow> install_authority app_result \<times> update_service" where
  "consume_install pf vid s =
     (if us_poisoned s then (Err update_conflict, s)
      else case us_state s of
        UVerified g (Some active) version ctx bytes \<Rightarrow>
          if active = vid
          then (case validate_installer_identity pf (context_identity ctx) of
                  Err e \<Rightarrow> (Err e, s\<lparr>us_state := UIdle\<rparr>)
                | Ok _ \<Rightarrow> (Ok \<lparr>ia_context = ctx, ia_bytes = bytes\<rparr>, s\<lparr>us_state := UInstalling g version\<rparr>))
          else (Err install_conflict, s)
      | _ \<Rightarrow> (Err install_conflict, s))"

text \<open>
  \<open>run_after_consumption\<close>: the steps before the installer and the installer itself, which gets the bytes of the
  authority. Beside the result, the steps that were taken.
\<close>

datatype install_step = StepShutdown | StepRevoke | StepLogging | StepInstaller installer_context string

record install_steps =
  is_shutdown :: "unit app_result"
  is_revoke :: "unit app_result"
  is_logging :: "unit app_result"
  is_invoke :: "installer_context \<Rightarrow> string \<Rightarrow> unit app_result"

definition run_after_consumption :: "install_steps \<Rightarrow> install_authority \<Rightarrow> install_step list \<times> unit app_result" where
  "run_after_consumption st auth =
     (if is_err (is_shutdown st) then ([StepShutdown], is_shutdown st)
      else if is_err (is_revoke st) then ([StepShutdown, StepRevoke], is_revoke st)
      else if is_err (is_logging st) then ([StepShutdown, StepRevoke, StepLogging], is_logging st)
      else ([StepShutdown, StepRevoke, StepLogging, StepInstaller (ia_context auth) (ia_bytes auth)],
            is_invoke st (ia_context auth) (ia_bytes auth)))"

section \<open>Events\<close>

datatype update_event =
    EvBeginCheck
  | EvCheckEnds u64 string "(installer_context \<times> string) option option" update_announcement_id
  | EvBeginDownload update_announcement_id
  | EvTaskDownloads update_announcement_id http_exchange "8 word option"
  | EvTaskPanics update_announcement_id
  | EvTaskDropped update_announcement_id
  | EvDownloadEnds u64 string update_announcement_id verified_artifact_id
  | EvShutdownBegins
  | EvShutdownEnds bool
  | EvConsumeInstall verified_artifact_id

text \<open>The call of \<open>download\<close> that continues uses what its task returned and the version its announcement had.\<close>

definition download_continues ::
  "platform \<Rightarrow> u64 \<Rightarrow> string \<Rightarrow> update_announcement_id \<Rightarrow> verified_artifact_id \<Rightarrow> update_service \<Rightarrow> update_service" where
  "download_continues pf g current i new_id s =
     (case fmlookup (us_tasks s) i of
        None \<Rightarrow> s
      | Some t \<Rightarrow>
          (case ut_outcome t of
             None \<Rightarrow> s
           | Some out \<Rightarrow> snd (download_ends pf g (pa_version (ut_announcement t)) current i (joined out) new_id s)))"

fun update_step :: "('pk, 'sig, 'ver) verify_lib \<Rightarrow> string \<Rightarrow> platform \<Rightarrow> update_event \<Rightarrow> update_service \<Rightarrow> update_service" where
  "update_step lib key pf EvBeginCheck s = snd (begin_check s)"
| "update_step lib key pf (EvCheckEnds g current found i) s = snd (check_ends lib pf g current found i s)"
| "update_step lib key pf (EvBeginDownload i) s = snd (begin_download i s)"
| "update_step lib key pf (EvTaskDownloads i hx elapsed) s = task_downloads lib key hx elapsed i s"
| "update_step lib key pf (EvTaskPanics i) s = task_panics i s"
| "update_step lib key pf (EvTaskDropped i) s = task_dropped i s"
| "update_step lib key pf (EvDownloadEnds g current i v) s = download_continues pf g current i v s"
| "update_step lib key pf EvShutdownBegins s = snd (shutdown_begins s)"
| "update_step lib key pf (EvShutdownEnds timed_out) s = snd (shutdown_ends timed_out s)"
| "update_step lib key pf (EvConsumeInstall v) s = snd (consume_install pf v s)"

text \<open>
  What the environment guarantees: the identifier of a new announcement is not in use, a task ends once and is dropped
  only after an abort, and a shutdown that continues in time has begun and its task ended.
\<close>

definition task_running :: "update_announcement_id \<Rightarrow> update_service \<Rightarrow> bool" where
  "task_running i s = (case fmlookup (us_tasks s) i of None \<Rightarrow> False | Some t \<Rightarrow> ut_outcome t = None)"

fun update_enabled :: "update_event \<Rightarrow> update_service \<Rightarrow> bool" where
  "update_enabled (EvCheckEnds g current found i) s = (fmlookup (us_tasks s) i = None)"
| "update_enabled (EvTaskDownloads i hx elapsed) s = task_running i s"
| "update_enabled (EvTaskPanics i) s = task_running i s"
| "update_enabled (EvTaskDropped i) s =
     (task_running i s \<and> (case fmlookup (us_tasks s) i of None \<Rightarrow> False | Some t \<Rightarrow> ut_aborted t))"
| "update_enabled (EvShutdownEnds timed_out) s =
     (us_shutting_down s \<and> (timed_out \<or> (case us_state s of UDownloading _ i _ _ \<Rightarrow> \<not> task_running i s | _ \<Rightarrow> True)))"
| "update_enabled _ s = True"

section \<open>Contract\<close>

text \<open>An announcement made from a checked update, and bytes that some download of it accepted.\<close>

definition announced_from :: "('pk, 'sig, 'ver) verify_lib \<Rightarrow> installer_context \<Rightarrow> pending_announcement \<Rightarrow> bool" where
  "announced_from lib ctx a = (\<exists>signature. announcement_new lib (ic_version ctx) (ic_download_url ctx) signature = Ok a)"

definition authentic :: "('pk, 'sig, 'ver) verify_lib \<Rightarrow> string \<Rightarrow> pending_announcement \<Rightarrow> string \<Rightarrow> bool" where
  "authentic lib key a bytes = (\<exists>hx elapsed phase phase'. bounded_download lib hx key elapsed a phase = (Ok bytes, phase'))"

fun state_ok ::
  "('pk, 'sig, 'ver) verify_lib \<Rightarrow> string \<Rightarrow> platform \<Rightarrow> (update_announcement_id, update_task) fmap \<Rightarrow> update_state \<Rightarrow> bool" where
  "state_ok lib key pf tasks (UAnnounced _ i a ctx) = announced_from lib ctx a"
| "state_ok lib key pf tasks (UDownloading _ i v ctx) =
     (\<exists>t. fmlookup tasks i = Some t \<and> announced_from lib ctx (ut_announcement t) \<and> v = pa_version (ut_announcement t))"
| "state_ok lib key pf tasks (UVerified _ vid v ctx bytes) =
     ((\<exists>a. announced_from lib ctx a \<and> v = pa_version a \<and> authentic lib key a bytes)
      \<and> (vid \<noteq> None \<longrightarrow> validate_installer_identity pf (context_identity ctx) = Ok ()))"
| "state_ok lib key pf tasks _ = True"

definition tasks_ok :: "('pk, 'sig, 'ver) verify_lib \<Rightarrow> string \<Rightarrow> (update_announcement_id, update_task) fmap \<Rightarrow> bool" where
  "tasks_ok lib key tasks =
     (\<forall>i t bytes. fmlookup tasks i = Some t \<and> ut_outcome t = Some (Ok (Ok bytes)) \<longrightarrow> authentic lib key (ut_announcement t) bytes)"

fun calm :: "update_state \<Rightarrow> bool" where
  "calm UIdle = True"
| "calm (UDownloading _ _ _ _) = True"
| "calm _ = False"

definition update_inv :: "('pk, 'sig, 'ver) verify_lib \<Rightarrow> string \<Rightarrow> platform \<Rightarrow> update_service \<Rightarrow> bool" where
  "update_inv lib key pf s =
     (state_ok lib key pf (us_tasks s) (us_state s) \<and> tasks_ok lib key (us_tasks s) \<and> (us_shutting_down s \<longrightarrow> calm (us_state s)))"

definition update_live :: "update_service \<Rightarrow> verified_artifact_id \<Rightarrow> bool" where
  "update_live s v = (case us_state s of UVerified _ (Some active) _ _ _ \<Rightarrow> active = v | _ \<Rightarrow> False)"

fun update_issues :: "update_event \<Rightarrow> verified_artifact_id \<Rightarrow> bool" where
  "update_issues (EvDownloadEnds g current i v) w = (v = w)"
| "update_issues _ w = False"

lemmas update_splits = update_state.splits option.splits if_splits prod.splits result.splits

text \<open>What each call does to the state: it leaves it, resets it, or moves it forward under the conditions named.\<close>

lemma is_ok_unit: "is_ok r \<longleftrightarrow> r = Ok ()"
  by (cases r) auto

lemma begin_check_effect:
  "snd (begin_check s) = s \<or> (\<exists>g. snd (begin_check s) = s\<lparr>us_generation := g, us_state := UChecking g\<rparr> \<and> \<not> us_shutting_down s)"
  by (auto simp: begin_check_def split: update_splits)

lemma check_ends_effect:
  "snd (check_ends lib pf g current found i s) \<in> {s, s\<lparr>us_state := UIdle\<rparr>}
   \<or> (\<exists>a ctx. snd (check_ends lib pf g current found i s) = s\<lparr>us_state := UAnnounced g i a ctx\<rparr>
        \<and> announced_from lib ctx a \<and> \<not> us_shutting_down s)"
proof -
  have announced: "snd (finish_announced pf g current a ctx i s) = s
      \<or> snd (finish_announced pf g current a ctx i s) = s\<lparr>us_state := UAnnounced g i a ctx\<rparr> \<and> \<not> us_shutting_down s" for a ctx
    by (simp add: finish_announced_def Let_def)
  have "snd (finish_up_to_date g current s) \<in> {s, s\<lparr>us_state := UIdle\<rparr>}" "snd (fail_active g s) \<in> {s, s\<lparr>us_state := UIdle\<rparr>}"
    by (simp_all add: finish_up_to_date_def fail_active_def)
  then show ?thesis
    using announced unfolding check_ends_def announced_from_def
    by (auto split: option.split result.split prod.split) (metis snd_conv)+
qed

lemma begin_download_effect:
  "snd (begin_download i s) = s
   \<or> (\<exists>g a ctx. us_state s = UAnnounced g i a ctx
        \<and> snd (begin_download i s) = s\<lparr>us_tasks := fmupd i \<lparr>ut_announcement = a, ut_phase = PHASE_DOWNLOADING,
              ut_aborted = False, ut_outcome = None\<rparr> (us_tasks s), us_state := UDownloading g i (pa_version a) ctx\<rparr>)"
  by (auto simp: begin_download_def split: update_splits)

lemma download_continues_effect:
  "download_continues pf g current i v s \<in> {s, s\<lparr>us_state := UIdle\<rparr>}
   \<or> (\<exists>t version ctx bytes vid. us_state s = UDownloading g i version ctx \<and> fmlookup (us_tasks s) i = Some t
        \<and> ut_outcome t = Some (Ok (Ok bytes)) \<and> \<not> us_shutting_down s \<and> (vid = None \<or> vid = Some v)
        \<and> (vid \<noteq> None \<longrightarrow> validate_installer_identity pf (context_identity ctx) = Ok ())
        \<and> download_continues pf g current i v s = s\<lparr>us_state := UVerified g vid (pa_version (ut_announcement t)) ctx bytes\<rparr>)"
proof (cases "fmlookup (us_tasks s) i")
  case (Some t)
  show ?thesis
  proof (cases "ut_outcome t")
    case out: (Some out)
    have eq: "download_continues pf g current i v s =
        snd (download_ends pf g (pa_version (ut_announcement t)) current i (joined out) v s)"
      using Some out by (simp add: download_continues_def)
    show ?thesis
    proof (cases "\<exists>bytes version ctx. joined out = Ok bytes \<and> us_state s = UDownloading g i version ctx
        \<and> \<not> us_poisoned s \<and> \<not> us_shutting_down s \<and> (pf_supported pf \<longrightarrow> validate_installer_identity pf (context_identity ctx) = Ok ())")
      case True
      then obtain bytes version ctx where ok: "joined out = Ok bytes" "us_state s = UDownloading g i version ctx"
        "\<not> us_poisoned s" "\<not> us_shutting_down s" "pf_supported pf \<longrightarrow> validate_installer_identity pf (context_identity ctx) = Ok ()"
        by blast
      from ok(1) have "out = Ok (Ok bytes)" by (cases out rule: joined.cases) auto
      then have "ut_outcome t = Some (Ok (Ok bytes))" using out by simp
      moreover have "download_continues pf g current i v s =
          s\<lparr>us_state := UVerified g (if pf_supported pf then Some v else None) (pa_version (ut_announcement t)) ctx bytes\<rparr>"
        unfolding eq using ok by (auto simp: download_ends_def Let_def)
      ultimately show ?thesis using ok Some by auto
    next
      case False
      then show ?thesis unfolding eq
        by (auto simp: download_ends_def Let_def is_ok_unit split: update_state.split result.split)
    qed
  qed (use Some in \<open>simp add: download_continues_def\<close>)
qed (simp add: download_continues_def)

lemma shutdown_begins_effect:
  "snd (shutdown_begins s) = s
   \<or> snd (shutdown_begins s) = s\<lparr>us_shutting_down := True, us_state := UIdle\<rparr>
   \<or> (\<exists>g i version ctx. us_state s = UDownloading g i version ctx
        \<and> snd (shutdown_begins s) = upd_task i (\<lambda>t. t\<lparr>ut_aborted := True\<rparr>) (s\<lparr>us_shutting_down := True\<rparr>))"
  by (cases "us_state s") (auto simp: shutdown_begins_def)

lemma consume_install_effect:
  "snd (consume_install pf v s) \<in> {s, s\<lparr>us_state := UIdle\<rparr>}
   \<or> (\<exists>g version ctx bytes. us_state s = UVerified g (Some v) version ctx bytes
        \<and> consume_install pf v s = (Ok \<lparr>ia_context = ctx, ia_bytes = bytes\<rparr>, s\<lparr>us_state := UInstalling g version\<rparr>)
        \<and> validate_installer_identity pf (context_identity ctx) = Ok ())"
  by (auto simp: consume_install_def split: update_splits)

lemma authenticI: "bounded_download lib hx key elapsed a phase = (Ok bytes, phase') \<Longrightarrow> authentic lib key a bytes"
  unfolding authentic_def by blast

lemma update_start_inv: "update_inv lib key pf update_service_default"
  by (simp add: update_inv_def tasks_ok_def update_service_default_def)

text \<open>A task keeps the announcement it downloads, and the invariant when its outcome is authentic.\<close>

lemma upd_task_inv:
  assumes "update_inv lib key pf s"
    and "\<And>t. ut_announcement (f t) = ut_announcement t"
    and "\<And>t bytes. ut_outcome (f t) = Some (Ok (Ok bytes)) \<Longrightarrow> ut_outcome t \<noteq> Some (Ok (Ok bytes))
      \<Longrightarrow> authentic lib key (ut_announcement t) bytes"
  shows "update_inv lib key pf (upd_task i f s)"
proof (cases "fmlookup (us_tasks s) i")
  case (Some t)
  have "tasks_ok lib key (fmupd i (f t) (us_tasks s))"
    using assms Some unfolding update_inv_def tasks_ok_def by (auto simp: assms(2)) metis+
  moreover have "state_ok lib key pf (fmupd i (f t) (us_tasks s)) (us_state s)"
    using assms(1) Some unfolding update_inv_def by (cases "us_state s") (auto simp: assms(2))
  ultimately show ?thesis using assms(1) Some by (simp add: update_inv_def upd_task_def)
qed (use assms(1) in \<open>simp add: upd_task_def\<close>)

lemma update_inv_state:
  "update_inv lib key pf s \<Longrightarrow> state_ok lib key pf (us_tasks s) st \<Longrightarrow> us_shutting_down s \<longrightarrow> calm st \<Longrightarrow>
    update_inv lib key pf (s\<lparr>us_state := st\<rparr>)"
  by (simp add: update_inv_def)

lemma update_step_inv:
  assumes "update_inv lib key pf s"
  shows "update_inv lib key pf (update_step lib key pf e s)"
proof (cases e)
  case EvBeginCheck
  then show ?thesis using assms begin_check_effect [of s] by (auto simp: update_inv_def)
next
  case (EvCheckEnds g current found i)
  then show ?thesis
    using assms check_ends_effect [of lib pf g current found i s] by (auto intro!: update_inv_state)
next
  case (EvBeginDownload i)
  then show ?thesis using assms begin_download_effect [of i s] by (auto simp: update_inv_def tasks_ok_def split: if_splits)
next
  case (EvTaskDownloads i hx elapsed)
  then show ?thesis
    using assms by (auto simp: task_downloads_def split: prod.splits intro!: upd_task_inv intro: authenticI)
next
  case (EvTaskPanics i)
  then show ?thesis using assms by (auto simp: task_panics_def intro!: upd_task_inv)
next
  case (EvTaskDropped i)
  then show ?thesis using assms by (auto simp: task_dropped_def intro!: upd_task_inv)
next
  case (EvDownloadEnds g current i v)
  then show ?thesis
    using assms download_continues_effect [of pf g current i v s]
    by (auto intro!: update_inv_state) (auto simp: update_inv_def tasks_ok_def)
next
  case EvShutdownBegins
  have "update_inv lib key pf (s\<lparr>us_shutting_down := True\<rparr>)" if "us_state s = UDownloading g i version ctx" for g i version ctx
    using assms that by (simp add: update_inv_def)
  then show ?thesis
    using EvShutdownBegins assms shutdown_begins_effect [of s]
    by (auto intro!: upd_task_inv) (auto simp: update_inv_def)
next
  case (EvShutdownEnds timed_out)
  then show ?thesis using assms by (auto simp: shutdown_ends_def intro: update_inv_state)
next
  case (EvConsumeInstall v)
  then show ?thesis
    using assms consume_install_effect [of pf v s] by (auto intro!: update_inv_state simp: update_inv_def)
qed

fun offers :: "verified_artifact_id \<Rightarrow> update_state \<Rightarrow> bool" where
  "offers v (UVerified _ (Some active) _ _ _) = (active = v)"
| "offers v _ = False"

lemma update_live_offers: "update_live s v = offers v (us_state s)"
  by (cases "(v, us_state s)" rule: offers.cases) (auto simp: update_live_def)

lemma upd_task_state [simp]: "us_state (upd_task i f s) = us_state s" "us_shutting_down (upd_task i f s) = us_shutting_down s"
  by (simp_all add: upd_task_def split: option.split)

lemma update_step_live: "update_live (update_step lib key pf e s) v \<Longrightarrow> update_live s v \<or> update_issues e v"
proof -
  have "offers v (us_state (snd (begin_check s))) \<Longrightarrow> offers v (us_state s)"
    using begin_check_effect [of s] by auto
  moreover have "offers v (us_state (snd (check_ends lib pf g current found i s))) \<Longrightarrow> offers v (us_state s)" for g current found i
    using check_ends_effect [of lib pf g current found i s] by auto
  moreover have "offers v (us_state (snd (begin_download i s))) \<Longrightarrow> offers v (us_state s)" for i
    using begin_download_effect [of i s] by auto
  moreover have "offers v (us_state (download_continues pf g current i w s)) \<Longrightarrow> offers v (us_state s) \<or> w = v" for g current i w
    using download_continues_effect [of pf g current i w s] by auto
  moreover have "offers v (us_state (snd (shutdown_begins s))) \<Longrightarrow> offers v (us_state s)"
    using shutdown_begins_effect [of s] by auto
  moreover have "offers v (us_state (snd (consume_install pf w s))) \<Longrightarrow> offers v (us_state s)" for w
    using consume_install_effect [of pf w s] by auto
  ultimately show "update_live (update_step lib key pf e s) v \<Longrightarrow> update_live s v \<or> update_issues e v"
    unfolding update_live_offers
    by (cases e) (simp_all add: task_downloads_def task_panics_def task_dropped_def shutdown_ends_def split: if_splits)
qed

lemma update_step_shutting:
  assumes "us_shutting_down s"
  shows "us_shutting_down (update_step lib key pf e s)"
proof -
  have "us_shutting_down (snd (begin_check s))" using begin_check_effect [of s] assms by auto
  moreover have "us_shutting_down (snd (check_ends lib pf g current found i s))" for g current found i
    using check_ends_effect [of lib pf g current found i s] assms by auto
  moreover have "us_shutting_down (snd (begin_download i s))" for i using begin_download_effect [of i s] assms by auto
  moreover have "us_shutting_down (download_continues pf g current i w s)" for g current i w
    using download_continues_effect [of pf g current i w s] assms by auto
  moreover have "us_shutting_down (snd (shutdown_begins s))" using shutdown_begins_effect [of s] assms by auto
  moreover have "us_shutting_down (snd (consume_install pf w s))" for w using consume_install_effect [of pf w s] assms by auto
  ultimately show ?thesis
    using assms by (cases e) (simp_all add: task_downloads_def task_panics_def task_dropped_def shutdown_ends_def)
qed

lemma consume_install_Ok:
  assumes "consume_install pf v s = (Ok auth, s')"
  shows "\<exists>g version. us_state s = UVerified g (Some v) version (ia_context auth) (ia_bytes auth) \<and> s' = s\<lparr>us_state := UInstalling g version\<rparr>
    \<and> validate_installer_identity pf (context_identity (ia_context auth)) = Ok ()"
  using assms by (auto simp: consume_install_def split: update_splits)

interpretation updates: sealable update_enabled "update_step lib key pf" "update_inv lib key pf" update_live update_issues
    "\<lambda>v. v" "consume_install pf" us_shutting_down
  for lib :: "('pk, 'sig, 'ver) verify_lib" and key pf
proof unfold_locales
  show "update_live s q" if "consume_install pf q s = (Ok a, s')" for s q a s'
    using consume_install_Ok [OF that] by (auto simp: update_live_offers)
  show "\<not> update_live s' q" if "consume_install pf q s = (Ok a, s')" for s q a s'
    using consume_install_Ok [OF that] by (auto simp: update_live_offers)
  show "update_inv lib key pf s'" if "update_inv lib key pf s" "consume_install pf q s = (r, s')" for s q r s'
    using update_step_inv [OF that(1), of "EvConsumeInstall q"] that(2) by simp
  show "\<not> update_live s i" if "update_inv lib key pf s" "us_shutting_down s" for s i
    using that by (cases "us_state s") (auto simp: update_inv_def update_live_offers)
qed (auto simp: update_step_inv update_step_live update_step_shutting)

section \<open>Properties\<close>

lemma announced_version: "announced_from lib ctx a \<Longrightarrow> pa_version a = ic_version ctx \<and> pa_url a = ic_download_url ctx"
  by (auto simp: announced_from_def announcement_new_def and_then_Ok_iff)

text \<open>What an installation authority carries: the update that was checked, with bytes verified for it.\<close>

definition genuine :: "('pk, 'sig, 'ver) verify_lib \<Rightarrow> string \<Rightarrow> platform \<Rightarrow> install_authority \<Rightarrow> bool" where
  "genuine lib key pf auth \<longleftrightarrow>
     (\<exists>a pk sig stated. announced_from lib (ia_context auth) a
        \<and> decode_public_key lib key = Ok pk \<and> decode_signature lib (pa_signature a) = Ok sig
        \<and> vl_finalize lib pk sig (ia_bytes auth) \<and> length (ia_bytes auth) \<le> MAX_ARTIFACT_BYTES
        \<and> version_fields (vl_trusted_comment lib sig) = [stated] \<and> same_version lib stated (ic_version (ia_context auth)))
     \<and> pf_supported pf \<and> ic_target (ia_context auth) = ''windows''
     \<and> (\<exists>segs. u_path_segments (ic_download_url (ia_context auth)) = Some segs \<and> segs \<noteq> []
          \<and> last segs = ''NexusOps_'' @ ic_version (ia_context auth) @ ''_'' @ pf_architecture pf @ ''-setup.exe'')"

lemma authentic_verified:
  assumes "authentic lib key a bytes"
  shows "\<exists>pk sig stated. decode_public_key lib key = Ok pk \<and> decode_signature lib (pa_signature a) = Ok sig
    \<and> vl_finalize lib pk sig bytes \<and> length bytes \<le> MAX_ARTIFACT_BYTES
    \<and> version_fields (vl_trusted_comment lib sig) = [stated] \<and> same_version lib stated (pa_version a)"
proof -
  obtain hx elapsed phase phase' where "bounded_download lib hx key elapsed a phase = (Ok bytes, phase')"
    using assms unfolding authentic_def by blast
  then have "download_and_verify lib hx a key phase = (Ok bytes, phase')"
    unfolding bounded_download_def by (cases elapsed) auto
  from download_and_verify_Ok [OF this] show ?thesis by blast
qed

lemma identity_valid:
  assumes "validate_installer_identity pf (context_identity ctx) = Ok ()"
  shows "pf_supported pf \<and> ic_target ctx = ''windows'' \<and> (\<exists>segs. u_path_segments (ic_download_url ctx) = Some segs \<and> segs \<noteq> []
    \<and> last segs = ''NexusOps_'' @ ic_version ctx @ ''_'' @ pf_architecture pf @ ''-setup.exe'')"
  using assms
  by (auto simp: validate_installer_identity_def context_identity_def split: if_splits option.splits)

lemma consumed_genuine:
  assumes "update_inv lib key pf s" "consume_install pf v s = (Ok auth, s')"
  shows "genuine lib key pf auth \<and> \<not> us_shutting_down s"
proof -
  from consume_install_Ok [OF assms(2)] obtain g version where
    s: "us_state s = UVerified g (Some v) version (ia_context auth) (ia_bytes auth)"
    and ident: "validate_installer_identity pf (context_identity (ia_context auth)) = Ok ()" by blast
  then obtain a where a: "announced_from lib (ia_context auth) a" "authentic lib key a (ia_bytes auth)" "\<not> us_shutting_down s"
    using assms(1) by (auto simp: update_inv_def)
  then show ?thesis
    using authentic_verified [OF a(2)] identity_valid [OF ident] announced_version [OF a(1)] unfolding genuine_def by metis
qed

text \<open>
  C21: Only a genuine update is installed, and only once. From a fresh start, whatever checks, downloads and shutdowns
  run in between, an authority to install carries the very update that a check announced, with bytes that the signature
  verifier accepted under the built-in key for that announcement and whose signed comment names its version, and a file
  name that matches the version and the architecture. It is never given once the shutdown began, and the identifier
  that gave it gives none again.
\<close>

theorem update_installed_genuine_once:
  assumes "enabled_run update_enabled (update_step lib key pf) es update_service_default"
    and "consume_install pf v (fold (update_step lib key pf) es update_service_default) = (Ok auth, s')"
    and "enabled_run update_enabled (update_step lib key pf) es' s'" "\<forall>e \<in> set es'. \<not> update_issues e v"
  shows "genuine lib key pf auth
    \<and> \<not> us_shutting_down (fold (update_step lib key pf) es update_service_default)
    \<and> \<not> is_ok (fst (consume_install pf v (fold (update_step lib key pf) es' s')))"
proof -
  have inv: "update_inv lib key pf (fold (update_step lib key pf) es update_service_default)"
    using update_start_inv assms(1) by (rule updates.invar_run)
  then show ?thesis
    using consumed_genuine [OF inv assms(2)] updates.redeemed_once [OF inv assms(2,3,4) refl] by blast
qed

definition ex_context :: installer_context where
  "ex_context = \<lparr>ic_version = ''1.2.0'', ic_target = ''windows'', ic_download_url = ex_url\<rparr>"

definition ex_platform :: platform where
  "ex_platform = \<lparr>pf_supported = True, pf_architecture = ''x64''\<rparr>"

definition ex_update_run :: "update_event list" where
  "ex_update_run = [EvBeginCheck, EvCheckEnds 1 ''1.1.0'' (Some (Some (ex_context, ''sig''))) (UpdateAnnouncementId 7),
     EvBeginDownload (UpdateAnnouncementId 7), EvTaskDownloads (UpdateAnnouncementId 7) ex_http None,
     EvDownloadEnds 1 ''1.1.0'' (UpdateAnnouncementId 7) (VerifiedArtifactId 8)]"

lemma ex_announced: "announcement_new ex_lib ''1.2.0'' ex_url ''sig'' = Ok ex_announcement"
  by (simp add: announcement_new_def validate_version_def MAX_VERSION_BYTES_def has_control_def utf8_chars.simps utf8_next_def is_control_def
      validate_initial_url_def validate_common_url_def ex_url_def INITIAL_HOST_def INITIAL_PATH_PREFIX_def starts_with_def
      decode_signature_def MAX_SIGNATURE_TEXT_BYTES_def ex_lib_def from_utf8_def valid_utf8_def ex_announcement_def)

lemma ex_identity: "validate_installer_identity ex_platform (context_identity ex_context) = Ok ()"
  by (simp add: validate_installer_identity_def context_identity_def ex_platform_def ex_context_def ex_url_def)

lemma ex_update_verified:
  "enabled_run update_enabled (update_step ex_lib ''key'' ex_platform) ex_update_run update_service_default"
  "us_state (fold (update_step ex_lib ''key'' ex_platform) ex_update_run update_service_default) =
     UVerified 1 (Some (VerifiedArtifactId 8)) ''1.2.0'' ex_context ''installer''"
  "us_poisoned (fold (update_step ex_lib ''key'' ex_platform) ex_update_run update_service_default) = False"
proof -
  obtain phase where dl: "bounded_download ex_lib ex_http ''key'' None ex_announcement 0 = (Ok ''installer'', phase)"
    using ex_download_ok by (metis prod.collapse)
  have ctx: "ic_version ex_context = ''1.2.0''" "ic_download_url ex_context = ex_url" "pa_version ex_announcement = ''1.2.0''"
    "pf_supported ex_platform"
    by (simp_all add: ex_context_def ex_announcement_def ex_platform_def)
  note run = ex_update_run_def update_service_default_def begin_check_def checked_succ_def check_ends_def ex_announced
    finish_announced_def begin_download_def task_downloads_def upd_task_def download_continues_def download_ends_def PHASE_DOWNLOADING_def
    Let_def ctx dl ex_identity task_running_def
  show "enabled_run update_enabled (update_step ex_lib ''key'' ex_platform) ex_update_run update_service_default"
    by (simp add: run)
  show "us_state (fold (update_step ex_lib ''key'' ex_platform) ex_update_run update_service_default) =
     UVerified 1 (Some (VerifiedArtifactId 8)) ''1.2.0'' ex_context ''installer''"
    by (simp add: run)
  show "us_poisoned (fold (update_step ex_lib ''key'' ex_platform) ex_update_run update_service_default) = False"
    by (simp add: run)
qed

theorem update_installed_genuine_once_witness:
  "\<exists>auth s'. consume_install ex_platform (VerifiedArtifactId 8)
      (fold (update_step ex_lib ''key'' ex_platform) ex_update_run update_service_default) = (Ok auth, s')
    \<and> genuine ex_lib ''key'' ex_platform auth
    \<and> \<not> is_ok (fst (consume_install ex_platform (VerifiedArtifactId 8) (fold (update_step ex_lib ''key'' ex_platform) [EvBeginCheck] s')))"
proof -
  have "is_ok (fst (consume_install ex_platform (VerifiedArtifactId 8)
      (fold (update_step ex_lib ''key'' ex_platform) ex_update_run update_service_default)))"
    unfolding consume_install_def ex_update_verified by (simp add: ex_identity)
  then obtain auth s' where ok: "consume_install ex_platform (VerifiedArtifactId 8)
      (fold (update_step ex_lib ''key'' ex_platform) ex_update_run update_service_default) = (Ok auth, s')"
    by (metis is_ok_iff prod.collapse)
  have "enabled_run update_enabled (update_step ex_lib ''key'' ex_platform) [EvBeginCheck] s'"
    "\<forall>e \<in> set [EvBeginCheck]. \<not> update_issues e (VerifiedArtifactId 8)" by simp_all
  from update_installed_genuine_once [OF ex_update_verified(1) ok this] ok show ?thesis by blast
qed

end
