(* ===== verification/Lifecycle.thy ===== *)
theory Lifecycle
  imports Nexus_Model Interfaces
begin

text \<open>
  \<^verbatim>\<open>apps/desktop/src-tauri/src/lifecycle.rs\<close>: admission of desktop commands, sealing and draining,
  exclusive ownership for installations, the exit coordinator and the order of exit cleanup.
\<close>

section \<open>Command admission\<close>

datatype lifecycle_phase = Running | Sealed | Exclusive | Quiesced

record lifecycle_state =
  lc_phase :: lifecycle_phase
  lc_active :: u64
  lc_poisoned :: bool

definition lifecycle_default :: lifecycle_state where
  "lifecycle_default = \<lparr>lc_phase = Running, lc_active = 0, lc_poisoned = False\<rparr>"

definition CLOSING_MESSAGE :: string where
  "CLOSING_MESSAGE = ''NexusOps is closing. Restart the application to continue.''"

definition DRAIN_TIMEOUT_MESSAGE :: string where
  "DRAIN_TIMEOUT_MESSAGE = ''NexusOps is still closing. Wait for active operations and try closing again.''"

definition closing_error :: app_error where
  "closing_error = AppError_new Conflict CLOSING_MESSAGE"

definition admit :: "lifecycle_state \<Rightarrow> unit app_result \<times> lifecycle_state" where
  "admit s =
     (if lc_poisoned s then (Err closing_error, s)
      else if lc_phase s \<noteq> Running then (Err closing_error, s)
      else (case checked_succ (lc_active s) of
              None \<Rightarrow> (Err closing_error, s\<lparr>lc_phase := Sealed\<rparr>)
            | Some a \<Rightarrow> (Ok (), s\<lparr>lc_active := a\<rparr>)))"

definition drop_command_permit :: "lifecycle_state \<Rightarrow> lifecycle_state" where
  "drop_command_permit s =
     (if lc_poisoned s then s
      else (case checked_pred (lc_active s) of
              None \<Rightarrow> s\<lparr>lc_phase := Sealed\<rparr>
            | Some a \<Rightarrow> s\<lparr>lc_active := a\<rparr>))"

definition seal :: "lifecycle_state \<Rightarrow> unit app_result \<times> lifecycle_state" where
  "seal s =
     (if lc_poisoned s then (Err closing_error, s)
      else (Ok (), if lc_phase s = Running then s\<lparr>lc_phase := Sealed\<rparr> else s))"

text \<open>One look at the state inside the loop of \<open>seal_and_drain_for\<close>.\<close>

definition drain_check :: "lifecycle_state \<Rightarrow> bool app_result \<times> lifecycle_state" where
  "drain_check s =
     (if lc_poisoned s then (Err closing_error, s)
      else if lc_active s = 0 then (Ok True, s\<lparr>lc_phase := Quiesced\<rparr>)
      else (Ok False, s))"

definition claim_exclusive :: "lifecycle_state \<Rightarrow> unit app_result \<times> lifecycle_state" where
  "claim_exclusive s =
     (if lc_poisoned s then (Err closing_error, s)
      else if lc_phase s \<noteq> Running then (Err closing_error, s)
      else (Ok (), s\<lparr>lc_phase := Exclusive\<rparr>))"

definition exclusive_check :: "lifecycle_state \<Rightarrow> bool app_result" where
  "exclusive_check s = (if lc_poisoned s then Err closing_error else Ok (lc_active s = 1))"

section \<open>The system of permits\<close>

text \<open>
  The state together with the number of permits that exist. A permit is dropped by its owner, so
  only while one exists; the installer keeps its permit while it claims and checks exclusivity.
\<close>

record lifecycle_system =
  sys_state :: lifecycle_state
  sys_permits :: nat

datatype lifecycle_event = LAdmit | LDrop | LSeal | LDrainCheck | LClaimExclusive

fun lifecycle_step :: "lifecycle_event \<Rightarrow> lifecycle_system \<Rightarrow> lifecycle_system" where
  "lifecycle_step LAdmit y =
     (case admit (sys_state y) of
        (Ok _, s) \<Rightarrow> \<lparr>sys_state = s, sys_permits = Suc (sys_permits y)\<rparr>
      | (Err _, s) \<Rightarrow> y\<lparr>sys_state := s\<rparr>)"
| "lifecycle_step LDrop y =
     \<lparr>sys_state = drop_command_permit (sys_state y), sys_permits = sys_permits y - 1\<rparr>"
| "lifecycle_step LSeal y = y\<lparr>sys_state := snd (seal (sys_state y))\<rparr>"
| "lifecycle_step LDrainCheck y = y\<lparr>sys_state := snd (drain_check (sys_state y))\<rparr>"
| "lifecycle_step LClaimExclusive y = y\<lparr>sys_state := snd (claim_exclusive (sys_state y))\<rparr>"

text \<open>
  A drain check happens only inside \<open>seal_and_drain\<close>, after the seal; a claim needs a permit.
\<close>

fun lifecycle_enabled :: "lifecycle_event \<Rightarrow> lifecycle_system \<Rightarrow> bool" where
  "lifecycle_enabled LDrop y = (0 < sys_permits y)"
| "lifecycle_enabled LDrainCheck y = (lc_phase (sys_state y) \<noteq> Running)"
| "lifecycle_enabled LClaimExclusive y = (0 < sys_permits y)"
| "lifecycle_enabled _ y = True"

definition lifecycle_start :: lifecycle_system where
  "lifecycle_start = \<lparr>sys_state = lifecycle_default, sys_permits = 0\<rparr>"

definition lifecycle_inv :: "lifecycle_system \<Rightarrow> bool" where
  "lifecycle_inv y =
     (\<not> lc_poisoned (sys_state y)
      \<and> unat (lc_active (sys_state y)) = sys_permits y
      \<and> (lc_phase (sys_state y) = Quiesced \<longrightarrow> sys_permits y = 0))"

section \<open>Draining\<close>

text \<open>
  The loop of \<open>seal_and_drain_for\<close>. Each element is what happens until the next look: the events
  before a notification, or \<open>None\<close> when the deadline passes first. When the list ends the call is
  still waiting.
\<close>

fun drain_loop ::
  "lifecycle_event list option list \<Rightarrow> lifecycle_system \<Rightarrow> (unit app_result \<times> lifecycle_system) option" where
  "drain_loop waits y =
     (case drain_check (sys_state y) of
        (Err e, s) \<Rightarrow> Some (Err e, y\<lparr>sys_state := s\<rparr>)
      | (Ok True, s) \<Rightarrow> Some (Ok (), y\<lparr>sys_state := s\<rparr>)
      | (Ok False, s) \<Rightarrow>
          (case waits of
             [] \<Rightarrow> None
           | None # _ \<Rightarrow> Some (Err (AppError_new Timeout DRAIN_TIMEOUT_MESSAGE), y\<lparr>sys_state := s\<rparr>)
           | Some es # ws \<Rightarrow> drain_loop ws (fold lifecycle_step es (y\<lparr>sys_state := s\<rparr>))))"

declare drain_loop.simps [simp del]

definition seal_and_drain ::
  "lifecycle_event list option list \<Rightarrow> lifecycle_system \<Rightarrow> (unit app_result \<times> lifecycle_system) option" where
  "seal_and_drain waits y =
     (case seal (sys_state y) of
        (Err e, s) \<Rightarrow> Some (Err e, y\<lparr>sys_state := s\<rparr>)
      | (Ok _, s) \<Rightarrow> drain_loop waits (y\<lparr>sys_state := s\<rparr>))"

fun exclusive_loop ::
  "lifecycle_event list option list \<Rightarrow> lifecycle_system \<Rightarrow> (unit app_result \<times> lifecycle_system) option" where
  "exclusive_loop waits y =
     (case exclusive_check (sys_state y) of
        Err e \<Rightarrow> Some (Err e, y)
      | Ok True \<Rightarrow> Some (Ok (), y)
      | Ok False \<Rightarrow>
          (case waits of
             [] \<Rightarrow> None
           | None # _ \<Rightarrow> Some (Err (AppError_new Timeout DRAIN_TIMEOUT_MESSAGE), y)
           | Some es # ws \<Rightarrow> exclusive_loop ws (fold lifecycle_step es y)))"

declare exclusive_loop.simps [simp del]

definition seal_and_drain_others ::
  "lifecycle_event list option list \<Rightarrow> lifecycle_system \<Rightarrow> (unit app_result \<times> lifecycle_system) option" where
  "seal_and_drain_others waits y =
     (case claim_exclusive (sys_state y) of
        (Err e, s) \<Rightarrow> Some (Err e, y\<lparr>sys_state := s\<rparr>)
      | (Ok _, s) \<Rightarrow> exclusive_loop waits (y\<lparr>sys_state := s\<rparr>))"

section \<open>Exit\<close>

datatype exit_request = StartCleanup | PreventExit | AllowExit

record exit_state =
  xs_attempt_running :: bool
  xs_cleanup_complete :: bool
  xs_poisoned :: bool

definition exit_default :: exit_state where
  "exit_default = \<lparr>xs_attempt_running = False, xs_cleanup_complete = False, xs_poisoned = False\<rparr>"

definition exit_ask :: "exit_state \<Rightarrow> exit_request \<times> exit_state" where
  "exit_ask s =
     (if xs_poisoned s then (PreventExit, s)
      else if xs_cleanup_complete s then (AllowExit, s)
      else if xs_attempt_running s then (PreventExit, s)
      else (StartCleanup, s\<lparr>xs_attempt_running := True\<rparr>))"

definition exit_complete :: "exit_state \<Rightarrow> exit_state" where
  "exit_complete s =
     (if xs_poisoned s then s else s\<lparr>xs_attempt_running := False, xs_cleanup_complete := True\<rparr>)"

definition exit_failed :: "exit_state \<Rightarrow> exit_state" where
  "exit_failed s = (if xs_poisoned s then s else s\<lparr>xs_attempt_running := False\<rparr>)"

record exit_cleanup_failure =
  xf_stage :: string
  xf_error :: app_error

text \<open>
  \<open>run_exit_cleanup\<close>: five steps in order, each only after the previous one succeeded. The steps
  call into other components; here each is its outcome. The first component of the result lists
  the steps that were started.
\<close>

record exit_cleanup_steps =
  st_seal_and_drain :: "unit app_result"
  st_shutdown_updates :: "unit app_result"
  st_shutdown_application :: "unit app_result"
  st_revoke_local_grants :: "unit app_result"
  st_finalize_logging :: "unit app_result"

fun run_stages :: "(string \<times> unit app_result) list \<Rightarrow> string list \<times> (unit, exit_cleanup_failure) result" where
  "run_stages [] = ([], Ok ())"
| "run_stages ((stage, Err e) # rest) = ([stage], Err \<lparr>xf_stage = stage, xf_error = e\<rparr>)"
| "run_stages ((stage, Ok _) # rest) = apfst (\<lambda>xs. stage # xs) (run_stages rest)"

definition run_exit_cleanup :: "exit_cleanup_steps \<Rightarrow> string list \<times> (unit, exit_cleanup_failure) result" where
  "run_exit_cleanup st =
     run_stages [(''command_drain'', st_seal_and_drain st), (''update_shutdown'', st_shutdown_updates st),
       (''application_shutdown'', st_shutdown_application st),
       (''local_grant_revocation'', st_revoke_local_grants st),
       (''logging_finalize'', st_finalize_logging st)]"

text \<open>\<open>run_exit_attempt\<close>; the last component tells whether the final exit was requested.\<close>

definition run_exit_attempt ::
  "exit_cleanup_steps \<Rightarrow> exit_state \<Rightarrow> (unit, exit_cleanup_failure) result \<times> exit_state \<times> bool" where
  "run_exit_attempt st s =
     (case snd (run_exit_cleanup st) of
        Ok _ \<Rightarrow> (Ok (), exit_complete s, True)
      | Err f \<Rightarrow> (Err f, exit_failed s, False))"

datatype exit_event = XRequest | XAttemptEnds exit_cleanup_steps

fun exit_step :: "exit_event \<Rightarrow> exit_state \<Rightarrow> exit_state" where
  "exit_step XRequest s = snd (exit_ask s)"
| "exit_step (XAttemptEnds st) s = fst (snd (run_exit_attempt st s))"

text \<open>An attempt ends only if one was started.\<close>

fun exit_enabled :: "exit_event \<Rightarrow> exit_state \<Rightarrow> bool" where
  "exit_enabled (XAttemptEnds st) s = xs_attempt_running s"
| "exit_enabled _ s = True"

section \<open>Lemmas\<close>

lemma lifecycle_step_inv:
  assumes "lifecycle_inv y" "lifecycle_enabled e y"
  shows "lifecycle_inv (lifecycle_step e y)"
proof (cases e)
  case LAdmit
  with assms show ?thesis
    by (auto simp: lifecycle_inv_def admit_def checked_succ_Some split: option.splits)
next
  case LDrop
  with assms show ?thesis
    by (auto simp: lifecycle_inv_def drop_command_permit_def checked_pred_def unat_minus_one
        dest: checked_pred_Some split: option.splits if_splits)
next
  case LDrainCheck
  with assms show ?thesis
    by (auto simp: lifecycle_inv_def drain_check_def)
qed (use assms in \<open>auto simp: lifecycle_inv_def seal_def claim_exclusive_def\<close>)

interpretation lifecycle: guarded_machine lifecycle_enabled lifecycle_step lifecycle_inv
  by unfold_locales (rule lifecycle_step_inv)

lemma lifecycle_inv_start: "lifecycle_inv lifecycle_start"
  by (simp add: lifecycle_inv_def lifecycle_start_def lifecycle_default_def)

text \<open>Once the phase is not \<open>Running\<close> it never is again, and permits only disappear.\<close>

definition closed_to_admission :: "nat \<Rightarrow> lifecycle_system \<Rightarrow> bool" where
  "closed_to_admission n y = (lc_phase (sys_state y) \<noteq> Running \<and> sys_permits y \<le> n)"

lemma closed_step: "closed_to_admission n y \<Longrightarrow> closed_to_admission n (lifecycle_step e y)"
  by (cases e)
    (auto simp: closed_to_admission_def admit_def drop_command_permit_def seal_def drain_check_def
      claim_exclusive_def split: option.split)

lemma closed_run: "closed_to_admission n y \<Longrightarrow> closed_to_admission n (fold lifecycle_step es y)"
  by (induction es arbitrary: y) (auto intro: closed_step)

lemma admit_closed: "lc_phase s \<noteq> Running \<Longrightarrow> admit s = (Err closing_error, s)"
  by (simp add: admit_def)

fun waits_enabled :: "lifecycle_event list option list \<Rightarrow> lifecycle_system \<Rightarrow> bool" where
  "waits_enabled [] y = True"
| "waits_enabled (None # ws) y = True"
| "waits_enabled (Some es # ws) y =
     (enabled_run lifecycle_enabled lifecycle_step es y \<and> waits_enabled ws (fold lifecycle_step es y))"

lemma drain_loop_Ok:
  assumes "drain_loop ws y = Some (Ok u, y')" "lifecycle_inv y" "waits_enabled ws y"
  shows "lc_phase (sys_state y') = Quiesced \<and> sys_permits y' = 0"
  using assms
proof (induction ws y rule: drain_loop.induct)
  case (1 waits y)
  show ?case
  proof (cases "lc_active (sys_state y) = 0")
    case True
    with 1(2,3) show ?thesis
      by (auto simp: drain_loop.simps [of waits] drain_check_def lifecycle_inv_def)
  next
    case False
    then have check: "drain_check (sys_state y) = (Ok False, sys_state y)"
      using 1(3) by (simp add: drain_check_def lifecycle_inv_def)
    with 1(2) obtain es ws where w: "waits = Some es # ws"
      by (auto simp: drain_loop.simps [of waits] split: list.splits option.splits)
    have "lifecycle_inv (fold lifecycle_step es y)"
      using 1(3,4) w by (auto intro: lifecycle.invar_run)
    then show ?thesis
      using 1(1) [OF check [symmetric] refl _ w refl] 1(2,4) check w
      by (simp add: drain_loop.simps [of "Some es # ws"])
  qed
qed

lemma exclusive_loop_Ok:
  assumes "exclusive_loop ws y = Some (Ok u, y')" "lifecycle_inv y" "waits_enabled ws y"
    and "lc_phase (sys_state y) \<noteq> Running"
  shows "lc_phase (sys_state y') \<noteq> Running \<and> sys_permits y' = 1 \<and> lifecycle_inv y'"
  using assms
proof (induction ws y rule: exclusive_loop.induct)
  case (1 waits y)
  show ?case
  proof (cases "lc_active (sys_state y) = 1")
    case True
    with 1(2,3,5) show ?thesis
      by (auto simp: exclusive_loop.simps [of waits] exclusive_check_def lifecycle_inv_def)
  next
    case False
    then have check: "exclusive_check (sys_state y) = Ok False"
      using 1(3) by (simp add: exclusive_check_def lifecycle_inv_def)
    with 1(2) obtain es ws where w: "waits = Some es # ws"
      by (auto simp: exclusive_loop.simps [of waits] split: list.splits option.splits)
    have "lifecycle_inv (fold lifecycle_step es y)"
      using 1(3,4) w by (auto intro: lifecycle.invar_run)
    moreover have "lc_phase (sys_state (fold lifecycle_step es y)) \<noteq> Running"
      using closed_run [of "sys_permits y" y es] 1(5) by (simp add: closed_to_admission_def)
    ultimately show ?thesis
      using 1(1) [OF check _ w refl] 1(2,4) check w
      by (simp add: exclusive_loop.simps [of "Some es # ws"])
  qed
qed

text \<open>Waiting for the owners to finish is enough: once the last permit is dropped, draining returns.\<close>

lemma drops_empty:
  "lifecycle_inv y \<Longrightarrow> sys_permits y = n \<Longrightarrow> enabled_run lifecycle_enabled lifecycle_step (replicate n LDrop) y \<and>
   sys_permits (fold lifecycle_step (replicate n LDrop) y) = 0"
proof (induction n arbitrary: y)
  case (Suc n)
  then have "lifecycle_inv (lifecycle_step LDrop y)" "sys_permits (lifecycle_step LDrop y) = n"
    using lifecycle_step_inv [of y LDrop] by simp_all
  with Suc show ?case by simp
qed simp

lemma drain_after_drops:
  assumes "lifecycle_inv y"
  shows "\<exists>y'. drain_loop [Some (replicate (sys_permits y) LDrop)] y = Some (Ok (), y')"
proof (cases "lc_active (sys_state y) = 0")
  case True
  with assms show ?thesis
    by (subst drain_loop.simps) (simp add: drain_check_def lifecycle_inv_def)
next
  case False
  let ?z = "fold lifecycle_step (replicate (sys_permits y) LDrop) y"
  have z: "enabled_run lifecycle_enabled lifecycle_step (replicate (sys_permits y) LDrop) y" "sys_permits ?z = 0"
    using drops_empty [OF assms refl] by auto
  have "lifecycle_inv ?z" using assms z(1) by (rule lifecycle.invar_run)
  with z(2) have "drain_check (sys_state ?z) = (Ok True, (sys_state ?z)\<lparr>lc_phase := Quiesced\<rparr>)"
    by (auto simp: drain_check_def lifecycle_inv_def unat_eq_0)
  then have "\<exists>y'. drain_loop [] ?z = Some (Ok (), y')" by (subst drain_loop.simps) simp
  moreover have "drain_check (sys_state y) = (Ok False, sys_state y)"
    using False assms by (simp add: drain_check_def lifecycle_inv_def)
  ultimately show ?thesis by (subst drain_loop.simps) simp
qed

section \<open>Properties\<close>

text \<open>
  Draining really quiesces. From a fresh start, whenever \<open>seal_and_drain\<close> returns successfully,
  no command permit exists, the coordinator is quiesced, and in every continuation no permit ever
  exists again and every admission is refused. The call does return successfully when the commands
  that were in flight finish.
\<close>

theorem seal_and_drain_quiesces:
  assumes "enabled_run lifecycle_enabled lifecycle_step es lifecycle_start"
    and "y = fold lifecycle_step es lifecycle_start"
  shows "(\<forall>ws y' es'. seal_and_drain ws y = Some (Ok (), y') \<longrightarrow> waits_enabled ws (lifecycle_step LSeal y) \<longrightarrow>
           lc_phase (sys_state y') = Quiesced \<and> sys_permits y' = 0
           \<and> sys_permits (fold lifecycle_step es' y') = 0
           \<and> \<not> is_ok (fst (admit (sys_state (fold lifecycle_step es' y')))))
       \<and> (\<exists>ws y'. seal_and_drain ws y = Some (Ok (), y') \<and> waits_enabled ws (lifecycle_step LSeal y))"
proof -
  have inv: "lifecycle_inv y" using lifecycle_inv_start assms lifecycle.invar_run by blast
  let ?z = "lifecycle_step LSeal y"
  have z: "lifecycle_inv ?z" using lifecycle_step_inv [OF inv, of LSeal] by simp
  have start: "seal_and_drain ws y = drain_loop ws ?z" for ws
    using inv by (simp add: seal_and_drain_def seal_def lifecycle_inv_def)
  have "lc_phase (sys_state y') = Quiesced \<and> sys_permits y' = 0
      \<and> sys_permits (fold lifecycle_step es' y') = 0
      \<and> \<not> is_ok (fst (admit (sys_state (fold lifecycle_step es' y'))))"
    if "seal_and_drain ws y = Some (Ok (), y')" "waits_enabled ws ?z" for ws y' es'
  proof -
    have q: "lc_phase (sys_state y') = Quiesced" "sys_permits y' = 0"
      using drain_loop_Ok [OF _ z, of ws "()" y'] that start by auto
    then have "closed_to_admission 0 (fold lifecycle_step es' y')"
      by (intro closed_run) (simp add: closed_to_admission_def)
    with q show ?thesis by (simp add: closed_to_admission_def admit_closed)
  qed
  moreover have "waits_enabled [Some (replicate (sys_permits ?z) LDrop)] ?z"
    using drops_empty [OF z refl] by (auto simp only: waits_enabled.simps)
  ultimately show ?thesis using drain_after_drops [OF z] start by metis
qed

theorem seal_and_drain_quiesces_witness:
  "\<exists>ws y'. seal_and_drain ws (fold lifecycle_step [LAdmit, LAdmit, LDrop] lifecycle_start) = Some (Ok (), y')"
proof -
  have "enabled_run lifecycle_enabled lifecycle_step [LAdmit, LAdmit, LDrop] lifecycle_start"
    by (simp add: lifecycle_start_def lifecycle_default_def admit_def checked_succ_def)
  from seal_and_drain_quiesces [OF this refl] show ?thesis by blast
qed

text \<open>
  An installation runs alone. When \<open>seal_and_drain_others\<close> succeeds for a command, that command
  holds the only permit, and in every continuation at most one permit exists and no further
  command is admitted.
\<close>

theorem exclusive_installation_alone:
  assumes "enabled_run lifecycle_enabled lifecycle_step es lifecycle_start"
    and "y = fold lifecycle_step es lifecycle_start" "0 < sys_permits y"
    and "seal_and_drain_others ws y = Some (Ok (), y')" "waits_enabled ws (lifecycle_step LClaimExclusive y)"
  shows "sys_permits y' = 1 \<and> sys_permits (fold lifecycle_step es' y') \<le> 1
       \<and> \<not> is_ok (fst (admit (sys_state (fold lifecycle_step es' y'))))"
proof -
  have inv: "lifecycle_inv y" using lifecycle_inv_start assms(1,2) lifecycle.invar_run by blast
  let ?z = "lifecycle_step LClaimExclusive y"
  have z: "lifecycle_inv ?z" using lifecycle_step_inv [OF inv, of LClaimExclusive] assms(3) by simp
  have loop: "exclusive_loop ws ?z = Some (Ok (), y')" "lc_phase (sys_state ?z) \<noteq> Running"
    using assms(4) by (auto simp: seal_and_drain_others_def claim_exclusive_def split: if_splits)
  note alone = exclusive_loop_Ok [OF loop(1) z assms(5) loop(2)]
  then have "closed_to_admission 1 (fold lifecycle_step es' y')"
    by (intro closed_run) (simp add: closed_to_admission_def)
  with alone show ?thesis by (simp add: closed_to_admission_def admit_closed)
qed

theorem exclusive_installation_alone_witness:
  "sys_permits (fold lifecycle_step [LAdmit, LSeal]
     (the (map_option snd (seal_and_drain_others [Some [LDrop]] (fold lifecycle_step [LAdmit, LAdmit] lifecycle_start))))) \<le> 1"
proof -
  let ?y = "fold lifecycle_step [LAdmit, LAdmit] lifecycle_start"
  have "enabled_run lifecycle_enabled lifecycle_step [LAdmit, LAdmit] lifecycle_start" "0 < sys_permits ?y"
    by (simp_all add: lifecycle_start_def lifecycle_default_def admit_def checked_succ_def)
  note run = this
  obtain y' where y': "seal_and_drain_others [Some [LDrop]] ?y = Some (Ok (), y')"
    by (simp add: seal_and_drain_others_def claim_exclusive_def lifecycle_start_def lifecycle_default_def admit_def
        checked_succ_def exclusive_loop.simps exclusive_check_def drop_command_permit_def checked_pred_def)
  have "waits_enabled [Some [LDrop]] (lifecycle_step LClaimExclusive ?y)"
    by (simp add: claim_exclusive_def lifecycle_start_def lifecycle_default_def admit_def checked_succ_def)
  note exclusive_installation_alone [OF run(1) refl run(2) y' this, of "[LAdmit, LSeal]"]
  then show ?thesis unfolding y' by simp
qed

lemma run_stages_Ok:
  "snd (run_stages xs) = Ok () \<longleftrightarrow> list_all (\<lambda>(_, r). r = Ok ()) xs"
  "snd (run_stages xs) = Ok () \<Longrightarrow> fst (run_stages xs) = map fst xs"
  by (induction xs rule: run_stages.induct) auto

lemma exit_complete_step:
  assumes "xs_cleanup_complete (exit_step e s)"
  shows "xs_cleanup_complete s \<or> (\<exists>st. e = XAttemptEnds st \<and> snd (run_exit_cleanup st) = Ok ())"
  using assms
  by (cases e) (auto simp: exit_ask_def run_exit_attempt_def exit_complete_def exit_failed_def
      split: if_splits result.splits)

lemma exit_complete_run:
  "xs_cleanup_complete (fold exit_step es s) \<Longrightarrow>
   xs_cleanup_complete s \<or> (\<exists>st. XAttemptEnds st \<in> set es \<and> snd (run_exit_cleanup st) = Ok ())"
proof (induction es arbitrary: s)
  case (Cons e es)
  then show ?case using exit_complete_step [of e s] by fastforce
qed simp


definition ex_cleanup :: exit_cleanup_steps where
  "ex_cleanup = \<lparr>st_seal_and_drain = Ok (), st_shutdown_updates = Ok (), st_shutdown_application = Ok (),
     st_revoke_local_grants = Ok (), st_finalize_logging = Ok ()\<rparr>"


end
