(* ===== verification/Update_Install.thy ===== *)
theory Update_Install
  imports Update_Service Lifecycle
begin

text \<open>
  The installation command of \<^verbatim>\<open>commands.rs\<close>, which composes the lifecycle coordinator, the updater and the steps of
  \<^verbatim>\<open>update_install.rs\<close>.
\<close>

text \<open>
  \<open>ws\<close> is what happens to the coordinator while the command waits for the others, \<open>us\<close> what happens to the updater
  until the authority is taken. The permit is dropped when the command returns. \<open>None\<close>: still waiting.
\<close>

definition install_verified_update ::
  "('pk, 'sig, 'ver) verify_lib \<Rightarrow> string \<Rightarrow> platform \<Rightarrow> install_steps \<Rightarrow> verified_artifact_id \<Rightarrow> lifecycle_event list option list
    \<Rightarrow> update_event list \<Rightarrow> lifecycle_system \<Rightarrow> update_service
    \<Rightarrow> ((install_step list \<times> unit app_result) \<times> lifecycle_system \<times> update_service) option" where
  "install_verified_update lib key pf st v ws us y s =
     (case fst (admit (sys_state y)) of
        Err e \<Rightarrow> Some (([], Err e), lifecycle_step LAdmit y, s)
      | Ok _ \<Rightarrow>
        let y1 = lifecycle_step LAdmit y in
        (case validate_install pf v s of
           Err e \<Rightarrow> Some (([], Err e), lifecycle_step LDrop y1, s)
         | Ok _ \<Rightarrow>
           (case seal_and_drain_others ws y1 of
              None \<Rightarrow> None
            | Some (Err e, y2) \<Rightarrow> Some (([], Err e), lifecycle_step LDrop y2, s)
            | Some (Ok _, y2) \<Rightarrow>
              (case consume_install pf v (fold (update_step lib key pf) us s) of
                 (Err e, s2) \<Rightarrow> Some (([], Err e), lifecycle_step LDrop y2, s2)
               | (Ok auth, s2) \<Rightarrow> Some (run_after_consumption st auth, lifecycle_step LDrop y2, s2)))))"

lemma installer_step:
  assumes "StepInstaller ctx bytes \<in> set (fst (run_after_consumption st auth))"
  shows "ctx = ia_context auth \<and> bytes = ia_bytes auth
    \<and> run_after_consumption st auth = ([StepShutdown, StepRevoke, StepLogging, StepInstaller ctx bytes], is_invoke st ctx bytes)
    \<and> is_shutdown st = Ok () \<and> is_revoke st = Ok () \<and> is_logging st = Ok ()"
  using assms by (auto simp: run_after_consumption_def is_ok_unit split: if_splits)

lemma exclusive_alone:
  assumes "lifecycle_inv y" "0 < sys_permits y"
    and "seal_and_drain_others ws y = Some (Ok u, y')" "waits_enabled ws (lifecycle_step LClaimExclusive y)"
  shows "sys_permits y' = 1 \<and> closed_to_admission 1 y'"
proof -
  let ?z = "lifecycle_step LClaimExclusive y"
  have z: "lifecycle_inv ?z" using lifecycle_step_inv [OF assms(1), of LClaimExclusive] assms(2) by simp
  have loop: "exclusive_loop ws ?z = Some (Ok (), y')" "lc_phase (sys_state ?z) \<noteq> Running"
    using assms(3) by (auto simp: seal_and_drain_others_def claim_exclusive_def split: if_splits)
  from exclusive_loop_Ok [OF loop(1) z assms(4) loop(2)] show ?thesis by (simp add: closed_to_admission_def)
qed

lemma admitted_permit:
  assumes "fst (admit (sys_state y)) = Ok u"
  shows "0 < sys_permits (lifecycle_step LAdmit y)"
  using assms by (cases "admit (sys_state y)") simp

text \<open>
  C20: The installer is started only alone, only after the cleanup and only with a genuine update. From a fresh start of
  the application, whatever other commands do before and while the installation waits: when the installer runs, its
  command holds the only permit and no command is admitted any more, the application was shut down, the local grants
  revoked and the log closed, in this order and successfully, and the installer gets the very update that was announced
  with the bytes that were verified for it.
\<close>

theorem installation_safe:
  assumes "enabled_run lifecycle_enabled lifecycle_step es lifecycle_start" "y = fold lifecycle_step es lifecycle_start"
    and "enabled_run update_enabled (update_step lib key pf) us0 update_service_default"
    and "s = fold (update_step lib key pf) us0 update_service_default"
    and "waits_enabled ws (fold lifecycle_step [LAdmit, LClaimExclusive] y)" "enabled_run update_enabled (update_step lib key pf) us s"
    and "install_verified_update lib key pf st v ws us y s = Some ((steps, r), y', s')"
    and "StepInstaller ctx bytes \<in> set steps"
  shows "(\<exists>y2. y' = lifecycle_step LDrop y2 \<and> sys_permits y2 = 1
        \<and> sys_permits (fold lifecycle_step later y2) \<le> 1 \<and> \<not> is_ok (fst (admit (sys_state (fold lifecycle_step later y2)))))
    \<and> steps = [StepShutdown, StepRevoke, StepLogging, StepInstaller ctx bytes] \<and> r = is_invoke st ctx bytes
    \<and> is_shutdown st = Ok () \<and> is_revoke st = Ok () \<and> is_logging st = Ok ()
    \<and> genuine lib key pf \<lparr>ia_context = ctx, ia_bytes = bytes\<rparr> \<and> \<not> update_live s' v"
proof -
  obtain u y2 auth where steps: "fst (admit (sys_state y)) = Ok u"
    "seal_and_drain_others ws (lifecycle_step LAdmit y) = Some (Ok (), y2)"
    "consume_install pf v (fold (update_step lib key pf) us s) = (Ok auth, s')"
    "run_after_consumption st auth = (steps, r)" "y' = lifecycle_step LDrop y2"
    using assms(7,8) unfolding install_verified_update_def Let_def
    by (auto split: result.splits option.splits prod.splits)
  have y: "lifecycle_inv y" using lifecycle_inv_start assms(1,2) lifecycle.invar_run by blast
  have "lifecycle_inv (lifecycle_step LAdmit y)" using lifecycle_step_inv [OF y, of LAdmit] by simp
  from exclusive_alone [OF this admitted_permit [OF steps(1)] steps(2)] assms(5)
  have alone: "sys_permits y2 = 1" "closed_to_admission 1 y2" by simp_all
  have "closed_to_admission 1 (fold lifecycle_step later y2)" using alone(2) by (rule closed_run)
  then have later: "sys_permits (fold lifecycle_step later y2) \<le> 1 \<and> \<not> is_ok (fst (admit (sys_state (fold lifecycle_step later y2))))"
    by (simp add: closed_to_admission_def admit_closed)
  have "update_inv lib key pf s" unfolding assms(4) using update_start_inv assms(3) by (rule updates.invar_run)
  then have inv: "update_inv lib key pf (fold (update_step lib key pf) us s)" using assms(6) by (rule updates.invar_run)
  have "\<not> update_live s' v" using updates.redeem_spent [OF inv steps(3)] .
  moreover have "genuine lib key pf auth" using consumed_genuine [OF inv steps(3)] by blast
  moreover note installer_step [of ctx bytes st auth]
  ultimately show ?thesis using steps(4,5) assms(8) alone(1) later by (cases auth) auto
qed

definition ex_steps :: install_steps where
  "ex_steps = \<lparr>is_shutdown = Ok (), is_revoke = Ok (), is_logging = Ok (), is_invoke = (\<lambda>_ _. Ok ())\<rparr>"

theorem installation_safe_witness:
  "\<exists>y' s'. install_verified_update ex_lib ''key'' ex_platform ex_steps (VerifiedArtifactId 8) [Some [LDrop]] []
      (fold lifecycle_step [LAdmit] lifecycle_start) (fold (update_step ex_lib ''key'' ex_platform) ex_update_run update_service_default)
      = Some (([StepShutdown, StepRevoke, StepLogging, StepInstaller ex_context ''installer''], Ok ()), y', s')
    \<and> genuine ex_lib ''key'' ex_platform \<lparr>ia_context = ex_context, ia_bytes = ''installer''\<rparr>"
proof -
  let ?y = "fold lifecycle_step [LAdmit] lifecycle_start"
  let ?s = "fold (update_step ex_lib ''key'' ex_platform) ex_update_run update_service_default"
  have run: "enabled_run lifecycle_enabled lifecycle_step [LAdmit] lifecycle_start" by simp
  have waits: "waits_enabled [Some [LDrop]] (fold lifecycle_step [LAdmit, LClaimExclusive] ?y)"
    by (simp add: claim_exclusive_def lifecycle_start_def lifecycle_default_def admit_def checked_succ_def)
  have valid: "validate_install ex_platform (VerifiedArtifactId 8) ?s = Ok ()"
    unfolding validate_install_def ex_update_verified by (simp add: ex_identity) (simp add: ex_platform_def)
  have admitted: "fst (admit (sys_state ?y)) = Ok ()"
    by (simp add: lifecycle_start_def lifecycle_default_def admit_def checked_succ_def)
  obtain y2 where drained: "seal_and_drain_others [Some [LDrop]] (lifecycle_step LAdmit ?y) = Some (Ok (), y2)"
    by (simp add: seal_and_drain_others_def claim_exclusive_def lifecycle_start_def lifecycle_default_def admit_def
        checked_succ_def exclusive_loop.simps exclusive_check_def drop_command_permit_def checked_pred_def)
  have consumed: "fst (consume_install ex_platform (VerifiedArtifactId 8) ?s) = Ok \<lparr>ia_context = ex_context, ia_bytes = ''installer''\<rparr>"
    unfolding consume_install_def ex_update_verified by (simp add: ex_identity)
  obtain y' s' where out: "install_verified_update ex_lib ''key'' ex_platform ex_steps (VerifiedArtifactId 8) [Some [LDrop]] [] ?y ?s
      = Some (([StepShutdown, StepRevoke, StepLogging, StepInstaller ex_context ''installer''], Ok ()), y', s')"
    using consumed unfolding install_verified_update_def admitted valid drained Let_def
    by (cases "consume_install ex_platform (VerifiedArtifactId 8) ?s") (simp add: run_after_consumption_def ex_steps_def valid drained)
  have "StepInstaller ex_context ''installer'' \<in> set [StepShutdown, StepRevoke, StepLogging, StepInstaller ex_context ''installer'']" by simp
  from installation_safe [OF run refl ex_update_verified(1) refl waits _ out this] out show ?thesis by auto
qed

end
