(* ===== verification/Ip_Addr.thy ===== *)
theory Ip_Addr
  imports Rust_Text Prelude
begin

text \<open>
  IP addresses of the standard library: parsing and printing of IPv4 and IPv6 addresses as \<open>std::net\<close> does it, and
  that parsing a printed address gives it back. An IPv6 address is the list of its eight 16-bit segments.
\<close>

unbundle bit_operations_syntax

section \<open>Reading numbers\<close>

definition digit_value :: "char \<Rightarrow> nat option" where
  "digit_value c =
     (let n = byte_of c in
      if 48 \<le> n \<and> n \<le> 57 then Some (n - 48)
      else if 97 \<le> n \<and> n \<le> 102 then Some (n - 87)
      else if 65 \<le> n \<and> n \<le> 70 then Some (n - 55)
      else None)"

definition is_digit_in :: "nat \<Rightarrow> char \<Rightarrow> bool" where
  "is_digit_in radix c = (case digit_value c of None \<Rightarrow> False | Some d \<Rightarrow> d < radix)"

definition number_value :: "nat \<Rightarrow> string \<Rightarrow> nat" where
  "number_value radix ds = foldl (\<lambda>n c. n * radix + the (digit_value c)) 0 ds"

text \<open>\<open>Parser::read_number\<close>: the number and the rest of the text.\<close>

definition read_number :: "nat \<Rightarrow> nat \<Rightarrow> bool \<Rightarrow> nat \<Rightarrow> string \<Rightarrow> (nat \<times> string) option" where
  "read_number radix max_digits allow_zero_prefix limit s =
     (let ds = takeWhile (is_digit_in radix) s in
      if ds = [] \<or> length ds > max_digits then None
      else if \<not> allow_zero_prefix \<and> hd ds = CHR ''0'' \<and> length ds > 1 then None
      else if number_value radix ds \<ge> limit then None
      else Some (number_value radix ds, dropWhile (is_digit_in radix) s))"

section \<open>Parsing addresses\<close>

datatype ip_addr = V4 "8 word" "8 word" "8 word" "8 word" | V6 "u16 list"

definition read_char :: "char \<Rightarrow> string \<Rightarrow> string option" where
  "read_char c s = (case s of x # xs \<Rightarrow> if x = c then Some xs else None | [] \<Rightarrow> None)"

definition read_octet :: "string \<Rightarrow> (8 word \<times> string) option" where
  "read_octet s = map_option (apfst of_nat) (read_number 10 3 False 256 s)"

definition read_ipv4 :: "string \<Rightarrow> ((8 word \<times> 8 word \<times> 8 word \<times> 8 word) \<times> string) option" where
  "read_ipv4 s =
     Option.bind (read_octet s) (\<lambda>(a, s). Option.bind (read_char (CHR ''.'') s) (\<lambda>s.
     Option.bind (read_octet s) (\<lambda>(b, s). Option.bind (read_char (CHR ''.'') s) (\<lambda>s.
     Option.bind (read_octet s) (\<lambda>(c, s). Option.bind (read_char (CHR ''.'') s) (\<lambda>s.
     Option.bind (read_octet s) (\<lambda>(d, s). Some ((a, b, c, d), s))))))))"

definition read_segment :: "string \<Rightarrow> (u16 \<times> string) option" where
  "read_segment s = map_option (apfst of_nat) (read_number 16 4 True 65536 s)"

definition after_colon :: "nat \<Rightarrow> (string \<Rightarrow> 'a option) \<Rightarrow> string \<Rightarrow> 'a option" where
  "after_colon i inner s = (if i > 0 then Option.bind (read_char (CHR '':'') s) inner else inner s)"

definition join_octets :: "8 word \<Rightarrow> 8 word \<Rightarrow> u16" where
  "join_octets a b = push_bit 8 (ucast a) OR ucast b"

text \<open>
  \<open>read_groups\<close>: segments separated by colons from the \<open>i\<close>-th on, at most \<open>limit\<close> of them, the last two possibly as an IPv4
  address; whether they were, and the rest of the text.
\<close>

function read_groups :: "nat \<Rightarrow> nat \<Rightarrow> string \<Rightarrow> u16 list \<times> bool \<times> string" where
  "read_groups limit i s =
     (if i \<ge> limit then ([], False, s)
      else case (if Suc i < limit then after_colon i read_ipv4 s else None) of
        Some ((a, b, c, d), rest) \<Rightarrow> ([join_octets a b, join_octets c d], True, rest)
      | None \<Rightarrow>
          (case after_colon i read_segment s of
             None \<Rightarrow> ([], False, s)
           | Some (g, rest) \<Rightarrow> (case read_groups limit (Suc i) rest of (gs, v4, rest') \<Rightarrow> (g # gs, v4, rest'))))"
  by pat_completeness auto
termination
  by (relation "measure (\<lambda>(limit, i, s). limit - i)") auto

declare read_groups.simps [simp del]

definition read_ipv6 :: "string \<Rightarrow> (u16 list \<times> string) option" where
  "read_ipv6 s =
     (case read_groups 8 0 s of (front, v4, rest) \<Rightarrow>
        if length front = 8 then Some (front, rest)
        else if v4 then None
        else Option.bind (read_char (CHR '':'') rest) (\<lambda>rest. Option.bind (read_char (CHR '':'') rest) (\<lambda>rest.
          (case read_groups (8 - (length front + 1)) 0 rest of (rear, _, rest) \<Rightarrow>
             Some (front @ replicate (8 - length front - length rear) 0 @ rear, rest)))))"

definition parse_ip :: "string \<Rightarrow> ip_addr option" where
  "parse_ip s =
     (case (case read_ipv4 s of
              Some ((a, b, c, d), rest) \<Rightarrow> Some (V4 a b c d, rest)
            | None \<Rightarrow> map_option (apfst V6) (read_ipv6 s)) of
        Some (ip, []) \<Rightarrow> Some ip
      | _ \<Rightarrow> None)"

section \<open>Printing addresses\<close>

definition lower_hex_digit :: "nat \<Rightarrow> char" where
  "lower_hex_digit d = byte_char (if d < 10 then 48 + d else 87 + d)"

fun fmt_hex :: "nat \<Rightarrow> string" where
  "fmt_hex n = (if n < 16 then [lower_hex_digit n] else fmt_hex (n div 16) @ [lower_hex_digit (n mod 16)])"

declare fmt_hex.simps [simp del]

definition fmt_ipv4 :: "8 word \<Rightarrow> 8 word \<Rightarrow> 8 word \<Rightarrow> 8 word \<Rightarrow> string" where
  "fmt_ipv4 a b c d =
     fmt_dec (unat a) @ ''.'' @ fmt_dec (unat b) @ ''.'' @ fmt_dec (unat c) @ ''.'' @ fmt_dec (unat d)"

fun fmt_subslice :: "u16 list \<Rightarrow> string" where
  "fmt_subslice [] = []"
| "fmt_subslice [g] = fmt_hex (unat g)"
| "fmt_subslice (g # gs) = fmt_hex (unat g) @ '':'' @ fmt_subslice gs"

text \<open>The loop that finds the longest run of zero segments: the longest span so far and the current one.\<close>

fun zero_span :: "u16 list \<Rightarrow> nat \<Rightarrow> nat \<times> nat \<Rightarrow> nat \<times> nat \<Rightarrow> nat \<times> nat" where
  "zero_span [] i longest current = longest"
| "zero_span (g # gs) i longest current =
     (if g = 0
      then let current = (if snd current = 0 then i else fst current, Suc (snd current))
           in zero_span gs (Suc i) (if snd current > snd longest then current else longest) current
      else zero_span gs (Suc i) longest (0, 0))"

definition fmt_ipv6 :: "u16 list \<Rightarrow> string" where
  "fmt_ipv6 segs =
     (if take 6 segs = [0, 0, 0, 0, 0, 0xFFFF]
      then ''::ffff:'' @ fmt_ipv4 (ucast (drop_bit 8 (segs ! 6))) (ucast (segs ! 6)) (ucast (drop_bit 8 (segs ! 7))) (ucast (segs ! 7))
      else case zero_span segs 0 (0, 0) (0, 0) of (start, len) \<Rightarrow>
        if len > 1 then fmt_subslice (take start segs) @ ''::'' @ fmt_subslice (drop (start + len) segs)
        else fmt_subslice segs)"

fun fmt_ip :: "ip_addr \<Rightarrow> string" where
  "fmt_ip (V4 a b c d) = fmt_ipv4 a b c d"
| "fmt_ip (V6 segs) = fmt_ipv6 segs"

fun ip_wf :: "ip_addr \<Rightarrow> bool" where
  "ip_wf (V6 segs) = (length segs = 8)"
| "ip_wf _ = True"

section \<open>Numbers read back\<close>

lemma number_value_snoc: "number_value radix (ds @ [c]) = number_value radix ds * radix + the (digit_value c)"
  by (simp add: number_value_def)

lemma digit_value_dec: "d < 10 \<Longrightarrow> digit_value (byte_char (48 + d)) = Some d"
  by (simp add: digit_value_def)

lemma digit_value_hex: "d < 16 \<Longrightarrow> digit_value (lower_hex_digit d) = Some d"
  by (simp add: digit_value_def lower_hex_digit_def)

lemma fmt_dec_value: "number_value 10 (fmt_dec n) = n \<and> list_all (is_digit_in 10) (fmt_dec n) \<and> fmt_dec n \<noteq> []"
proof (induction n rule: fmt_dec.induct)
  case (1 n)
  show ?case
  proof (cases "n < 10")
    case True
    then show ?thesis by (simp add: fmt_dec.simps [of n] number_value_def is_digit_in_def digit_value_dec)
  next
    case False
    then show ?thesis
      using 1 digit_value_dec [of "n mod 10"]
      by (simp add: fmt_dec.simps [of n] number_value_snoc is_digit_in_def)
  qed
qed

lemma fmt_hex_value: "number_value 16 (fmt_hex n) = n \<and> list_all (is_digit_in 16) (fmt_hex n) \<and> fmt_hex n \<noteq> []"
proof (induction n rule: fmt_hex.induct)
  case (1 n)
  show ?case
  proof (cases "n < 16")
    case True
    then show ?thesis by (simp add: fmt_hex.simps [of n] number_value_def is_digit_in_def digit_value_hex)
  next
    case False
    then show ?thesis
      using 1 digit_value_hex [of "n mod 16"]
      by (simp add: fmt_hex.simps [of n] number_value_snoc is_digit_in_def)
  qed
qed

lemma fmt_dec_small: "n < 256 \<Longrightarrow> length (fmt_dec n) \<le> 3 \<and> (length (fmt_dec n) > 1 \<longrightarrow> hd (fmt_dec n) \<noteq> CHR ''0'')"
proof -
  assume n: "n < 256"
  have digit: "byte_char (48 + d) \<noteq> CHR ''0''" if "0 < d" "d < 10" for d
  proof
    assume eq: "byte_char (48 + d) = CHR ''0''"
    have "digit_value (byte_char (48 + d)) = Some d" using that by (intro digit_value_dec) simp
    then show False using that unfolding eq by (simp add: digit_value_def)
  qed
  have "n < 10 \<or> n < 100 \<and> 0 < n div 10 \<or> 0 < n div 10 div 10 \<and> n div 10 div 10 < 10" using n by auto
  then show ?thesis
    using digit [of "n div 10"] digit [of "n div 10 div 10"]
    by (auto simp: fmt_dec.simps [of n] fmt_dec.simps [of "n div 10"] fmt_dec.simps [of "n div 10 div 10"])
qed

lemma fmt_hex_small: "n < 65536 \<Longrightarrow> length (fmt_hex n) \<le> 4"
  by (simp add: fmt_hex.simps [of n] fmt_hex.simps [of "n div 16"] fmt_hex.simps [of "n div 16 div 16"] fmt_hex.simps [of "n div 16 div 16 div 16"])

text \<open>A text that does not continue the digits of a number.\<close>

definition stops :: "nat \<Rightarrow> string \<Rightarrow> bool" where
  "stops radix s = (s = [] \<or> \<not> is_digit_in radix (hd s))"

lemma read_number_digits:
  assumes "list_all (is_digit_in radix) ds" "ds \<noteq> []" "stops radix rest" "length ds \<le> m"
    and "allow \<or> \<not> (hd ds = CHR ''0'' \<and> length ds > 1)" "number_value radix ds < limit"
  shows "read_number radix m allow limit (ds @ rest) = Some (number_value radix ds, rest)"
proof -
  have "takeWhile (is_digit_in radix) (ds @ rest) = ds" "dropWhile (is_digit_in radix) (ds @ rest) = rest"
    using assms(1,3) by (cases rest; simp add: stops_def list_all_iff takeWhile_append2 dropWhile_append2)+
  then show ?thesis using assms unfolding read_number_def by (auto simp: Let_def)
qed

lemma read_octet_dec: "stops 10 rest \<Longrightarrow> read_octet (fmt_dec (unat a) @ rest) = Some (a, rest)"
proof -
  assume stop: "stops 10 rest"
  have "unat a < 2 ^ LENGTH(8)" by (rule unsigned_less)
  then have small: "unat a < 256" by simp
  have "read_number 10 3 False 256 (fmt_dec (unat a) @ rest) = Some (number_value 10 (fmt_dec (unat a)), rest)"
    using fmt_dec_value [of "unat a"] fmt_dec_small [OF small] stop small by (intro read_number_digits) auto
  then show ?thesis using fmt_dec_value [of "unat a"] by (simp add: read_octet_def)
qed

lemma read_segment_hex: "stops 16 rest \<Longrightarrow> read_segment (fmt_hex (unat g) @ rest) = Some (g, rest)"
proof -
  assume stop: "stops 16 rest"
  have "unat g < 2 ^ LENGTH(16)" by (rule unsigned_less)
  then have small: "unat g < 65536" by simp
  have "read_number 16 4 True 65536 (fmt_hex (unat g) @ rest) = Some (number_value 16 (fmt_hex (unat g)), rest)"
    using fmt_hex_value [of "unat g"] fmt_hex_small [OF small] stop small by (intro read_number_digits) auto
  then show ?thesis using fmt_hex_value [of "unat g"] by (simp add: read_segment_def)
qed

lemma stops_char: "stops radix (c # s) \<longleftrightarrow> \<not> is_digit_in radix c" "stops radix []"
  by (auto simp: stops_def)

lemma separators [simp]: "\<not> is_digit_in radix (CHR ''.'')" "\<not> is_digit_in radix (CHR '':'')"
  by (simp_all add: is_digit_in_def digit_value_def)

lemma read_ipv4_fmt: "stops 10 rest \<Longrightarrow> read_ipv4 (fmt_ipv4 a b c d @ rest) = Some ((a, b, c, d), rest)"
  by (simp add: read_ipv4_def fmt_ipv4_def read_octet_dec stops_char read_char_def)

section \<open>Segments read back\<close>

lemma read_octet_rest: "read_octet s = Some (a, rest) \<Longrightarrow> set rest \<subseteq> set s"
  by (auto simp: read_octet_def read_number_def Let_def dest: set_dropWhileD split: if_splits)

lemma read_ipv4_needs_dot:
  assumes "CHR ''.'' \<notin> set s"
  shows "read_ipv4 s = None"
proof (cases "read_octet s")
  case (Some v)
  obtain a rest where v: "v = (a, rest)" by (cases v)
  have "CHR ''.'' \<notin> set rest" using assms read_octet_rest [of s a rest] Some v by auto
  then have "read_char (CHR ''.'') rest = None" by (auto simp: read_char_def split: list.split)
  then show ?thesis by (simp add: read_ipv4_def Some v)
qed (simp add: read_ipv4_def)

lemma after_colon_ipv4_needs_dot: "CHR ''.'' \<notin> set s \<Longrightarrow> after_colon i read_ipv4 s = None"
  by (auto simp: after_colon_def read_char_def read_ipv4_needs_dot bind_eq_None_conv split: list.split)

text \<open>A text at which reading segments ends.\<close>

definition closes :: "string \<Rightarrow> bool" where
  "closes rest = (CHR ''.'' \<notin> set rest \<and> (rest = [] \<or> (\<exists>more. rest = CHR '':'' # CHR '':'' # more)))"

lemma closes_stops: "closes rest \<Longrightarrow> stops 16 rest"
  by (auto simp: closes_def stops_char)

lemma read_segment_stops: "stops 16 s \<Longrightarrow> read_segment s = None"
  by (cases s) (simp_all add: read_segment_def read_number_def stops_def)

lemma closes_no_segment: "closes rest \<Longrightarrow> 0 < i \<Longrightarrow> after_colon i read_segment rest = None"
  by (auto simp: closes_def after_colon_def read_char_def read_segment_stops stops_char)

definition colon_text :: "u16 list \<Rightarrow> string" where
  "colon_text gs = concat (map (\<lambda>g. CHR '':'' # fmt_hex (unat g)) gs)"

lemma fmt_subslice_Cons: "fmt_subslice (g # gs) = fmt_hex (unat g) @ colon_text gs"
  by (induction gs arbitrary: g) (simp_all add: colon_text_def)

lemma hex_no_dot: "CHR ''.'' \<notin> set (fmt_hex n)"
  using fmt_hex_value [of n] by (auto simp: list_all_iff)

lemma colon_text_no_dot: "CHR ''.'' \<notin> set (colon_text gs)"
  by (auto simp: colon_text_def hex_no_dot)

lemma colon_text_stops: "closes rest \<Longrightarrow> stops 16 (colon_text gs @ rest)"
  by (cases gs) (simp_all add: colon_text_def closes_stops stops_char)

lemma read_groups_colons:
  "0 < i \<Longrightarrow> i + length gs \<le> limit \<Longrightarrow> closes rest \<Longrightarrow> read_groups limit i (colon_text gs @ rest) = (gs, False, rest)"
proof (induction gs arbitrary: i)
  case Nil
  then have "after_colon i read_ipv4 rest = None" by (intro after_colon_ipv4_needs_dot) (simp add: closes_def)
  then show ?case using Nil closes_no_segment [of rest i] by (simp add: read_groups.simps [of limit i] colon_text_def)
next
  case (Cons g gs)
  have "CHR ''.'' \<notin> set (colon_text (g # gs) @ rest)" using colon_text_no_dot Cons.prems(3) by (simp add: closes_def)
  then have v4: "after_colon i read_ipv4 (colon_text (g # gs) @ rest) = None" by (rule after_colon_ipv4_needs_dot)
  have "after_colon i read_segment (colon_text (g # gs) @ rest) = Some (g, colon_text gs @ rest)"
    using Cons.prems(1) read_segment_hex [OF colon_text_stops [OF Cons.prems(3)], of g gs]
    by (simp add: after_colon_def colon_text_def read_char_def)
  with v4 Cons show ?case by (simp add: read_groups.simps [of limit i])
qed

lemma read_groups_subslice:
  assumes "length gs \<le> limit" "closes rest"
  shows "read_groups limit 0 (fmt_subslice gs @ rest) = (gs, False, rest)"
proof (cases gs)
  case Nil
  have "after_colon 0 read_ipv4 rest = None" using assms(2) by (intro after_colon_ipv4_needs_dot) (simp add: closes_def)
  then show ?thesis
    using Nil assms(2) read_segment_stops [OF closes_stops [OF assms(2)]]
    by (simp add: read_groups.simps [of limit 0] after_colon_def)
next
  case (Cons g tl_gs)
  have "CHR ''.'' \<notin> set (fmt_subslice gs @ rest)"
    using colon_text_no_dot hex_no_dot assms(2) by (simp add: Cons fmt_subslice_Cons closes_def)
  then have v4: "after_colon 0 read_ipv4 (fmt_subslice gs @ rest) = None" by (rule after_colon_ipv4_needs_dot)
  have "after_colon 0 read_segment (fmt_subslice gs @ rest) = Some (g, colon_text tl_gs @ rest)"
    using read_segment_hex [OF colon_text_stops [OF assms(2)], of g tl_gs] by (simp add: after_colon_def Cons fmt_subslice_Cons)
  with v4 read_groups_colons [of 1 tl_gs limit rest] assms(1,2) show ?thesis
    by (simp add: read_groups.simps [of limit 0] Cons)
qed

section \<open>The longest run of zeros\<close>

definition zeros_at :: "u16 list \<Rightarrow> nat \<times> nat \<Rightarrow> bool" where
  "zeros_at segs sp = (fst sp + snd sp \<le> length segs \<and> (\<forall>k < snd sp. segs ! (fst sp + k) = 0))"

lemma zero_span_zeros:
  assumes "i \<le> length segs" "zeros_at segs longest" "snd current \<noteq> 0 \<longrightarrow> zeros_at segs current \<and> fst current + snd current = i"
  shows "zeros_at segs (zero_span (drop i segs) i longest current)"
  using assms
proof (induction "drop i segs" arbitrary: i longest current)
  case (Cons g gs)
  then have i: "i < length segs" "segs ! i = g" "drop (Suc i) segs = gs" "drop i segs = g # gs"
    by (auto simp: drop_Suc nth_via_drop tl_drop [symmetric] dest: sym) (metis Cons.hyps(2) drop_eq_Nil leI list.discI)+
  let ?c = "(if snd current = 0 then i else fst current, Suc (snd current))"
  show ?case
  proof (cases "g = 0")
    case True
    have c: "zeros_at segs ?c \<and> fst ?c + snd ?c = Suc i"
      using Cons.prems(3) i(1,2) True by (auto simp: zeros_at_def less_Suc_eq)
    then show ?thesis
      using Cons.hyps(1) [of "Suc i" "if snd ?c > snd longest then ?c else longest" ?c] i True Cons.prems(2)
      by (simp add: Let_def)
  next
    case False
    then show ?thesis using Cons.hyps(1) [of "Suc i" longest "(0, 0)"] i Cons.prems(2) by simp
  qed
qed simp

lemma zeros_at_split:
  assumes "zeros_at segs (start, len)"
  shows "take start segs @ replicate len 0 @ drop (start + len) segs = segs"
proof -
  have "take len (drop start segs) = replicate len 0"
    using assms by (intro nth_equalityI) (auto simp: zeros_at_def)
  moreover have "drop start segs = take len (drop start segs) @ drop (start + len) segs"
    by (metis add.commute append_take_drop_id drop_drop)
  ultimately show ?thesis by (metis append_take_drop_id)
qed

section \<open>Addresses read back\<close>

lemma join_split: "join_octets (ucast (drop_bit 8 x)) (ucast x) = x"
  unfolding join_octets_def by (rule bit_word_eqI) (auto simp: bit_simps)

lemma fmt_subslice_no_dot: "CHR ''.'' \<notin> set (fmt_subslice gs)"
  by (cases gs) (auto simp: fmt_subslice_Cons hex_no_dot colon_text_no_dot)

lemma read_ipv6_compressed:
  assumes "length front + length rear < 7"
  shows "read_ipv6 (fmt_subslice front @ ''::'' @ fmt_subslice rear) =
    Some (front @ replicate (8 - length front - length rear) 0 @ rear, [])"
proof -
  have "closes (''::'' @ fmt_subslice rear)" by (simp add: closes_def fmt_subslice_no_dot)
  then have front: "read_groups 8 0 (fmt_subslice front @ ''::'' @ fmt_subslice rear) = (front, False, ''::'' @ fmt_subslice rear)"
    using assms by (intro read_groups_subslice) simp_all
  have rear: "read_groups (8 - (length front + 1)) 0 (fmt_subslice rear) = (rear, False, [])"
    using read_groups_subslice [of rear "8 - (length front + 1)" "[]"] assms by (simp add: closes_def)
  show ?thesis using front rear assms by (simp add: read_ipv6_def read_char_def)
qed

lemma read_ipv4_stops: "stops 10 s \<Longrightarrow> read_ipv4 s = None"
  by (cases s) (simp_all add: read_ipv4_def read_octet_def read_number_def stops_def)

lemma read_ipv6_mapped:
  "read_ipv6 (''::ffff:'' @ fmt_ipv4 a b c d) = Some ([0, 0, 0, 0, 0, 0xFFFF, join_octets a b, join_octets c d], [])"
proof -
  let ?v4 = "fmt_ipv4 a b c d"
  have front: "read_groups 8 0 (''::ffff:'' @ ?v4) = ([], False, ''::ffff:'' @ ?v4)"
    by (simp add: read_groups.simps [of 8 0] after_colon_def read_ipv4_stops read_segment_stops stops_char)
  have "fmt_hex (unat (0xFFFF :: u16)) = ''ffff''" by (simp add: fmt_hex.simps lower_hex_digit_def byte_char_def char_of_eq_iff take_bit_eq_mod)
  then have seg: "read_segment (''ffff:'' @ ?v4) = Some (0xFFFF, '':'' @ ?v4)"
    using read_segment_hex [of "'':'' @ ?v4" "0xFFFF"] by (simp add: stops_char)
  have "stops 10 (''ffff:'' @ ?v4)" by (simp add: stops_char is_digit_in_def digit_value_def)
  note no_v4 = read_ipv4_stops [OF this]
  have v4: "after_colon 1 read_ipv4 ('':'' @ ?v4) = Some ((a, b, c, d), [])"
    using read_ipv4_fmt [of "[]" a b c d] by (simp add: after_colon_def read_char_def stops_char)
  have "read_groups 7 (Suc 0) ('':'' @ ?v4) = ([join_octets a b, join_octets c d], True, [])"
    using v4 by (simp add: read_groups.simps [of 7 "Suc 0"])
  then have "read_groups 7 0 (''ffff:'' @ ?v4) = ([0xFFFF, join_octets a b, join_octets c d], True, [])"
    using seg no_v4 by (simp add: read_groups.simps [of 7 0] after_colon_def)
  then show ?thesis using front by (simp add: read_ipv6_def read_char_def eval_nat_numeral)
qed

lemma parse_fmt_ip:
  assumes "ip_wf ip"
  shows "parse_ip (fmt_ip ip) = Some ip"
proof (cases ip)
  case (V4 a b c d)
  then show ?thesis using read_ipv4_fmt [of "[]" a b c d] by (simp add: parse_ip_def stops_char)
next
  case (V6 segs)
  with assms have len: "length segs = 8" by simp
  show ?thesis
  proof (cases "take 6 segs = [0, 0, 0, 0, 0, 0xFFFF]")
    case True
    have "segs = take 6 segs @ [segs ! 6, segs ! 7]"
    proof (rule nth_equalityI)
      fix i
      assume "i < length segs"
      then have "i < 6 \<or> i = 6 \<or> i = 7" using len by auto
      then show "segs ! i = (take 6 segs @ [segs ! 6, segs ! 7]) ! i" using len by (auto simp: nth_append)
    qed (simp add: len)
    then have segs: "segs = [0, 0, 0, 0, 0, 0xFFFF, segs ! 6, segs ! 7]" using True by simp
    let ?t = "''::ffff:'' @ fmt_ipv4 (ucast (drop_bit 8 (segs ! 6))) (ucast (segs ! 6)) (ucast (drop_bit 8 (segs ! 7))) (ucast (segs ! 7))"
    have "read_ipv4 ?t = None" by (simp add: read_ipv4_def read_octet_def read_number_def)
    then show ?thesis
      using True segs by (simp add: V6 parse_ip_def fmt_ipv6_def read_ipv6_mapped [simplified] join_split)
  next
    case False
    obtain start n where sp: "zero_span segs 0 (0, 0) (0, 0) = (start, n)" by fastforce
    have z: "zeros_at segs (start, n)"
      using zero_span_zeros [of 0 segs "(0, 0)" "(0, 0)"] sp by (simp add: zeros_at_def)
    have v4: "read_ipv4 (fmt_ipv6 segs) = None"
      using False sp by (intro read_ipv4_needs_dot) (simp add: fmt_ipv6_def fmt_subslice_no_dot)
    show ?thesis
    proof (cases "1 < n")
      case True
      have "start + n \<le> 8" using z len by (simp add: zeros_at_def)
      then have l: "length (take start segs) + length (drop (start + n) segs) = 8 - n" using len by simp
      then have "read_ipv6 (fmt_ipv6 segs) =
          Some (take start segs @ replicate (8 - length (take start segs) - length (drop (start + n) segs)) 0 @ drop (start + n) segs, [])"
        using read_ipv6_compressed [of "take start segs" "drop (start + n) segs"] True False sp by (simp add: fmt_ipv6_def)
      moreover have "8 - length (take start segs) - length (drop (start + n) segs) = n" using l \<open>start + n \<le> 8\<close> by simp
      ultimately show ?thesis using v4 zeros_at_split [OF z] by (simp add: V6 parse_ip_def)
    next
      case whole: False
      have "read_groups 8 0 (fmt_subslice segs @ []) = (segs, False, [])"
        using len by (intro read_groups_subslice) (simp_all add: closes_def)
      then have "read_ipv6 (fmt_ipv6 segs) = Some (segs, [])"
        using False whole sp len by (simp add: fmt_ipv6_def read_ipv6_def)
      then show ?thesis using v4 by (simp add: V6 parse_ip_def)
    qed
  qed
qed

section \<open>What parses\<close>

lemma read_octet_split: "read_octet s = Some (a, rest) \<Longrightarrow> \<exists>ds. s = ds @ rest \<and> list_all (is_digit_in 10) ds"
proof -
  assume "read_octet s = Some (a, rest)"
  then have "rest = dropWhile (is_digit_in 10) s" by (auto simp: read_octet_def read_number_def Let_def split: if_splits)
  then have "s = takeWhile (is_digit_in 10) s @ rest" by simp
  then show ?thesis by (metis list_all_iff set_takeWhileD)
qed

lemma read_char_split: "read_char c s = Some rest \<longleftrightarrow> s = c # rest"
  by (auto simp: read_char_def split: list.splits if_splits)

lemma read_ipv4_chars:
  assumes "read_ipv4 s = Some (v, [])"
  shows "list_all (\<lambda>c. is_digit_in 10 c \<or> c = CHR ''.'') s"
proof -
  obtain a s1 s2 b s3 s4 c s5 s6 d where r: "read_octet s = Some (a, s1)" "read_char (CHR ''.'') s1 = Some s2" "read_octet s2 = Some (b, s3)"
    "read_char (CHR ''.'') s3 = Some s4" "read_octet s4 = Some (c, s5)" "read_char (CHR ''.'') s5 = Some s6" "read_octet s6 = Some (d, [])"
    using assms by (auto simp: read_ipv4_def bind_eq_Some_conv)
  obtain d1 d2 d3 d4 where "s = d1 @ s1" "s2 = d2 @ s3" "s4 = d3 @ s5" "s6 = d4 @ []"
    "list_all (is_digit_in 10) d1" "list_all (is_digit_in 10) d2" "list_all (is_digit_in 10) d3" "list_all (is_digit_in 10) d4"
    using r(1,3,5,7) read_octet_split by metis
  with r(2,4,6) show ?thesis unfolding read_char_split by (auto simp: list_all_iff)
qed

lemma after_colon_nonempty: "0 < i \<Longrightarrow> after_colon i f s = Some v \<Longrightarrow> CHR '':'' \<in> set s"
  by (auto simp: after_colon_def bind_eq_Some_conv read_char_split)

lemma read_segment_rest: "read_segment s = Some (g, rest) \<Longrightarrow> set rest \<subseteq> set s"
  by (auto simp: read_segment_def read_number_def Let_def dest: set_dropWhileD split: if_splits)

lemma after_colon_segment_rest: "after_colon i read_segment s = Some (g, rest) \<Longrightarrow> set rest \<subseteq> set s"
  using read_segment_rest by (fastforce simp: after_colon_def bind_eq_Some_conv read_char_split split: if_splits)

lemma read_groups_length: "read_groups limit i s = (gs, v4, rest) \<Longrightarrow> length gs \<le> limit - i"
proof (induction limit i s arbitrary: gs v4 rest rule: read_groups.induct)
  case (1 limit i s)
  show ?case
  proof (cases "i \<ge> limit")
    case False
    note step = 1(2) [unfolded read_groups.simps [of limit i s]]
    show ?thesis
    proof (cases "if Suc i < limit then after_colon i read_ipv4 s else None")
      case (Some v)
      then have "Suc i < limit" by (auto split: if_splits)
      then show ?thesis using step False Some by (auto split: prod.splits)
    next
      case None
      show ?thesis
      proof (cases "after_colon i read_segment s")
        case (Some w)
        obtain g r where w: "w = (g, r)" by (cases w)
        obtain gs' v4' rest' where rec: "read_groups limit (Suc i) r = (gs', v4', rest')" by (metis prod_cases3)
        then have "gs = g # gs'" using step False None Some w by simp
        moreover have "length gs' \<le> limit - Suc i" using 1(1) [OF False None _ w [symmetric] rec] Some w by simp
        ultimately show ?thesis using False by simp
      qed (use step False None in simp)
    qed
  qed (use 1(2) in \<open>simp add: read_groups.simps\<close>)
qed

lemma read_ipv4_rest:
  assumes "read_ipv4 s = Some (v, rest)"
  shows "set rest \<subseteq> set s"
proof -
  obtain a s1 s2 b s3 s4 c s5 s6 d where "read_octet s = Some (a, s1)" "read_char (CHR ''.'') s1 = Some s2" "read_octet s2 = Some (b, s3)"
    "read_char (CHR ''.'') s3 = Some s4" "read_octet s4 = Some (c, s5)" "read_char (CHR ''.'') s5 = Some s6" "read_octet s6 = Some (d, rest)"
    using assms by (auto simp: read_ipv4_def bind_eq_Some_conv)
  note this(1,3,5,7) [THEN read_octet_rest] this(2,4,6) [unfolded read_char_split]
  then show ?thesis by auto
qed

lemma after_colon_ipv4_rest: "after_colon i read_ipv4 s = Some (v, rest) \<Longrightarrow> set rest \<subseteq> set s"
  by (cases i) (auto simp: after_colon_def bind_eq_Some_conv read_char_split dest!: read_ipv4_rest)

lemma read_groups_rest: "read_groups limit i s = (gs, v4, rest) \<Longrightarrow> set rest \<subseteq> set s"
proof (induction limit i s arbitrary: gs v4 rest rule: read_groups.induct)
  case (1 limit i s)
  show ?case
  proof (cases "i \<ge> limit")
    case False
    note step = 1(2) [unfolded read_groups.simps [of limit i s]]
    show ?thesis
    proof (cases "if Suc i < limit then after_colon i read_ipv4 s else None")
      case (Some v)
      then have "after_colon i read_ipv4 s = Some v" by (auto split: if_splits)
      moreover obtain q where "v = (q, rest)" using step False Some by (auto split: prod.splits)
      ultimately show ?thesis using after_colon_ipv4_rest [of i s q rest] by simp
    next
      case None
      show ?thesis
      proof (cases "after_colon i read_segment s")
        case (Some w)
        obtain g r where w: "w = (g, r)" by (cases w)
        obtain gs' v4' rest' where rec: "read_groups limit (Suc i) r = (gs', v4', rest')" by (metis prod_cases3)
        then have "rest = rest'" using step False None Some w by simp
        moreover have "set rest' \<subseteq> set r" using 1(1) [OF False None _ w [symmetric] rec] Some w by simp
        ultimately show ?thesis using after_colon_segment_rest [of i s g r] Some w by blast
      qed (use step False None in simp)
    qed
  qed (use 1(2) in \<open>simp add: read_groups.simps\<close>)
qed

lemma read_groups_colon:
  assumes "read_groups limit i s = (gs, v4, rest)" "0 < i \<and> gs \<noteq> [] \<or> 2 < length gs"
  shows "CHR '':'' \<in> set s"
proof (cases "i \<ge> limit")
  case True
  then show ?thesis using assms by (simp add: read_groups.simps)
next
  case False
  note step = assms(1) [unfolded read_groups.simps [of limit i s]]
  show ?thesis
  proof (cases "if Suc i < limit then after_colon i read_ipv4 s else None")
    case (Some v)
    then have "length gs = 2" using step False by (auto split: prod.splits)
    with assms(2) Some show ?thesis by (auto split: if_splits intro: after_colon_nonempty)
  next
    case None
    show ?thesis
    proof (cases "after_colon i read_segment s")
      case (Some w)
      show ?thesis
      proof (cases "0 < i")
        case True
        then show ?thesis using Some by (rule after_colon_nonempty)
      next
        case first: False
        obtain g r where w: "w = (g, r)" by (cases w)
        obtain gs' v4' rest' where rec: "read_groups limit (Suc i) r = (gs', v4', rest')" by (metis prod_cases3)
        then have "gs = g # gs'" using step False None Some w by simp
        then have "gs' \<noteq> []" using assms(2) first by auto
        then have "CHR '':'' \<in> set r" using rec
          by (auto simp: read_groups.simps [of limit "Suc i"] split: if_splits option.splits prod.splits intro: after_colon_nonempty [of "Suc i"])
        then show ?thesis using after_colon_segment_rest [of i s g r] Some w by auto
      qed
    next
      case None': None
      then show ?thesis using step False None assms(2) by simp
    qed
  qed
qed

lemma read_ipv6_shape:
  assumes "read_ipv6 s = Some (segs, rest)"
  shows "length segs = 8 \<and> CHR '':'' \<in> set s"
proof -
  obtain front v4 r where g: "read_groups 8 0 s = (front, v4, r)" by (metis prod_cases3)
  note len = read_groups_length [OF g]
  show ?thesis
  proof (cases "length front = 8")
    case True
    then show ?thesis using assms g read_groups_colon [OF g] by (simp add: read_ipv6_def)
  next
    case False
    then obtain r2 where r: "r = CHR '':'' # CHR '':'' # r2"
      using assms g by (auto simp: read_ipv6_def bind_eq_Some_conv read_char_split split: if_splits)
    obtain rear v4' r3 where rear: "read_groups (8 - (length front + 1)) 0 r2 = (rear, v4', r3)" by (metis prod_cases3)
    then have segs: "segs = front @ replicate (8 - length front - length rear) 0 @ rear"
      using assms g r False by (auto simp: read_ipv6_def read_char_def split: if_splits)
    have "length rear \<le> 8 - (length front + 1)" using read_groups_length [OF rear] by simp
    then show ?thesis using r segs False len read_groups_rest [OF g] by auto
  qed
qed

lemma parse_ip_wf:
  assumes "parse_ip s = Some ip"
  shows "ip_wf ip"
  using assms read_ipv6_shape [of s]
  by (cases ip) (auto simp: parse_ip_def split: option.splits list.splits prod.splits)

lemma parse_ip_chars:
  assumes "parse_ip s = Some ip"
  shows "list_all (\<lambda>c. is_digit_in 10 c \<or> c = CHR ''.'') s \<or> CHR '':'' \<in> set s"
proof (cases "read_ipv4 s")
  case (Some v)
  then obtain q where "v = (q, [])" using assms by (auto simp: parse_ip_def split: prod.splits list.splits)
  then show ?thesis using read_ipv4_chars Some by blast
next
  case None
  then show ?thesis using assms read_ipv6_shape [of s] by (auto simp: parse_ip_def split: option.splits list.splits prod.splits)
qed

end
