(* ===== verification/Known_Hosts.thy ===== *)
theory Known_Hosts
  imports Ip_Addr Nexus_Model Interfaces
begin

text \<open>
  \<^verbatim>\<open>crates/nexus-ssh/src/known_hosts.rs\<close>: the pinned host keys, one per canonical host name and port. The table is a finite
  map; SQLite is a library whose calls may fail, so every operation takes the calls that fail this time.
\<close>

section \<open>Endpoints\<close>

definition dns_label :: "string \<Rightarrow> bool" where
  "dns_label label =
     (label \<noteq> [] \<and> length label \<le> 63 \<and> \<not> starts_with label ''-'' \<and> \<not> ends_with label ''-''
      \<and> list_all (\<lambda>c. is_ascii_alphanumeric c \<or> c = CHR ''-'') label)"

definition valid_dns :: "string \<Rightarrow> bool" where
  "valid_dns hostname = (hostname \<noteq> [] \<and> length hostname \<le> 253 \<and> list_all dns_label (split_char (CHR ''.'') hostname))"

definition canonical_endpoint :: "string \<Rightarrow> u16 \<Rightarrow> string app_result" where
  "canonical_endpoint hostname port =
     (let hostname = trim_end_matches (\<lambda>c. c = CHR ''.'') (str_trim hostname);
          address = parse_ip hostname
      in if port = 0 \<or> (address = None \<and> \<not> valid_dns hostname)
         then Err (AppError_new Validation ''A valid hostname and SSH port are required.'')
         else Ok (case address of Some ip \<Rightarrow> fmt_ip ip | None \<Rightarrow> to_ascii_lowercase hostname))"

section \<open>Fingerprints\<close>

record host_fingerprint =
  hf_algorithm :: string
  hf_sha256 :: string

definition validate_fingerprint :: "string \<Rightarrow> string \<Rightarrow> unit app_result" where
  "validate_fingerprint algorithm fingerprint =
     (let digest = (case strip_prefix fingerprint ''SHA256:'' of Some d \<Rightarrow> d | None \<Rightarrow> [])
      in if algorithm = [] \<or> length algorithm > 128
           \<or> \<not> list_all (\<lambda>c. is_ascii_alphanumeric c \<or> c \<in> set ''-@._'') algorithm
           \<or> length digest \<noteq> 43
           \<or> \<not> list_all (\<lambda>c. is_ascii_alphanumeric c \<or> c \<in> set ''+/'') digest
         then Err (AppError_new Validation ''Invalid SSH host fingerprint.'')
         else Ok ())"

definition fingerprint_ok :: "host_fingerprint \<Rightarrow> unit app_result" where
  "fingerprint_ok f = validate_fingerprint (hf_algorithm f) (hf_sha256 f)"

section \<open>The table\<close>

type_synonym pins = "(string \<times> u16, host_fingerprint) fmap"

record known_hosts =
  kh_pins :: pins
  kh_poisoned :: bool

text \<open>Whether each kind of call of the database succeeds.\<close>

record database =
  db_query :: bool
  db_begin :: bool
  db_write :: bool
  db_commit :: bool

definition database_error :: app_error where
  "database_error = AppError_new Persistence ''The trusted SSH host keys could not be read or saved.''"

definition poisoned_database :: app_error where
  "poisoned_database = AppError_new Persistence ''The trusted SSH host key store is unavailable.''"

definition invalid_store :: app_error where
  "invalid_store = AppError_new Persistence ''The trusted SSH host key store is invalid.''"

definition rotation_conflict :: app_error where
  "rotation_conflict = AppError_new Conflict ''The trusted SSH host key changed. Review a new rotation plan.''"

definition read_pin :: "database \<Rightarrow> pins \<Rightarrow> string \<Rightarrow> u16 \<Rightarrow> host_fingerprint option app_result" where
  "read_pin db pins hostname port = (if db_query db then Ok (fmlookup pins (hostname, port)) else Err database_error)"

definition compare_pin :: "string \<Rightarrow> u16 \<Rightarrow> host_fingerprint \<Rightarrow> host_fingerprint option \<Rightarrow> unit app_result" where
  "compare_pin hostname port fingerprint stored =
     (if (case stored of Some pin \<Rightarrow> hf_algorithm pin = hf_algorithm fingerprint \<and> hf_sha256 pin = hf_sha256 fingerprint | None \<Rightarrow> False)
      then Ok ()
      else Err \<lparr>err_code = (if stored \<noteq> None then ChangedHostKey else UnknownHostKey),
        err_message =
          (if stored \<noteq> None
           then ''The SSH host key has changed. Connection blocked; verify the server identity independently.''
           else ''This SSH host is unknown. Verify its fingerprint and explicitly trust it before connecting.''),
        err_host_key = Some \<lparr>hk_hostname = hostname, hk_port = port, hk_algorithm = hf_algorithm fingerprint,
          hk_fingerprint = hf_sha256 fingerprint, hk_previous_fingerprint = map_option hf_sha256 stored\<rparr>\<rparr>)"

section \<open>Operations\<close>

definition verify_pin :: "database \<Rightarrow> string \<Rightarrow> u16 \<Rightarrow> host_fingerprint \<Rightarrow> known_hosts \<Rightarrow> unit app_result" where
  "verify_pin db hostname port fingerprint kh =
     and_then (canonical_endpoint hostname port) (\<lambda>hostname.
     and_then (fingerprint_ok fingerprint) (\<lambda>_.
       if kh_poisoned kh then Err poisoned_database
       else and_then (read_pin db (kh_pins kh) hostname port) (compare_pin hostname port fingerprint)))"

definition checked_pin :: "host_fingerprint option \<Rightarrow> host_fingerprint option app_result" where
  "checked_pin pin =
     (case pin of
        Some p \<Rightarrow> if is_ok (fingerprint_ok p) then Ok pin else Err invalid_store
      | None \<Rightarrow> Ok pin)"

definition pinned_fingerprint :: "database \<Rightarrow> string \<Rightarrow> u16 \<Rightarrow> known_hosts \<Rightarrow> host_fingerprint option app_result" where
  "pinned_fingerprint db hostname port kh =
     and_then (canonical_endpoint hostname port) (\<lambda>hostname.
       if kh_poisoned kh then Err poisoned_database
       else and_then (read_pin db (kh_pins kh) hostname port) checked_pin)"

definition trust_pin :: "database \<Rightarrow> host_key_challenge \<Rightarrow> known_hosts \<Rightarrow> unit app_result \<times> known_hosts" where
  "trust_pin db challenge kh =
     (case and_then (canonical_endpoint (hk_hostname challenge) (hk_port challenge)) (\<lambda>hostname.
           and_then (validate_fingerprint (hk_algorithm challenge) (hk_fingerprint challenge)) (\<lambda>_.
             if hk_previous_fingerprint challenge \<noteq> None
             then Err (AppError_new ChangedHostKey ''A changed SSH host key cannot be trusted through this action.'')
             else if kh_poisoned kh then Err poisoned_database
             else if \<not> db_begin db then Err database_error
             else and_then (read_pin db (kh_pins kh) hostname (hk_port challenge)) (\<lambda>stored. Ok (hostname, stored)))) of
        Err e \<Rightarrow> (Err e, kh)
      | Ok (hostname, stored) \<Rightarrow>
          let fingerprint = \<lparr>hf_algorithm = hk_algorithm challenge, hf_sha256 = hk_fingerprint challenge\<rparr>
          in if stored \<noteq> None
             then (and_then (compare_pin hostname (hk_port challenge) fingerprint stored)
                     (\<lambda>_. if db_commit db then Ok () else Err database_error), kh)
             else if db_write db \<and> db_commit db
             then (Ok (), kh\<lparr>kh_pins := fmupd (hostname, hk_port challenge) fingerprint (kh_pins kh)\<rparr>)
             else (Err database_error, kh))"

text \<open>The update names the row by its key and by its present content.\<close>

definition rotate_pin ::
  "database \<Rightarrow> string \<Rightarrow> u16 \<Rightarrow> host_fingerprint \<Rightarrow> host_fingerprint \<Rightarrow> known_hosts \<Rightarrow> unit app_result \<times> known_hosts" where
  "rotate_pin db hostname port expected replacement kh =
     (case and_then (canonical_endpoint hostname port) (\<lambda>hostname.
           and_then (fingerprint_ok expected) (\<lambda>_.
           and_then (fingerprint_ok replacement) (\<lambda>_.
             if expected = replacement then Err rotation_conflict
             else if kh_poisoned kh then Err poisoned_database
             else if \<not> db_begin db then Err database_error
             else and_then (read_pin db (kh_pins kh) hostname port) (\<lambda>stored.
                  and_then (checked_pin stored) (\<lambda>_.
                    if stored \<noteq> Some expected then Err rotation_conflict else Ok hostname))))) of
        Err e \<Rightarrow> (Err e, kh)
      | Ok hostname \<Rightarrow>
          if \<not> db_write db then (Err database_error, kh)
          else if fmlookup (kh_pins kh) (hostname, port) \<noteq> Some expected then (Err rotation_conflict, kh)
          else if db_commit db then (Ok (), kh\<lparr>kh_pins := fmupd (hostname, port) replacement (kh_pins kh)\<rparr>)
          else (Err database_error, kh))"

section \<open>Canonical names\<close>

lemma str_trim_ascii:
  assumes "list_all (\<lambda>c. byte_of c < 128 \<and> \<not> is_whitespace (byte_of c)) s"
  shows "str_trim s = s"
proof -
  have enc: "encode_all (map byte_of s) = s" using assms by (intro encode_all_ascii) (auto simp: list_all_iff)
  have "list_all is_scalar (map byte_of s)" using assms by (auto simp: list_all_iff is_scalar_def)
  then have "utf8_chars s = Some (map byte_of s)" using utf8_chars_encode_all [of "map byte_of s"] enc by simp
  moreover have "trim_chars (map byte_of s) = map byte_of s"
  proof -
    have id: "dropWhile is_whitespace xs = xs" if "\<forall>x \<in> set xs. \<not> is_whitespace x" for xs using that by (cases xs) auto
    show ?thesis
      using assms id [of "map byte_of s"] id [of "rev (map byte_of s)"] by (simp add: trim_chars_def list_all_iff)
  qed
  ultimately show ?thesis using enc by (simp add: str_trim_def)
qed

text \<open>The characters of canonical names.\<close>

definition plain :: "char \<Rightarrow> bool" where
  "plain c = (is_ascii_alphanumeric c \<or> c \<in> set ''-.:'')"

lemma plain_trim: "list_all plain s \<Longrightarrow> str_trim s = s"
  by (rule str_trim_ascii)
    (auto simp: list_all_iff plain_def is_whitespace_def is_ascii_alphanumeric_def is_ascii_digit_def is_ascii_uppercase_def is_ascii_lowercase_def)

lemma digit_plain: "is_digit_in radix c \<Longrightarrow> plain c \<and> c \<noteq> CHR ''.''"
  by (auto simp: is_digit_in_def digit_value_def plain_def is_ascii_alphanumeric_def is_ascii_digit_def is_ascii_uppercase_def
      is_ascii_lowercase_def Let_def split: if_splits)

lemma fmt_dec_plain: "list_all plain (fmt_dec n)" "fmt_dec n \<noteq> []" "last (fmt_dec n) \<noteq> CHR ''.''"
  using fmt_dec_value [of n] digit_plain by (auto simp: list_all_iff dest: last_in_set)

lemma fmt_hex_plain: "list_all plain (fmt_hex n)" "fmt_hex n \<noteq> []" "last (fmt_hex n) \<noteq> CHR ''.''"
  using fmt_hex_value [of n] digit_plain by (auto simp: list_all_iff dest: last_in_set)

lemma separators_plain [simp]: "plain (CHR '':'')" "plain (CHR ''.'')" "plain (CHR ''f'')"
  by (simp_all add: plain_def is_ascii_alphanumeric_def is_ascii_lowercase_def)

lemma fmt_ipv4_plain: "list_all plain (fmt_ipv4 a b c d)" "fmt_ipv4 a b c d \<noteq> []" "last (fmt_ipv4 a b c d) \<noteq> CHR ''.''"
  by (simp_all add: fmt_ipv4_def fmt_dec_plain)

lemma fmt_subslice_plain: "list_all plain (fmt_subslice gs)" "gs \<noteq> [] \<Longrightarrow> fmt_subslice gs \<noteq> [] \<and> last (fmt_subslice gs) \<noteq> CHR ''.''"
  by (induction gs rule: fmt_subslice.induct) (simp_all add: fmt_hex_plain)

lemma fmt_ip_plain:
  assumes "ip_wf ip"
  shows "list_all plain (fmt_ip ip) \<and> fmt_ip ip \<noteq> [] \<and> last (fmt_ip ip) \<noteq> CHR ''.''"
proof (cases ip)
  case (V6 segs)
  with assms have "segs \<noteq> []" by auto
  moreover have "last (a @ ''::'' @ fmt_subslice gs) \<noteq> CHR ''.''" for a gs
    using fmt_subslice_plain(2) [of gs] by (cases gs) auto
  ultimately show ?thesis
    using fmt_subslice_plain V6 by (auto simp: fmt_ipv6_def fmt_ipv4_plain split: prod.split)
qed (simp add: fmt_ipv4_plain)

lemma trim_dots_last: "s \<noteq> [] \<Longrightarrow> last s \<noteq> CHR ''.'' \<Longrightarrow> trim_end_matches (\<lambda>c. c = CHR ''.'') s = s"
  by (cases s rule: rev_cases) (auto simp: trim_end_matches_def)

definition lower_char :: "char \<Rightarrow> char" where
  "lower_char c = (if is_ascii_uppercase c then char_of (byte_of c + 32) else c)"

lemma to_lower_map: "to_ascii_lowercase s = map lower_char s"
  by (simp add: to_ascii_lowercase_def lower_char_def)

lemma byte_lower: "byte_of (lower_char c) = (if is_ascii_uppercase c then byte_of c + 32 else byte_of c)"
  by (auto simp: lower_char_def is_ascii_uppercase_def take_bit_eq_mod)

lemma lower_char_eq: "\<not> is_ascii_alphanumeric x \<Longrightarrow> lower_char c = x \<longleftrightarrow> c = x"
proof -
  assume x: "\<not> is_ascii_alphanumeric x"
  have "lower_char c = x \<Longrightarrow> \<not> is_ascii_uppercase c"
    using byte_lower [of c] x by (auto simp: is_ascii_alphanumeric_def is_ascii_lowercase_def is_ascii_uppercase_def)
  moreover have "is_ascii_uppercase c \<Longrightarrow> c \<noteq> x" using x by (auto simp: is_ascii_alphanumeric_def)
  ultimately show ?thesis by (auto simp: lower_char_def)
qed

lemma lower_alphanumeric: "is_ascii_alphanumeric (lower_char c) = is_ascii_alphanumeric c"
  using byte_lower [of c]
  by (auto simp: is_ascii_alphanumeric_def is_ascii_lowercase_def is_ascii_uppercase_def is_ascii_digit_def split: if_splits)

lemma separators_not_alphanumeric [simp]:
  "\<not> is_ascii_alphanumeric (CHR ''.'')" "\<not> is_ascii_alphanumeric (CHR ''-'')" "\<not> is_ascii_alphanumeric (CHR '':'')"
  by (simp_all add: is_ascii_alphanumeric_def is_ascii_lowercase_def is_ascii_uppercase_def is_ascii_digit_def)

lemma lower_idem: "lower_char (lower_char c) = lower_char c"
  using byte_lower [of c] by (auto simp: lower_char_def [of "lower_char c"] is_ascii_uppercase_def split: if_splits)

lemma to_lower_idem: "to_ascii_lowercase (to_ascii_lowercase s) = to_ascii_lowercase s"
  by (simp add: to_lower_map lower_idem)

lemma split_char_map: "(\<And>x. f x = c \<longleftrightarrow> x = c) \<Longrightarrow> split_char c (map f s) = map (map f) (split_char c s)"
  by (induction s) (auto split: list.split)

lemma one_char_ends: "starts_with s [c] \<longleftrightarrow> s \<noteq> [] \<and> hd s = c" "ends_with s [c] \<longleftrightarrow> s \<noteq> [] \<and> last s = c"
  unfolding starts_with_decomp ends_with_decomp by (cases s; auto) (cases s rule: rev_cases; auto)

lemma dns_label_lower: "dns_label label \<Longrightarrow> dns_label (to_ascii_lowercase label)"
  by (auto simp: dns_label_def to_lower_map list_all_iff one_char_ends hd_map last_map lower_alphanumeric lower_char_eq)

lemma valid_dns_lower: "valid_dns s \<Longrightarrow> valid_dns (to_ascii_lowercase s)"
  using dns_label_lower by (auto simp: valid_dns_def to_lower_map split_char_map lower_char_eq list_all_iff)

lemma split_char_last: "s \<noteq> [] \<Longrightarrow> last s = c \<Longrightarrow> 1 < length (split_char c s) \<and> last (split_char c s) = []"
  by (induction s) (auto split: list.split if_splits)

lemma valid_dns_plain:
  assumes "valid_dns s"
  shows "list_all plain s \<and> CHR '':'' \<notin> set s \<and> s \<noteq> [] \<and> last s \<noteq> CHR ''.''"
proof -
  have labels: "label \<in> set (split_char (CHR ''.'') s) \<Longrightarrow> dns_label label" for label using assms by (auto simp: valid_dns_def list_all_iff)
  have "c = CHR ''.'' \<or> is_ascii_alphanumeric c \<or> c = CHR ''-''" if c: "c \<in> set s" for c
  proof (cases "c = CHR ''.''")
    case False
    then obtain label where "label \<in> set (split_char (CHR ''.'') s)" "c \<in> set label" using c split_char_Union [of "CHR ''.''" s] by blast
    then show ?thesis using labels [of label] by (auto simp: dns_label_def list_all_iff)
  qed simp
  then have "list_all plain s" "CHR '':'' \<notin> set s" by (fastforce simp: list_all_iff plain_def)+
  moreover have "s \<noteq> []" using assms by (simp add: valid_dns_def)
  moreover have "last s \<noteq> CHR ''.''"
  proof
    assume "last s = CHR ''.''"
    with split_char_last [OF \<open>s \<noteq> []\<close>] have "last (split_char (CHR ''.'') s) = []" by simp
    then have "[] \<in> set (split_char (CHR ''.'') s)" using last_in_set [of "split_char (CHR ''.'') s"] by simp
    then have "dns_label []" by (rule labels)
    then show False by (simp add: dns_label_def)
  qed
  ultimately show ?thesis by blast
qed

lemma parse_ip_lower:
  assumes "parse_ip (to_ascii_lowercase s) = Some ip" "CHR '':'' \<notin> set s"
  shows "to_ascii_lowercase s = s"
proof -
  have "CHR '':'' \<notin> set (to_ascii_lowercase s)" 
  proof
    assume "CHR '':'' \<in> set (to_ascii_lowercase s)"
    then obtain c where "c \<in> set s" "lower_char c = CHR '':''" by (auto simp: to_lower_map)
    then show False using assms(2) by (simp add: lower_char_eq)
  qed
  then have all: "list_all (\<lambda>c. is_digit_in 10 c \<or> c = CHR ''.'') (map lower_char s)"
    using parse_ip_chars [OF assms(1)] by (simp add: to_lower_map)
  have "lower_char c = c" if "c \<in> set s" for c
  proof (cases "is_ascii_uppercase c")
    case True
    then have "is_ascii_lowercase (lower_char c)" using byte_lower [of c] by (simp add: is_ascii_lowercase_def is_ascii_uppercase_def)
    then have "\<not> (is_digit_in 10 (lower_char c) \<or> lower_char c = CHR ''.'')"
      by (auto simp: is_digit_in_def digit_value_def is_ascii_lowercase_def Let_def split: if_splits)
    then show ?thesis using all that by (auto simp: list_all_iff)
  qed (simp add: lower_char_def)
  then show ?thesis by (simp add: to_lower_map map_idI)
qed

lemma canonical_idempotent_of:
  assumes "canonical_endpoint hostname port = Ok c"
  shows "canonical_endpoint c port = Ok c"
proof -
  define h where "h = trim_end_matches (\<lambda>c. c = CHR ''.'') (str_trim hostname)"
  show ?thesis
  proof (cases "parse_ip h")
    case (Some ip)
    then have c: "c = fmt_ip ip" "port \<noteq> 0" using assms by (auto simp: canonical_endpoint_def Let_def h_def split: if_splits)
    have wf: "ip_wf ip" using Some by (rule parse_ip_wf)
    have "trim_end_matches (\<lambda>c. c = CHR ''.'') (str_trim c) = c"
      using fmt_ip_plain [OF wf] c(1) by (simp add: plain_trim trim_dots_last)
    then show ?thesis using parse_fmt_ip [OF wf] c by (simp add: canonical_endpoint_def)
  next
    case None
    then have c: "c = to_ascii_lowercase h" "port \<noteq> 0" "valid_dns h"
      using assms by (auto simp: canonical_endpoint_def Let_def h_def split: if_splits)
    have dns: "valid_dns c" using valid_dns_lower c(1,3) by simp
    have "parse_ip c = None"
    proof (cases "parse_ip c")
      case (Some ip)
      then have "c = h" using parse_ip_lower [of h ip] valid_dns_plain [OF c(3)] c(1) by simp
      then show ?thesis using None by simp
    qed
    moreover have "trim_end_matches (\<lambda>c. c = CHR ''.'') (str_trim c) = c"
      using valid_dns_plain [OF dns] by (simp add: plain_trim trim_dots_last)
    ultimately show ?thesis using dns c by (simp add: canonical_endpoint_def to_lower_idem)
  qed
qed

text \<open>
  The canonical spelling of an endpoint is a fixed point: the spelling under which a pin is stored is again
  accepted, and is its own canonical spelling. So a pin stored for one spelling of a host is the one found for the
  spelling shown in a challenge or a plan.
\<close>

theorem canonical_idempotent:
  assumes "canonical_endpoint hostname port = Ok c"
  shows "canonical_endpoint c port = Ok c"
  using assms by (rule canonical_idempotent_of)

lemma ex_named: "canonical_endpoint ''Host'' 22 = Ok ''host''"
proof -
  have trim: "trim_end_matches (\<lambda>c. c = CHR ''.'') (str_trim ''Host'') = ''Host''"
    by (subst plain_trim) (simp_all add: plain_def is_ascii_alphanumeric_def is_ascii_lowercase_def is_ascii_uppercase_def trim_end_matches_def)
  have ip: "parse_ip ''Host'' = None"
    by (simp add: parse_ip_def read_ipv4_stops stops_char is_digit_in_def digit_value_def read_ipv6_def read_groups.simps after_colon_def
        read_segment_stops read_char_def)
  have "valid_dns ''Host''"
    by (simp add: valid_dns_def dns_label_def starts_with_def ends_with_def is_ascii_alphanumeric_def is_ascii_lowercase_def is_ascii_uppercase_def)
  then show ?thesis
    by (simp add: canonical_endpoint_def trim ip to_ascii_lowercase_def is_ascii_uppercase_def char_of_eq_iff take_bit_eq_mod)
qed

lemma ex_host: "canonical_endpoint ''host'' 22 = Ok ''host''"
  using ex_named by (rule canonical_idempotent_of)

theorem canonical_idempotent_witness: "canonical_endpoint ''host'' 22 = Ok ''host''"
  using ex_named by (rule canonical_idempotent)

section \<open>Pins\<close>

datatype pin_event = KTrust database host_key_challenge | KRotate database string u16 host_fingerprint host_fingerprint

fun pin_step :: "pin_event \<Rightarrow> known_hosts \<Rightarrow> known_hosts" where
  "pin_step (KTrust db challenge) kh = snd (trust_pin db challenge kh)"
| "pin_step (KRotate db hostname port expected replacement) kh = snd (rotate_pin db hostname port expected replacement kh)"

fun rotates :: "pin_event \<Rightarrow> string \<times> u16 \<Rightarrow> bool" where
  "rotates (KRotate db hostname port expected replacement) k = (canonical_endpoint hostname port = Ok (fst k) \<and> port = snd k)"
| "rotates _ k = False"

definition pin_ok :: "string \<times> u16 \<Rightarrow> host_fingerprint \<Rightarrow> bool" where
  "pin_ok k f = (canonical_endpoint (fst k) (snd k) = Ok (fst k) \<and> fingerprint_ok f = Ok ())"

definition pins_inv :: "known_hosts \<Rightarrow> bool" where
  "pins_inv kh = (\<forall>k f. fmlookup (kh_pins kh) k = Some f \<longrightarrow> pin_ok k f)"

lemma unit_ok: "r = Ok u \<longleftrightarrow> r = Ok ()"
  by simp

lemma trust_effect:
  "snd (trust_pin db challenge kh) = kh
   \<or> (\<exists>hostname. canonical_endpoint (hk_hostname challenge) (hk_port challenge) = Ok hostname
        \<and> fmlookup (kh_pins kh) (hostname, hk_port challenge) = None
        \<and> validate_fingerprint (hk_algorithm challenge) (hk_fingerprint challenge) = Ok ()
        \<and> trust_pin db challenge kh =
            (Ok (), kh\<lparr>kh_pins := fmupd (hostname, hk_port challenge)
               \<lparr>hf_algorithm = hk_algorithm challenge, hf_sha256 = hk_fingerprint challenge\<rparr> (kh_pins kh)\<rparr>))"
  by (auto simp: trust_pin_def Let_def read_pin_def and_then_Ok_iff split: result.split if_splits)

lemma rotate_effect:
  "rotate_pin db hostname port expected replacement kh = (Ok (), kh') \<Longrightarrow>
     \<exists>c. canonical_endpoint hostname port = Ok c \<and> fmlookup (kh_pins kh) (c, port) = Some expected
       \<and> kh' = kh\<lparr>kh_pins := fmupd (c, port) replacement (kh_pins kh)\<rparr> \<and> fingerprint_ok replacement = Ok () \<and> replacement \<noteq> expected"
  "rotate_pin db hostname port expected replacement kh = (Err e, kh') \<Longrightarrow> kh' = kh"
  by (auto simp: rotate_pin_def and_then_Ok_iff read_pin_def split: result.splits if_splits)

lemma rotate_snd:
  "snd (rotate_pin db hostname port expected replacement kh) = kh
   \<or> (\<exists>c. canonical_endpoint hostname port = Ok c \<and> fmlookup (kh_pins kh) (c, port) = Some expected
       \<and> snd (rotate_pin db hostname port expected replacement kh) = kh\<lparr>kh_pins := fmupd (c, port) replacement (kh_pins kh)\<rparr>
       \<and> fingerprint_ok replacement = Ok ())"
proof (cases "rotate_pin db hostname port expected replacement kh")
  case (Pair r kh')
  then show ?thesis using rotate_effect [of db hostname port expected replacement kh] by (cases r) auto
qed

lemma pins_inv_upd: "pins_inv kh \<Longrightarrow> pin_ok k f \<Longrightarrow> pins_inv (kh\<lparr>kh_pins := fmupd k f (kh_pins kh)\<rparr>)"
  by (auto simp: pins_inv_def split: if_splits)

lemma pins_step_inv:
  assumes "pins_inv kh"
  shows "pins_inv (pin_step e kh)"
proof (cases e)
  case (KTrust db challenge)
  have ok: "pin_ok (hostname, hk_port challenge) \<lparr>hf_algorithm = hk_algorithm challenge, hf_sha256 = hk_fingerprint challenge\<rparr>"
    if "canonical_endpoint (hk_hostname challenge) (hk_port challenge) = Ok hostname"
      "validate_fingerprint (hk_algorithm challenge) (hk_fingerprint challenge) = Ok ()" for hostname
    using that canonical_idempotent_of [OF that(1)] by (simp add: pin_ok_def fingerprint_ok_def)
  show ?thesis
    using assms KTrust trust_effect [of db challenge kh] ok by (auto intro: pins_inv_upd)
next
  case (KRotate db hostname port expected replacement)
  have ok: "pin_ok (c, port) replacement" if "canonical_endpoint hostname port = Ok c" "fingerprint_ok replacement = Ok ()" for c
    using that canonical_idempotent_of [OF that(1)] by (simp add: pin_ok_def)
  show ?thesis
    using assms KRotate rotate_snd [of db hostname port expected replacement kh] ok by (auto intro: pins_inv_upd)
qed

interpretation pins: guarded_machine "\<lambda>_ _. True" pin_step pins_inv
  by unfold_locales (rule pins_step_inv)

lemma pin_step_kept:
  assumes "fmlookup (kh_pins kh) k = Some f" "\<not> rotates e k"
  shows "fmlookup (kh_pins (pin_step e kh)) k = Some f"
proof (cases e)
  case (KTrust db challenge)
  then show ?thesis using assms trust_effect [of db challenge kh] by auto
next
  case (KRotate db hostname port expected replacement)
  then show ?thesis using assms rotate_snd [of db hostname port expected replacement kh] by (cases k) auto
qed

lemma pin_run_kept:
  "fmlookup (kh_pins kh) k = Some f \<Longrightarrow> list_all (\<lambda>e. \<not> rotates e k) es \<Longrightarrow> fmlookup (kh_pins (fold pin_step es kh)) k = Some f"
  by (induction es arbitrary: kh) (simp_all add: pin_step_kept)

lemma verify_pinned:
  assumes "fmlookup (kh_pins kh) (c, port) = Some f" "canonical_endpoint hostname port = Ok c" "fingerprint_ok g = Ok ()"
    and "db_query db" "\<not> kh_poisoned kh"
  shows "verify_pin db hostname port g kh = Ok () \<longleftrightarrow> g = f"
    and "g \<noteq> f \<Longrightarrow> \<exists>e. verify_pin db hostname port g kh = Err e \<and> err_code e = ChangedHostKey"
proof -
  have "hf_algorithm f = hf_algorithm g \<and> hf_sha256 f = hf_sha256 g \<longleftrightarrow> g = f" by (cases f; cases g) auto
  then show "verify_pin db hostname port g kh = Ok () \<longleftrightarrow> g = f"
    "g \<noteq> f \<Longrightarrow> \<exists>e. verify_pin db hostname port g kh = Err e \<and> err_code e = ChangedHostKey"
    using assms by (auto simp: verify_pin_def read_pin_def compare_pin_def)
qed

lemma step_poisoned [simp]: "kh_poisoned (pin_step e kh) = kh_poisoned kh"
proof (cases e)
  case (KTrust db challenge)
  then show ?thesis using trust_effect [of db challenge kh] by auto
next
  case (KRotate db hostname port expected replacement)
  then show ?thesis using rotate_snd [of db hostname port expected replacement kh] by auto
qed

lemma run_poisoned [simp]: "kh_poisoned (fold pin_step es kh) = kh_poisoned kh"
  by (induction es arbitrary: kh) simp_all

lemma trust_Ok_pinned:
  assumes "trust_pin db challenge kh = (Ok (), kh')"
  shows "\<exists>h. canonical_endpoint (hk_hostname challenge) (hk_port challenge) = Ok h
    \<and> fmlookup (kh_pins kh') (h, hk_port challenge) = Some \<lparr>hf_algorithm = hk_algorithm challenge, hf_sha256 = hk_fingerprint challenge\<rparr>"
  using assms
  by (auto simp: trust_pin_def Let_def read_pin_def compare_pin_def and_then_Ok_iff split: result.splits if_splits option.splits)

lemma trust_changed_refused:
  assumes "hk_previous_fingerprint challenge \<noteq> None"
  shows "\<exists>e. trust_pin db challenge kh = (Err e, kh)"
  using assms
  by (cases "canonical_endpoint (hk_hostname challenge) (hk_port challenge)";
      cases "validate_fingerprint (hk_algorithm challenge) (hk_fingerprint challenge)") (auto simp: trust_pin_def)

text \<open>
  C22: A trusted host key is never replaced except by a rotation of its endpoint. Once an endpoint has a pin, then
  whatever keys are accepted later for any spelling of any host, and whatever other endpoints are rotated, a connection
  to any spelling of this endpoint is verified exactly with the pinned key, and every other key is refused as a changed
  key. Accepting a challenge successfully leaves exactly the accepted key pinned, and accepting a challenge that shows a
  changed key is refused and changes nothing.
\<close>

theorem pinned_until_rotated:
  assumes "fmlookup (kh_pins kh) (c, port) = Some f" "list_all (\<lambda>e. \<not> rotates e (c, port)) es"
    and "canonical_endpoint hostname port = Ok c" "fingerprint_ok g = Ok ()" "db_query db" "\<not> kh_poisoned kh"
  shows "(verify_pin db hostname port g (fold pin_step es kh) = Ok () \<longleftrightarrow> g = f)
    \<and> (g \<noteq> f \<longrightarrow> (\<exists>e. verify_pin db hostname port g (fold pin_step es kh) = Err e \<and> err_code e = ChangedHostKey))
    \<and> (\<forall>db' challenge kh'. trust_pin db' challenge (fold pin_step es kh) = (Ok (), kh') \<longrightarrow>
         (\<exists>h. canonical_endpoint (hk_hostname challenge) (hk_port challenge) = Ok h
            \<and> fmlookup (kh_pins kh') (h, hk_port challenge) = Some \<lparr>hf_algorithm = hk_algorithm challenge, hf_sha256 = hk_fingerprint challenge\<rparr>))
    \<and> (\<forall>db' challenge. hk_previous_fingerprint challenge \<noteq> None \<longrightarrow>
         (\<exists>e. trust_pin db' challenge (fold pin_step es kh) = (Err e, fold pin_step es kh)))"
proof -
  let ?kh = "fold pin_step es kh"
  have pin: "fmlookup (kh_pins ?kh) (c, port) = Some f" using assms(1,2) by (rule pin_run_kept)
  have healthy: "\<not> kh_poisoned ?kh" using assms(6) by simp
  show ?thesis using verify_pinned [OF pin assms(3,4,5) healthy] trust_Ok_pinned trust_changed_refused by blast
qed

definition ex_key :: host_fingerprint where
  "ex_key = \<lparr>hf_algorithm = ''ssh-ed25519'', hf_sha256 = ''SHA256:'' @ replicate 43 (CHR ''A'')\<rparr>"

definition ex_new_key :: host_fingerprint where
  "ex_new_key = \<lparr>hf_algorithm = ''ssh-ed25519'', hf_sha256 = ''SHA256:'' @ replicate 43 (CHR ''B'')\<rparr>"

definition ex_db :: database where
  "ex_db = \<lparr>db_query = True, db_begin = True, db_write = True, db_commit = True\<rparr>"

definition ex_pinned :: known_hosts where
  "ex_pinned = \<lparr>kh_pins = fmupd (''host'', 22) ex_key fmempty, kh_poisoned = False\<rparr>"

lemma ex_keys: "fingerprint_ok ex_key = Ok ()" "fingerprint_ok ex_new_key = Ok ()" "ex_key \<noteq> ex_new_key"
  by (simp_all add: fingerprint_ok_def validate_fingerprint_def ex_key_def ex_new_key_def strip_prefix_def starts_with_def
      list_all_iff is_ascii_alphanumeric_def is_ascii_lowercase_def is_ascii_uppercase_def is_ascii_digit_def Let_def)

theorem pinned_until_rotated_witness:
  "verify_pin ex_db ''host'' 22 ex_key (fold pin_step [KRotate ex_db ''host'' 2222 ex_key ex_new_key] ex_pinned) = Ok ()
    \<and> verify_pin ex_db ''host'' 22 ex_new_key (fold pin_step [KRotate ex_db ''host'' 2222 ex_key ex_new_key] ex_pinned) \<noteq> Ok ()"
proof -
  have pin: "fmlookup (kh_pins ex_pinned) (''host'', 22) = Some ex_key" "db_query ex_db" "\<not> kh_poisoned ex_pinned"
    by (simp_all add: ex_pinned_def ex_db_def)
  have other: "list_all (\<lambda>e. \<not> rotates e (''host'', 22)) [KRotate ex_db ''host'' 2222 ex_key ex_new_key]" by simp
  note rule = pinned_until_rotated [OF pin(1) other ex_host _ pin(2,3)]
  from rule [OF ex_keys(1)] rule [OF ex_keys(2)] ex_keys(3) show ?thesis by auto
qed

text \<open>
  C23: A rotation is a compare-and-swap of one pin. It succeeds only if the pin of this endpoint is the expected one, and
  then replaces just this pin by a different, well-formed key; if it fails, nothing changes. After a success the
  new key is verified and the old one is refused.
\<close>

theorem rotation_swaps:
  assumes "rotate_pin db hostname port expected replacement kh = (r, kh')"
  shows "(r \<noteq> Ok () \<longrightarrow> kh' = kh)
    \<and> (r = Ok () \<longrightarrow> (\<exists>c. canonical_endpoint hostname port = Ok c \<and> fmlookup (kh_pins kh) (c, port) = Some expected
         \<and> kh_pins kh' = fmupd (c, port) replacement (kh_pins kh) \<and> kh_poisoned kh' = kh_poisoned kh
         \<and> replacement \<noteq> expected \<and> fingerprint_ok replacement = Ok ()
         \<and> (db_query db' \<and> \<not> kh_poisoned kh \<longrightarrow>
              verify_pin db' hostname port replacement kh' = Ok () \<and> verify_pin db' hostname port expected kh' \<noteq> Ok ())))"
proof (cases r)
  case (Err e)
  then show ?thesis using rotate_effect(2) [of db hostname port expected replacement kh] assms by simp
next
  case (Ok u)
  then have "rotate_pin db hostname port expected replacement kh = (Ok (), kh')" using assms by simp
  from rotate_effect(1) [OF this] obtain c where c: "canonical_endpoint hostname port = Ok c"
    "fmlookup (kh_pins kh) (c, port) = Some expected" "kh' = kh\<lparr>kh_pins := fmupd (c, port) replacement (kh_pins kh)\<rparr>"
    "fingerprint_ok replacement = Ok ()" "replacement \<noteq> expected" by blast
  have pin: "fmlookup (kh_pins kh') (c, port) = Some replacement" using c(3) by simp
  have "verify_pin db' hostname port replacement kh' = Ok () \<and> verify_pin db' hostname port expected kh' \<noteq> Ok ()"
    if "db_query db'" "\<not> kh_poisoned kh"
  proof -
    have "\<not> kh_poisoned kh'" using that(2) c(3) by simp
    note same = verify_pinned(1) [OF pin c(1) _ that(1) this]
    have "verify_pin db' hostname port expected kh' = Ok () \<Longrightarrow> fingerprint_ok expected = Ok ()"
      by (auto simp: verify_pin_def and_then_Ok_iff)
    then show ?thesis using same [OF c(4)] same [of expected] c(5) by auto
  qed
  then show ?thesis using Ok c by auto
qed

theorem rotation_swaps_witness:
  "\<exists>kh'. rotate_pin ex_db ''host'' 22 ex_key ex_new_key ex_pinned = (Ok (), kh')
    \<and> verify_pin ex_db ''host'' 22 ex_new_key kh' = Ok () \<and> verify_pin ex_db ''host'' 22 ex_key kh' \<noteq> Ok ()"
proof -
  have "fst (rotate_pin ex_db ''host'' 22 ex_key ex_new_key ex_pinned) = Ok ()"
    using ex_keys by (simp add: rotate_pin_def ex_host read_pin_def ex_db_def ex_pinned_def checked_pin_def)
  then obtain kh' where run: "rotate_pin ex_db ''host'' 22 ex_key ex_new_key ex_pinned = (Ok (), kh')" by (metis prod.collapse)
  have "db_query ex_db \<and> \<not> kh_poisoned ex_pinned" by (simp add: ex_db_def ex_pinned_def)
  with rotation_swaps [OF run, of ex_db] run show ?thesis by blast
qed

end
