(* ===== verification/Spec2Isabelle.thy ===== *)
theory Spec2Isabelle
  imports Remote_Operations Authority_Refinement Terminal_Manager Local_Access Operation_Engine
    Service_Observations File_Planning Transfer_Outcomes File_Mutations Sftp_Session Update_Install
    Known_Hosts
begin

text \<open>
  Verification of NexusOps, a desktop application that administers remote Linux hosts over SSH.

  \<^bold>\<open>The program.\<close> The renderer asks the Rust side for read-only discovery, for reviewed mutations
  of systemd services, for SFTP transfers and edits, for terminals and for updates of itself. Everything that changes a
  remote host goes through an authority: it is planned, shown for review, and consumed at most once,
  bound to the authenticated session it was planned in. Background tasks expire authorities;
  disconnecting, removing a host and shutting down revoke them.

  \<^bold>\<open>Theories and sources.\<close>
  \<^item> \<open>Prelude\<close>, \<open>Rust_Str\<close>, \<open>Utf8\<close>, \<open>Rust_Text\<close>, \<open>Ip_Addr\<close>: the part of the language and its standard library the sources use:
    \<open>Result\<close>, hash maps (finite maps), the clock, checked and saturating integers, byte strings,
    UTF-8, and the parsing and printing of IP addresses.
  \<^item> \<open>Interfaces\<close>: the contracts as locales. \<open>guarded_machine\<close> (an invariant kept by enabled steps),
    \<open>one_shot\<close> (an authority redeemed at most once), \<open>sealable\<close>, \<open>bounded_store\<close> and \<open>simulation\<close>
    (functional refinement). Each is interpreted on the components below.
  \<^item> \<open>Nexus_Model\<close>, \<open>Service_Units\<close>, \<open>Sftp_Model\<close>: the domain types of \<^verbatim>\<open>crates/nexus-model\<close>, the
    unit-name parser and the preconditions of the four systemd operations, the types of entries, plans and jobs.
  \<^item> \<open>Authority_Store\<close>, \<open>Authority_Refinement\<close>, \<open>Remote_Operations\<close>: \<^verbatim>\<open>crates/nexus-remote-operations\<close>.
    \<open>AuthorityStore\<close> as a record with one definition per method and per background task; the
    slot-per-host specification it implements; \<open>ExecutionAdmission\<close>; and \<open>execute\<close>, with the
    operations of other tasks between its critical sections as lists of events.
  \<^item> \<open>Operation_Engine\<close>: \<^verbatim>\<open>crates/nexus-operations\<close>, the table of read-only commands and the engine.
  \<^item> \<open>Service_Observations\<close>: \<^verbatim>\<open>crates/nexus-core/src/service_observations.rs\<close>.
  \<^item> \<open>Remote_Paths\<close>, \<open>Editor_Text\<close>, \<open>File_Plans\<close>, \<open>File_Planning\<close>: \<^verbatim>\<open>path.rs\<close>, \<^verbatim>\<open>editor.rs\<close> and
    \<^verbatim>\<open>policy.rs\<close> of \<^verbatim>\<open>crates/nexus-sftp\<close>: path validation, the text codec, the store of file plans and
    editor documents with its timers, and the four planners. \<open>Local_Files\<close>: the probes of \<^verbatim>\<open>policy.rs\<close> that bind a
    local file or directory to its identity and check it again before each use.
  \<^item> \<open>Sftp_Client\<close>, \<open>Sftp_Requests\<close>, \<open>Sftp_Session\<close>: \<^verbatim>\<open>client.rs\<close> of the same crate, against a server that may answer
    anything: the operations as the requests they send, the lemmas on them, connecting and listing.
  \<^item> \<open>Transfer_Jobs\<close>, \<open>Transfer_Queue\<close>, \<open>Transfer_History\<close>, \<open>Transfer_Quiesce\<close>: the queue of \<^verbatim>\<open>transfer.rs\<close>: jobs,
    permits, destination locks, cancellation, history and quiescing, as steps of an interleaving machine.
  \<^item> \<open>Transfer_Run\<close>, \<open>Transfer_Work\<close>, \<open>Transfer_Guarantees\<close>, \<open>Transfer_Outcomes\<close>, \<open>File_Mutations\<close>: the workers
    of \<^verbatim>\<open>transfer.rs\<close> (uploads, downloads, editor saves) and the direct mutations; a worker's effect on the shared
    state is shown to be a sequence of steps of the queue.
  \<^item> \<open>Known_Hosts\<close>: \<^verbatim>\<open>crates/nexus-ssh/src/known_hosts.rs\<close>, the pinned host keys.
  \<^item> \<open>Terminal_Manager\<close>: \<^verbatim>\<open>crates/nexus-terminal/src/manager.rs\<close>, with the reference-counted entries as
    an explicit store and every operation cut at its awaits.
  \<^item> \<open>Local_Access\<close>, \<open>Lifecycle\<close>: \<^verbatim>\<open>local_access.rs\<close> and \<^verbatim>\<open>lifecycle.rs\<close> of the desktop application:
    grants for local files, command permits, draining, and the exit sequence.
  \<^item> \<open>Update_Download\<close>, \<open>Update_Service\<close>, \<open>Update_Install\<close>: \<^verbatim>\<open>update_download.rs\<close>, \<^verbatim>\<open>updates.rs\<close>, \<^verbatim>\<open>update_install.rs\<close> and
    the installation command of \<^verbatim>\<open>commands.rs\<close>: from an announcement to the start of the installer.

  \<^bold>\<open>How state and effects correspond.\<close> A struct is a record, an enum a datatype, a method a definition
  returning its result and the new state. A mutex that may be poisoned is a flag. A critical section is one
  step; an operation that awaits takes, as lists of events, what other tasks do at each await. A fresh
  identifier, the clock reading and the iteration order of a hash map are arguments; what is relied on (an
  identifier is not in use, a permit is dropped by its holder) is the \<open>enabled\<close> predicate of the
  component's events. Traits of the source (sessions, SFTP clients, channels, transports, dialogs) and the
  libraries it calls (SHA-256, Base64, minisign, semantic versions, HTTP, SQLite, the operating system) are arguments,
  with what is assumed of them as hypotheses. A server and the file system answer as a function of everything asked so
  far, so they may change between any two calls.

  \<^bold>\<open>What the lemmas show.\<close>
  \<^item> Authorities (remote-operation plans, file plans, editor documents, local grants) are redeemed at most
    once, only in their session, and never after revocation or sealing; what is redeemed is what was reviewed.
  \<^item> \<open>execute\<close> dispatches at most once, only with a consumed, revalidated authority, never beside another
    execution, and reports exactly what is known of the outcome.
  \<^item> Plans respect the user's conflict policy and the extensions the server offers; a save is planned only for
    an unchanged file; names shown to the user have no invisible characters.
  \<^item> A worker touches the server only at its staging path and the approved destination, replaces nothing that changed
    after the approval, accounts for its staging file when it fails, and a success means the exact bytes are there; the
    result of a mutation is a success, a refusal or a doubt exactly as the server's reply is.
  \<^item> The queue never runs two jobs on one destination, a cancelled job never reaches its final mutation, a finished job
    stays finished, a quiesced session has nothing running, and there is always a way for the queue to drain.
  \<^item> A listing is exactly the first entries the server named, up to the cap.
  \<^item> A pinned host key is the only one accepted for any spelling of its endpoint until it is rotated, and a rotation is
    a compare-and-swap.
  \<^item> Only an announced, verified update is installed, once, alone, and after every cleanup step succeeded.
  \<^item> Terminal output is delivered as read, in order and without loss; buffers, sessions and tombstones are
    bounded; a terminal that is closing takes no input.
  \<^item> The stores stay within their limits, the two maps of the authority store implement one slot per host.
  \<^item> A successful drain leaves no command running, and the process exits only
    after every cleanup stage succeeded.

  \<^bold>\<open>Bounds and fuel.\<close> No definition has fuel. Loops that wait (draining, waiting for a gate) take the list
  of what happens at each wait, and still waiting is \<open>None\<close>. The loop that lists a directory ends only when the
  server says so or the cap is reached: it is a partial function into \<open>option\<close>, and \<open>client_list_returns\<close> shows when
  it returns. The other loops are structural or have a termination proof: eviction (fewer sets each round), trimming of
  the history (fewer jobs each round), reading and streaming (fewer bytes left each round), chunking, decoding.

  \<^bold>\<open>Not modelled.\<close> The SSH and SFTP wire protocols, HTTP, SQLite, the key store and the system calls are I/O or
  library code. Of the domain model, the host form and the snapshot types that only the discovery parsers fill; of
  \<^verbatim>\<open>lifecycle.rs\<close>, the log guard, which drops a library handle; of \<^verbatim>\<open>commands.rs\<close>, the commands that take a permit and
  delegate to one call. The application facade of \<^verbatim>\<open>crates/nexus-core\<close>, the SSH transport, the discovery parsers, the
  repositories, the credential vault and the renderer are left out.
\<close>

end
